(* ===== verification/Prelude.thy ===== *)
theory Prelude
  imports Complex_Main
begin

text \<open>
  Shared ground of the development: the Python values the code keeps in its settings store
  (JSON values), truth testing, equality and conversions as Python defines them, the few
  string operations the components use, exceptions as values, and the generic lemmas on
  association lists that every keyed table shares.

  Clock readings and other floats are \<open>real\<close>: rounding of IEEE doubles is not modelled, nor
  are the values \<open>inf\<close> and \<open>nan\<close>. Strings are lists of characters; \<open>py_lower\<close> and
  \<open>py_strip\<close> work on ASCII letters and blanks, the only ones the modelled tables hold.
\<close>

named_theorems py_simps \<open>evaluation of Python primitives\<close>
named_theorems store_simps \<open>reads after writes of the settings store\<close>

subsection \<open>Python values\<close>

datatype pyval =
    PNone
  | PBool bool
  | PInt int
  | PFloat real
  | PStr string
  | PList "pyval list"
  | PDict "(string \<times> pyval) list"

type_synonym pydict = "(string \<times> pyval) list"

text \<open>\<open>d.get(k)\<close>: the value, or None.\<close>

definition dget :: "pydict \<Rightarrow> string \<Rightarrow> pyval" where
  "dget d k = (case map_of d k of None \<Rightarrow> PNone | Some v \<Rightarrow> v)"

text \<open>\<open>d[k] = v\<close>: an existing key keeps its place, a new one goes last.\<close>

fun dset :: "pydict \<Rightarrow> string \<Rightarrow> pyval \<Rightarrow> pydict" where
  "dset [] k v = [(k, v)]"
| "dset ((k', v') # d) k v = (if k' = k then (k, v) # d else (k', v') # dset d k v)"

fun truthy :: "pyval \<Rightarrow> bool" where
  "truthy PNone = False"
| "truthy (PBool b) = b"
| "truthy (PInt i) = (i \<noteq> 0)"
| "truthy (PFloat r) = (r \<noteq> 0)"
| "truthy (PStr s) = (s \<noteq> [])"
| "truthy (PList xs) = (xs \<noteq> [])"
| "truthy (PDict d) = (d \<noteq> [])"

text \<open>\<open>v == 1\<close>: True, 1 and 1.0 are equal.\<close>

fun eq_one :: "pyval \<Rightarrow> bool" where
  "eq_one (PBool b) = b"
| "eq_one (PInt i) = (i = 1)"
| "eq_one (PFloat r) = (r = 1)"
| "eq_one _ = False"

fun is_dict :: "pyval \<Rightarrow> bool" where
  "is_dict (PDict _) = True"
| "is_dict _ = False"

subsection \<open>Strings\<close>

fun starts_with :: "string \<Rightarrow> string \<Rightarrow> bool" where
  "starts_with [] s = True"
| "starts_with (p # ps) [] = False"
| "starts_with (p # ps) (c # cs) = (p = c \<and> starts_with ps cs)"

definition is_blank :: "char \<Rightarrow> bool" where
  "is_blank c \<longleftrightarrow> c = CHR '' '' \<or> c = CHR 0x09 \<or> c = CHR 0x0A \<or> c = CHR 0x0D
     \<or> c = CHR 0x0B \<or> c = CHR 0x0C"

definition py_strip :: "string \<Rightarrow> string" where
  "py_strip s = rev (dropWhile is_blank (rev (dropWhile is_blank s)))"

definition lower_char :: "char \<Rightarrow> char" where
  "lower_char c = (let n = of_char c :: nat in
     if 65 \<le> n \<and> n \<le> 90 then char_of (n + 32) else c)"

definition py_lower :: "string \<Rightarrow> string" where
  "py_lower = map lower_char"

definition is_digit :: "char \<Rightarrow> bool" where
  "is_digit c \<longleftrightarrow> (let n = of_char c :: nat in 48 \<le> n \<and> n \<le> 57)"

text \<open>\<open>s.isdigit()\<close> is False on the empty string.\<close>

definition py_isdigit :: "string \<Rightarrow> bool" where
  "py_isdigit s \<longleftrightarrow> s \<noteq> [] \<and> list_all is_digit s"

definition digits_nat :: "string \<Rightarrow> nat" where
  "digits_nat s = foldl (\<lambda>a c. 10 * a + (of_char c - 48)) 0 s"

text \<open>\<open>s.split(c)\<close>: never the empty list.\<close>

fun split_char :: "char \<Rightarrow> string \<Rightarrow> string list" where
  "split_char c [] = [[]]"
| "split_char c (x # xs) =
     (if x = c then [] # split_char c xs
      else (case split_char c xs of [] \<Rightarrow> [[x]] | p # ps \<Rightarrow> (x # p) # ps))"

text \<open>\<open>s.split()\<close>: the words between blanks.\<close>

fun words :: "string \<Rightarrow> string list" where
  "words [] = []"
| "words (c # cs) =
     (if is_blank c then words cs
      else case cs of
        [] \<Rightarrow> [[c]]
      | d # _ \<Rightarrow> if is_blank d then [c] # words cs
                 else (case words cs of [] \<Rightarrow> [[c]] | w # ws \<Rightarrow> (c # w) # ws))"

subsection \<open>Conversions\<close>

text \<open>
  \<open>float(s)\<close> on a string: an optional sign, digits with an optional fraction. The
  exponent and the \<open>inf\<close> and \<open>nan\<close> spellings count as unreadable; the components
  write numbers, never such strings.
\<close>

definition parse_unsigned :: "string \<Rightarrow> real option" where
  "parse_unsigned s =
     (case split_char (CHR ''.'') s of
        [i] \<Rightarrow> if py_isdigit i then Some (real (digits_nat i)) else None
      | [i, f] \<Rightarrow>
          if list_all is_digit i \<and> list_all is_digit f \<and> i @ f \<noteq> []
          then Some (real (digits_nat i) + real (digits_nat f) / 10 ^ length f) else None
      | _ \<Rightarrow> None)"

definition parse_float :: "string \<Rightarrow> real option" where
  "parse_float s =
     (case py_strip s of
        [] \<Rightarrow> None
      | c # cs \<Rightarrow>
          if c = CHR ''-'' then map_option uminus (parse_unsigned cs)
          else if c = CHR ''+'' then parse_unsigned cs
          else parse_unsigned (c # cs))"

text \<open>\<open>float(v)\<close>: None stands for the TypeError or ValueError it raises.\<close>

fun py_float :: "pyval \<Rightarrow> real option" where
  "py_float PNone = None"
| "py_float (PBool b) = Some (if b then 1 else 0)"
| "py_float (PInt i) = Some (of_int i)"
| "py_float (PFloat r) = Some r"
| "py_float (PStr s) = parse_float s"
| "py_float (PList _) = None"
| "py_float (PDict _) = None"

text \<open>\<open>int(x)\<close> of a float truncates toward zero.\<close>

definition trunc :: "real \<Rightarrow> int" where
  "trunc x = (if 0 \<le> x then \<lfloor>x\<rfloor> else \<lceil>x\<rceil>)"

text \<open>\<open>int(v)\<close> of a stored value; a string is an optional sign and digits.\<close>

definition parse_int :: "string \<Rightarrow> int option" where
  "parse_int s =
     (case py_strip s of
        [] \<Rightarrow> None
      | c # cs \<Rightarrow>
          if c = CHR ''-'' then (if py_isdigit cs then Some (- int (digits_nat cs)) else None)
          else if c = CHR ''+'' then (if py_isdigit cs then Some (int (digits_nat cs)) else None)
          else if py_isdigit (c # cs) then Some (int (digits_nat (c # cs))) else None)"

fun py_int :: "pyval \<Rightarrow> int option" where
  "py_int (PBool b) = Some (if b then 1 else 0)"
| "py_int (PInt i) = Some i"
| "py_int (PFloat r) = Some (trunc r)"
| "py_int (PStr s) = parse_int s"
| "py_int _ = None"

text \<open>\<open>str(n)\<close> of a non-negative integer.\<close>

fun nat_str :: "nat \<Rightarrow> string" where
  "nat_str n = (if n < 10 then [char_of (48 + n)] else nat_str (n div 10) @ [char_of (48 + n mod 10)])"

declare nat_str.simps [simp del]

text \<open>\<open>round(x, 1)\<close>: to the nearest tenth, a tie to the even tenth.\<close>

definition round_tenth :: "real \<Rightarrow> real" where
  "round_tenth x =
     (let y = 10 * x; f = \<lfloor>y\<rfloor>; d = y - of_int f
      in of_int (if d < 1 / 2 then f else if 1 / 2 < d then f + 1
                 else if even f then f else f + 1) / 10)"

subsection \<open>Texts the code builds\<close>

definition int_str :: "int \<Rightarrow> string" where
  "int_str i = (if i < 0 then ''-'' @ nat_str (nat (- i)) else nat_str (nat i))"

fun contains :: "string \<Rightarrow> string \<Rightarrow> bool" where
  "contains p [] = (p = [])"
| "contains p (c # cs) = (starts_with p (c # cs) \<or> contains p cs)"

fun join_with :: "string \<Rightarrow> string list \<Rightarrow> string" where
  "join_with sep [] = []"
| "join_with sep [x] = x"
| "join_with sep (x # y # xs) = x @ sep @ join_with sep (y # xs)"

text \<open>\<open>repr\<close> of a string of printable ASCII characters, and of a list of them.\<close>

definition repr_char :: "char \<Rightarrow> char \<Rightarrow> string" where
  "repr_char quote c =
     (if c = quote \<or> c = CHR 0x5C then [CHR 0x5C, c]
      else if c = CHR 0x0A then [CHR 0x5C, CHR ''n''] else if c = CHR 0x0D then [CHR 0x5C, CHR ''r'']
      else if c = CHR 0x09 then [CHR 0x5C, CHR ''t''] else [c])"

definition repr_str :: "string \<Rightarrow> string" where
  "repr_str s =
     (let quote = (if CHR 0x27 \<in> set s \<and> CHR 0x22 \<notin> set s then CHR 0x22 else CHR 0x27)
      in quote # concat (map (repr_char quote) s) @ [quote])"

definition repr_list :: "string list \<Rightarrow> string" where
  "repr_list xs = ''['' @ join_with '', '' (map repr_str xs) @ '']''"

subsection \<open>Exceptions\<close>

datatype exn =
    StoreUnreadable
  | WriteRefused
  | RevisionConflict
  | YoloDisabledError string
  | ValueError string
  | NameError string
  | OtherError string

subsection \<open>Lemmas on values, strings and association lists\<close>

lemma dget_Nil [simp, py_simps]: "dget [] k = PNone"
  by (simp add: dget_def)

lemma dget_Cons [simp, py_simps]: "dget ((k', v) # d) k = (if k' = k then v else dget d k)"
  by (simp add: dget_def)

lemma dget_dset [simp]: "dget (dset d k v) k' = (if k' = k then v else dget d k')"
  by (induction d) auto

lemma starts_with_append [simp]: "starts_with p (p @ s)"
  by (induction p) auto

lemma starts_with_iff: "starts_with p s \<longleftrightarrow> (\<exists>t. s = p @ t)"
  by (induction p s rule: starts_with.induct) auto

definition is_word_text :: "string \<Rightarrow> bool" where
  "is_word_text w \<longleftrightarrow> w \<noteq> [] \<and> list_all (\<lambda>c. \<not> is_blank c) w"

lemma words_word:
  "is_word_text w \<Longrightarrow> words w = [w] \<and> words (w @ CHR '' '' # s) = w # words s"
proof (induction w)
  case (Cons c w)
  have b: "is_blank (CHR '' '')" by (simp add: is_blank_def)
  show ?case
  proof (cases w)
    case Nil
    then show ?thesis using Cons.prems b by (simp add: is_word_text_def)
  next
    case (Cons d v)
    then have "is_word_text w" "\<not> is_blank c" "\<not> is_blank d" using Cons.prems by (simp_all add: is_word_text_def)
    then show ?thesis using Cons.IH Cons by simp
  qed
qed (simp add: is_word_text_def)

lemma words_join: "list_all is_word_text ws \<Longrightarrow> words (join_with '' '' ws) = ws"
proof (induction ws)
  case (Cons w ws)
  then show ?case by (cases ws) (simp_all add: words_word)
qed simp

lemma split_char_not_Nil [simp]: "split_char c s \<noteq> []"
  by (induction s) (auto split: list.splits)

lemma map_of_filter_key:
  "map_of (filter (\<lambda>(k', _). k' \<noteq> k) xs) k'' = (if k'' = k then None else map_of xs k'')"
  by (induction xs) auto

lemma map_of_snoc:
  "map_of (xs @ [(k, v)]) k' = (case map_of xs k' of None \<Rightarrow> if k' = k then Some v else None
                                 | Some w \<Rightarrow> Some w)"
  by (induction xs) auto

text \<open>A row of a table is found by its key.\<close>

lemma find_SomeD: "find P xs = Some x \<Longrightarrow> x \<in> set xs \<and> P x"
  by (auto simp: find_Some_iff)

lemma find_by_key:
  "distinct (map key xs) \<Longrightarrow> x \<in> set xs \<Longrightarrow> P x \<Longrightarrow> find (\<lambda>e. key e = key x \<and> P e) xs = Some x"
  by (induction xs) (auto dest: rev_image_eqI)

lemma find_only_key:
  "distinct (map key xs) \<Longrightarrow> x \<in> set xs \<Longrightarrow> \<not> P x \<Longrightarrow> find (\<lambda>e. key e = key x \<and> P e) xs = None"
  unfolding find_None_iff distinct_map by (metis inj_onD)

lemma find_of_filter: "filter P xs = x # ys \<Longrightarrow> find P xs = Some x"
  by (induction xs) (auto split: if_splits)

lemma filter_by_key:
  "distinct (map key xs) \<Longrightarrow> x \<in> set xs \<Longrightarrow> filter (\<lambda>e. key e = key x) xs = [x]"
proof (induction xs)
  case (Cons a xs)
  show ?case
  proof (cases "a = x")
    case True
    then have "\<forall>e \<in> set xs. key e \<noteq> key x" using Cons.prems(1) by (metis distinct.simps(2) image_eqI list.simps(9) set_map)
    then show ?thesis using True by (simp add: filter_empty_conv)
  next
    case False
    then have "x \<in> set xs" "key a \<noteq> key x" using Cons.prems by auto
    then show ?thesis using Cons by simp
  qed
qed simp

text \<open>Evaluating a lookup in a table of string literals, without the whole simpset.\<close>

lemmas str_eval = list.inject list.distinct char.inject if_False if_True refl simp_thms
  map_of_Cons_code option.case

lemma py_float_None_not_num: "py_float PNone = None"
  by simp

lemma trunc_mono: "x \<le> y \<Longrightarrow> trunc x \<le> trunc y"
  by (auto simp: trunc_def floor_mono ceiling_mono intro: order_trans)
     (metis ceiling_le_zero floor_less_zero le_floor_iff less_imp_le linorder_not_less of_int_0
        order_trans zero_le_floor)

end
