(* ===== verification/Interfaces.thy ===== *)
theory Interfaces
  imports Prelude
begin

text \<open>
  The interfaces between components, as locales. Each is interpreted, in the theory of the
  component that provides it, on that component's own definitions.
\<close>

subsection \<open>A keyed table\<close>

text \<open>
  What the clients of the settings store rely on: a write is read back, and it changes no
  other key; a delete empties its key alone.
\<close>

locale keyed_table =
  fixes row :: "'s \<Rightarrow> 'k \<Rightarrow> 'v option"
    and put :: "'k \<Rightarrow> 'v \<Rightarrow> 's \<Rightarrow> 's"
    and drop_key :: "'k \<Rightarrow> 's \<Rightarrow> 's"
  assumes row_put: "row (put k v s) k' = (if k' = k then Some v else row s k')"
    and row_drop: "row (drop_key k s) k' = (if k' = k then None else row s k')"
begin

lemma row_put_other: "k' \<noteq> k \<Longrightarrow> row (put k v s) k' = row s k'"
  by (simp add: row_put)

lemma row_put_twice: "row (put k v' (put k v s)) k' = row (put k v' s) k'"
  by (simp add: row_put)

lemma row_drop_put: "row (drop_key k (put k v s)) k' = row (drop_key k s) k'"
  by (simp add: row_put row_drop)

text \<open>A sequence of writes: a key none of them names keeps its row, and the last write wins.\<close>

lemma row_puts_other:
  "k \<notin> fst ` set kvs \<Longrightarrow> row (foldl (\<lambda>s (k, v). put k v s) s kvs) k = row s k"
  by (induction kvs arbitrary: s) (auto simp: row_put)

lemma row_puts_last:
  "k \<notin> fst ` set rest \<Longrightarrow>
     row (foldl (\<lambda>s (k, v). put k v s) s (pre @ (k, v) # rest)) k = Some v"
  by (simp add: row_puts_other row_put)

lemma row_puts_distinct:
  assumes "distinct (map fst kvs)" and "(k, v) \<in> set kvs"
  shows "row (foldl (\<lambda>s (k, v). put k v s) s kvs) k = Some v"
proof -
  from assms(2) obtain pre rest where kvs: "kvs = pre @ (k, v) # rest"
    by (auto simp: in_set_conv_decomp)
  with assms(1) have "k \<notin> fst ` set rest" by auto
  then show ?thesis unfolding kvs by (rule row_puts_last)
qed

end

subsection \<open>A machine with an invariant\<close>

text \<open>Every component that is a state and a set of operations on it.\<close>

locale invariant_machine =
  fixes step :: "'s \<Rightarrow> 'e \<Rightarrow> 's"
    and inv :: "'s \<Rightarrow> bool"
  assumes step_inv: "inv s \<Longrightarrow> inv (step s e)"
begin

lemma run_inv: "inv s \<Longrightarrow> inv (foldl step s es)"
  by (induction es arbitrary: s) (auto simp: step_inv)

end

text \<open>A quantity no operation of such a machine lowers.\<close>

locale monotone_machine = invariant_machine +
  fixes measure_of :: "'s \<Rightarrow> 'm::preorder"
  assumes step_mono: "inv s \<Longrightarrow> measure_of s \<le> measure_of (step s e)"
begin

lemma run_mono: "inv s \<Longrightarrow> measure_of s \<le> measure_of (foldl step s es)"
proof (induction es arbitrary: s)
  case Nil
  show ?case by simp
next
  case (Cons e es)
  have "measure_of s \<le> measure_of (step s e)"
    using Cons.prems by (rule step_mono)
  also have "\<dots> \<le> measure_of (foldl step (step s e) es)"
    using Cons by (simp add: step_inv)
  finally show ?case by simp
qed

end

subsection \<open>A standing approval\<close>

text \<open>
  What the approval rule relies on in each of its three providers (a YOLO window, a task
  grant, a tool grant): asking may clean up an ended record, but that never changes a later
  answer; and time alone never brings an ended approval back.
\<close>

locale timed_approval =
  fixes live :: "real \<Rightarrow> 's \<Rightarrow> bool"
    and check :: "real \<Rightarrow> 's \<Rightarrow> 's"
    and wf :: "'s \<Rightarrow> bool"
  assumes check_keeps: "wf s \<Longrightarrow> t \<le> t' \<Longrightarrow> live t' (check t s) = live t' s"
    and check_wf: "wf s \<Longrightarrow> wf (check t s)"
    and ends_for_good: "wf s \<Longrightarrow> t \<le> t' \<Longrightarrow> live t' s \<Longrightarrow> live t s"
begin

fun answers :: "'s \<Rightarrow> real list \<Rightarrow> bool list" where
  "answers s [] = []"
| "answers s (t # ts) = live t s # answers (check t s) ts"

text \<open>However often it was asked before, an answer is the one the record gives at that time.\<close>

lemma answers_eq: "wf s \<Longrightarrow> sorted ts \<Longrightarrow> answers s ts = map (\<lambda>t. live t s) ts"
proof (induction ts arbitrary: s)
  case Nil
  show ?case by simp
next
  case (Cons t ts)
  have "answers (check t s) ts = map (\<lambda>t'. live t' (check t s)) ts"
    using Cons by (simp add: check_wf)
  also have "\<dots> = map (\<lambda>t'. live t' s) ts"
    using Cons.prems by (auto simp: check_keeps)
  finally show ?case by simp
qed

lemma no_revival:
  assumes "wf s" "sorted (t # ts)" "\<not> live t s"
  shows "set (answers s (t # ts)) = {False}"
proof -
  have "\<forall>t' \<in> set ts. \<not> live t' s"
    using assms ends_for_good by auto
  then show ?thesis using assms by (auto simp only: answers_eq) auto
qed

end

subsection \<open>A series of instants\<close>

text \<open>What a scheduler relies on of a next-occurrence function: the next one is later.\<close>

fun fires_of :: "(real \<Rightarrow> real option) \<Rightarrow> nat \<Rightarrow> real \<Rightarrow> real list" where
  "fires_of nxt 0 t = []"
| "fires_of nxt (Suc n) t = (case nxt t of None \<Rightarrow> [] | Some u \<Rightarrow> u # fires_of nxt n u)"

locale series =
  fixes nxt :: "real \<Rightarrow> real option"
  assumes nxt_later: "nxt t = Some u \<Longrightarrow> t < u"
begin

lemma fires_sorted: "sorted_wrt (<) (t # fires_of nxt n t)"
proof (induction n arbitrary: t)
  case (Suc n)
  show ?case
  proof (cases "nxt t")
    case (Some u)
    then show ?thesis using Suc[of u] nxt_later[OF Some] by (auto intro: less_trans)
  qed simp
qed simp

lemma fires_later: "u \<in> set (fires_of nxt n t) \<Longrightarrow> t < u"
  using fires_sorted[of t n] by auto

lemma fires_distinct: "distinct (fires_of nxt n t)"
  using fires_sorted[of t n] strict_sorted_iff by auto

lemma fires_are_nxt: "u \<in> set (fires_of nxt n t) \<Longrightarrow> \<exists>v. nxt v = Some u"
  by (induction n arbitrary: t) (auto split: option.splits)

end

end
