(* ===== verification/ConfigStore.thy ===== *)
theory ConfigStore
  imports Interfaces "HOL-Library.List_Lexorder" "HOL-Library.Char_ord"
    "HOL-Library.Product_Lexorder"
begin

text \<open>
  The settings store (kazma_core/config_store.py, class \<open>ConfigStore\<close>) on its SQLite backend:
  the rows of table \<open>settings\<close> in rowid order, the YAML defaults \<open>get\<close> falls back to, and two
  flags that say whether a statement can be read or written at the moment (an outage; a read-only
  diagnostic, whose scope refuses every write). An operation whose statement fails raises, as
  an \<open>Inl\<close> value.

  Every key here is one whose value the storage step keeps as it is: the moving of secret-class
  values to the vault (\<open>_prepare_value_for_storage\<close>, \<open>_resolve_vault_value\<close>) and the read cache
  are not modelled. \<open>updated_at\<close> is the clock reading of the write.
\<close>

subsection \<open>Rows and the read path\<close>

record srow =
  rkey :: string
  rval :: pyval
  rcat :: string
  rupd :: real

record cstore =
  rows :: "srow list"
  yaml :: pyval
  can_read :: bool
  can_write :: bool

definition find_row :: "cstore \<Rightarrow> string \<Rightarrow> srow option" where
  "find_row cs k = find (\<lambda>r. rkey r = k) (rows cs)"

text \<open>
  SQLite's \<open>LIKE\<close>: \<open>%\<close> is any string, \<open>_\<close> any one character, and ASCII letters match in
  either case.
\<close>

fun sql_like :: "string \<Rightarrow> string \<Rightarrow> bool" where
  "sql_like [] t = (t = [])"
| "sql_like (p # ps) [] = (p = CHR ''%'' \<and> sql_like ps [])"
| "sql_like (p # ps) (c # cs) =
     (if p = CHR ''%'' then sql_like ps (c # cs) \<or> sql_like (p # ps) cs
      else (p = CHR ''_'' \<or> lower_char p = lower_char c) \<and> sql_like ps cs)"

definition below :: "string \<Rightarrow> string \<Rightarrow> bool" where
  "below prefix k \<longleftrightarrow> sql_like (prefix @ ''.%'') k"

text \<open>The walk of \<open>_collect_prefixed\<close> that puts one row's value into the nested dict.\<close>

fun put_path :: "pydict \<Rightarrow> string list \<Rightarrow> pyval \<Rightarrow> pydict" where
  "put_path d [] v = d"
| "put_path d [p] v = dset d p v"
| "put_path d (p # q # ps) v =
     dset d p (PDict (put_path (case dget d p of PDict d' \<Rightarrow> d' | _ \<Rightarrow> []) (q # ps) v))"

definition collect_prefixed :: "srow list \<Rightarrow> string \<Rightarrow> pydict" where
  "collect_prefixed rs prefix =
     foldl (\<lambda>d r. put_path d (split_char (CHR ''.'') (drop (length prefix + 1) (rkey r))) (rval r))
       [] (filter (\<lambda>r. below prefix (rkey r)) rs)"

fun yaml_lookup :: "pyval \<Rightarrow> string list \<Rightarrow> pyval" where
  "yaml_lookup v [] = v"
| "yaml_lookup (PDict d) (p # ps) = yaml_lookup (dget d p) ps"
| "yaml_lookup _ (p # ps) = PNone"

definition cs_get :: "cstore \<Rightarrow> string \<Rightarrow> exn + pyval" where
  "cs_get cs k =
     (if \<not> can_read cs then Inl StoreUnreadable
      else case find_row cs k of
        Some r \<Rightarrow> Inr (rval r)
      | None \<Rightarrow>
          let m = collect_prefixed (rows cs) k
          in if m \<noteq> [] then Inr (PDict m)
             else Inr (yaml_lookup (yaml cs) (split_char (CHR ''.'') k)))"

subsection \<open>The write path\<close>

text \<open>\<open>INSERT OR REPLACE\<close>: the row of that key goes, the new one is last.\<close>

definition put_row :: "real \<Rightarrow> string \<Rightarrow> pyval \<Rightarrow> string \<Rightarrow> cstore \<Rightarrow> cstore" where
  "put_row now k v cat cs =
     cs\<lparr>rows := filter (\<lambda>r. rkey r \<noteq> k) (rows cs)
               @ [\<lparr>rkey = k, rval = v, rcat = cat, rupd = now\<rparr>]\<rparr>"

text \<open>Setting None is a no-op.\<close>

definition cs_set :: "real \<Rightarrow> cstore \<Rightarrow> string \<Rightarrow> pyval \<Rightarrow> string \<Rightarrow> exn + cstore" where
  "cs_set now cs k v cat =
     (if \<not> can_write cs then Inl WriteRefused
      else if v = PNone then Inr cs
      else Inr (put_row now k v cat cs))"

definition cs_delete :: "cstore \<Rightarrow> string \<Rightarrow> exn + (bool \<times> cstore)" where
  "cs_delete cs k =
     (if \<not> can_write cs then Inl WriteRefused
      else Inr (find_row cs k \<noteq> None, cs\<lparr>rows := filter (\<lambda>r. rkey r \<noteq> k) (rows cs)\<rparr>))"

text \<open>
  \<open>set_if_absent\<close>: take the key when it is free, or when what holds it is over: a dict with
  no holder or past its \<open>expires_at\<close>, any other value older than \<open>ttl\<close>. Inside, the test
  whether the present value is over; it raises on an unreadable \<open>expires_at\<close>.
\<close>

definition lease_over :: "real \<Rightarrow> real option \<Rightarrow> srow \<Rightarrow> exn + bool" where
  "lease_over now ttl r =
     (case rval r of
        PDict d \<Rightarrow>
          (case (if truthy (dget d ''expires_at'') then py_float (dget d ''expires_at'') else Some 0) of
             None \<Rightarrow> Inl (ValueError ''could not convert to float'')
           | Some e \<Rightarrow> Inr (e \<le> now \<or> \<not> truthy (dget d ''holder'')))
      | _ \<Rightarrow> (case ttl of None \<Rightarrow> Inr False | Some t \<Rightarrow> Inr (t \<le> now - rupd r)))"

definition lease_value :: "real \<Rightarrow> real option \<Rightarrow> pyval \<Rightarrow> pyval" where
  "lease_value now ttl v =
     (case (v, ttl) of
        (PDict d, Some t) \<Rightarrow>
          if map_of d ''expires_at'' = None then PDict (dset d ''expires_at'' (PFloat (now + t))) else v
      | _ \<Rightarrow> v)"

definition cs_set_if_absent ::
    "real \<Rightarrow> cstore \<Rightarrow> string \<Rightarrow> pyval \<Rightarrow> real option \<Rightarrow> string \<Rightarrow> exn + (bool \<times> cstore)" where
  "cs_set_if_absent now cs k v ttl cat =
     (if \<not> can_write cs then Inl WriteRefused
      else if v = PNone then Inr (False, cs)
      else case find_row cs k of
        None \<Rightarrow> Inr (True, put_row now k (lease_value now ttl v) cat cs)
      | Some r \<Rightarrow>
          (case lease_over now ttl r of
             Inl e \<Rightarrow> Inl e
           | Inr over \<Rightarrow>
               if over then Inr (True, put_row now k (lease_value now ttl v) cat cs)
               else Inr (False, cs)))"

definition cs_atomic_update ::
    "real \<Rightarrow> cstore \<Rightarrow> string \<Rightarrow> (pyval \<Rightarrow> pyval) \<Rightarrow> string \<Rightarrow> exn + (pyval \<times> cstore)" where
  "cs_atomic_update now cs k f cat =
     (if \<not> can_write cs then Inl WriteRefused
      else let curr = (case find_row cs k of None \<Rightarrow> PNone | Some r \<Rightarrow> rval r);
               new_val = f curr
           in Inr (new_val, put_row now k new_val cat cs))"

subsection \<open>Listing\<close>

definition cs_get_category :: "cstore \<Rightarrow> string \<Rightarrow> exn + pydict" where
  "cs_get_category cs cat =
     (if \<not> can_read cs then Inl StoreUnreadable
      else Inr (map (\<lambda>r. (rkey r, rval r)) (filter (\<lambda>r. rcat r = cat) (rows cs))))"

text \<open>\<open>get_all\<close>: the rows by category, then key; one dict for each category.\<close>

definition cs_get_all :: "cstore \<Rightarrow> exn + (string \<times> pydict) list" where
  "cs_get_all cs =
     (if \<not> can_read cs then Inl StoreUnreadable
      else let rs = sort_key (\<lambda>r. (rcat r, rkey r)) (rows cs)
           in Inr (map (\<lambda>c. (c, map (\<lambda>r. (rkey r, rval r)) (filter (\<lambda>r. rcat r = c) rs)))
                     (remdups_adj (map rcat rs))))"

subsection \<open>Batches and import\<close>

text \<open>
  \<open>batch_set\<close>: one transaction. With \<open>expected = (k, n)\<close> it is conditional: the batch must set
  \<open>k\<close> to \<open>n + 1\<close>, and the stored revision (0 when there is none) must be \<open>n\<close>, else nothing is
  written.
\<close>

type_synonym item = "string \<times> pyval \<times> string"

definition put_items :: "real \<Rightarrow> item list \<Rightarrow> cstore \<Rightarrow> cstore" where
  "put_items now items cs = foldl (\<lambda>cs (k, v, cat). put_row now k v cat cs) cs items"

definition advances :: "item list \<Rightarrow> string \<Rightarrow> int \<Rightarrow> bool" where
  "advances items rk n \<longleftrightarrow> 0 \<le> n \<and> list_ex (\<lambda>(k, v, _). k = rk \<and> v = PInt (n + 1)) items"

definition stored_revision :: "cstore \<Rightarrow> string \<Rightarrow> pyval" where
  "stored_revision cs rk = (case find_row cs rk of None \<Rightarrow> PInt 0 | Some r \<Rightarrow> rval r)"

definition cs_batch_set ::
    "real \<Rightarrow> cstore \<Rightarrow> item list \<Rightarrow> (string \<times> int) option \<Rightarrow> exn + (nat \<times> cstore)" where
  "cs_batch_set now cs items expected =
     (if items = [] then Inr (0, cs)
      else if \<not> can_write cs then Inl WriteRefused
      else let prepared = filter (\<lambda>(_, v, _). v \<noteq> PNone) items in
        if prepared = [] then Inr (0, cs)
        else case expected of
          None \<Rightarrow> Inr (length prepared, put_items now prepared cs)
        | Some (rk, n) \<Rightarrow>
            if \<not> advances prepared rk n
            then Inl (ValueError ''A conditional batch must advance its nonnegative integer revision.'')
            else if stored_revision cs rk \<noteq> PInt n then Inl RevisionConflict
            else Inr (length prepared, put_items now prepared cs))"

text \<open>\<open>import_yaml\<close>: nested dicts become dotted keys; the category is the first segment.\<close>

fun flatten_dict :: "string \<Rightarrow> pydict \<Rightarrow> item list" where
  "flatten_dict prefix [] = []"
| "flatten_dict prefix ((k, v) # d) =
     (let full = (if prefix = [] then k else prefix @ ''.'' @ k) in
      (case v of
         PDict d' \<Rightarrow> flatten_dict full d'
       | _ \<Rightarrow> [(full, v, if prefix = [] then ''general'' else hd (split_char (CHR ''.'') prefix))])
      @ flatten_dict prefix d)"

definition cs_import_yaml :: "real \<Rightarrow> cstore \<Rightarrow> pyval \<Rightarrow> exn + (nat \<times> cstore)" where
  "cs_import_yaml now cs data =
     (case data of
        PDict d \<Rightarrow> cs_batch_set now cs (flatten_dict [] d) None
      | _ \<Rightarrow> Inr (0, cs))"

definition cs_reset_all :: "cstore \<Rightarrow> exn + (nat \<times> cstore)" where
  "cs_reset_all cs =
     (if \<not> can_write cs then Inl WriteRefused
      else Inr (length (rows cs), cs\<lparr>rows := []\<rparr>))"

subsection \<open>Reads after writes\<close>

definition store_wf :: "cstore \<Rightarrow> bool" where
  "store_wf cs \<longleftrightarrow> distinct (map rkey (rows cs))"

lemma find_snoc: "find P (xs @ [x]) = (case find P xs of None \<Rightarrow> if P x then Some x else None
                                         | Some y \<Rightarrow> Some y)"
  by (induction xs) auto

lemma find_filter_key:
  "find (\<lambda>r. rkey r = k') (filter (\<lambda>r. rkey r \<noteq> k) xs)
     = (if k' = k then None else find (\<lambda>r. rkey r = k') xs)"
  by (induction xs) auto

lemma find_row_put [simp, store_simps]:
  "find_row (put_row now k v cat cs) k' =
     (if k' = k then Some \<lparr>rkey = k, rval = v, rcat = cat, rupd = now\<rparr> else find_row cs k')"
  by (auto simp: find_row_def put_row_def find_snoc find_filter_key split: option.splits)

lemma put_row_flags [simp, store_simps]:
  "can_read (put_row now k v cat cs) = can_read cs"
  "can_write (put_row now k v cat cs) = can_write cs"
  "yaml (put_row now k v cat cs) = yaml cs"
  by (simp_all add: put_row_def)

lemma find_row_SomeD: "find_row cs k = Some r \<Longrightarrow> rkey r = k \<and> r \<in> set (rows cs)"
  by (auto simp: find_row_def find_Some_iff)

lemma cs_set_Inr:
  "cs_set now cs k v cat = Inr cs' \<Longrightarrow> v \<noteq> PNone \<Longrightarrow> cs' = put_row now k v cat cs"
  by (auto simp: cs_set_def split: if_splits)

lemma cs_get_row: "can_read cs \<Longrightarrow> find_row cs k = Some r \<Longrightarrow> cs_get cs k = Inr (rval r)"
  by (simp add: cs_get_def)

lemma cs_get_put_same [simp]:
  "cs_get (put_row now k v cat cs) k = (if can_read cs then Inr v else Inl StoreUnreadable)"
  by (simp add: cs_get_def)

lemma filter_below_other:
  "\<not> below k' k \<Longrightarrow>
     filter (\<lambda>r. rkey r \<noteq> k \<and> below k' (rkey r)) rs = filter (\<lambda>r. below k' (rkey r)) rs"
  by (rule filter_cong) auto

lemma collect_put_other:
  "\<not> below k' k \<Longrightarrow> collect_prefixed (rows (put_row now k v cat cs)) k' = collect_prefixed (rows cs) k'"
  by (simp add: collect_prefixed_def put_row_def filter_below_other)

lemma collect_delete_other:
  "\<not> below k' k \<Longrightarrow>
     collect_prefixed (filter (\<lambda>r. rkey r \<noteq> k) rs) k' = collect_prefixed rs k'"
  by (simp add: collect_prefixed_def filter_below_other)

lemma cs_get_put_other:
  "k' \<noteq> k \<Longrightarrow> \<not> below k' k \<Longrightarrow> cs_get (put_row now k v cat cs) k' = cs_get cs k'"
  by (simp add: cs_get_def collect_put_other Let_def split: option.splits)

definition drop_row :: "string \<Rightarrow> cstore \<Rightarrow> cstore" where
  "drop_row k cs = cs\<lparr>rows := filter (\<lambda>r. rkey r \<noteq> k) (rows cs)\<rparr>"

lemma find_row_drop [simp, store_simps]:
  "find_row (drop_row k cs) k' = (if k' = k then None else find_row cs k')"
  by (auto simp: find_row_def drop_row_def find_filter_key)

lemma drop_row_flags [simp, store_simps]:
  "can_read (drop_row k cs) = can_read cs"
  "can_write (drop_row k cs) = can_write cs"
  "yaml (drop_row k cs) = yaml cs"
  by (simp_all add: drop_row_def)

lemma cs_get_drop_other:
  "k' \<noteq> k \<Longrightarrow> \<not> below k' k \<Longrightarrow> cs_get (drop_row k cs) k' = cs_get cs k'"
  by (simp add: cs_get_def drop_row_def collect_delete_other find_row_def find_filter_key Let_def
      split: option.splits)

lemma cs_delete_eq:
  "cs_delete cs k = (if can_write cs then Inr (find_row cs k \<noteq> None, drop_row k cs) else Inl WriteRefused)"
  by (simp add: cs_delete_def drop_row_def)

lemma cs_get_flags: "can_read cs \<Longrightarrow> \<exists>v. cs_get cs k = Inr v"
  by (auto simp: cs_get_def Let_def split: option.splits)

lemma cs_get_unreadable: "\<not> can_read cs \<Longrightarrow> cs_get cs k = Inl StoreUnreadable"
  by (simp add: cs_get_def)

subsection \<open>Well-formedness: one row for a key\<close>

lemma distinct_map_filter_key: "distinct (map f xs) \<Longrightarrow> distinct (map f (filter P xs))"
  by (induction xs) auto

lemma store_wf_put: "store_wf cs \<Longrightarrow> store_wf (put_row now k v cat cs)"
  by (auto simp: store_wf_def put_row_def distinct_map_filter_key)

lemma store_wf_drop: "store_wf cs \<Longrightarrow> store_wf (drop_row k cs)"
  by (simp add: store_wf_def drop_row_def distinct_map_filter_key)

lemma store_wf_put_items: "store_wf cs \<Longrightarrow> store_wf (put_items now items cs)"
  by (induction items arbitrary: cs) (auto simp: put_items_def store_wf_put)

lemma put_items_flags [simp]:
  "can_read (put_items now items cs) = can_read cs"
  "can_write (put_items now items cs) = can_write cs"
  by (induction items arbitrary: cs) (auto simp: put_items_def)

subsection \<open>The store as a keyed table and as a machine\<close>

definition row_of :: "cstore \<Rightarrow> string \<Rightarrow> (real \<times> pyval \<times> string) option" where
  "row_of cs k = map_option (\<lambda>r. (rupd r, rval r, rcat r)) (find_row cs k)"

definition write_row :: "string \<Rightarrow> real \<times> pyval \<times> string \<Rightarrow> cstore \<Rightarrow> cstore" where
  "write_row k x cs = (case x of (now, v, cat) \<Rightarrow> put_row now k v cat cs)"

interpretation store: keyed_table row_of write_row drop_row
  by unfold_locales (auto simp: row_of_def write_row_def split: prod.splits)

lemma row_of_SomeD: "row_of cs k = Some (t, v, c) \<Longrightarrow> \<exists>r. find_row cs k = Some r \<and> rval r = v"
  by (auto simp: row_of_def)

lemma put_items_writes:
  "put_items now items cs = foldl (\<lambda>s (k, x). write_row k x s) cs (map (\<lambda>(k, v, c). (k, now, v, c)) items)"
  by (induction items arbitrary: cs) (auto simp: put_items_def write_row_def)

lemma find_row_put_items:
  assumes "distinct (map fst items)" and "(k, v, c) \<in> set items"
  shows "\<exists>r. find_row (put_items now items cs) k = Some r \<and> rval r = v"
proof -
  let ?w = "map (\<lambda>(k, v, c). (k, now, v, c)) items"
  have "map fst ?w = map fst items" by (induction items) auto
  with assms(1) have "distinct (map fst ?w)" by (simp only:)
  moreover have "(k, now, v, c) \<in> set ?w" using assms(2) by force
  ultimately have "row_of (put_items now items cs) k = Some (now, v, c)"
    unfolding put_items_writes by (rule store.row_puts_distinct)
  then show ?thesis by (rule row_of_SomeD)
qed

datatype store_op =
    OpSet real string pyval string
  | OpDelete string
  | OpSetIfAbsent real string pyval "real option" string
  | OpAtomicUpdate real string "pyval \<Rightarrow> pyval" string
  | OpBatch real "item list" "(string \<times> int) option"
  | OpImport real pyval
  | OpReset

text \<open>A call that raises leaves the rows as they were (\<open>ROLLBACK\<close>).\<close>

fun store_step :: "cstore \<Rightarrow> store_op \<Rightarrow> cstore" where
  "store_step cs (OpSet now k v cat) = (case cs_set now cs k v cat of Inl e \<Rightarrow> cs | Inr cs' \<Rightarrow> cs')"
| "store_step cs (OpDelete k) = (case cs_delete cs k of Inl e \<Rightarrow> cs | Inr (_, cs') \<Rightarrow> cs')"
| "store_step cs (OpSetIfAbsent now k v ttl cat) =
     (case cs_set_if_absent now cs k v ttl cat of Inl e \<Rightarrow> cs | Inr (_, cs') \<Rightarrow> cs')"
| "store_step cs (OpAtomicUpdate now k f cat) =
     (case cs_atomic_update now cs k f cat of Inl e \<Rightarrow> cs | Inr (_, cs') \<Rightarrow> cs')"
| "store_step cs (OpBatch now items ex) =
     (case cs_batch_set now cs items ex of Inl e \<Rightarrow> cs | Inr (_, cs') \<Rightarrow> cs')"
| "store_step cs (OpImport now data) =
     (case cs_import_yaml now cs data of Inl e \<Rightarrow> cs | Inr (_, cs') \<Rightarrow> cs')"
| "store_step cs OpReset = (case cs_reset_all cs of Inl e \<Rightarrow> cs | Inr (_, cs') \<Rightarrow> cs')"

lemma store_wf_batch: "store_wf cs \<Longrightarrow> cs_batch_set now cs items ex = Inr (n, cs') \<Longrightarrow> store_wf cs'"
  by (auto simp: cs_batch_set_def Let_def store_wf_put_items split: if_splits option.splits)

lemma store_step_wf: "store_wf cs \<Longrightarrow> store_wf (store_step cs op)"
proof (cases op)
  case (OpImport now data)
  assume "store_wf cs"
  with OpImport show ?thesis
    by (auto simp: cs_import_yaml_def store_wf_batch split: sum.splits pyval.splits)
next
  case (OpBatch now items ex)
  assume "store_wf cs"
  with OpBatch show ?thesis by (auto simp: store_wf_batch split: sum.splits)
qed (auto simp: cs_set_def cs_delete_eq cs_set_if_absent_def cs_atomic_update_def cs_reset_all_def
       Let_def store_wf_put store_wf_drop store_wf_def[of "cs\<lparr>rows := []\<rparr>"]
     split: sum.splits option.splits if_splits)

interpretation store_machine: invariant_machine store_step store_wf
  by unfold_locales (rule store_step_wf)

subsection \<open>Leases\<close>

text \<open>A lease in force: a dict with a holder, not past its end.\<close>

definition lease_live :: "real \<Rightarrow> cstore \<Rightarrow> string \<Rightarrow> real \<Rightarrow> bool" where
  "lease_live now cs k e \<longleftrightarrow>
     (\<exists>r d. find_row cs k = Some r \<and> rval r = PDict d \<and> truthy (dget d ''holder'') \<and>
        truthy (dget d ''expires_at'') \<and> py_float (dget d ''expires_at'') = Some e \<and> now < e)"

lemma lease_live_blocks:
  "lease_live now cs k e \<Longrightarrow> can_write cs \<Longrightarrow> cs_set_if_absent now cs k v ttl cat = Inr (False, cs)"
  by (auto simp: lease_live_def cs_set_if_absent_def lease_over_def)

lemma lease_live_earlier: "lease_live now' cs k e \<Longrightarrow> now \<le> now' \<Longrightarrow> lease_live now cs k e"
  by (auto simp: lease_live_def)

definition lease_dict :: "string \<Rightarrow> real \<Rightarrow> real \<Rightarrow> pyval" where
  "lease_dict holder acquired expires =
     PDict [(''holder'', PStr holder), (''expires_at'', PFloat expires), (''acquired_at'', PFloat acquired)]"

lemma lease_taken_live:
  assumes "cs_set_if_absent now cs k (lease_dict h now (now + ttl)) ttl' cat = Inr (True, cs')"
    and "h \<noteq> []" "0 < ttl" "0 \<le> now"
  shows "lease_live now cs' k (now + ttl)"
proof -
  have v: "lease_value now ttl' (lease_dict h now (now + ttl)) = lease_dict h now (now + ttl)"
    by (simp add: lease_value_def lease_dict_def split: option.splits)
  have "cs' = put_row now k (lease_dict h now (now + ttl)) cat cs"
    using assms(1) by (auto simp: cs_set_if_absent_def v lease_dict_def[symmetric]
        split: if_splits option.splits sum.splits)
  then show ?thesis using assms(2-4) by (simp add: lease_live_def lease_dict_def)
qed

text \<open>
  A run of attempts on one key by any callers, each with its own time, holder and ttl: the
  list of the attempts that took it.
\<close>

fun attempts :: "cstore \<Rightarrow> string \<Rightarrow> (real \<times> string \<times> real) list \<Rightarrow> (real \<times> string \<times> real) list" where
  "attempts cs k [] = []"
| "attempts cs k ((now, h, ttl) # as) =
     (case cs_set_if_absent now cs k (lease_dict h now (now + ttl)) (Some ttl) ''swarm'' of
        Inl e \<Rightarrow> attempts cs k as
      | Inr (took, cs') \<Rightarrow> (if took then [(now, h, ttl)] else []) @ attempts cs' k as)"

lemma attempts_while_held:
  "lease_live now cs k e \<Longrightarrow> can_write cs \<Longrightarrow> \<forall>(t, h, ttl) \<in> set as. t < e \<Longrightarrow> attempts cs k as = []"
proof (induction as)
  case Nil
  show ?case by simp
next
  case (Cons a as)
  obtain t h ttl where a: "a = (t, h, ttl)" by (cases a)
  have "lease_live t cs k e" using Cons.prems a by (auto simp: lease_live_def)
  then have "cs_set_if_absent t cs k (lease_dict h t (t + ttl)) (Some ttl) ''swarm'' = Inr (False, cs)"
    using Cons.prems(2) by (rule lease_live_blocks)
  with Cons a show ?case by simp
qed

subsection \<open>Which keys a read of a missing key collects\<close>

text \<open>
  A dot of the pattern matches only a dot, so a key can only collect keys with more dots than
  it has itself: never itself, never a sibling.
\<close>

abbreviation dots :: "string \<Rightarrow> nat" where "dots s \<equiv> count_list s (CHR ''.'')"

lemma lower_char_dot: "lower_char c = CHR ''.'' \<longleftrightarrow> c = CHR ''.''"
proof
  assume a: "lower_char c = CHR ''.''"
  show "c = CHR ''.''"
  proof (cases "65 \<le> (of_char c :: nat) \<and> (of_char c :: nat) \<le> 90")
    case True
    with a have "char_of (of_char c + 32 :: nat) = CHR ''.''"
      by (simp add: lower_char_def Let_def)
    then have "(of_char (char_of (of_char c + 32 :: nat)) :: nat) = of_char (CHR ''.'')"
      by simp
    with True show ?thesis by simp
  next
    case False
    with a show ?thesis by (auto simp: lower_char_def Let_def)
  qed
qed (simp add: lower_char_def)

lemma sql_like_dots: "sql_like p t \<Longrightarrow> dots p \<le> dots t"
proof (induction p t rule: sql_like.induct)
  case (3 p ps c cs)
  show ?case
  proof (cases "p = CHR ''%''")
    case True
    with 3 show ?thesis by (auto split: if_splits)
  next
    case False
    with 3 show ?thesis
      by (auto simp: lower_char_dot lower_char_dot[THEN iffD2, OF refl] eq_commute[of "CHR ''.''"]
          split: if_splits)
  qed
qed auto

lemma not_below_dots: "dots k' \<le> dots k \<Longrightarrow> \<not> below k k'"
  using sql_like_dots[of "k @ ''.%''" k'] by (auto simp: below_def)

lemma not_below_self [simp]: "\<not> below k k"
  by (rule not_below_dots) simp

text \<open>Nothing answers for a key but its own row: no row below it, no YAML default.\<close>

definition leaf_key :: "cstore \<Rightarrow> string \<Rightarrow> bool" where
  "leaf_key cs k \<longleftrightarrow>
     collect_prefixed (rows cs) k = [] \<and> yaml_lookup (yaml cs) (split_char (CHR ''.'') k) = PNone"

lemma leaf_key_put: "\<not> below k k' \<Longrightarrow> leaf_key (put_row now k' v cat cs) k = leaf_key cs k"
  by (simp add: leaf_key_def collect_put_other)

lemma leaf_key_drop: "\<not> below k k' \<Longrightarrow> leaf_key (drop_row k' cs) k = leaf_key cs k"
  by (simp add: leaf_key_def drop_row_def collect_delete_other)

lemma cs_get_drop_leaf:
  "leaf_key cs k \<Longrightarrow> cs_get (drop_row k cs) k = (if can_read cs then Inr PNone else Inl StoreUnreadable)"
  using leaf_key_drop[of k k cs] by (simp add: cs_get_def leaf_key_def)

lemma cs_get_leaf_missing:
  "leaf_key cs k \<Longrightarrow> find_row cs k = None \<Longrightarrow> can_read cs \<Longrightarrow> cs_get cs k = Inr PNone"
  by (simp add: cs_get_def leaf_key_def)

lemma find_distinct_key: "distinct (map f xs) \<Longrightarrow> x \<in> set xs \<Longrightarrow> find (\<lambda>y. f y = f x) xs = Some x"
  by (induction xs) auto

lemma find_row_mem: "store_wf cs \<Longrightarrow> r \<in> set (rows cs) \<Longrightarrow> find_row cs (rkey r) = Some r"
  by (simp add: store_wf_def find_row_def find_distinct_key)

lemma put_path_not_Nil: "ps \<noteq> [] \<Longrightarrow> put_path d ps v \<noteq> []"
proof -
  have dset: "dset d k v \<noteq> []" for d k v by (cases d) (auto split: if_splits)
  show "ps \<noteq> [] \<Longrightarrow> put_path d ps v \<noteq> []"
    by (cases "(d, ps, v)" rule: put_path.cases) (auto simp: dset)
qed

lemma collect_prefixed_Nil_iff: "collect_prefixed rs k = [] \<longleftrightarrow> (\<forall>r \<in> set rs. \<not> below k (rkey r))"
proof -
  have "foldl (\<lambda>d r. put_path d (split_char c (f r)) (rval r)) d xs = [] \<longleftrightarrow> d = [] \<and> xs = []"
    for c and f :: "srow \<Rightarrow> string" and d xs
    by (induction xs arbitrary: d) (auto simp: put_path_not_Nil)
  then show ?thesis by (simp add: collect_prefixed_def filter_empty_conv)
qed

lemma leaf_key_filter: "leaf_key cs k \<Longrightarrow> leaf_key (cs\<lparr>rows := filter P (rows cs)\<rparr>) k"
  by (simp add: leaf_key_def collect_prefixed_Nil_iff)

lemma find_filter_keep: "find Q xs = Some x \<Longrightarrow> P x \<Longrightarrow> find Q (filter P xs) = Some x"
  by (induction xs) (auto split: if_splits)

subsection \<open>The empty store\<close>

text \<open>An empty, healthy store.\<close>

definition empty_store :: cstore where
  "empty_store = \<lparr>rows = [], yaml = PNone, can_read = True, can_write = True\<rparr>"

lemma empty_store_simps [simp]:
  "can_read empty_store" "can_write empty_store" "rows empty_store = []" "yaml empty_store = PNone"
  "find_row empty_store k = None"
  by (simp_all add: empty_store_def find_row_def)

lemma cs_get_empty [simp]: "cs_get empty_store k = Inr PNone"
  by (cases "split_char (CHR ''.'') k") (simp_all add: cs_get_def collect_prefixed_def)

lemma leaf_key_empty [simp]: "leaf_key empty_store k"
  by (cases "split_char (CHR ''.'') k") (simp_all add: leaf_key_def collect_prefixed_def)

subsection \<open>Mutual exclusion and lost updates\<close>

text \<open>The second attempt starts no earlier than the end the first one asked for.\<close>

definition apart :: "real \<times> string \<times> real \<Rightarrow> real \<times> string \<times> real \<Rightarrow> bool" where
  "apart a b \<longleftrightarrow> fst a + snd (snd a) \<le> fst b"

lemma apart_triple: "apart (t, h, ttl) b \<longleftrightarrow> t + ttl \<le> fst b"
  by (simp add: apart_def)

lemma attempts_subset: "set (attempts cs k as) \<subseteq> set as"
  by (induction as arbitrary: cs) (auto split: sum.splits prod.splits, blast+)

lemma cs_set_if_absent_can_write:
  "cs_set_if_absent now cs k v ttl cat = Inr (b, cs') \<Longrightarrow> can_write cs' = can_write cs"
  by (auto simp: cs_set_if_absent_def split: if_splits option.splits sum.splits)

lemma attempts_after_lease:
  assumes "lease_live now cs k e" "can_write cs" "sorted (map fst as)"
    and "(t, h, ttl) \<in> set (attempts cs k as)"
  shows "e \<le> t"
  using assms
proof (induction as)
  case Nil
  then show ?case by simp
next
  case (Cons a as)
  obtain t' h' ttl' where a: "a = (t', h', ttl')" by (cases a)
  show ?case
  proof (cases "t' < e")
    case True
    then have "lease_live t' cs k e" using Cons.prems(1) by (auto simp: lease_live_def)
    from lease_live_blocks[OF this Cons.prems(2)] Cons show ?thesis by (simp add: a)
  next
    case False
    have "(t, h, ttl) \<in> set (a # as)" using Cons.prems(4) attempts_subset by blast
    then show ?thesis using False Cons.prems(3) a by force
  qed
qed

text \<open>
  C35: of any run of attempts on one lease key, by any callers, in time order, the attempts that
  took the lease never overlap: each later winner starts at or after the end the earlier winner
  asked for. At most one caller holds the lease at any time.
\<close>

theorem lease_winners_separated:
  assumes "can_write cs" and "sorted (map fst as)"
    and "\<forall>(t, h, ttl) \<in> set as. 0 \<le> t \<and> h \<noteq> [] \<and> 0 < ttl"
  shows "sorted_wrt apart (attempts cs k as)"
  using assms
proof (induction as arbitrary: cs)
  case Nil
  show ?case by simp
next
  case (Cons a as)
  obtain t h ttl where a: "a = (t, h, ttl)" by (cases a)
  show ?case
  proof (cases "cs_set_if_absent t cs k (lease_dict h t (t + ttl)) (Some ttl) ''swarm''")
    case (Inl e)
    with Cons a show ?thesis by simp
  next
    case (Inr r)
    obtain took cs' where r: "r = (took, cs')" by (cases r)
    have w: "can_write cs'" using Inr r Cons.prems(1) by (auto dest: cs_set_if_absent_can_write)
    then have rest: "sorted_wrt apart (attempts cs' k as)"
      using Cons by simp
    show ?thesis
    proof (cases took)
      case True
      with Inr r a Cons.prems(3) have "lease_live t cs' k (t + ttl)"
        by (auto intro: lease_taken_live)
      then have "\<forall>w \<in> set (attempts cs' k as). t + ttl \<le> fst w"
        using attempts_after_lease w Cons.prems(2) by (fastforce simp: a)
      with rest True Inr r a show ?thesis by (simp add: apart_triple)
    qed (use rest Inr r a in simp)
  qed
qed

theorem lease_winners_separated_witness:
  "attempts empty_store ''k''
       [(0, ''a'', 10), (5, ''b'', 10), (10, ''c'', 10)] = [(0, ''a'', 10), (10, ''c'', 10)]
   \<and> sorted_wrt apart
       (attempts empty_store ''k''
         [(0, ''a'', 10), (5, ''b'', 10), (10, ''c'', 10)])"
proof
  show "sorted_wrt apart
       (attempts empty_store ''k''
         [(0, ''a'', 10), (5, ''b'', 10), (10, ''c'', 10)])"
    by (rule lease_winners_separated) auto
qed (simp add: cs_set_if_absent_def find_row_def put_row_def lease_value_def lease_dict_def lease_over_def)

text \<open>A run of conditional batches against one revision key: which were accepted.\<close>

fun conditional_batches ::
    "cstore \<Rightarrow> string \<Rightarrow> (real \<times> item list \<times> int) list \<Rightarrow> int list \<times> cstore" where
  "conditional_batches cs rk [] = ([], cs)"
| "conditional_batches cs rk ((now, items, n) # bs) =
     (case cs_batch_set now cs items (Some (rk, n)) of
        Inl e \<Rightarrow> conditional_batches cs rk bs
      | Inr (0, cs') \<Rightarrow> conditional_batches cs' rk bs
      | Inr (Suc _, cs') \<Rightarrow> (case conditional_batches cs' rk bs of (ns, cs'') \<Rightarrow> (n # ns, cs'')))"

lemma cs_batch_set_none: "cs_batch_set now cs items ex = Inr (0, cs') \<Longrightarrow> cs' = cs"
  by (auto simp: cs_batch_set_def Let_def split: if_splits option.splits)

lemma distinct_keys_filter: "distinct (map fst items) \<Longrightarrow> distinct (map fst (filter P items))"
  by (induction items) auto

lemma cs_batch_set_advances:
  assumes "cs_batch_set now cs items (Some (rk, n)) = Inr (Suc m, cs')" "distinct (map fst items)"
  shows "stored_revision cs rk = PInt n \<and> stored_revision cs' rk = PInt (n + 1)"
proof -
  let ?p = "filter (\<lambda>(_, v, _). v \<noteq> PNone) items"
  from assms(1) have adv: "advances ?p rk n" and old: "stored_revision cs rk = PInt n"
    and cs': "cs' = put_items now ?p cs"
    by (auto simp: cs_batch_set_def Let_def split: if_splits)
  from adv obtain c where "(rk, PInt (n + 1), c) \<in> set ?p"
    by (auto simp: advances_def list_ex_iff)
  with assms(2) obtain r where "find_row cs' rk = Some r" "rval r = PInt (n + 1)"
    unfolding cs' using find_row_put_items[OF distinct_keys_filter] by blast
  with old show ?thesis by (simp add: stored_revision_def)
qed

text \<open>
  The conditional batches accepted on a revision key, in any run by any writers, are based
  on consecutive revisions starting at the stored one, and the final revision counts them: no
  two writers that read the same revision both succeed, so no update is lost.
\<close>

theorem conditional_batches_serial:
  assumes "stored_revision cs rk = PInt r"
    and "\<forall>(t, items, n) \<in> set bs. distinct (map fst items)"
    and "conditional_batches cs rk bs = (ns, cs')"
  shows "ns = map (\<lambda>i. r + int i) [0..<length ns] \<and> stored_revision cs' rk = PInt (r + int (length ns))"
  using assms
proof (induction bs arbitrary: cs r ns cs')
  case Nil
  then show ?case by simp
next
  case (Cons b bs)
  obtain t items n where b: "b = (t, items, n)" by (cases b)
  show ?case
  proof (cases "cs_batch_set t cs items (Some (rk, n))")
    case (Inl e)
    with Cons b show ?thesis by simp
  next
    case (Inr x)
    obtain m cs1 where x: "x = (m, cs1)" by (cases x)
    show ?thesis
    proof (cases m)
      case 0
      with Inr x have "cs1 = cs" by (simp add: cs_batch_set_none)
      with Cons b Inr x 0 show ?thesis by simp
    next
      case (Suc m')
      from Cons.prems b Inr x Suc have rev: "n = r" "stored_revision cs1 rk = PInt (r + 1)"
        using cs_batch_set_advances[of t cs items rk n m' cs1] by auto
      obtain ns' where ns': "conditional_batches cs1 rk bs = (ns', cs')" "ns = n # ns'"
        using Cons.prems(3) b Inr x Suc by (auto split: prod.splits)
      have "ns' = map (\<lambda>i. r + 1 + int i) [0..<length ns'] \<and>
              stored_revision cs' rk = PInt (r + 1 + int (length ns'))"
        using Cons.IH[OF rev(2) _ ns'(1)] Cons.prems(2) by simp
      then show ?thesis
        using ns'(2) rev(1) map_upt_Suc[of "\<lambda>i. r + int i" "length ns'"]
        by (simp del: upt_Suc add: add.assoc)
    qed
  qed
qed

subsection \<open>What a reader sees of a write\<close>

text \<open>
  A successful \<open>set\<close> of a value is what the next \<open>get\<close> of that key returns, whatever else is
  stored, and no other key's answer changes unless the written key lies below it.
\<close>

theorem set_then_get:
  assumes "cs_set now cs k v cat = Inr cs'" and "v \<noteq> PNone" and "can_read cs"
  shows "cs_get cs' k = Inr v \<and>
     (\<forall>k'. k' \<noteq> k \<and> \<not> below k' k \<longrightarrow> cs_get cs' k' = cs_get cs k')"
  using assms(3) by (auto simp: cs_set_Inr[OF assms(1,2)] cs_get_put_other)

text \<open>
  Whatever operations run on the store, raising or not, in whatever order, there is at
  most one row for a key.
\<close>

theorem store_keys_stay_distinct:
  "store_wf cs \<Longrightarrow> store_wf (foldl store_step cs ops)"
  by (rule store_machine.run_inv)

text \<open>
  Every leaf of an imported YAML document whose dotted keys are distinct is what \<open>get\<close> of its
  dotted key returns after the import.
\<close>

theorem import_leaf_get:
  assumes "cs_import_yaml now cs (PDict d) = Inr (n, cs')" and "can_read cs"
    and "distinct (map fst (flatten_dict [] d))"
    and "(k, v, c) \<in> set (flatten_dict [] d)" and "v \<noteq> PNone"
  shows "cs_get cs' k = Inr v"
proof -
  let ?p = "filter (\<lambda>(_, v, _). v \<noteq> PNone) (flatten_dict [] d)"
  have mem: "(k, v, c) \<in> set ?p" using assms(4,5) by simp
  then have ne: "?p \<noteq> []" by (metis empty_iff list.set(1))
  then have "flatten_dict [] d \<noteq> []" by auto
  with ne assms(1) have cs': "cs' = put_items now ?p cs"
    by (simp add: cs_import_yaml_def cs_batch_set_def Let_def split: if_splits)
  then obtain r where "find_row cs' k = Some r" "rval r = v"
    using find_row_put_items[OF distinct_keys_filter[OF assms(3)] mem] by blast
  moreover have "can_read cs'" using assms(2) cs' by simp
  ultimately show ?thesis using cs_get_row by blast
qed

text \<open>
  An imported section does not replace a section stored under its own key: the import reports
  one value written, the leaf reads back as imported, and the section still reads as the old dict.
\<close>

theorem import_shadowed_by_parent:
  "let cs = put_row 1 ''a'' (PDict [(''b'', PInt 1)]) ''general''
              empty_store;
       r = cs_import_yaml 2 cs (PDict [(''a'', PDict [(''b'', PInt 2)])])
   in \<exists>cs'. r = Inr (1, cs') \<and> cs_get cs' ''a.b'' = Inr (PInt 2)
        \<and> cs_get cs' ''a'' = Inr (PDict [(''b'', PInt 1)])"
  by (simp add: cs_import_yaml_def cs_batch_set_def put_items_def cs_get_def find_row_def put_row_def)

text \<open>
  The underscore of a key is a wildcard of the \<open>LIKE\<close> pattern: in a store whose only row is
  \<open>agent.hooks.x\<close>, reading the missing key \<open>agent_hooks\<close> returns that row's value as a dict.
\<close>

theorem underscore_key_reads_other_subtree:
  "cs_get (put_row 1 ''agent.hooks.x'' (PInt 7) ''agent''
             empty_store) ''agent_hooks''
     = Inr (PDict [(''x'', PInt 7)])"
  by (simp add: cs_get_def find_row_def put_row_def collect_prefixed_def below_def lower_char_def)

end
