(* ===== verification/Yolo.thy ===== *)
theory Yolo
  imports ConfigStore
begin

text \<open>
  Session YOLO windows (kazma_core/safety/yolo.py): a record under \<open>yolo.<thread>\<close> in the
  settings store lets every danger tool of that thread run without a card until it ends.
  The process environment is a map from variable names to values; every operation takes the
  clock reading it works with.
\<close>

type_synonym environ = "string \<Rightarrow> string option"

definition env_or_empty :: "environ \<Rightarrow> string \<Rightarrow> string" where
  "env_or_empty env name = (case env name of None \<Rightarrow> [] | Some s \<Rightarrow> s)"

definition default_yolo_ttl :: int where
  "default_yolo_ttl = 3600"

definition env_truthy :: "string option \<Rightarrow> bool" where
  "env_truthy raw =
     (py_lower (py_strip (case raw of None \<Rightarrow> [] | Some s \<Rightarrow> s)) \<in> {''1'', ''true'', ''on'', ''yes''})"

definition yolo_allowed :: "environ \<Rightarrow> bool" where
  "yolo_allowed env =
     (case env ''KAZMA_ALLOW_YOLO'' of
        Some raw \<Rightarrow>
          if py_strip raw \<noteq> [] then env_truthy (Some raw)
          else \<not> env_truthy (env ''KAZMA_PRODUCTION'')
      | None \<Rightarrow> \<not> env_truthy (env ''KAZMA_PRODUCTION''))"

definition yolo_block_reason :: "environ \<Rightarrow> string" where
  "yolo_block_reason env =
     (case env ''KAZMA_ALLOW_YOLO'' of
        Some raw \<Rightarrow>
          if py_strip raw \<noteq> [] \<and> \<not> env_truthy (Some raw)
          then ''YOLO is turned off (KAZMA_ALLOW_YOLO=0). This tool can still be approved once.''
          else ''YOLO is disabled in production. Set KAZMA_ALLOW_YOLO=1 to opt in.''
      | None \<Rightarrow> ''YOLO is disabled in production. Set KAZMA_ALLOW_YOLO=1 to opt in.'')"

text \<open>The lifetime an environment variable sets: 0 stands for no end.\<close>

definition ttl_from_env :: "string \<Rightarrow> int \<Rightarrow> int" where
  "ttl_from_env raw0 dflt =
     (let raw = py_strip raw0 in
      if py_isdigit raw then max 60 (int (digits_nat raw))
      else if raw \<in> {''off'', ''none'', ''infinite''} then 0
      else dflt)"

definition yolo_ttl_seconds :: "environ \<Rightarrow> int" where
  "yolo_ttl_seconds env = ttl_from_env (env_or_empty env ''KAZMA_YOLO_TTL_SECONDS'') default_yolo_ttl"

definition yolo_key :: "string \<Rightarrow> string" where
  "yolo_key tid = ''yolo.'' @ tid"

definition expires_value :: "real \<Rightarrow> int \<Rightarrow> pyval" where
  "expires_value now ttl = (if 0 < ttl then PFloat (now + of_int ttl) else PNone)"

definition yolo_payload :: "real \<Rightarrow> string \<Rightarrow> int \<Rightarrow> bool \<Rightarrow> pydict" where
  "yolo_payload now actor ttl unified =
     [(''enabled'', PBool True), (''since'', PFloat now), (''actor'', PStr actor),
      (''ttl_seconds'', PInt ttl), (''expires_at'', expires_value now ttl),
      (''unified'', PBool unified)]"

subsection \<open>Status\<close>

definition is_legacy_flag :: "pyval \<Rightarrow> bool" where
  "is_legacy_flag raw \<longleftrightarrow>
     raw = PBool True \<or>
     (\<not> is_dict raw \<and> (eq_one raw \<or> raw \<in> {PStr ''1'', PStr ''true'', PStr ''True'', PStr ''yes''}))"

record yolo_info =
  yi_actor :: pyval
  yi_since :: pyval
  yi_ttl :: pyval
  yi_expires :: pyval
  yi_remaining :: "int option"

datatype yolo_status =
    YInactive
  | YExpired
  | YLegacyRemoved
  | YActive yolo_info

fun yolo_active :: "yolo_status \<Rightarrow> bool" where
  "yolo_active (YActive _) = True"
| "yolo_active _ = False"

definition yolo_info_of :: "real \<Rightarrow> pydict \<Rightarrow> yolo_info" where
  "yolo_info_of now d =
     \<lparr>yi_actor = (if map_of d ''actor'' = None then PStr ''unknown'' else dget d ''actor''),
      yi_since = dget d ''since'', yi_ttl = dget d ''ttl_seconds'', yi_expires = dget d ''expires_at'',
      yi_remaining = map_option (\<lambda>e. max 0 (trunc (e - now))) (py_float (dget d ''expires_at''))\<rparr>"

text \<open>The time a record's \<open>expires_at\<close> gives; None when it has none or it is unreadable.\<close>

definition expiry :: "pydict \<Rightarrow> real option" where
  "expiry d = py_float (dget d ''expires_at'')"

definition delete_then :: "cstore \<Rightarrow> string \<Rightarrow> 'a \<Rightarrow> (exn + 'a) \<times> cstore" where
  "delete_then cs k a =
     (case cs_delete cs k of Inl e \<Rightarrow> (Inl e, cs) | Inr (_, cs') \<Rightarrow> (Inr a, cs'))"

definition yolo_status :: "real \<Rightarrow> cstore \<Rightarrow> string \<Rightarrow> (exn + yolo_status) \<times> cstore" where
  "yolo_status now cs tid =
     (case cs_get cs (yolo_key tid) of
        Inl e \<Rightarrow> (Inl e, cs)
      | Inr raw \<Rightarrow>
          if \<not> truthy raw then (Inr YInactive, cs)
          else if is_legacy_flag raw then delete_then cs (yolo_key tid) YLegacyRemoved
          else case raw of
            PDict d \<Rightarrow>
              if \<not> truthy (dget d ''enabled'') then (Inr YInactive, cs)
              else (case expiry d of
                      Some e \<Rightarrow> if e < now then delete_then cs (yolo_key tid) YExpired
                                else (Inr (YActive (yolo_info_of now d)), cs)
                    | None \<Rightarrow> (Inr (YActive (yolo_info_of now d)), cs))
          | _ \<Rightarrow> (Inr YInactive, cs))"

definition is_yolo_active :: "real \<Rightarrow> cstore \<Rightarrow> string option \<Rightarrow> (exn + bool) \<times> cstore" where
  "is_yolo_active now cs tid =
     (case tid of
        None \<Rightarrow> (Inr False, cs)
      | Some t \<Rightarrow>
          if t = [] then (Inr False, cs)
          else (case yolo_status now cs t of
                  (Inl e, cs') \<Rightarrow> (Inl e, cs')
                | (Inr st, cs') \<Rightarrow> (Inr (yolo_active st), cs')))"

subsection \<open>Enable, slide, purge\<close>

definition enable_yolo ::
    "environ \<Rightarrow> real \<Rightarrow> cstore \<Rightarrow> string \<Rightarrow> string \<Rightarrow> bool \<Rightarrow> int option \<Rightarrow> (exn + yolo_status) \<times> cstore" where
  "enable_yolo env now cs tid actor force ttl_seconds =
     (if \<not> force \<and> \<not> yolo_allowed env then (Inl (YoloDisabledError (yolo_block_reason env)), cs)
      else let ttl = (case ttl_seconds of None \<Rightarrow> yolo_ttl_seconds env | Some n \<Rightarrow> max 0 n) in
        case cs_set now cs (yolo_key tid)
               (PDict (yolo_payload now actor ttl (ttl_seconds \<noteq> None))) ''safety'' of
          Inl e \<Rightarrow> (Inl e, cs)
        | Inr cs' \<Rightarrow> yolo_status now cs' tid)"

datatype card_yolo = Downgraded string | Enabled yolo_status

definition try_enable_yolo ::
    "environ \<Rightarrow> real \<Rightarrow> cstore \<Rightarrow> string \<Rightarrow> string \<Rightarrow> (exn + card_yolo) \<times> cstore" where
  "try_enable_yolo env now cs tid actor =
     (if \<not> yolo_allowed env then (Inr (Downgraded (yolo_block_reason env)), cs)
      else case enable_yolo env now cs tid actor True None of
        (Inl e, cs') \<Rightarrow> (Inl e, cs')
      | (Inr st, cs') \<Rightarrow> (Inr (Enabled st), cs'))"

text \<open>\<open>slide_yolo_expiry\<close> swallows every exception: a failed write leaves the store as it was.\<close>

definition slide_yolo_expiry :: "real \<Rightarrow> cstore \<Rightarrow> string \<Rightarrow> real \<Rightarrow> cstore" where
  "slide_yolo_expiry now cs tid expires_at =
     (if tid = [] then cs
      else case cs_get cs (yolo_key tid) of
        Inr (PDict d) \<Rightarrow>
          if \<not> truthy (dget d ''enabled'') \<or> \<not> truthy (dget d ''unified'') then cs
          else (case cs_set now cs (yolo_key tid) (PDict (dset d ''expires_at'' (PFloat expires_at)))
                       ''safety'' of Inl e \<Rightarrow> cs | Inr cs' \<Rightarrow> cs')
      | _ \<Rightarrow> cs)"

definition window_ended :: "pyval \<Rightarrow> real \<Rightarrow> bool" where
  "window_ended raw now \<longleftrightarrow>
     (if is_legacy_flag raw then True
      else case raw of
        PDict d \<Rightarrow>
          if \<not> truthy (dget d ''enabled'') then True
          else (case expiry d of None \<Rightarrow> False | Some e \<Rightarrow> e < now)
      | _ \<Rightarrow> True)"

fun purge_keys :: "real \<Rightarrow> cstore \<Rightarrow> pydict \<Rightarrow> nat \<Rightarrow> (exn + nat) \<times> cstore" where
  "purge_keys now cs [] n = (Inr n, cs)"
| "purge_keys now cs ((k, raw) # items) n =
     (if starts_with ''yolo.'' k \<and> window_ended raw now
      then (case cs_delete cs k of
              Inl e \<Rightarrow> (Inl e, cs)
            | Inr (gone, cs') \<Rightarrow> purge_keys now cs' items (if gone then n + 1 else n))
      else purge_keys now cs items n)"

fun purge_categories :: "real \<Rightarrow> cstore \<Rightarrow> string list \<Rightarrow> nat \<Rightarrow> (exn + nat) \<times> cstore" where
  "purge_categories now cs [] n = (Inr n, cs)"
| "purge_categories now cs (c # cats) n =
     (case cs_get_category cs c of
        Inl e \<Rightarrow> (Inl e, cs)
      | Inr items \<Rightarrow>
          (case purge_keys now cs items n of
             (Inl e, cs') \<Rightarrow> (Inl e, cs')
           | (Inr n', cs') \<Rightarrow> purge_categories now cs' cats n'))"

definition yolo_categories :: "string list" where
  "yolo_categories = [''safety'', ''general'']"

definition purge_expired_yolo :: "real \<Rightarrow> cstore \<Rightarrow> (exn + nat) \<times> cstore" where
  "purge_expired_yolo now cs = purge_categories now cs yolo_categories 0"

subsection \<open>What a thread's window says\<close>

text \<open>The stored value grants something at a time.\<close>

definition window_open :: "real \<Rightarrow> pyval \<Rightarrow> bool" where
  "window_open now raw \<longleftrightarrow>
     (\<exists>d. raw = PDict d \<and> truthy (dget d ''enabled'') \<and>
        (case expiry d of None \<Rightarrow> True | Some e \<Rightarrow> now \<le> e))"

definition yolo_live :: "real \<Rightarrow> cstore \<Rightarrow> string \<Rightarrow> bool" where
  "yolo_live now cs t \<longleftrightarrow> t \<noteq> [] \<and> (\<exists>raw. cs_get cs (yolo_key t) = Inr raw \<and> window_open now raw)"

lemma truthy_dict_enabled: "truthy (dget d k) \<Longrightarrow> truthy (PDict d)"
  by (cases d) auto

lemma is_legacy_flag_dict [simp]: "\<not> is_legacy_flag (PDict d)"
  by (simp add: is_legacy_flag_def)

lemma window_ended_iff: "window_ended raw now \<longleftrightarrow> \<not> window_open now raw"
  by (cases raw) (auto simp: window_ended_def window_open_def split: option.splits)

lemma window_open_earlier: "window_open now' raw \<Longrightarrow> now \<le> now' \<Longrightarrow> window_open now raw"
  by (auto simp: window_open_def split: option.splits)

lemma delete_then_eq:
  "delete_then cs k a = (if can_write cs then (Inr a, drop_row k cs) else (Inl WriteRefused, cs))"
  by (simp add: delete_then_def cs_delete_eq)

lemma is_yolo_active_None [simp]: "is_yolo_active now cs None = (Inr False, cs)"
  by (simp add: is_yolo_active_def)

lemma is_yolo_active_empty [simp]: "is_yolo_active now cs (Some []) = (Inr False, cs)"
  by (simp add: is_yolo_active_def)

lemma yolo_status_open:
  assumes "cs_get cs (yolo_key t) = Inr raw" and "window_open now raw"
  shows "\<exists>d. raw = PDict d \<and> yolo_status now cs t = (Inr (YActive (yolo_info_of now d)), cs)"
proof -
  from assms(2) obtain d where d: "raw = PDict d" "truthy (dget d ''enabled'')"
    and e: "case expiry d of None \<Rightarrow> True | Some e \<Rightarrow> now \<le> e"
    by (auto simp: window_open_def)
  from d(2) have "d \<noteq> []" by auto
  with assms(1) d e show ?thesis by (auto simp: yolo_status_def split: option.splits)
qed

lemma is_yolo_active_live: "yolo_live now cs t \<Longrightarrow> is_yolo_active now cs (Some t) = (Inr True, cs)"
  by (auto simp: yolo_live_def is_yolo_active_def dest!: yolo_status_open)

lemma is_yolo_active_not_live:
  assumes "\<not> yolo_live now cs t"
  shows "is_yolo_active now cs (Some t) = (Inr False, cs) \<or>
     (can_write cs \<and> is_yolo_active now cs (Some t) = (Inr False, drop_row (yolo_key t) cs)) \<or>
     (\<exists>e. is_yolo_active now cs (Some t) = (Inl e, cs))"
proof (cases "t = [] \<or> (\<exists>e. cs_get cs (yolo_key t) = Inl e)")
  case True
  then show ?thesis by (auto simp: is_yolo_active_def yolo_status_def)
next
  case False
  then obtain raw where raw: "cs_get cs (yolo_key t) = Inr raw" "t \<noteq> []"
    by (cases "cs_get cs (yolo_key t)") auto
  with assms have "\<not> window_open now raw" by (auto simp: yolo_live_def)
  then show ?thesis using raw
    by (cases raw)
       (simp_all add: is_yolo_active_def yolo_status_def delete_then_eq window_open_def
          split: option.split, auto)
qed

lemma is_yolo_active_iff: "fst (is_yolo_active now cs (Some t)) = Inr True \<longleftrightarrow> yolo_live now cs t"
  by (cases "yolo_live now cs t")
     (auto simp: is_yolo_active_live dest!: is_yolo_active_not_live)

lemma snd_is_yolo_active:
  "snd (is_yolo_active now cs (Some t)) \<in> {cs, drop_row (yolo_key t) cs}"
  by (cases "yolo_live now cs t")
     (auto simp: is_yolo_active_live dest!: is_yolo_active_not_live)

text \<open>A window as the approval rule sees it (\<open>timed_approval\<close>).\<close>

definition yolo_check :: "string \<Rightarrow> real \<Rightarrow> cstore \<Rightarrow> cstore" where
  "yolo_check t now cs = snd (is_yolo_active now cs (Some t))"

lemma yolo_live_drop: "leaf_key cs (yolo_key t) \<Longrightarrow> \<not> yolo_live now (drop_row (yolo_key t) cs) t"
  by (auto simp: yolo_live_def cs_get_drop_leaf window_open_def)

lemma yolo_live_earlier: "yolo_live now' cs t \<Longrightarrow> now \<le> now' \<Longrightarrow> yolo_live now cs t"
  by (auto simp: yolo_live_def intro: window_open_earlier)

lemma yolo_check_keeps:
  assumes "leaf_key cs (yolo_key t)" "now \<le> now'"
  shows "yolo_live now' (yolo_check t now cs) t = yolo_live now' cs t"
proof (cases "yolo_live now cs t")
  case True
  then show ?thesis by (simp add: yolo_check_def is_yolo_active_live)
next
  case False
  then have "\<not> yolo_live now' cs t" using assms(2) yolo_live_earlier by blast
  moreover have "\<not> yolo_live now' (drop_row (yolo_key t) cs) t"
    using assms(1) by (rule yolo_live_drop)
  moreover have "yolo_check t now cs \<in> {cs, drop_row (yolo_key t) cs}"
    using snd_is_yolo_active by (simp add: yolo_check_def)
  ultimately show ?thesis by auto
qed

interpretation yolo: timed_approval
  "\<lambda>now cs. yolo_live now cs t" "yolo_check t" "\<lambda>cs. leaf_key cs (yolo_key t)" for t
proof unfold_locales
  fix cs now
  assume "leaf_key cs (yolo_key t)"
  then show "leaf_key (yolo_check t now cs) (yolo_key t)"
    using snd_is_yolo_active[of now cs t] by (auto simp: yolo_check_def leaf_key_drop)
qed (auto simp: yolo_check_keeps intro: yolo_live_earlier)

subsection \<open>Enabling\<close>

lemma yolo_window_open_payload:
  "window_open now' (PDict (yolo_payload now actor ttl u)) \<longleftrightarrow> (0 < ttl \<longrightarrow> now' \<le> now + of_int ttl)"
  by (auto simp: window_open_def yolo_payload_def expiry_def expires_value_def split: option.splits)

lemma yolo_status_payload:
  assumes "can_read cs"
  shows "yolo_status now (put_row now (yolo_key t) (PDict (yolo_payload now actor ttl u)) c cs) t =
     (Inr (YActive (yolo_info_of now (yolo_payload now actor ttl u))),
      put_row now (yolo_key t) (PDict (yolo_payload now actor ttl u)) c cs)"
proof -
  let ?p = "yolo_payload now actor ttl u"
  have "cs_get (put_row now (yolo_key t) (PDict ?p) c cs) (yolo_key t) = Inr (PDict ?p)"
    using assms by simp
  then show ?thesis
    using yolo_status_open[of _ t "PDict ?p" now] by (simp add: yolo_window_open_payload)
qed

text \<open>
  A successful \<open>enable_yolo\<close> reports an active window, and that window is open exactly until
  its lifetime is over: the requested number of seconds (the environment's when none was
  requested), without end when that is 0 or less. The window stays open at its very last moment.
\<close>

theorem enable_yolo_opens_window:
  assumes "enable_yolo env now cs t actor force req = (Inr st, cs')"
    and "can_read cs" and "t \<noteq> []"
  shows "yolo_active st \<and>
    (yolo_live now' cs' t \<longleftrightarrow>
       (let ttl = (case req of None \<Rightarrow> yolo_ttl_seconds env | Some n \<Rightarrow> max 0 n)
        in ttl \<le> 0 \<or> now' \<le> now + of_int ttl))"
proof -
  let ?ttl = "case req of None \<Rightarrow> yolo_ttl_seconds env | Some n \<Rightarrow> max 0 n"
  let ?p = "yolo_payload now actor ?ttl (req \<noteq> None)"
  let ?cs = "put_row now (yolo_key t) (PDict ?p) ''safety'' cs"
  from assms(1) have "(Inr st, cs') = yolo_status now ?cs t"
    by (auto simp: enable_yolo_def cs_set_def Let_def split: if_splits sum.splits)
  with yolo_status_payload[OF assms(2)] have cs': "cs' = ?cs" and "yolo_active st"
    by auto
  moreover have "cs_get ?cs (yolo_key t) = Inr (PDict ?p)" using assms(2) by simp
  ultimately show ?thesis using assms(3)
    by (auto simp: yolo_live_def yolo_window_open_payload Let_def linorder_not_less)
qed

text \<open>
  In production, unless \<open>KAZMA_ALLOW_YOLO\<close> is set to something, the operator's command and the
  approval card both open no window and leave the store as it was; the card's answer is reported
  as downgraded to a single approval.
\<close>

theorem production_blocks_yolo:
  assumes "env_truthy (env ''KAZMA_PRODUCTION'')"
    and "env ''KAZMA_ALLOW_YOLO'' = None \<or> py_strip (env_or_empty env ''KAZMA_ALLOW_YOLO'') = []"
  shows "enable_yolo env now cs t actor False ttl = (Inl (YoloDisabledError (yolo_block_reason env)), cs)
     \<and> try_enable_yolo env now cs t actor = (Inr (Downgraded (yolo_block_reason env)), cs)"
proof -
  have "\<not> yolo_allowed env"
    using assms by (auto simp: yolo_allowed_def env_or_empty_def split: option.splits)
  then show ?thesis by (simp add: enable_yolo_def try_enable_yolo_def)
qed

subsection \<open>The maintenance sweep\<close>

definition sweeps :: "real \<Rightarrow> srow \<Rightarrow> bool" where
  "sweeps now r \<longleftrightarrow> starts_with ''yolo.'' (rkey r) \<and> window_ended (rval r) now"

lemma purge_keys_rows:
  assumes "can_write cs" "store_wf cs" "distinct (map rkey rs)" "set rs \<subseteq> set (rows cs)"
  shows "purge_keys now cs (map (\<lambda>r. (rkey r, rval r)) rs) n =
    (Inr (n + length (filter (sweeps now) rs)),
     cs\<lparr>rows := filter (\<lambda>r. rkey r \<notin> rkey ` set (filter (sweeps now) rs)) (rows cs)\<rparr>)"
  using assms
proof (induction rs arbitrary: cs n)
  case Nil
  then show ?case by simp
next
  case (Cons r rs)
  show ?case
  proof (cases "sweeps now r")
    case True
    have "find_row cs (rkey r) = Some r" using Cons.prems by (simp add: find_row_mem)
    moreover have "set rs \<subseteq> set (rows (drop_row (rkey r) cs))"
      using Cons.prems by (auto simp: drop_row_def) (metis imageI)
    ultimately show ?thesis
      using True Cons.IH[of "drop_row (rkey r) cs" "n + 1"] Cons.prems
      by (simp add: sweeps_def cs_delete_eq store_wf_drop) (simp add: drop_row_def conj_commute)
  next
    case False
    with Cons show ?thesis by (auto simp: sweeps_def)
  qed
qed

lemma purge_category_rows:
  assumes "can_read cs" "can_write cs" "store_wf cs"
  shows "purge_categories now cs (c # cats) n =
    purge_categories now (cs\<lparr>rows := filter (\<lambda>r. \<not> (rcat r = c \<and> sweeps now r)) (rows cs)\<rparr>) cats
      (n + length (filter (\<lambda>r. rcat r = c \<and> sweeps now r) (rows cs)))"
proof -
  let ?rs = "filter (\<lambda>r. rcat r = c) (rows cs)"
  have d: "distinct (map rkey ?rs)"
    using assms(3) by (simp add: store_wf_def distinct_map_filter_key)
  have inj: "r \<in> set (rows cs) \<Longrightarrow>
      rkey r \<in> rkey ` set (filter (sweeps now) ?rs) \<longleftrightarrow> rcat r = c \<and> sweeps now r" for r
    using assms(3) by (auto simp: store_wf_def distinct_map inj_on_def)
  have "filter (\<lambda>r. rkey r \<notin> rkey ` set (filter (sweeps now) ?rs)) (rows cs)
      = filter (\<lambda>r. \<not> (rcat r = c \<and> sweeps now r)) (rows cs)"
    by (rule filter_cong[OF refl]) (simp only: inj)
  moreover have "set ?rs \<subseteq> set (rows cs)" by auto
  ultimately show ?thesis
    using assms(1) purge_keys_rows[OF assms(2,3) d, of now n]
    by (simp only: purge_categories.simps cs_get_category_def not_True_eq_False if_False sum.case
        prod.case filter_filter simp_thms)
qed

lemma purge_expired_rows:
  assumes "can_read cs" "can_write cs" "store_wf cs"
  shows "purge_expired_yolo now cs =
    (Inr (length (filter (\<lambda>r. rcat r \<in> set yolo_categories \<and> sweeps now r) (rows cs))),
     cs\<lparr>rows := filter (\<lambda>r. \<not> (rcat r \<in> set yolo_categories \<and> sweeps now r)) (rows cs)\<rparr>)"
proof -
  have wf: "store_wf (cs\<lparr>rows := filter P (rows cs)\<rparr>)" for P
    using assms(3) by (simp add: store_wf_def distinct_map_filter_key)
  have len: "length (filter (\<lambda>r. rcat r = ''safety'' \<and> sweeps now r) xs)
      + length (filter (\<lambda>r. \<not> (rcat r = ''safety'' \<and> sweeps now r) \<and> rcat r = ''general'' \<and> sweeps now r) xs)
    = length (filter (\<lambda>r. (rcat r = ''safety'' \<or> rcat r = ''general'') \<and> sweeps now r) xs)" for xs
    by (induction xs) auto
  have keep: "filter (\<lambda>r. \<not> (rcat r = ''safety'' \<and> sweeps now r) \<and> \<not> (rcat r = ''general'' \<and> sweeps now r)) xs
    = filter (\<lambda>r. \<not> ((rcat r = ''safety'' \<or> rcat r = ''general'') \<and> sweeps now r)) xs" for xs
    by (rule filter_cong) auto
  show ?thesis
    using assms wf
    by (simp add: purge_expired_yolo_def yolo_categories_def purge_category_rows
        conj_commute[of _ "_ \<noteq> _"] del: purge_categories.simps(2) de_Morgan_conj)
       (simp add: len[simplified] keep[simplified])
qed

text \<open>
  On a readable, writable store the sweep removes exactly the rows of the two YOLO categories
  whose key names a window and whose window has ended, keeps every other row in its place, and
  reports how many it removed.
\<close>

theorem purge_removes_exactly_ended:
  assumes "can_read cs" "can_write cs" "store_wf cs"
  shows "purge_expired_yolo now cs =
    (Inr (length (filter (\<lambda>r. rcat r \<in> set yolo_categories \<and> sweeps now r) (rows cs))),
     cs\<lparr>rows := filter (\<lambda>r. \<not> (rcat r \<in> set yolo_categories \<and> sweeps now r)) (rows cs)\<rparr>)"
  using assms by (rule purge_expired_rows)

text \<open>
  The sweep changes no chat's answer: a thread whose window had not ended keeps it, and one
  whose window had ended had none already, now and later.
\<close>

theorem purge_keeps_answers:
  assumes "can_read cs" "can_write cs" "store_wf cs" "leaf_key cs (yolo_key t)" "now \<le> now'"
  shows "yolo_live now' (snd (purge_expired_yolo now cs)) t = yolo_live now' cs t"
proof -
  let ?gone = "\<lambda>r. rcat r \<in> set yolo_categories \<and> sweeps now r"
  let ?cs = "cs\<lparr>rows := filter (\<lambda>r. \<not> ?gone r) (rows cs)\<rparr>"
  have after: "snd (purge_expired_yolo now cs) = ?cs"
    using purge_expired_rows[OF assms(1-3)] by simp
  have leaf: "leaf_key ?cs (yolo_key t)" using assms(4) by (rule leaf_key_filter)
  have live: "yolo_live now' s t \<longleftrightarrow> t \<noteq> [] \<and> (\<exists>r. find_row s (yolo_key t) = Some r \<and> window_open now' (rval r))"
    if "leaf_key s (yolo_key t)" "can_read s" for s
    using that by (cases "find_row s (yolo_key t)")
      (auto simp: yolo_live_def cs_get_row cs_get_leaf_missing window_open_def)
  show ?thesis
  proof (cases "find_row cs (yolo_key t)")
    case None
    then have "find_row ?cs (yolo_key t) = None"
      by (auto simp: find_row_def find_None_iff)
    with None leaf assms show ?thesis by (simp add: after live)
  next
    case (Some r)
    show ?thesis
    proof (cases "?gone r")
      case True
      then have "\<not> window_open now' (rval r)"
        using assms(5) by (auto simp: sweeps_def window_ended_iff intro: window_open_earlier)
      moreover have "find_row ?cs (yolo_key t) = None"
        using True Some assms(3) find_row_mem[OF assms(3)]
        by (force simp: find_row_def find_None_iff dest: find_row_SomeD)
      ultimately show ?thesis using Some leaf assms by (simp add: after live)
    next
      case False
      then have "find_row ?cs (yolo_key t) = Some r"
        using Some find_filter_keep[where P = "\<lambda>r. \<not> ?gone r"] by (simp add: find_row_def)
      with Some leaf assms show ?thesis by (simp add: after live)
    qed
  qed
qed

end
