(* ===== verification/TaskGrants.thy ===== *)
theory TaskGrants
  imports Yolo
begin

text \<open>
  Task-scoped grants (kazma_core/safety/task_grants.py): one record under
  \<open>task_grant.<thread>\<close> lets every danger tool of the thread run until the user's next message
  or its end time.
\<close>

definition default_task_ttl :: int where
  "default_task_ttl = 600"

definition task_key :: "string \<Rightarrow> string" where
  "task_key tid = ''task_grant.'' @ tid"

record task_info =
  ti_since :: pyval
  ti_actor :: pyval
  ti_ttl :: pyval
  ti_expires :: pyval
  ti_remaining :: "real option"

text \<open>The shapes of the status dict; the last carries whether the record says \<open>enabled\<close>.\<close>

datatype task_status =
    TNoThread
  | TInactive
  | TFailed exn
  | TExpired
  | TStatus bool task_info

fun task_active :: "task_status \<Rightarrow> bool" where
  "task_active (TStatus b _) = b"
| "task_active _ = False"

definition task_payload :: "real \<Rightarrow> string \<Rightarrow> int \<Rightarrow> pydict" where
  "task_payload now actor ttl =
     [(''enabled'', PBool True), (''since'', PFloat now), (''actor'', PStr actor),
      (''ttl_seconds'', PInt ttl),
      (''expires_at'', if ttl \<noteq> 0 then PFloat (now + of_int ttl) else PNone)]"

definition task_info_of :: "real \<Rightarrow> pydict \<Rightarrow> task_info" where
  "task_info_of now d =
     \<lparr>ti_since = dget d ''since'', ti_actor = dget d ''actor'',
      ti_ttl = (if map_of d ''ttl_seconds'' = None then PInt default_task_ttl else dget d ''ttl_seconds''),
      ti_expires = dget d ''expires_at'',
      ti_remaining =
        (if truthy (dget d ''expires_at'')
         then (case py_float (dget d ''expires_at'') of
                 None \<Rightarrow> None
               | Some e \<Rightarrow> if e - now = 0 then None else Some (round_tenth (e - now)))
         else None)\<rparr>"

text \<open>The record a stored value stands for; a bare True is a record with no end time.\<close>

definition task_record :: "pyval \<Rightarrow> pydict option" where
  "task_record raw =
     (if raw = PBool True
      then Some [(''enabled'', PBool True), (''since'', PInt 0), (''ttl_seconds'', PInt default_task_ttl)]
      else case raw of PDict d \<Rightarrow> Some d | _ \<Rightarrow> None)"

text \<open>
  \<open>task_grant_status\<close> catches every exception. An ended record is removed; a failed removal
  changes nothing about the answer.
\<close>

definition task_grant_status :: "real \<Rightarrow> cstore \<Rightarrow> string option \<Rightarrow> task_status \<times> cstore" where
  "task_grant_status now cs tid =
     (case tid of
        None \<Rightarrow> (TNoThread, cs)
      | Some t \<Rightarrow>
          if t = [] then (TNoThread, cs)
          else (case cs_get cs (task_key t) of
            Inl e \<Rightarrow> (TFailed e, cs)
          | Inr raw \<Rightarrow>
              (case task_record raw of
                 None \<Rightarrow> (TInactive, cs)
               | Some d \<Rightarrow>
                   if dget d ''expires_at'' = PNone
                   then (TStatus (truthy (dget d ''enabled'')) (task_info_of now d), cs)
                   else (case expiry d of
                           None \<Rightarrow> (TFailed (ValueError ''could not convert to float''), cs)
                         | Some e \<Rightarrow>
                             if e \<le> now
                             then (TExpired, (case cs_delete cs (task_key t) of
                                                Inl _ \<Rightarrow> cs | Inr (_, cs') \<Rightarrow> cs'))
                             else (TStatus (truthy (dget d ''enabled'')) (task_info_of now d), cs)))))"

definition has_task_grant :: "real \<Rightarrow> cstore \<Rightarrow> string option \<Rightarrow> bool \<times> cstore" where
  "has_task_grant now cs tid =
     (case tid of
        None \<Rightarrow> (False, cs)
      | Some t \<Rightarrow>
          if t = [] then (False, cs)
          else (case task_grant_status now cs (Some t) of (st, cs') \<Rightarrow> (task_active st, cs')))"

definition grant_task ::
    "real \<Rightarrow> cstore \<Rightarrow> string \<Rightarrow> string \<Rightarrow> int option \<Rightarrow> (exn + task_status) \<times> cstore" where
  "grant_task now cs tid actor ttl_seconds =
     (if tid = [] then (Inr TNoThread, cs)
      else let ttl = (case ttl_seconds of Some n \<Rightarrow> n | None \<Rightarrow> default_task_ttl) in
        case cs_set now cs (task_key tid) (PDict (task_payload now actor ttl)) ''safety'' of
          Inl e \<Rightarrow> (Inl e, cs)
        | Inr cs' \<Rightarrow> (case task_grant_status now cs' (Some tid) of (st, cs'') \<Rightarrow> (Inr st, cs'')))"

definition clear_task_grant :: "cstore \<Rightarrow> string \<Rightarrow> bool \<times> cstore" where
  "clear_task_grant cs tid =
     (if tid = [] then (False, cs)
      else case cs_get cs (task_key tid) of
        Inl e \<Rightarrow> (False, cs)
      | Inr existing \<Rightarrow>
          if existing = PNone then (False, cs)
          else (case cs_delete cs (task_key tid) of
                  Inl e \<Rightarrow> (False, cs)
                | Inr (_, cs') \<Rightarrow> (True, cs')))"

subsection \<open>What a thread's task grant says\<close>

definition task_open :: "real \<Rightarrow> pyval \<Rightarrow> bool" where
  "task_open now raw \<longleftrightarrow>
     (\<exists>d. task_record raw = Some d \<and> truthy (dget d ''enabled'') \<and>
        (dget d ''expires_at'' = PNone \<or> (\<exists>e. expiry d = Some e \<and> now < e)))"

definition task_live :: "real \<Rightarrow> cstore \<Rightarrow> string \<Rightarrow> bool" where
  "task_live now cs t \<longleftrightarrow> t \<noteq> [] \<and> (\<exists>raw. cs_get cs (task_key t) = Inr raw \<and> task_open now raw)"

lemma task_open_earlier: "task_open now' raw \<Longrightarrow> now \<le> now' \<Longrightarrow> task_open now raw"
  by (auto simp: task_open_def)

lemma task_live_earlier: "task_live now' cs t \<Longrightarrow> now \<le> now' \<Longrightarrow> task_live now cs t"
  by (auto simp: task_live_def intro: task_open_earlier)

lemma has_task_grant_None [simp]: "has_task_grant now cs None = (False, cs)"
  by (simp add: has_task_grant_def)

lemma has_task_grant_empty [simp]: "has_task_grant now cs (Some []) = (False, cs)"
  by (simp add: has_task_grant_def)

lemma has_task_grant_live: "task_live now cs t \<Longrightarrow> has_task_grant now cs (Some t) = (True, cs)"
  by (auto simp: task_live_def task_open_def has_task_grant_def task_grant_status_def
      split: option.splits)

lemma has_task_grant_not_live:
  assumes "\<not> task_live now cs t"
  shows "has_task_grant now cs (Some t) = (False, cs) \<or>
     (can_write cs \<and> has_task_grant now cs (Some t) = (False, drop_row (task_key t) cs))"
proof (cases "t = [] \<or> (\<exists>e. cs_get cs (task_key t) = Inl e)")
  case True
  then show ?thesis by (auto simp: has_task_grant_def task_grant_status_def)
next
  case False
  then obtain raw where raw: "cs_get cs (task_key t) = Inr raw" "t \<noteq> []"
    by (cases "cs_get cs (task_key t)") auto
  with assms have "\<not> task_open now raw" by (auto simp: task_live_def)
  then show ?thesis using raw
    by (auto simp: has_task_grant_def task_grant_status_def cs_delete_eq task_open_def
        split: option.splits if_splits)
qed

lemma has_task_grant_iff: "fst (has_task_grant now cs (Some t)) \<longleftrightarrow> task_live now cs t"
  by (cases "task_live now cs t") (auto simp: has_task_grant_live dest!: has_task_grant_not_live)

lemma snd_has_task_grant: "snd (has_task_grant now cs (Some t)) \<in> {cs, drop_row (task_key t) cs}"
  by (cases "task_live now cs t") (auto simp: has_task_grant_live dest!: has_task_grant_not_live)

definition task_check :: "string \<Rightarrow> real \<Rightarrow> cstore \<Rightarrow> cstore" where
  "task_check t now cs = snd (has_task_grant now cs (Some t))"

lemma task_record_None [simp]: "task_record PNone = None"
  by (simp add: task_record_def)

lemma task_live_drop: "leaf_key cs (task_key t) \<Longrightarrow> \<not> task_live now (drop_row (task_key t) cs) t"
  by (auto simp: task_live_def cs_get_drop_leaf task_open_def split: if_splits)

lemma task_check_keeps:
  assumes "leaf_key cs (task_key t)" "now \<le> now'"
  shows "task_live now' (task_check t now cs) t = task_live now' cs t"
proof (cases "task_live now cs t")
  case True
  then show ?thesis by (simp add: task_check_def has_task_grant_live)
next
  case False
  then have "\<not> task_live now' cs t" using assms(2) task_live_earlier by blast
  moreover have "\<not> task_live now' (drop_row (task_key t) cs) t"
    using assms(1) by (rule task_live_drop)
  moreover have "task_check t now cs \<in> {cs, drop_row (task_key t) cs}"
    using snd_has_task_grant by (simp add: task_check_def)
  ultimately show ?thesis by auto
qed

interpretation task: timed_approval
  "\<lambda>now cs. task_live now cs t" "task_check t" "\<lambda>cs. leaf_key cs (task_key t)" for t
proof unfold_locales
  fix cs now
  assume "leaf_key cs (task_key t)"
  then show "leaf_key (task_check t now cs) (task_key t)"
    using snd_has_task_grant[of now cs t] by (auto simp: task_check_def leaf_key_drop)
qed (auto simp: task_check_keeps intro: task_live_earlier)

subsection \<open>Granting and clearing\<close>

lemma task_open_payload:
  "task_open now' (PDict (task_payload now actor ttl)) \<longleftrightarrow> (ttl = 0 \<or> now' < now + of_int ttl)"
  by (auto simp: task_open_def task_record_def task_payload_def expiry_def)

text \<open>
  A successful \<open>grant_task\<close> opens the thread's grant until, and not at, the end of its
  lifetime: the requested seconds, or 600 when none was requested. A requested lifetime of 0 makes
  a grant without end; a negative one is over at once and removed.
\<close>

theorem grant_task_opens_window:
  assumes "grant_task now cs t actor req = (Inr st, cs')"
    and "can_read cs" and "t \<noteq> []" and "leaf_key cs (task_key t)" and "now \<le> now'"
  shows "task_live now' cs' t \<longleftrightarrow>
       (let ttl = (case req of Some n \<Rightarrow> n | None \<Rightarrow> default_task_ttl) in ttl = 0 \<or> now' < now + of_int ttl)"
proof -
  let ?ttl = "case req of Some n \<Rightarrow> n | None \<Rightarrow> default_task_ttl"
  let ?cs = "put_row now (task_key t) (PDict (task_payload now actor ?ttl)) ''safety'' cs"
  have cs': "cs' = task_check t now ?cs"
    using assms(1,3) by (auto simp: grant_task_def cs_set_def Let_def task_check_def has_task_grant_def
        split: if_splits sum.splits prod.splits)
  have "leaf_key ?cs (task_key t)" using assms(4) by (simp add: leaf_key_put)
  then have "task_live now' cs' t = task_live now' ?cs t"
    unfolding cs' using assms(5) by (rule task_check_keeps)
  also have "\<dots> \<longleftrightarrow> ?ttl = 0 \<or> now' < now + of_int ?ttl"
    using assms(2,3) by (simp add: task_live_def task_open_payload)
  finally show ?thesis by (simp add: Let_def)
qed

end
