(* ===== verification/ToolTiers.thy ===== *)
theory ToolTiers
  imports Prelude
begin

text \<open>
  The tables of kazma_core/safety/hitl.py that classify a tool: its tier, the canonical danger
  list, and the tools that ask every time.
\<close>

definition TOOL_TIERS :: "(string \<times> string) list" where
  "TOOL_TIERS =
    [(''file_read'', ''read''), (''file_search'', ''read''), (''file_list'', ''read''),
     (''codebase_search'', ''read''), (''codebase_status'', ''read''),
     (''memory_search'', ''read''), (''sqlite_query'', ''read''),
     (''current_datetime'', ''read''), (''list_proposals'', ''read''),
     (''memory_store'', ''write''), (''file_write'', ''danger''),
     (''file_apply_patch'', ''danger''), (''file_apply_patch_set'', ''danger''),
     (''file_delete'', ''danger''), (''shell_exec'', ''danger''), (''code_exec'', ''danger''),
     (''python_exec'', ''danger''), (''schedule_task'', ''danger''),
     (''cancel_scheduled'', ''danger''), (''edit_scheduled'', ''danger''),
     (''vault_retrieve'', ''danger''), (''vault_delete'', ''danger''),
     (''config_save'', ''danger''), (''run_unit_tests'', ''danger''),
     (''run_tests'', ''danger''), (''git_commit'', ''danger''), (''git_push_pull'', ''danger''),
     (''github_create_pr'', ''danger''), (''github_merge_pr'', ''danger''),
     (''install_python_packages'', ''danger''), (''install_npm_packages'', ''danger''),
     (''install_agent_skill'', ''danger''), (''uninstall_agent_skill'', ''danger''),
     (''browser_eval_js'', ''danger''), (''computer_use'', ''danger''),
     (''request_path_access'', ''danger''), (''email_accounts'', ''safe''),
     (''email_list'', ''safe''), (''email_get'', ''safe''), (''email_analyze'', ''safe''),
     (''email_send'', ''danger''), (''email_delete'', ''danger''),
     (''email_categorize'', ''danger''), (''x_post'', ''danger''),
     (''x_delete_post'', ''danger''), (''x_schedule_post'', ''danger''),
     (''x_cancel_scheduled_post'', ''danger''), (''x_list_scheduled'', ''read''),
     (''x_status'', ''read''), (''x_download_media'', ''write''), (''x_draft_posts'', ''write''),
     (''file_append'', ''danger''), (''git_push'', ''danger''), (''git_pull'', ''danger''),
     (''git_merge'', ''danger''), (''git_checkout'', ''danger''),
     (''github_create_issue'', ''danger''), (''github_comment_issue'', ''danger''),
     (''send_message'', ''danger''), (''send_file'', ''danger''),
     (''dispatch_notification'', ''danger''), (''vault_store'', ''danger''),
     (''memory_admin'', ''danger''), (''memory_delete_entity'', ''danger''),
     (''memory_invalidate'', ''danger''), (''memory_forget_mentions'', ''danger''),
     (''memory_merge_entities'', ''danger''), (''memory_purge_empty_entities'', ''danger''),
     (''create_event'', ''danger''), (''update_event'', ''danger''),
     (''delete_event'', ''danger''), (''browser_click'', ''danger''),
     (''browser_fill_form'', ''danger''), (''browser_navigate'', ''danger''),
     (''document_redact'', ''danger''), (''pdf_redact'', ''danger''),
     (''pdf_fill_form'', ''danger''), (''document_cancel'', ''danger''),
     (''update_scratchpad'', ''write''), (''save_proposal'', ''write''),
     (''discard_proposal'', ''write''), (''task_ledger_update'', ''write''),
     (''memory_link_entities'', ''write''), (''knowledge_create_library'', ''write''),
     (''knowledge_ingest_url'', ''write''), (''knowledge_ingest_site'', ''write''),
     (''document_import'', ''write''), (''document_index'', ''write''),
     (''document_convert'', ''write''), (''convert_document'', ''write''),
     (''generate_docx'', ''write''), (''generate_pdf'', ''write''),
     (''generate_pptx'', ''write''), (''generate_xlsx'', ''write''),
     (''generate_markdown_doc'', ''write''), (''generate_image'', ''write''),
     (''generate_ui_mockup'', ''write''), (''pdf_merge'', ''write''), (''pdf_split'', ''write''),
     (''ocr_document'', ''write''), (''read_url_to_file'', ''write''),
     (''export_session'', ''write''), (''format_code'', ''write''),
     (''activate_skill'', ''write''), (''browser_screenshot'', ''write''),
     (''spawn_agent'', ''write''), (''spawn_agents'', ''write''),
     (''dispatch_swarm'', ''write''), (''handoff_to_worker'', ''write''),
     (''run_research_pipeline'', ''write''), (''start_deep_research'', ''write''),
     (''cancel_research_session'', ''write''), (''digest_research_file'', ''write''),
     (''summarize_research_file'', ''write''), (''synthesize_from_digests'', ''write''),
     (''plan_research_queries'', ''write''), (''send_approval_request'', ''write''),
     (''mcp_test_server'', ''write''), (''list_scheduled'', ''read''),
     (''browser_extract_text'', ''read''), (''find_free_slots'', ''read''),
     (''list_events'', ''read''), (''lint_code'', ''read''), (''execute_db_query'', ''read''),
     (''inspect_db_schema'', ''read''), (''context_info'', ''read''),
     (''get_system_stats'', ''read''), (''list_active_processes'', ''read''),
     (''read_system_logs'', ''read''), (''document_read'', ''read''),
     (''document_search'', ''read''), (''document_status'', ''read''),
     (''read_document'', ''read''), (''parse_document'', ''read''), (''pdf_info'', ''read''),
     (''git_status'', ''read''), (''git_log'', ''read''), (''git_diff'', ''read''),
     (''repository_metrics'', ''read''), (''github_list_issues'', ''read''),
     (''knowledge_list_libraries'', ''read''), (''knowledge_search'', ''read''),
     (''mcp_get_prompt'', ''read''), (''mcp_list_prompts'', ''read''),
     (''mcp_list_resources'', ''read''), (''mcp_read_resource'', ''read''),
     (''analyze_image'', ''read''), (''analyze_local_image'', ''read''),
     (''memory_list_beliefs'', ''read''), (''memory_list_entities'', ''read''),
     (''arabic_translate'', ''read''), (''hijri_convert'', ''read''),
     (''insert_diacritics'', ''read''), (''critique_synthesis_gaps'', ''read''),
     (''list_research_papers'', ''read''), (''list_research_chunks'', ''read''),
     (''read_research_chunk'', ''read''), (''research_readiness'', ''read''),
     (''research_session_status'', ''read''), (''crawl_site'', ''read''),
     (''crawl_page'', ''read''), (''read_url'', ''read''), (''web_search'', ''read''),
     (''web_search_duckduckgo'', ''read''), (''vault_list'', ''read''),
     (''list_agent_skills'', ''read''), (''search_agent_skills'', ''read''),
     (''check_swarm_task'', ''read''), (''list_runs'', ''read''), (''run_status'', ''read''),
     (''check_environment'', ''read''), (''config_read'', ''read'')]"

definition AUTO_APPROVED_TIERS :: "string list" where
  "AUTO_APPROVED_TIERS = [''read'', ''write'', ''safe'']"

definition CANONICAL_DANGER_TOOLS :: "string list" where
  "CANONICAL_DANGER_TOOLS =
    [''file_write'', ''file_apply_patch'', ''file_apply_patch_set'', ''file_delete'',
     ''file_append'', ''shell_exec'', ''code_exec'', ''python_exec'', ''schedule_task'',
     ''cancel_scheduled'', ''edit_scheduled'', ''vault_retrieve'', ''vault_delete'',
     ''config_save'', ''run_unit_tests'', ''run_tests'', ''git_commit'', ''git_push'',
     ''git_pull'', ''git_merge'', ''git_checkout'', ''github_create_pr'', ''github_merge_pr'',
     ''github_create_issue'', ''github_comment_issue'', ''send_message'', ''send_file'',
     ''dispatch_notification'', ''vault_store'', ''memory_admin'', ''memory_delete_entity'',
     ''memory_invalidate'', ''memory_forget_mentions'', ''memory_merge_entities'',
     ''memory_purge_empty_entities'', ''create_event'', ''update_event'', ''delete_event'',
     ''browser_click'', ''browser_fill_form'', ''browser_navigate'', ''document_redact'',
     ''pdf_redact'', ''pdf_fill_form'', ''document_cancel'', ''install_python_packages'',
     ''install_npm_packages'', ''install_agent_skill'', ''uninstall_agent_skill'',
     ''email_send'', ''email_delete'', ''email_categorize'', ''browser_eval_js'',
     ''computer_use'', ''request_path_access'', ''x_post'', ''x_delete_post'',
     ''x_schedule_post'', ''x_cancel_scheduled_post'']"

definition ALWAYS_HITL_TOOLS :: "string list" where
  "ALWAYS_HITL_TOOLS =
    [''x_post'', ''x_delete_post'', ''x_schedule_post'', ''x_cancel_scheduled_post'',
     ''request_path_access'']"

definition get_tool_tier :: "string \<Rightarrow> string" where
  "get_tool_tier name = (case map_of TOOL_TIERS name of None \<Rightarrow> ''unknown'' | Some t \<Rightarrow> t)"

subsection \<open>The tables agree\<close>

text \<open>No canonical danger tool has a tier that runs without a card.\<close>

lemma canonical_lookup:
  "list_all (\<lambda>t. map_of TOOL_TIERS t = Some ''danger'') CANONICAL_DANGER_TOOLS"
  unfolding CANONICAL_DANGER_TOOLS_def
  apply (simp only: list.pred_inject)
  apply (intro conjI TrueI)
  apply (simp_all only: TOOL_TIERS_def str_eval)
  done

lemma canonical_tier: "t \<in> set CANONICAL_DANGER_TOOLS \<Longrightarrow> get_tool_tier t = ''danger''"
  using canonical_lookup by (simp add: list_all_iff get_tool_tier_def)

lemma danger_not_auto: "''danger'' \<notin> set AUTO_APPROVED_TIERS"
  by (simp add: AUTO_APPROVED_TIERS_def)

lemma unknown_not_auto: "''unknown'' \<notin> set AUTO_APPROVED_TIERS"
  by (simp add: AUTO_APPROVED_TIERS_def)

lemma always_hitl_canonical: "set ALWAYS_HITL_TOOLS \<subseteq> set CANONICAL_DANGER_TOOLS"
  by (simp only: ALWAYS_HITL_TOOLS_def CANONICAL_DANGER_TOOLS_def list.set insert_subset
      empty_subsetI insert_iff str_eval)

end
