(* ===== verification/HitlGrants.thy ===== *)
theory HitlGrants
  imports Yolo ToolTiers
begin

text \<open>
  Tool grants for a thread (kazma_core/safety/hitl_grants.py): a record under
  \<open>hitl_grant.<thread>.<tool>\<close> lets that tool run on that thread until its end time.
\<close>

definition default_grant_ttl :: int where
  "default_grant_ttl = 1800"

definition grant_ttl_seconds :: "environ \<Rightarrow> int" where
  "grant_ttl_seconds env = ttl_from_env (env_or_empty env ''KAZMA_HITL_GRANT_TTL_SECONDS'') default_grant_ttl"

subsection \<open>The tools an answer grants\<close>

text \<open>The label of a gate about several tools: digits, a blank, the word tools.\<close>

definition is_tool_batch_label :: "string \<Rightarrow> bool" where
  "is_tool_batch_label name =
     (let s = py_strip name; ds = takeWhile is_digit s
      in ds \<noteq> [] \<and> drop (length ds) s = '' tools'')"

text \<open>\<open>list(dict.fromkeys(xs))\<close>: the first occurrence of each.\<close>

fun dedup :: "'a list \<Rightarrow> 'a list" where
  "dedup [] = []"
| "dedup (x # xs) = x # filter (\<lambda>y. y \<noteq> x) (dedup xs)"

text \<open>A pending entry is the name its dict carries; None when it is no dict or has no name.\<close>

definition tools_to_grant :: "string option list \<Rightarrow> string \<Rightarrow> string \<Rightarrow> string list" where
  "tools_to_grant pending pending_tool_name explicit =
     (let asked0 = filter (\<lambda>n. n \<noteq> []) (List.map_filter id pending);
          asked = (if asked0 = [] \<and> pending_tool_name \<noteq> [] \<and> \<not> is_tool_batch_label pending_tool_name
                   then [pending_tool_name] else asked0);
          named = py_strip explicit;
          chosen = (if named \<noteq> [] \<and> \<not> is_tool_batch_label named \<and> (asked = [] \<or> named \<in> set asked)
                    then asked @ [named] else asked)
      in dedup chosen)"

definition one_time_only :: "string option list \<Rightarrow> string \<Rightarrow> string list" where
  "one_time_only pending pending_tool_name =
     filter (\<lambda>n. n \<in> set ALWAYS_HITL_TOOLS) (tools_to_grant pending pending_tool_name [])"

subsection \<open>Grants\<close>

definition grant_key :: "string \<Rightarrow> string \<Rightarrow> string" where
  "grant_key tid tool = ''hitl_grant.'' @ tid @ ''.'' @ tool"

definition grant_prefix :: "string \<Rightarrow> string" where
  "grant_prefix tid = ''hitl_grant.'' @ tid @ ''.''"

datatype grant_result =
    GrantNeedsBoth
  | GrantOneTimeOnly string
  | Granted string string int pyval "int option"

definition grant_payload :: "real \<Rightarrow> string \<Rightarrow> string \<Rightarrow> int \<Rightarrow> pydict" where
  "grant_payload now tool actor ttl =
     [(''enabled'', PBool True), (''tool'', PStr tool), (''since'', PFloat now), (''actor'', PStr actor),
      (''ttl_seconds'', PInt ttl), (''expires_at'', expires_value now ttl)]"

definition grant_tool ::
    "environ \<Rightarrow> real \<Rightarrow> cstore \<Rightarrow> string \<Rightarrow> string \<Rightarrow> string \<Rightarrow> int option \<Rightarrow> (exn + grant_result) \<times> cstore" where
  "grant_tool env now cs tid tool actor ttl_seconds =
     (if tid = [] \<or> tool = [] then (Inr GrantNeedsBoth, cs)
      else if tool \<in> set ALWAYS_HITL_TOOLS then (Inr (GrantOneTimeOnly tool), cs)
      else let ttl = (case ttl_seconds of None \<Rightarrow> grant_ttl_seconds env | Some n \<Rightarrow> max 0 n) in
        case cs_set now cs (grant_key tid tool) (PDict (grant_payload now tool actor ttl)) ''safety'' of
          Inl e \<Rightarrow> (Inl e, cs)
        | Inr cs' \<Rightarrow>
            (Inr (Granted tool tid ttl (expires_value now ttl) (if 0 < ttl then Some ttl else None)), cs'))"

definition has_tool_grant :: "real \<Rightarrow> cstore \<Rightarrow> string option \<Rightarrow> string \<Rightarrow> (exn + bool) \<times> cstore" where
  "has_tool_grant now cs tid tool =
     (case tid of
        None \<Rightarrow> (Inr False, cs)
      | Some t \<Rightarrow>
          if t = [] \<or> tool = [] then (Inr False, cs)
          else (case cs_get cs (grant_key t tool) of
            Inl e \<Rightarrow> (Inl e, cs)
          | Inr raw \<Rightarrow>
              if \<not> truthy raw then (Inr False, cs)
              else if eq_one raw \<or> raw \<in> {PStr ''1'', PStr ''true'', PStr ''True''} then (Inr True, cs)
              else (case raw of
                PDict d \<Rightarrow>
                  if \<not> truthy (dget d ''enabled'') then (Inr False, cs)
                  else (case expiry d of
                          Some e \<Rightarrow> if e < now then delete_then cs (grant_key t tool) False
                                    else (Inr True, cs)
                        | None \<Rightarrow> (Inr True, cs))
              | _ \<Rightarrow> (Inr False, cs))))"

definition grant_keys :: "cstore \<Rightarrow> string \<Rightarrow> string list" where
  "grant_keys cs tid =
     (let p = grant_prefix tid in
      case cs_get_category cs ''safety'' of
        Inl e \<Rightarrow> []
      | Inr cat \<Rightarrow>
          (let keys = filter (starts_with p) (map fst cat) in
           if keys \<noteq> [] then keys
           else case cs_get_all cs of
             Inl e \<Rightarrow> []
           | Inr all \<Rightarrow>
               (case map_of all ''safety'' of
                  Some safety \<Rightarrow> filter (starts_with p) (map fst safety)
                | None \<Rightarrow> filter (starts_with p) (map fst all))))"

text \<open>A delete that raises is logged and the next key is tried; the count is of the deletes made.\<close>

fun clear_keys :: "cstore \<Rightarrow> string list \<Rightarrow> nat \<Rightarrow> nat \<times> cstore" where
  "clear_keys cs [] n = (n, cs)"
| "clear_keys cs (k # ks) n =
     (case cs_delete cs k of Inl e \<Rightarrow> clear_keys cs ks n | Inr (_, cs') \<Rightarrow> clear_keys cs' ks (n + 1))"

definition clear_grants :: "cstore \<Rightarrow> string \<Rightarrow> nat \<times> cstore" where
  "clear_grants cs tid = (if tid = [] then (0, cs) else clear_keys cs (grant_keys cs tid) 0)"

record grant_line =
  gl_tool :: string
  gl_remaining :: "int option"
  gl_actor :: pyval

fun list_keys :: "real \<Rightarrow> cstore \<Rightarrow> string \<Rightarrow> string list \<Rightarrow> (exn + grant_line list) \<times> cstore" where
  "list_keys now cs tid [] = (Inr [], cs)"
| "list_keys now cs tid (k # ks) =
     (let tool = drop (length (grant_prefix tid)) k in
      case has_tool_grant now cs (Some tid) tool of
        (Inl e, cs') \<Rightarrow> (Inl e, cs')
      | (Inr False, cs') \<Rightarrow> list_keys now cs' tid ks
      | (Inr True, cs') \<Rightarrow>
          (case cs_get cs' k of
             Inl e \<Rightarrow> (Inl e, cs')
           | Inr raw \<Rightarrow>
               (let line = (case raw of
                    PDict d \<Rightarrow> \<lparr>gl_tool = tool,
                                gl_remaining = map_option (\<lambda>e. max 0 (trunc (e - now))) (expiry d),
                                gl_actor = dget d ''actor''\<rparr>
                  | _ \<Rightarrow> \<lparr>gl_tool = tool, gl_remaining = None, gl_actor = PNone\<rparr>)
                in case list_keys now cs' tid ks of
                     (Inl e, cs'') \<Rightarrow> (Inl e, cs'')
                   | (Inr ls, cs'') \<Rightarrow> (Inr (line # ls), cs''))))"

definition list_grants :: "real \<Rightarrow> cstore \<Rightarrow> string \<Rightarrow> (exn + grant_line list) \<times> cstore" where
  "list_grants now cs tid = (if tid = [] then (Inr [], cs) else list_keys now cs tid (grant_keys cs tid))"

subsection \<open>Turning YOLO off\<close>

text \<open>
  \<open>disable_yolo\<close> (kazma_core/safety/yolo.py) drops the window and then the thread's tool
  grants. \<open>clear_grants\<close> raises nothing here, so the call only raises when the first delete does.
\<close>

definition disable_yolo :: "cstore \<Rightarrow> string \<Rightarrow> (exn + unit) \<times> cstore" where
  "disable_yolo cs tid =
     (case cs_delete cs (yolo_key tid) of
        Inl e \<Rightarrow> (Inl e, cs)
      | Inr (_, cs') \<Rightarrow> (Inr (), snd (clear_grants cs' tid)))"

subsection \<open>What a tool grant says\<close>

definition grant_open :: "real \<Rightarrow> pyval \<Rightarrow> bool" where
  "grant_open now raw \<longleftrightarrow>
     eq_one raw \<or> raw \<in> {PStr ''1'', PStr ''true'', PStr ''True''} \<or> window_open now raw"

definition tool_live :: "real \<Rightarrow> cstore \<Rightarrow> string \<Rightarrow> string \<Rightarrow> bool" where
  "tool_live now cs t tool \<longleftrightarrow>
     t \<noteq> [] \<and> tool \<noteq> [] \<and> (\<exists>raw. cs_get cs (grant_key t tool) = Inr raw \<and> grant_open now raw)"

lemma eq_one_truthy: "eq_one raw \<Longrightarrow> truthy raw"
  by (cases raw) auto

lemma grant_open_truthy: "grant_open now raw \<Longrightarrow> truthy raw"
  by (auto simp: grant_open_def window_open_def eq_one_truthy)

lemma grant_open_earlier: "grant_open now' raw \<Longrightarrow> now \<le> now' \<Longrightarrow> grant_open now raw"
  by (auto simp: grant_open_def intro: window_open_earlier)

lemma tool_live_earlier: "tool_live now' cs t tool \<Longrightarrow> now \<le> now' \<Longrightarrow> tool_live now cs t tool"
  by (auto simp: tool_live_def intro: grant_open_earlier)

lemma has_tool_grant_live:
  assumes "tool_live now cs t tool"
  shows "has_tool_grant now cs (Some t) tool = (Inr True, cs)"
proof -
  from assms obtain raw where raw: "cs_get cs (grant_key t tool) = Inr raw" "grant_open now raw"
    and "t \<noteq> []" "tool \<noteq> []" by (auto simp: tool_live_def)
  moreover have "truthy raw" using raw(2) by (rule grant_open_truthy)
  ultimately show ?thesis
    by (auto simp: has_tool_grant_def grant_open_def window_open_def split: option.splits)
qed

lemma has_tool_grant_not_live:
  assumes "\<not> tool_live now cs t tool"
  shows "has_tool_grant now cs (Some t) tool = (Inr False, cs) \<or>
     (can_write cs \<and> has_tool_grant now cs (Some t) tool = (Inr False, drop_row (grant_key t tool) cs)) \<or>
     (\<exists>e. has_tool_grant now cs (Some t) tool = (Inl e, cs))"
proof (cases "t = [] \<or> tool = [] \<or> (\<exists>e. cs_get cs (grant_key t tool) = Inl e)")
  case True
  then show ?thesis by (auto simp: has_tool_grant_def)
next
  case False
  then obtain raw where raw: "cs_get cs (grant_key t tool) = Inr raw" "t \<noteq> []" "tool \<noteq> []"
    by (cases "cs_get cs (grant_key t tool)") auto
  with assms have "\<not> grant_open now raw" by (auto simp: tool_live_def)
  then show ?thesis using raw
    by (cases raw)
       (simp_all add: has_tool_grant_def delete_then_eq grant_open_def window_open_def
          split: option.split, auto)
qed

lemma has_tool_grant_iff:
  "fst (has_tool_grant now cs (Some t) tool) = Inr True \<longleftrightarrow> tool_live now cs t tool"
  by (cases "tool_live now cs t tool")
     (auto simp: has_tool_grant_live dest!: has_tool_grant_not_live)

lemma snd_has_tool_grant:
  "snd (has_tool_grant now cs (Some t) tool) \<in> {cs, drop_row (grant_key t tool) cs}"
  by (cases "tool_live now cs t tool")
     (auto simp: has_tool_grant_live dest!: has_tool_grant_not_live)

definition tool_check :: "string \<Rightarrow> string \<Rightarrow> real \<Rightarrow> cstore \<Rightarrow> cstore" where
  "tool_check t tool now cs = snd (has_tool_grant now cs (Some t) tool)"

lemma tool_live_drop:
  "leaf_key cs (grant_key t tool) \<Longrightarrow> \<not> tool_live now (drop_row (grant_key t tool) cs) t tool"
  by (auto simp: tool_live_def cs_get_drop_leaf grant_open_def window_open_def split: if_splits)

lemma tool_check_keeps:
  assumes "leaf_key cs (grant_key t tool)" "now \<le> now'"
  shows "tool_live now' (tool_check t tool now cs) t tool = tool_live now' cs t tool"
proof (cases "tool_live now cs t tool")
  case True
  then show ?thesis by (simp add: tool_check_def has_tool_grant_live)
next
  case False
  then have "\<not> tool_live now' cs t tool" using assms(2) tool_live_earlier by blast
  moreover have "\<not> tool_live now' (drop_row (grant_key t tool) cs) t tool"
    using assms(1) by (rule tool_live_drop)
  moreover have "tool_check t tool now cs \<in> {cs, drop_row (grant_key t tool) cs}"
    using snd_has_tool_grant by (simp add: tool_check_def)
  ultimately show ?thesis by auto
qed

interpretation tool: timed_approval
  "\<lambda>now cs. tool_live now cs t tool" "tool_check t tool" "\<lambda>cs. leaf_key cs (grant_key t tool)"
  for t tool
proof unfold_locales
  fix cs now
  assume "leaf_key cs (grant_key t tool)"
  then show "leaf_key (tool_check t tool now cs) (grant_key t tool)"
    using snd_has_tool_grant[of now cs t tool] by (auto simp: tool_check_def leaf_key_drop)
qed (auto simp: tool_check_keeps intro: tool_live_earlier)

subsection \<open>Granting and clearing\<close>

lemma grant_open_payload:
  "grant_open now' (PDict (grant_payload now tool actor ttl)) \<longleftrightarrow> (0 < ttl \<longrightarrow> now' \<le> now + of_int ttl)"
  by (auto simp: grant_open_def window_open_def grant_payload_def expiry_def expires_value_def
      split: option.splits)

text \<open>
  \<open>grant_tool\<close> never records a tool that must be asked about every time: it says so and leaves
  the store as it was. Any other tool is granted exactly until the end of the requested lifetime,
  without end when that is 0 or less.
\<close>

theorem grant_tool_opens_window:
  assumes "can_read cs" "can_write cs" "t \<noteq> []" "tool \<noteq> []"
  shows "if tool \<in> set ALWAYS_HITL_TOOLS
    then grant_tool env now cs t tool actor req = (Inr (GrantOneTimeOnly tool), cs)
    else \<exists>g cs'. grant_tool env now cs t tool actor req = (Inr g, cs') \<and>
      (\<forall>now'. tool_live now' cs' t tool \<longleftrightarrow>
         (let ttl = (case req of None \<Rightarrow> grant_ttl_seconds env | Some n \<Rightarrow> max 0 n)
          in ttl \<le> 0 \<or> now' \<le> now + of_int ttl))"
  using assms by (auto simp: grant_tool_def cs_set_def tool_live_def grant_open_payload Let_def)

text \<open>The keys \<open>clear_grants\<close> deletes, on a store that can be read.\<close>

lemma clear_keys_rows:
  "can_write cs \<Longrightarrow> clear_keys cs ks n =
     (n + length ks, cs\<lparr>rows := filter (\<lambda>r. rkey r \<notin> set ks) (rows cs)\<rparr>)"
proof (induction ks arbitrary: cs n)
  case (Cons k ks)
  then have "clear_keys (drop_row k cs) ks (n + 1) =
      (n + 1 + length ks, drop_row k cs\<lparr>rows := filter (\<lambda>r. rkey r \<notin> set ks) (rows (drop_row k cs))\<rparr>)"
    by simp
  with Cons.prems show ?case by (simp add: cs_delete_eq) (simp add: drop_row_def conj_commute)
qed simp

lemma grant_keys_safety:
  assumes "can_read cs" "r \<in> set (rows cs)" "rcat r = ''safety''" "starts_with (grant_prefix t) (rkey r)"
  shows "rkey r \<in> set (grant_keys cs t)"
proof -
  let ?keys = "filter (starts_with (grant_prefix t)) (map fst (map (\<lambda>r. (rkey r, rval r)) (filter (\<lambda>r. rcat r = ''safety'') (rows cs))))"
  have mem: "rkey r \<in> set ?keys" using assms(2-4) by force
  then have "?keys \<noteq> []" by (metis empty_iff list.set(1))
  with assms(1) have "grant_keys cs t = ?keys" by (simp add: grant_keys_def cs_get_category_def Let_def)
  with mem show ?thesis by simp
qed

lemma grant_keys_prefix: "k \<in> set (grant_keys cs t) \<Longrightarrow> starts_with (grant_prefix t) k"
  by (auto simp: grant_keys_def Let_def split: sum.splits option.splits if_splits)

text \<open>
  After \<open>disable_yolo\<close> returns, the window's row and the thread's tool grants in the safety category
  are gone, and every row that is neither is left.
\<close>

lemma disable_yolo_rows:
  assumes "disable_yolo cs t = (Inr (), cs')" "can_read cs" "t \<noteq> []"
  shows "\<exists>P. cs' = cs\<lparr>rows := filter P (rows cs)\<rparr> \<and>
    (\<forall>r \<in> set (rows cs).
       (P r \<longrightarrow> rkey r \<noteq> yolo_key t \<and> \<not> (rcat r = ''safety'' \<and> starts_with (grant_prefix t) (rkey r))) \<and>
       (rkey r \<noteq> yolo_key t \<and> \<not> starts_with (grant_prefix t) (rkey r) \<longrightarrow> P r))"
proof -
  let ?cs = "drop_row (yolo_key t) cs"
  let ?P = "\<lambda>r. rkey r \<noteq> yolo_key t \<and> rkey r \<notin> set (grant_keys ?cs t)"
  have w: "can_write cs" and cs': "cs' = snd (clear_grants ?cs t)"
    using assms(1) by (auto simp: disable_yolo_def cs_delete_eq split: if_splits)
  have "cs' = cs\<lparr>rows := filter ?P (rows cs)\<rparr>"
    using w assms(3) by (simp add: cs' clear_grants_def clear_keys_rows) (simp add: drop_row_def conj_commute)
  moreover have "\<not> (rcat r = ''safety'' \<and> starts_with (grant_prefix t) (rkey r))"
    if "r \<in> set (rows cs)" "?P r" for r
    using that grant_keys_safety[of ?cs r t] assms(2) by (auto simp: drop_row_def)
  ultimately show ?thesis using grant_keys_prefix by (intro exI[of _ ?P]) blast
qed

end
