(* ===== verification/Regex.thy ===== *)
theory Regex
  imports Prelude
begin

text \<open>
  The part of Python's regular expressions the modelled patterns use. A pattern runs on a
  position, the character before it and the text from it on, and gives the positions it can
  end at; \<open>re.search\<close> is true when some start position has an end. Patterns here are
  compiled with \<open>re.IGNORECASE\<close>: both sides are lowered.
\<close>

datatype re =
    Lit string
  | Cls "char \<Rightarrow> bool"
  | Seq re re
  | Alt re re
  | Opt re
  | Plus re
  | Star re
  | WordB
  | Bol
  | Eol

type_synonym pos = "char option \<times> string"

definition is_word :: "char \<Rightarrow> bool" where
  "is_word c \<longleftrightarrow> is_digit c \<or> c = CHR ''_'' \<or>
     (let n = of_char (lower_char c) :: nat in 97 \<le> n \<and> n \<le> 122)"

definition word_before :: "pos \<Rightarrow> bool" where
  "word_before p = (case fst p of None \<Rightarrow> False | Some c \<Rightarrow> is_word c)"

definition word_after :: "pos \<Rightarrow> bool" where
  "word_after p = (case snd p of [] \<Rightarrow> False | c # _ \<Rightarrow> is_word c)"

fun run_lit :: "string \<Rightarrow> pos \<Rightarrow> pos list" where
  "run_lit [] p = [p]"
| "run_lit (l # ls) (b, []) = []"
| "run_lit (l # ls) (b, c # cs) = (if lower_char c = lower_char l then run_lit ls (Some c, cs) else [])"

text \<open>Repetition tries the body again only after it consumed something.\<close>

fun star_fuel :: "nat \<Rightarrow> (pos \<Rightarrow> pos list) \<Rightarrow> pos \<Rightarrow> pos list" where
  "star_fuel 0 f p = [p]"
| "star_fuel (Suc n) f p =
     p # concat (map (\<lambda>q. if length (snd q) < length (snd p) then star_fuel n f q else []) (f p))"

fun run_re :: "re \<Rightarrow> pos \<Rightarrow> pos list" where
  "run_re (Lit s) p = run_lit s p"
| "run_re (Cls P) p = (case snd p of [] \<Rightarrow> [] | c # cs \<Rightarrow> if P c then [(Some c, cs)] else [])"
| "run_re (Seq r1 r2) p = concat (map (run_re r2) (run_re r1 p))"
| "run_re (Alt r1 r2) p = run_re r1 p @ run_re r2 p"
| "run_re (Opt r) p = run_re r p @ [p]"
| "run_re (Star r) p = star_fuel (length (snd p)) (run_re r) p"
| "run_re (Plus r) p = concat (map (\<lambda>q. star_fuel (length (snd q)) (run_re r) q) (run_re r p))"
| "run_re WordB p = (if word_before p \<noteq> word_after p then [p] else [])"
| "run_re Bol p = (if fst p = None then [p] else [])"
| "run_re Eol p = (if snd p = [] \<or> snd p = [CHR 0x0A] then [p] else [])"

fun search_from :: "re \<Rightarrow> char option \<Rightarrow> string \<Rightarrow> bool" where
  "search_from r b [] = (run_re r (b, []) \<noteq> [])"
| "search_from r b (c # cs) = (run_re r (b, c # cs) \<noteq> [] \<or> search_from r (Some c) cs)"

definition re_search :: "re \<Rightarrow> string \<Rightarrow> bool" where
  "re_search r s = search_from r None s"

fun alts :: "re list \<Rightarrow> re" where
  "alts [] = Cls (\<lambda>_. False)"
| "alts [r] = r"
| "alts (r # r' # rs) = Alt r (alts (r' # rs))"

fun seqs :: "re list \<Rightarrow> re" where
  "seqs [] = Lit []"
| "seqs [r] = r"
| "seqs (r # r' # rs) = Seq r (seqs (r' # rs))"

abbreviation spaces :: re where "spaces \<equiv> Plus (Cls is_blank)"

lemma re_search_alt: "re_search (Alt r1 r2) s \<longleftrightarrow> re_search r1 s \<or> re_search r2 s"
proof -
  have "search_from (Alt r1 r2) b s = (search_from r1 b s \<or> search_from r2 b s)" for b
    by (induction s arbitrary: b) auto
  then show ?thesis by (simp add: re_search_def)
qed

text \<open>
  The fuel of a repetition is the length of the text that is left: each further turn of the
  body consumes a character, so more fuel finds nothing more.
\<close>

lemma star_fuel_enough:
  "length (snd p) \<le> n \<Longrightarrow> star_fuel n f p = star_fuel (length (snd p)) f p"
proof (induction "length (snd p)" arbitrary: p n rule: less_induct)
  case less
  show ?case
  proof (cases "length (snd p)")
    case 0
    then show ?thesis by (cases n) (auto intro: concat_eq_Nil_conv[THEN iffD2])
  next
    case (Suc l)
    with less.prems obtain m where n: "n = Suc m" "l \<le> m" by (cases n) auto
    have eq: "(if length (snd q) < length (snd p) then star_fuel m f q else [])
        = (if length (snd q) < length (snd p) then star_fuel l f q else [])" for q
    proof (cases "length (snd q) < length (snd p)")
      case True
      with Suc n have "length (snd q) \<le> m" "length (snd q) \<le> l" by auto
      with less.hyps True have "star_fuel m f q = star_fuel (length (snd q)) f q"
        "star_fuel l f q = star_fuel (length (snd q)) f q" by blast+
      then show ?thesis by simp
    qed simp
    have "star_fuel n f p = star_fuel (Suc l) f p"
      unfolding n(1) star_fuel.simps eq ..
    then show ?thesis by (simp only: Suc)
  qed
qed

subsection \<open>Groups\<close>

text \<open>
  Patterns with named groups, for \<open>re.match\<close>: they run on the text from the current position on and
  the groups so far, and give their ends in the order Python tries them, so the first is the
  match. \<open>CPlus\<close> is greedy, \<open>CLazy\<close> tries the shortest repetition first.
\<close>

datatype cre =
    CLit string
  | CCls "char \<Rightarrow> bool"
  | CSeq cre cre
  | CAlt cre cre
  | COpt cre
  | CPlus cre
  | CLazy cre
  | CTimes nat cre
  | CGrp string cre
  | CEnd

type_synonym cap = "string \<times> (string \<times> string) list"

fun run_prefix :: "string \<Rightarrow> string \<Rightarrow> string option" where
  "run_prefix [] s = Some s"
| "run_prefix (l # ls) [] = None"
| "run_prefix (l # ls) (c # cs) = (if lower_char c = lower_char l then run_prefix ls cs else None)"

fun greedy_fuel :: "nat \<Rightarrow> (cap \<Rightarrow> cap list) \<Rightarrow> cap \<Rightarrow> cap list" where
  "greedy_fuel 0 f p = [p]"
| "greedy_fuel (Suc n) f p =
     concat (map (\<lambda>q. if length (fst q) < length (fst p) then greedy_fuel n f q else []) (f p)) @ [p]"

fun lazy_fuel :: "nat \<Rightarrow> (cap \<Rightarrow> cap list) \<Rightarrow> cap \<Rightarrow> cap list" where
  "lazy_fuel 0 f p = [p]"
| "lazy_fuel (Suc n) f p =
     p # concat (map (\<lambda>q. if length (fst q) < length (fst p) then lazy_fuel n f q else []) (f p))"

fun times_step :: "nat \<Rightarrow> (cap \<Rightarrow> cap list) \<Rightarrow> cap \<Rightarrow> cap list" where
  "times_step 0 f p = [p]"
| "times_step (Suc n) f p = concat (map (times_step n f) (f p))"

fun run_cre :: "cre \<Rightarrow> cap \<Rightarrow> cap list" where
  "run_cre (CLit l) p = (case run_prefix l (fst p) of None \<Rightarrow> [] | Some s \<Rightarrow> [(s, snd p)])"
| "run_cre (CCls P) p = (case fst p of [] \<Rightarrow> [] | c # cs \<Rightarrow> if P c then [(cs, snd p)] else [])"
| "run_cre (CSeq r1 r2) p = concat (map (run_cre r2) (run_cre r1 p))"
| "run_cre (CAlt r1 r2) p = run_cre r1 p @ run_cre r2 p"
| "run_cre (COpt r) p = run_cre r p @ [p]"
| "run_cre (CPlus r) p = concat (map (\<lambda>q. greedy_fuel (length (fst q)) (run_cre r) q) (run_cre r p))"
| "run_cre (CLazy r) p = concat (map (\<lambda>q. lazy_fuel (length (fst q)) (run_cre r) q) (run_cre r p))"
| "run_cre (CTimes n r) p = times_step n (run_cre r) p"
| "run_cre (CGrp g r) p =
     map (\<lambda>q. (fst q, (g, take (length (fst p) - length (fst q)) (fst p)) # snd q)) (run_cre r p)"
| "run_cre CEnd p = (if fst p = [] \<or> fst p = [CHR 0x0A] then [p] else [])"

fun cseqs :: "cre list \<Rightarrow> cre" where
  "cseqs [] = CLit []"
| "cseqs [r] = r"
| "cseqs (r # r' # rs) = CSeq r (cseqs (r' # rs))"

text \<open>\<open>re.match\<close>: the groups that took part, the last one first; None when nothing matches.\<close>

definition re_groups :: "cre \<Rightarrow> string \<Rightarrow> (string \<times> string) list option" where
  "re_groups r s = (case run_cre r (s, []) of [] \<Rightarrow> None | q # _ \<Rightarrow> Some (snd q))"

subsection \<open>The first match\<close>

text \<open>The first end of a pattern, and how it is found without looking at the others.\<close>

definition first_is :: "cre \<Rightarrow> cap \<Rightarrow> cap \<Rightarrow> bool" where
  "first_is r p q \<longleftrightarrow> (\<exists>qs. run_cre r p = q # qs)"

named_theorems first_intros \<open>how the first match of a pattern is found\<close>

lemma re_groups_first: "first_is r (s, []) q \<Longrightarrow> re_groups r s = Some (snd q)"
  by (auto simp: first_is_def re_groups_def)

lemma first_seq [first_intros]: "first_is r1 p q \<Longrightarrow> first_is r2 q q' \<Longrightarrow> first_is (CSeq r1 r2) p q'"
  by (auto simp: first_is_def)

lemma first_alt1: "first_is r1 p q \<Longrightarrow> first_is (CAlt r1 r2) p q"
  by (auto simp: first_is_def)

lemma first_alt2: "run_cre r1 p = [] \<Longrightarrow> first_is r2 p q \<Longrightarrow> first_is (CAlt r1 r2) p q"
  by (auto simp: first_is_def)

lemma first_opt1: "first_is r p q \<Longrightarrow> first_is (COpt r) p q"
  by (auto simp: first_is_def)

lemma first_opt2: "run_cre r p = [] \<Longrightarrow> first_is (COpt r) p p"
  by (auto simp: first_is_def)

lemma first_lit [first_intros]: "run_prefix l s = Some s' \<Longrightarrow> first_is (CLit l) (s, e) (s', e)"
  by (simp add: first_is_def)

lemma first_end [first_intros]: "first_is CEnd ([], e) ([], e)"
  by (simp add: first_is_def)

lemma first_group [first_intros]:
  "first_is r (w @ s, e) (s, e) \<Longrightarrow> first_is (CGrp g r) (w @ s, e) (s, (g, w) # e)"
  by (auto simp: first_is_def)

definition takes :: "(cap \<Rightarrow> cap list) \<Rightarrow> (char \<Rightarrow> bool) \<Rightarrow> bool" where
  "takes f P \<longleftrightarrow> (\<forall>c s e. f (c # s, e) = (if P c then [(s, e)] else [])) \<and> (\<forall>e. f ([], e) = [])"

lemma takes_cls: "takes (run_cre (CCls P)) P"
  by (simp add: takes_def)

lemma takesD: "takes f P \<Longrightarrow> f (c # s, e) = (if P c then [(s, e)] else [])" "takes f P \<Longrightarrow> f ([], e) = []"
  by (simp_all add: takes_def)

lemma greedy_head:
  assumes "takes f P" "list_all P w" "s = [] \<or> \<not> P (hd s)"
  shows "\<exists>qs. greedy_fuel (length (w @ s)) f (w @ s, e) = (s, e) # qs"
  using assms(2)
proof (induction w)
  case Nil
  then show ?case using assms(1,3) by (cases s) (auto simp: takesD)
next
  case (Cons c w)
  then obtain qs where "greedy_fuel (length (w @ s)) f (w @ s, e) = (s, e) # qs" by auto
  then show ?case using Cons.prems by (simp add: takesD[OF assms(1)])
qed

lemma first_plus [first_intros]:
  assumes "list_all P w" "w \<noteq> []" "s = [] \<or> \<not> P (hd s)"
  shows "first_is (CPlus (CCls P)) (w @ s, e) (s, e)"
proof -
  obtain c v where w: "w = c # v" using assms(2) by (cases w) auto
  obtain qs where "greedy_fuel (length (v @ s)) (run_cre (CCls P)) (v @ s, e) = (s, e) # qs"
    using greedy_head[OF takes_cls, of P v s e] assms(1,3) w by auto
  moreover have "run_cre (CCls P) (w @ s, e) = [(v @ s, e)]" using assms(1) w by simp
  ultimately show ?thesis by (simp add: first_is_def del: run_cre.simps(2))
qed

lemma first_times [first_intros]:
  "list_all P w \<Longrightarrow> length w = n \<Longrightarrow> first_is (CTimes n (CCls P)) (w @ s, e) (s, e)"
proof (induction w arbitrary: n)
  case (Cons c w)
  then obtain m where "n = Suc m" by (cases n) auto
  then show ?case using Cons by (auto simp: first_is_def)
qed (simp add: first_is_def)

text \<open>A lazy group takes the shortest text after which the rest matches.\<close>

lemma lazy_head:
  assumes "takes f P" "list_all P w" "\<And>u v. w = u @ v \<Longrightarrow> v \<noteq> [] \<Longrightarrow> k (v @ s, e) = []"
    and "k (s, e) = q # qs"
  shows "\<exists>qs'. concat (map k (lazy_fuel (length (w @ s)) f (w @ s, e))) = q # qs'"
  using assms(2,3)
proof (induction w)
  case Nil
  then show ?case using assms(4) by (cases s) auto
next
  case (Cons c w)
  have "\<exists>qs'. concat (map k (lazy_fuel (length (w @ s)) f (w @ s, e))) = q # qs'"
  proof (rule Cons.IH)
    show "list_all P w" using Cons.prems(1) by simp
    show "k (v @ s, e) = []" if "w = u @ v" "v \<noteq> []" for u v
      using Cons.prems(2)[of "c # u" v] that by simp
  qed
  moreover have "k (c # w @ s, e) = []" using Cons.prems(2)[of "[]" "c # w"] by simp
  ultimately show ?case using Cons.prems(1) by (simp add: takesD[OF assms(1)])
qed

lemma first_lazy:
  assumes "list_all P w" "w \<noteq> []"
    and "\<And>u v e'. w = u @ v \<Longrightarrow> v \<noteq> [] \<Longrightarrow> u \<noteq> [] \<Longrightarrow> run_cre r (v @ s, e') = []"
    and "first_is r (s, (g, w) # e) q"
  shows "first_is (CSeq (CGrp g (CLazy (CCls P))) r) (w @ s, e) q"
proof -
  obtain c v where w: "w = c # v" using assms(2) by (cases w) auto
  let ?k = "\<lambda>p. run_cre r (fst p, (g, take (length (w @ s) - length (fst p)) (w @ s)) # snd p)"
  obtain qs where q: "?k (s, e) = q # qs" using assms(4) by (auto simp: first_is_def)
  have "\<exists>qs'. concat (map ?k (lazy_fuel (length (v @ s)) (run_cre (CCls P)) (v @ s, e))) = q # qs'"
  proof (rule lazy_head[where k = ?k and q = q and qs = qs, OF takes_cls])
    show "list_all P v" using assms(1) w by simp
    show "?k (y @ s, e) = []" if "v = x @ y" "y \<noteq> []" for x y
      using assms(3)[of "c # x" y] that w by simp
    show "?k (s, e) = q # qs" by (rule q)
  qed
  moreover have "run_cre (CCls P) (w @ s, e) = [(v @ s, e)]" using assms(1) w by simp
  ultimately show ?thesis by (simp add: first_is_def comp_def del: run_cre.simps(2))
qed

lemma run_seq_assoc: "run_cre (CSeq (CSeq a b) c) p = run_cre (CSeq a (CSeq b c)) p"
proof -
  have "concat (map f (concat (map g xs))) = concat (map (\<lambda>x. concat (map f (g x))) xs)"
    for f :: "cap \<Rightarrow> cap list" and g :: "cap \<Rightarrow> cap list" and xs by (induction xs) auto
  moreover have "run_cre (CSeq b c) = (\<lambda>x. concat (map (run_cre c) (run_cre b x)))" by (rule ext) simp
  ultimately show ?thesis by simp
qed

lemma run_seq_alt2: "run_cre a p = [] \<Longrightarrow> run_cre (CSeq (CAlt a b) c) p = run_cre (CSeq b c) p"
  by simp


subsection \<open>What a group holds\<close>

text \<open>The text a pattern consumes, when all its classes and literals stay in a set of characters.\<close>

fun only_chars :: "(char \<Rightarrow> bool) \<Rightarrow> cre \<Rightarrow> bool" where
  "only_chars P (CLit l) = False"
| "only_chars P (CCls Q) = (\<forall>c. Q c \<longrightarrow> P c)"
| "only_chars P (CSeq a b) = (only_chars P a \<and> only_chars P b)"
| "only_chars P (CAlt a b) = (only_chars P a \<and> only_chars P b)"
| "only_chars P (COpt a) = only_chars P a"
| "only_chars P (CPlus a) = only_chars P a"
| "only_chars P (CLazy a) = only_chars P a"
| "only_chars P (CTimes n a) = only_chars P a"
| "only_chars P (CGrp g a) = only_chars P a"
| "only_chars P CEnd = True"

fun group_only :: "string \<Rightarrow> (char \<Rightarrow> bool) \<Rightarrow> cre \<Rightarrow> bool" where
  "group_only g P (CSeq a b) = (group_only g P a \<and> group_only g P b)"
| "group_only g P (CAlt a b) = (group_only g P a \<and> group_only g P b)"
| "group_only g P (COpt a) = group_only g P a"
| "group_only g P (CPlus a) = group_only g P a"
| "group_only g P (CLazy a) = group_only g P a"
| "group_only g P (CTimes n a) = group_only g P a"
| "group_only g P (CGrp g' a) = ((g' = g \<longrightarrow> only_chars P a) \<and> group_only g P a)"
| "group_only g P _ = True"

text \<open>A relation between a position and its ends that is reflexive and transitive passes to the repetitions.\<close>

definition keeps :: "(cap \<Rightarrow> cap \<Rightarrow> bool) \<Rightarrow> (cap \<Rightarrow> cap list) \<Rightarrow> bool" where
  "keeps R f \<longleftrightarrow> (\<forall>p. \<forall>q \<in> set (f p). R p q)"

lemma keepsI: "(\<And>p q. q \<in> set (f p) \<Longrightarrow> R p q) \<Longrightarrow> keeps R f"
  by (simp add: keeps_def)

lemma keepsD: "keeps R f \<Longrightarrow> q \<in> set (f p) \<Longrightarrow> R p q"
  unfolding keeps_def by blast

lemma greedy_keeps:
  assumes "keeps R f" "reflp R" "transp R"
  shows "keeps R (greedy_fuel n f)"
proof (induction n)
  case (Suc n)
  show ?case
  proof (rule keepsI)
    fix p q assume "q \<in> set (greedy_fuel (Suc n) f p)"
    then consider "q = p" | m where "m \<in> set (f p)" "q \<in> set (greedy_fuel n f m)" by (auto split: if_splits)
    then show "R p q" using assms Suc.IH by cases (auto dest: keepsD reflpD intro: transpD)
  qed
qed (auto simp: keeps_def intro: reflpD[OF assms(2)])

lemma lazy_keeps:
  assumes "keeps R f" "reflp R" "transp R"
  shows "keeps R (lazy_fuel n f)"
proof (induction n)
  case (Suc n)
  show ?case
  proof (rule keepsI)
    fix p q assume "q \<in> set (lazy_fuel (Suc n) f p)"
    then consider "q = p" | m where "m \<in> set (f p)" "q \<in> set (lazy_fuel n f m)" by (auto split: if_splits)
    then show "R p q" using assms Suc.IH by cases (auto dest: keepsD reflpD intro: transpD)
  qed
qed (auto simp: keeps_def intro: reflpD[OF assms(2)])

lemma times_keeps:
  assumes "keeps R f" "reflp R" "transp R"
  shows "keeps R (times_step n f)"
proof (induction n)
  case (Suc n)
  show ?case
  proof (rule keepsI)
    fix p q assume "q \<in> set (times_step (Suc n) f p)"
    then obtain m where "m \<in> set (f p)" "q \<in> set (times_step n f m)" by auto
    then show "R p q" using assms Suc.IH by (auto dest: keepsD intro: transpD)
  qed
qed (auto simp: keeps_def intro: reflpD[OF assms(2)])

lemma seq_keeps:
  assumes "transp R" "keeps R f" "\<And>x. keeps R (g x)"
  shows "keeps R (\<lambda>p. concat (map (\<lambda>q. g q q) (f p)))"
proof (rule keepsI)
  fix p q assume "q \<in> set (concat (map (\<lambda>q. g q q) (f p)))"
  then obtain m where "m \<in> set (f p)" "q \<in> set (g m m)" by auto
  then show "R p q" using assms by (meson keepsD transpD)
qed

definition eats :: "(char \<Rightarrow> bool) \<Rightarrow> cap \<Rightarrow> cap \<Rightarrow> bool" where
  "eats P p q \<longleftrightarrow> (\<exists>w. fst p = w @ fst q \<and> list_all P w)"

lemma eats_order: "reflp (eats P)" "transp (eats P)"
  by (auto simp: eats_def reflp_def transp_def)

lemma eats_keeps: "only_chars P r \<Longrightarrow> keeps (eats P) (run_cre r)"
proof (induction r)
  case (CSeq a b)
  then have ab: "keeps (eats P) (run_cre a)" "keeps (eats P) (run_cre b)" by simp_all
  show ?case using seq_keeps[OF eats_order(2) ab(1), where g = "\<lambda>_. run_cre b", OF ab(2)] by (simp add: keeps_def)
next
  case (CCls Q)
  have "run_cre (CCls Q) (c # s, e) = (if Q c then [(s, e)] else [])" for c s e by simp
  then show ?case using CCls by (auto simp: keeps_def eats_def split: list.splits)
next
  case (CPlus a)
  then have a: "keeps (eats P) (run_cre a)" by simp
  show ?case
    using seq_keeps[OF eats_order(2) a, where g = "\<lambda>x. greedy_fuel (length (fst x)) (run_cre a)", OF greedy_keeps[OF a eats_order]]
    by (simp add: keeps_def)
next
  case (CLazy a)
  then have a: "keeps (eats P) (run_cre a)" by simp
  show ?case
    using seq_keeps[OF eats_order(2) a, where g = "\<lambda>x. lazy_fuel (length (fst x)) (run_cre a)", OF lazy_keeps[OF a eats_order]]
    by (simp add: keeps_def)
next
  case (CTimes n a)
  then show ?case using times_keeps[OF _ eats_order] by (simp add: keeps_def)
next
  case (CGrp g a)
  then show ?case by (auto simp: keeps_def eats_def)
next
  case (CAlt a b)
  then show ?case by (auto simp: keeps_def)
next
  case (COpt a)
  then show ?case by (auto simp: keeps_def eats_def)
next
  case CEnd
  then show ?case by (simp add: keeps_def eats_def)
qed simp

definition grows :: "string \<Rightarrow> (char \<Rightarrow> bool) \<Rightarrow> cap \<Rightarrow> cap \<Rightarrow> bool" where
  "grows g P p q \<longleftrightarrow> (\<forall>w. (g, w) \<in> set (snd q) \<longrightarrow> (g, w) \<in> set (snd p) \<or> list_all P w)"

lemma grows_order: "reflp (grows g P)" "transp (grows g P)"
  by (auto simp: grows_def reflp_def transp_def)

lemma grows_keeps: "group_only g P r \<Longrightarrow> keeps (grows g P) (run_cre r)"
proof (induction r)
  case (CSeq a b)
  then have ab: "keeps (grows g P) (run_cre a)" "keeps (grows g P) (run_cre b)" by simp_all
  show ?case using seq_keeps[OF grows_order(2) ab(1), where g = "\<lambda>_. run_cre b", OF ab(2)] by (simp add: keeps_def)
next
  case (CCls Q)
  show ?case by (auto simp: keeps_def grows_def split: list.splits if_splits)
next
  case (CPlus a)
  then have a: "keeps (grows g P) (run_cre a)" by simp
  show ?case
    using seq_keeps[OF grows_order(2) a, where g = "\<lambda>x. greedy_fuel (length (fst x)) (run_cre a)", OF greedy_keeps[OF a grows_order]]
    by (simp add: keeps_def)
next
  case (CLazy a)
  then have a: "keeps (grows g P) (run_cre a)" by simp
  show ?case
    using seq_keeps[OF grows_order(2) a, where g = "\<lambda>x. lazy_fuel (length (fst x)) (run_cre a)", OF lazy_keeps[OF a grows_order]]
    by (simp add: keeps_def)
next
  case (CTimes n a)
  then show ?case using times_keeps[OF _ grows_order] by (simp add: keeps_def)
next
  case (CGrp g' a)
  then have a: "keeps (grows g P) (run_cre a)" by simp
  show ?case
  proof (rule keepsI)
    fix p q assume "q \<in> set (run_cre (CGrp g' a) p)"
    then obtain m where m: "m \<in> set (run_cre a p)"
      "snd q = (g', take (length (fst p) - length (fst m)) (fst p)) # snd m" by auto
    have "list_all P (take (length (fst p) - length (fst m)) (fst p))" if "g' = g"
      using keepsD[OF eats_keeps[of P a] m(1)] CGrp.prems that by (fastforce simp: eats_def)
    then show "grows g P p q" using keepsD[OF a m(1)] m(2) by (auto simp: grows_def)
  qed
next
  case (CAlt a b)
  then show ?case by (auto simp: keeps_def)
next
  case (COpt a)
  then show ?case by (auto simp: keeps_def grows_def)
next
  case CEnd
  then show ?case by (simp add: keeps_def grows_def)
next
  case (CLit l)
  then show ?case by (auto simp: keeps_def grows_def split: option.splits)
qed

text \<open>So a group of a match holds only the characters its pattern allows.\<close>

lemma group_chars:
  assumes "re_groups r s = Some e" "group_only g P r" "map_of e g = Some w"
  shows "list_all P w"
proof -
  obtain q qs where q: "run_cre r (s, []) = q # qs" "e = snd q"
    using assms(1) by (auto simp: re_groups_def split: list.splits)
  then have "grows g P (s, []) q" using keepsD[OF grows_keeps[OF assms(2)], of q] by simp
  then show ?thesis using map_of_SomeD[OF assms(3)] q(2) by (auto simp: grows_def)
qed

end
