(* ===== verification/Approval.thy ===== *)
theory Approval
  imports TaskGrants HitlGrants Regex
begin

text \<open>
  Who asks before a tool runs: the chat graph's rule (kazma_core/safety/hitl.py) and the swarm
  bus's rule (kazma_core/swarm/safety.py). Both read the settings store: the HITL switch and
  danger list, and the thread's three standing approvals (a YOLO window, a task grant, a tool
  grant). Reading may remove an ended record, so the store is threaded through.
\<close>

subsection \<open>MCP names\<close>

text \<open>\<open>s.split(sep)\<close> for the two-character separator \<open>__\<close>, first occurrence only.\<close>

fun split_dunder :: "string \<Rightarrow> (string \<times> string) option" where
  "split_dunder (a # b # cs) =
     (if a = CHR ''_'' \<and> b = CHR ''_'' then Some ([], cs)
      else map_option (\<lambda>(l, r). (a # l, r)) (split_dunder (b # cs)))"
| "split_dunder _ = None"

definition mcp_raw_tool_name :: "string \<Rightarrow> string" where
  "mcp_raw_tool_name tool =
     (let name = py_strip tool in
      if starts_with ''mcp__'' (py_lower name)
      then (case split_dunder name of
              None \<Rightarrow> name
            | Some (_, r) \<Rightarrow>
                (case split_dunder r of
                   None \<Rightarrow> name
                 | Some (_, leaf) \<Rightarrow> if leaf \<noteq> [] then leaf else name))
      else name)"

definition mcp_safe_allowlisted :: "environ \<Rightarrow> string \<Rightarrow> bool" where
  "mcp_safe_allowlisted env tool =
     (let raw = py_strip (env_or_empty env ''KAZMA_MCP_SAFE_ALLOWLIST'') in
      if raw = [] then False
      else let allow = map (\<lambda>p. py_lower (py_strip p))
                         (filter (\<lambda>p. py_strip p \<noteq> []) (split_char (CHR '','') raw));
               name = py_lower (py_strip tool);
               leaf = py_lower (py_strip (mcp_raw_tool_name tool))
           in name \<noteq> [] \<and> (name \<in> set allow \<or> (leaf \<noteq> [] \<and> leaf \<in> set allow)))"

subsection \<open>The HITL configuration\<close>

record hitl_config =
  hc_enabled :: bool
  hc_yolo :: bool
  hc_require :: "string list"
  hc_timeout :: pyval
  hc_auto_deny :: pyval

text \<open>
  The tool names in a stored list: \<open>str(x).strip()\<close> of each entry that leaves something. Entries
  that are not strings are never a tool's name and are left out.
\<close>

definition clean_names :: "pyval list \<Rightarrow> string list" where
  "clean_names xs =
     filter (\<lambda>s. s \<noteq> []) (map py_strip (concat (map (\<lambda>v. case v of PStr s \<Rightarrow> [s] | _ \<Rightarrow> []) xs)))"

definition py_set_names :: "pyval \<Rightarrow> exn + string list" where
  "py_set_names v =
     (case v of
        PList xs \<Rightarrow> Inr (concat (map (\<lambda>x. case x of PStr s \<Rightarrow> [s] | _ \<Rightarrow> []) xs))
      | PStr s \<Rightarrow> Inr (map (\<lambda>c. [c]) s)
      | PDict d \<Rightarrow> Inr (map fst d)
      | _ \<Rightarrow> Inl (OtherError ''TypeError''))"

definition dict_section :: "pydict \<Rightarrow> string \<Rightarrow> exn + pydict" where
  "dict_section d k =
     (case map_of d k of
        None \<Rightarrow> Inr []
      | Some (PDict s) \<Rightarrow> Inr s
      | Some _ \<Rightarrow> Inl (OtherError ''AttributeError''))"

definition dget_or :: "pydict \<Rightarrow> string \<Rightarrow> pyval \<Rightarrow> pyval" where
  "dget_or d k dflt = (case map_of d k of None \<Rightarrow> dflt | Some v \<Rightarrow> v)"

definition yaml_hitl_config :: "pydict \<Rightarrow> exn + hitl_config" where
  "yaml_hitl_config raw =
     (case dict_section raw ''safety'' of
        Inl e \<Rightarrow> Inl e
      | Inr safety \<Rightarrow>
          (case dict_section safety ''hitl'' of
             Inl e \<Rightarrow> Inl e
           | Inr hitl \<Rightarrow>
               (case (case map_of hitl ''require_approval_for'' of
                        None \<Rightarrow> Inr CANONICAL_DANGER_TOOLS | Some v \<Rightarrow> py_set_names v) of
                  Inl e \<Rightarrow> Inl e
                | Inr req \<Rightarrow>
                    Inr \<lparr>hc_enabled = truthy (dget_or hitl ''enabled'' (PBool True)), hc_yolo = False,
                         hc_require = req,
                         hc_timeout = dget_or hitl ''approval_timeout_seconds'' (PInt 300),
                         hc_auto_deny = dget_or hitl ''auto_deny_on_timeout'' (PBool True)\<rparr>)))"

text \<open>
  The settings overrides, in order. The first read or conversion that raises ends them; what
  was already overridden stays.
\<close>

definition override_require :: "pyval \<Rightarrow> string list \<Rightarrow> string list" where
  "override_require v req =
     (case v of
        PStr s \<Rightarrow>
          let parts = filter (\<lambda>p. p \<noteq> []) (map py_strip (split_char (CHR '','') s))
          in if parts \<noteq> [] then parts else req
      | PList xs \<Rightarrow> let cleaned = clean_names xs in if cleaned \<noteq> [] then cleaned else req
      | _ \<Rightarrow> req)"

definition override_config :: "cstore \<Rightarrow> hitl_config \<Rightarrow> hitl_config" where
  "override_config cs c0 =
     (case cs_get cs ''safety.hitl_enabled'' of
        Inl _ \<Rightarrow> c0
      | Inr v1 \<Rightarrow>
          let c1 = (if v1 = PNone then c0 else c0\<lparr>hc_enabled := truthy v1\<rparr>) in
          case cs_get cs ''safety.approval_timeout'' of
            Inl _ \<Rightarrow> c1
          | Inr v2 \<Rightarrow>
              (case (if v2 = PNone then Some c1
                     else map_option (\<lambda>n. c1\<lparr>hc_timeout := PInt n\<rparr>) (py_int v2)) of
                 None \<Rightarrow> c1
               | Some c2 \<Rightarrow>
                   (case cs_get cs ''safety.auto_deny_on_timeout'' of
                      Inl _ \<Rightarrow> c2
                    | Inr v3 \<Rightarrow>
                        let c3 = (if v3 = PNone then c2 else c2\<lparr>hc_auto_deny := PBool (truthy v3)\<rparr>) in
                        case cs_get cs ''safety.require_approval_for'' of
                          Inl _ \<Rightarrow> c3
                        | Inr v4 \<Rightarrow>
                            (if v4 = PNone then c3
                             else c3\<lparr>hc_require := override_require v4 (hc_require c3)\<rparr>))))"

definition floor_off :: "environ \<Rightarrow> bool" where
  "floor_off env \<longleftrightarrow>
     py_lower (py_strip (env_or_empty env ''KAZMA_HITL_CANONICAL_FLOOR'')) \<in> {''0'', ''false'', ''no'', ''off''}"

text \<open>\<open>raw\<close> is the config the caller passes; an empty one stands for the merged YAML.\<close>

definition get_hitl_config ::
    "environ \<Rightarrow> real \<Rightarrow> cstore \<Rightarrow> string option \<Rightarrow> pydict \<Rightarrow> pydict \<Rightarrow> (exn + hitl_config) \<times> cstore" where
  "get_hitl_config env now cs tid merged raw =
     (case yaml_hitl_config (if raw = [] then merged else raw) of
        Inl e \<Rightarrow> (Inl e, cs)
      | Inr c0 \<Rightarrow>
          (case (case is_yolo_active now cs tid of
                   (Inl _, cs') \<Rightarrow> (False, cs') | (Inr b, cs') \<Rightarrow> (b, cs')) of
             (yolo_on, cs') \<Rightarrow>
               let c1 = override_config cs' c0;
                   req = (if floor_off env then hc_require c1
                          else hc_require c1 @ CANONICAL_DANGER_TOOLS)
               in (Inr (c1\<lparr>hc_enabled := hc_enabled c1 \<and> \<not> yolo_on,
                           hc_yolo := hc_enabled c1 \<and> yolo_on, hc_require := req\<rparr>), cs')))"

subsection \<open>The approval rule of the chat graph\<close>

datatype standing = ByYolo | ByTaskGrant | ByToolGrant

text \<open>
  Each of the three checks has its own \<open>try\<close>: one that raises counts as no approval and the
  next is asked.
\<close>

definition standing_approval :: "real \<Rightarrow> cstore \<Rightarrow> string option \<Rightarrow> string \<Rightarrow> standing option \<times> cstore" where
  "standing_approval now cs tid tool =
     (case tid of
        None \<Rightarrow> (None, cs)
      | Some t \<Rightarrow>
          if t = [] then (None, cs)
          else (case is_yolo_active now cs (Some t) of
            (Inr True, cs1) \<Rightarrow> (Some ByYolo, cs1)
          | (_, cs1) \<Rightarrow>
              (case has_task_grant now cs1 (Some t) of
                 (True, cs2) \<Rightarrow> (Some ByTaskGrant, cs2)
               | (False, cs2) \<Rightarrow>
                   (case has_tool_grant now cs2 (Some t) tool of
                      (Inr True, cs3) \<Rightarrow> (Some ByToolGrant, cs3)
                    | (_, cs3) \<Rightarrow> (None, cs3)))))"

definition approval_floor :: "environ \<Rightarrow> string \<Rightarrow> hitl_config \<Rightarrow> bool" where
  "approval_floor env tool cfg =
     (if tool \<in> set ALWAYS_HITL_TOOLS then True
      else if starts_with ''mcp__'' tool then \<not> mcp_safe_allowlisted env tool
      else if tool \<in> set (hc_require cfg) then True
      else get_tool_tier tool \<notin> set AUTO_APPROVED_TIERS)"

definition approval_need ::
    "environ \<Rightarrow> real \<Rightarrow> cstore \<Rightarrow> string option \<Rightarrow> string \<Rightarrow> hitl_config \<Rightarrow> (bool \<times> standing option) \<times> cstore" where
  "approval_need env now cs tid tool cfg =
     (if tool \<in> set ALWAYS_HITL_TOOLS then ((True, None), cs)
      else case standing_approval now cs tid tool of
        (Some by, cs') \<Rightarrow>
          ((False, if hc_enabled cfg \<and> approval_floor env tool cfg then Some by else None), cs')
      | (None, cs') \<Rightarrow>
          if \<not> hc_enabled cfg then ((False, None), cs')
          else ((approval_floor env tool cfg, None), cs'))"

definition requires_approval ::
    "environ \<Rightarrow> real \<Rightarrow> cstore \<Rightarrow> string option \<Rightarrow> string \<Rightarrow> hitl_config \<Rightarrow> bool \<times> cstore" where
  "requires_approval env now cs tid tool cfg =
     (case approval_need env now cs tid tool cfg of ((b, _), cs') \<Rightarrow> (b, cs'))"

subsection \<open>The approval rule of the swarm bus\<close>

text \<open>
  \<open>GIT_WRITE_RE\<close> (kazma_core/agent/task_ledger.py): the shell commands a YOLO window never lets
  through.
\<close>

definition git_write_re :: re where
  "git_write_re =
     seqs [WordB, Lit ''git'', spaces,
       alts [Lit ''commit'', Lit ''push'', Lit ''merge'', Lit ''rebase'', Lit ''revert'', Lit ''reset'',
             seqs [Lit ''checkout'', spaces, Alt (Lit ''--'') (Lit ''.'')],
             Lit ''restore'', Lit ''clean'', Lit ''rm'',
             seqs [Lit ''branch'', spaces, Alt (Lit ''-d'') (Lit ''-D'')],
             seqs [Lit ''tag'', spaces, Lit ''-d''], Lit ''cherry-pick'',
             seqs [Lit ''stash'', spaces, Alt (Lit ''drop'') (Lit ''pop'')],
             Lit ''apply'', Lit ''am'', Lit ''swap'', Lit ''subtree'', Lit ''filter-branch'',
             Lit ''update-ref'', Lit '' symbolic-ref''],
       WordB]"

definition is_git_write_command :: "string \<Rightarrow> bool" where
  "is_git_write_command command = re_search git_write_re command"

definition SENSITIVE_READS :: "string list" where
  "SENSITIVE_READS = [''sqlite_query'', ''file_search'']"

record middleware =
  mw_enabled :: bool
  mw_headless :: bool
  mw_danger :: "string list"
  mw_reads :: "string list"
  mw_rejected :: nat

definition new_middleware :: "bool \<Rightarrow> bool \<Rightarrow> middleware" where
  "new_middleware en hl =
     \<lparr>mw_enabled = en, mw_headless = hl, mw_danger = CANONICAL_DANGER_TOOLS,
      mw_reads = SENSITIVE_READS, mw_rejected = 0\<rparr>"

definition add_danger_tool :: "string \<Rightarrow> middleware \<Rightarrow> middleware" where
  "add_danger_tool t m = m\<lparr>mw_danger := List.insert t (mw_danger m)\<rparr>"

definition remove_danger_tool :: "string \<Rightarrow> middleware \<Rightarrow> middleware" where
  "remove_danger_tool t m = m\<lparr>mw_danger := removeAll t (mw_danger m)\<rparr>"

definition is_danger_tool ::
    "environ \<Rightarrow> real \<Rightarrow> cstore \<Rightarrow> string option \<Rightarrow> pydict \<Rightarrow> middleware \<Rightarrow> string \<Rightarrow> bool \<times> cstore" where
  "is_danger_tool env now cs tid merged m tool =
     (if tool \<in> set (mw_danger m) then (True, cs)
      else case get_hitl_config env now cs tid merged [] of
        (Inl _, cs') \<Rightarrow> (True, cs')
      | (Inr cfg, cs') \<Rightarrow> (approval_floor env tool cfg, cs'))"

definition git_write_call :: "string \<Rightarrow> string option \<Rightarrow> bool" where
  "git_write_call tool args =
     (tool \<in> {''exec'', ''shell_exec'', ''run_command''} \<and>
      (case args of None \<Rightarrow> False | Some a \<Rightarrow> a \<noteq> [] \<and> is_git_write_command a))"

text \<open>What the bus decides before it asks anyone.\<close>

datatype precheck = AskOperator | RunSensitiveRead | RunSafe | RunUnasked standing

definition allowed_without_asking ::
    "environ \<Rightarrow> real \<Rightarrow> cstore \<Rightarrow> string option \<Rightarrow> pydict \<Rightarrow> middleware \<Rightarrow> string \<Rightarrow> string option \<Rightarrow> bool
     \<Rightarrow> precheck \<times> cstore" where
  "allowed_without_asking env now cs tid merged m tool args force0 =
     (let git = git_write_call tool args;
          force = force0 \<or> tool \<in> set ALWAYS_HITL_TOOLS \<or> git in
      if \<not> force \<and> tool \<in> set (mw_reads m) then (RunSensitiveRead, cs)
      else case (if force then (True, cs) else is_danger_tool env now cs tid merged m tool) of
        (False, cs1) \<Rightarrow> (RunSafe, cs1)
      | (True, cs1) \<Rightarrow>
          if tool \<in> set ALWAYS_HITL_TOOLS \<or> git then (AskOperator, cs1)
          else (case standing_approval now cs1 tid tool of
                  (Some by, cs2) \<Rightarrow> (RunUnasked by, cs2)
                | (None, cs2) \<Rightarrow> (AskOperator, cs2)))"

text \<open>
  \<open>check_sync\<close>: the bus as the caller finds it, none at all, one that raises, or a real one.
\<close>

datatype bus_state = NullBus | RealBus | BusError

definition check_sync ::
    "environ \<Rightarrow> real \<Rightarrow> cstore \<Rightarrow> string option \<Rightarrow> pydict \<Rightarrow> bus_state \<Rightarrow> middleware \<Rightarrow> string \<Rightarrow> bool
     \<Rightarrow> bool \<times> middleware \<times> cstore" where
  "check_sync env now cs tid merged bus m tool force =
     (if \<not> mw_enabled m then (True, m, cs)
      else case (if force then (True, cs) else is_danger_tool env now cs tid merged m tool) of
        (False, cs1) \<Rightarrow> (True, m, cs1)
      | (True, cs1) \<Rightarrow>
          if bus \<noteq> RealBus \<and> mw_headless m then (True, m, cs1)
          else (False, m\<lparr>mw_rejected := mw_rejected m + 1\<rparr>, cs1))"

subsection \<open>The standing approval at a time\<close>

definition standing_live :: "real \<Rightarrow> cstore \<Rightarrow> string \<Rightarrow> string \<Rightarrow> standing option" where
  "standing_live now cs t tool =
     (if yolo_live now cs t then Some ByYolo
      else if task_live now cs t then Some ByTaskGrant
      else if tool_live now cs t tool then Some ByToolGrant else None)"

lemma key_dots [simp]:
  "dots (yolo_key t) = Suc (dots t)" "dots (task_key t) = Suc (dots t)"
  "dots (grant_key t tool) = Suc (Suc (dots t + dots tool))"
  by (simp_all add: yolo_key_def task_key_def grant_key_def)

lemma key_neq [simp]:
  "yolo_key t \<noteq> task_key u" "task_key u \<noteq> yolo_key t"
  "yolo_key t \<noteq> grant_key u tool" "grant_key u tool \<noteq> yolo_key t"
  "task_key t \<noteq> grant_key u tool" "grant_key u tool \<noteq> task_key t"
  by (simp_all add: yolo_key_def task_key_def grant_key_def)

text \<open>Dropping one of a thread's records leaves the answers the others give.\<close>

lemma live_drop_yolo [simp]:
  "task_live now (drop_row (yolo_key t) cs) t = task_live now cs t"
  "tool_live now (drop_row (yolo_key t) cs) t tool = tool_live now cs t tool"
  by (simp_all add: task_live_def tool_live_def cs_get_drop_other not_below_dots)

lemma live_drop_task [simp]:
  "yolo_live now (drop_row (task_key t) cs) t = yolo_live now cs t"
  "tool_live now (drop_row (task_key t) cs) t tool = tool_live now cs t tool"
  by (simp_all add: yolo_live_def tool_live_def cs_get_drop_other not_below_dots)

lemma not_below_heads [simp]:
  "\<not> below (yolo_key t) (grant_key u tool)" "\<not> below (task_key t) (grant_key u tool)"
  by (simp_all add: below_def yolo_key_def task_key_def grant_key_def lower_char_def)

lemma live_drop_tool [simp]:
  "yolo_live now (drop_row (grant_key t tool) cs) t = yolo_live now cs t"
  "task_live now (drop_row (grant_key t tool) cs) t = task_live now cs t"
  by (simp_all add: yolo_live_def task_live_def cs_get_drop_other)

text \<open>So does asking for one of them.\<close>

lemma yolo_check_cases: "yolo_check t now cs = cs \<or> yolo_check t now cs = drop_row (yolo_key t) cs"
  using snd_is_yolo_active[of now cs t] by (simp add: yolo_check_def)

lemma task_check_cases: "task_check t now cs = cs \<or> task_check t now cs = drop_row (task_key t) cs"
  using snd_has_task_grant[of now cs t] by (simp add: task_check_def)

lemma tool_check_cases:
  "tool_check t tool now cs = cs \<or> tool_check t tool now cs = drop_row (grant_key t tool) cs"
  using snd_has_tool_grant[of now cs t tool] by (simp add: tool_check_def)

lemma live_check_other [simp]:
  "task_live now' (yolo_check t now cs) t = task_live now' cs t"
  "tool_live now' (yolo_check t now cs) t tool = tool_live now' cs t tool"
  "yolo_live now' (task_check t now cs) t = yolo_live now' cs t"
  "tool_live now' (task_check t now cs) t tool = tool_live now' cs t tool"
  "yolo_live now' (tool_check t tool now cs) t = yolo_live now' cs t"
  "task_live now' (tool_check t tool now cs) t = task_live now' cs t"
  using yolo_check_cases[of t now cs] task_check_cases[of t now cs] tool_check_cases[of t tool now cs]
  by (elim disjE; simp)+

lemma has_task_grant_eq: "has_task_grant now cs (Some t) = (task_live now cs t, task_check t now cs)"
  using has_task_grant_live[of now cs t] has_task_grant_not_live[of now cs t]
  by (cases "task_live now cs t") (auto simp: task_check_def)

lemma is_yolo_active_over:
  assumes "\<not> yolo_live now cs t"
  obtains x where "x \<noteq> Inr True" "is_yolo_active now cs (Some t) = (x, yolo_check t now cs)"
  using assms that[of "fst (is_yolo_active now cs (Some t))"] is_yolo_active_iff[of now cs t]
  by (auto simp: yolo_check_def)

lemma has_tool_grant_over:
  assumes "\<not> tool_live now cs t tool"
  obtains x where "x \<noteq> Inr True" "has_tool_grant now cs (Some t) tool = (x, tool_check t tool now cs)"
  using assms that[of "fst (has_tool_grant now cs (Some t) tool)"] has_tool_grant_iff[of now cs t tool]
  by (auto simp: tool_check_def)

text \<open>The state after a question: each record was looked at until one answered yes.\<close>

definition standing_check :: "string \<Rightarrow> string \<Rightarrow> real \<Rightarrow> cstore \<Rightarrow> cstore" where
  "standing_check t tool now cs =
     (if yolo_live now cs t then cs
      else if task_live now cs t then yolo_check t now cs
      else tool_check t tool now (task_check t now (yolo_check t now cs)))"

lemma task_check_live: "task_live now cs t \<Longrightarrow> task_check t now cs = cs"
  by (simp add: task_check_def has_task_grant_live)

lemma tool_check_live: "tool_live now cs t tool \<Longrightarrow> tool_check t tool now cs = cs"
  by (simp add: tool_check_def has_tool_grant_live)

lemma standing_tool_part:
  "(case has_tool_grant now cs (Some t) tool of
      (Inr True, cs3) \<Rightarrow> (Some ByToolGrant, cs3) | (_, cs3) \<Rightarrow> (None, cs3))
    = (if tool_live now cs t tool then Some ByToolGrant else None, tool_check t tool now cs)"
proof (cases "tool_live now cs t tool")
  case True
  then show ?thesis by (simp add: has_tool_grant_live tool_check_live)
next
  case False
  then obtain x where "x \<noteq> Inr True" "has_tool_grant now cs (Some t) tool = (x, tool_check t tool now cs)"
    by (rule has_tool_grant_over)
  with False show ?thesis by (auto split: sum.split bool.split)
qed

lemma standing_approval_spec:
  "standing_approval now cs (Some t) tool = (standing_live now cs t tool, standing_check t tool now cs)"
proof (cases "t = [] \<or> yolo_live now cs t")
  case True
  then show ?thesis
    by (auto simp: standing_approval_def standing_live_def standing_check_def yolo_live_def task_live_def
        tool_live_def is_yolo_active_live tool_check_def task_check_def yolo_check_def has_tool_grant_def)
next
  case False
  then obtain x where "x \<noteq> Inr True" "is_yolo_active now cs (Some t) = (x, yolo_check t now cs)"
    using is_yolo_active_over by blast
  with False have "standing_approval now cs (Some t) tool =
      (if task_live now cs t then (Some ByTaskGrant, yolo_check t now cs)
       else (if tool_live now cs t tool then Some ByToolGrant else None,
             tool_check t tool now (task_check t now (yolo_check t now cs))))"
    by (cases "task_live now cs t"; cases x)
       (auto simp: standing_approval_def standing_tool_part has_task_grant_eq task_check_live)
  with False show ?thesis by (simp add: standing_live_def standing_check_def)
qed

lemma standing_approval_None [simp]: "standing_approval now cs None tool = (None, cs)"
  by (simp add: standing_approval_def)

subsection \<open>The approval rule as a standing approval\<close>

definition approval_leaves :: "string \<Rightarrow> string \<Rightarrow> cstore \<Rightarrow> bool" where
  "approval_leaves t tool cs \<longleftrightarrow>
     leaf_key cs (yolo_key t) \<and> leaf_key cs (task_key t) \<and> leaf_key cs (grant_key t tool)"

lemma leaf_key_drop_any: "leaf_key cs k \<Longrightarrow> leaf_key (drop_row k' cs) k"
  unfolding drop_row_def by (rule leaf_key_filter)

lemma leaf_key_checks:
  "leaf_key cs k \<Longrightarrow> leaf_key (yolo_check t now cs) k"
  "leaf_key cs k \<Longrightarrow> leaf_key (task_check t now cs) k"
  "leaf_key cs k \<Longrightarrow> leaf_key (tool_check t tool now cs) k"
  using yolo_check_cases[of t now cs] task_check_cases[of t now cs] tool_check_cases[of t tool now cs]
  by (auto simp: leaf_key_drop_any)

lemma standing_check_keeps:
  assumes "approval_leaves t tool cs" "now \<le> now'"
  shows "standing_live now' (standing_check t tool now cs) t tool = standing_live now' cs t tool"
  using assms
  by (simp add: standing_live_def standing_check_def approval_leaves_def yolo_check_keeps
      task_check_keeps tool_check_keeps leaf_key_checks)

lemma standing_live_ends:
  "standing_live now' cs t tool \<noteq> None \<Longrightarrow> now \<le> now' \<Longrightarrow> standing_live now cs t tool \<noteq> None"
  by (auto simp: standing_live_def split: if_splits
      dest: yolo_live_earlier task_live_earlier tool_live_earlier)

lemma standing_check_leaves:
  "approval_leaves t tool cs \<Longrightarrow> approval_leaves t tool (standing_check t tool now cs)"
  by (simp add: approval_leaves_def standing_check_def leaf_key_checks)

interpretation standing: timed_approval
  "\<lambda>now cs. standing_live now cs t tool \<noteq> None" "standing_check t tool" "approval_leaves t tool"
  for t tool
proof unfold_locales
  fix cs now now'
  assume "now \<le> now'" "standing_live now' cs t tool \<noteq> None"
  then show "standing_live now cs t tool \<noteq> None" using standing_live_ends by blast
qed (simp_all add: standing_check_keeps standing_check_leaves)

subsection \<open>What the approval rules guarantee\<close>

text \<open>
  A series of questions about one tool of one thread, in time order, is answered by what the
  three stored records say at each time, although asking removes ended records; and after the
  first question answered with no approval none of the later ones finds one.
\<close>

theorem standing_answers_follow_records:
  assumes "approval_leaves t tool cs" and "sorted ts"
  shows "standing.answers t tool cs ts = map (\<lambda>now. standing_live now cs t tool \<noteq> None) ts \<and>
    (\<forall>i j. i \<le> j \<and> j < length ts \<and> \<not> standing.answers t tool cs ts ! i
        \<longrightarrow> \<not> standing.answers t tool cs ts ! j)"
proof -
  have eq: "standing.answers t tool cs ts = map (\<lambda>now. standing_live now cs t tool \<noteq> None) ts"
    using assms by (rule standing.answers_eq)
  have "standing_live (ts ! j) cs t tool = None"
    if "i \<le> j" "j < length ts" "standing_live (ts ! i) cs t tool = None" for i j
    using that sorted_nth_mono[OF assms(2)] standing_live_ends by blast
  with eq show ?thesis by (auto simp del: not_None_eq)
qed

lemma live_empty [simp]:
  "\<not> yolo_live now empty_store t" "\<not> task_live now empty_store t" "\<not> tool_live now empty_store t tool"
  by (auto simp: yolo_live_def window_open_def task_live_def task_open_def task_record_def tool_live_def
      grant_open_def)

lemma always_ask_simps:
  assumes "tool \<in> set ALWAYS_HITL_TOOLS"
  shows "requires_approval env now cs tid tool cfg = (True, cs)"
    and "allowed_without_asking env now cs tid merged m tool args force = (AskOperator, cs)"
  using assms by (simp_all add: requires_approval_def approval_need_def allowed_without_asking_def)



text \<open>
  A shell command the git rule recognises always asks on the bus, whatever window or grant the
  thread has and whatever the middleware's lists hold.
\<close>

theorem git_write_always_asked:
  assumes "git_write_call tool args"
  shows "allowed_without_asking env now cs tid merged m tool args force = (AskOperator, cs)"
  using assms by (simp add: allowed_without_asking_def)

lemma search_from_append:
  "search_from r (if pre = [] then b else Some (last pre)) s \<Longrightarrow> search_from r b (pre @ s)"
  by (induction pre arbitrary: b) (auto split: if_splits)

definition plain_git_verbs :: "string list" where
  "plain_git_verbs = [''commit'', ''push'', ''merge'', ''rebase'', ''revert'', ''reset'', ''restore'',
     ''clean'', ''cherry-pick'', ''apply'', ''update-ref'', ''filter-branch'']"

lemma search_at_start: "run_re r (b, s) \<noteq> [] \<Longrightarrow> search_from r b s"
  by (cases s) simp_all

text \<open>
  The git rule recognises a mutating verb wherever it stands in the command: anything may come
  before \<open>git\<close> that does not end in a word character, and anything after the verb that does not
  start with one.
\<close>

theorem git_write_recognised:
  assumes "verb \<in> set plain_git_verbs"
    and "pre = [] \<or> \<not> is_word (last pre)" and "post = [] \<or> \<not> is_word (hd post)"
  shows "is_git_write_command (pre @ ''git '' @ verb @ post)"
proof -
  let ?b = "if pre = [] then None else Some (last pre)"
  have b: "\<not> word_before (?b, s)" for s using assms(2) by (auto simp: word_before_def)
  have post: "\<not> word_after (c, post)" for c using assms(3) by (cases post) (auto simp: word_after_def)
  have "run_re git_write_re (?b, ''git '' @ verb @ post) \<noteq> []"
    using assms(1) b post unfolding plain_git_verbs_def
    by (elim set_ConsD[THEN disjE])
       (simp_all add: git_write_re_def word_after_def word_before_def is_word_def is_blank_def lower_char_def)
  then show ?thesis
    unfolding is_git_write_command_def re_search_def by (intro search_from_append search_at_start)
qed

text \<open>
  The word boundary that ends the git rule hides the commands whose last token is no word:
  discarding the working tree with \<open>git checkout -- .\<close> or \<open>git checkout .\<close> is not recognised, nor is
  \<open>git symbolic-ref\<close>, whose alternative starts with a blank of its own.
\<close>

theorem git_write_missed:
  "\<not> is_git_write_command ''git checkout -- .'' \<and> \<not> is_git_write_command ''git checkout .''
   \<and> \<not> is_git_write_command ''git symbolic-ref HEAD'' \<and> is_git_write_command ''git checkout --force''
   \<and> is_git_write_command ''git branch -D x''"
  by (simp add: is_git_write_command_def re_search_def git_write_re_def word_after_def word_before_def
        is_word_def is_blank_def is_digit_def lower_char_def)

subsection \<open>Default deny\<close>

lemma canonical_not_mcp: "tool \<in> set CANONICAL_DANGER_TOOLS \<Longrightarrow> \<not> starts_with ''mcp__'' tool"
proof -
  have "list_all (\<lambda>t. \<not> starts_with ''mcp__'' t) CANONICAL_DANGER_TOOLS"
    by (simp add: CANONICAL_DANGER_TOOLS_def)
  then show "tool \<in> set CANONICAL_DANGER_TOOLS \<Longrightarrow> \<not> starts_with ''mcp__'' tool"
    by (auto simp: list_all_iff)
qed

lemma canonical_floor: "tool \<in> set CANONICAL_DANGER_TOOLS \<Longrightarrow> approval_floor env tool cfg"
  by (simp add: approval_floor_def canonical_not_mcp canonical_tier danger_not_auto)


definition bare_config :: hitl_config where
  "bare_config = \<lparr>hc_enabled = True, hc_yolo = False, hc_require = [], hc_timeout = PInt 300,
     hc_auto_deny = PBool True\<rparr>"




subsection \<open>The two paths\<close>

lemma hitl_config_window:
  assumes "get_hitl_config env now cs tid merged raw = (Inr cfg, cs')"
  shows "hc_yolo cfg \<longrightarrow> \<not> hc_enabled cfg \<and> (\<exists>t. tid = Some t \<and> yolo_live now cs t)"
    and "cs' = (case tid of None \<Rightarrow> cs | Some t \<Rightarrow> yolo_check t now cs)"
proof -
  obtain y cs1 where y: "(case is_yolo_active now cs tid of
      (Inl _, cs') \<Rightarrow> (False, cs') | (Inr b, cs') \<Rightarrow> (b, cs')) = (y, cs1)" by fastforce
  with assms have cfg: "hc_yolo cfg \<longrightarrow> y \<and> \<not> hc_enabled cfg" and cs': "cs' = cs1"
    by (auto simp: get_hitl_config_def Let_def split: sum.splits)
  have "y \<longrightarrow> (\<exists>t. tid = Some t \<and> yolo_live now cs t)"
    using y is_yolo_active_iff[of now cs "the tid"]
    by (cases tid) (auto split: prod.splits sum.splits)
  with cfg show "hc_yolo cfg \<longrightarrow> \<not> hc_enabled cfg \<and> (\<exists>t. tid = Some t \<and> yolo_live now cs t)"
    by blast
  show "cs' = (case tid of None \<Rightarrow> cs | Some t \<Rightarrow> yolo_check t now cs)"
    using y cs' by (cases tid) (auto simp: yolo_check_def split: prod.splits sum.splits)
qed

definition standing_of :: "real \<Rightarrow> cstore \<Rightarrow> string option \<Rightarrow> string \<Rightarrow> standing option" where
  "standing_of now cs tid tool = (case tid of None \<Rightarrow> None | Some t \<Rightarrow> standing_live now cs t tool)"

lemma fst_standing: "fst (standing_approval now cs tid tool) = standing_of now cs tid tool"
  by (cases tid) (simp_all add: standing_of_def standing_approval_spec)

lemma standing_of_check:
  assumes "get_hitl_config env now cs tid merged raw = (Inr cfg, cs')"
    and "\<forall>t. tid = Some t \<longrightarrow> leaf_key cs (yolo_key t)"
  shows "standing_of now cs' tid tool = standing_of now cs tid tool"
  using assms hitl_config_window(2)[OF assms(1)]
  by (cases tid) (simp_all add: standing_of_def standing_live_def yolo_check_keeps)

text \<open>
  C4: the two approval paths agree. When the operator has not switched the gate off, a new swarm
  middleware asks about a call exactly when the chat graph's rule does, for the same thread, store,
  settings and time, except for the two sensitive reads and the recognised git commands.
\<close>

theorem graph_and_bus_agree:
  assumes "get_hitl_config env now cs tid merged [] = (Inr cfg, cs1)"
    and "hc_enabled cfg \<or> hc_yolo cfg"
    and "tool \<notin> set SENSITIVE_READS" and "\<not> git_write_call tool args"
    and "\<forall>t. tid = Some t \<longrightarrow> leaf_key cs (yolo_key t)"
  shows "fst (allowed_without_asking env now cs tid merged (new_middleware en hl) tool args False) = AskOperator
     \<longleftrightarrow> fst (requires_approval env now cs tid tool cfg)"
proof (cases "tool \<in> set ALWAYS_HITL_TOOLS")
  case True
  then show ?thesis by (simp add: always_ask_simps)
next
  case False
  let ?m = "new_middleware en hl"
  have win: "standing_of now cs tid tool \<noteq> None" if "\<not> hc_enabled cfg"
    using that assms(2) hitl_config_window(1)[OF assms(1)]
    by (auto simp: standing_of_def standing_live_def)
  have graph: "fst (requires_approval env now cs tid tool cfg)
      \<longleftrightarrow> standing_of now cs tid tool = None \<and> approval_floor env tool cfg"
    using False win fst_standing[of now cs tid tool]
    by (auto simp: requires_approval_def approval_need_def split: prod.splits option.splits)
  obtain d cs2 where d: "is_danger_tool env now cs tid merged ?m tool = (d, cs2)" by fastforce
  have dd: "d = approval_floor env tool cfg \<and> standing_of now cs2 tid tool = standing_of now cs tid tool"
    using d assms(1) canonical_floor standing_of_check[OF assms(1,5)]
    by (auto simp: is_danger_tool_def new_middleware_def split: if_splits)
  have "fst (allowed_without_asking env now cs tid merged ?m tool args False) = AskOperator
      \<longleftrightarrow> d \<and> standing_of now cs2 tid tool = None"
    using False assms(3,4) d fst_standing[of now cs2 tid tool]
    by (cases "standing_approval now cs2 tid tool"; cases d; cases "standing_of now cs2 tid tool")
       (auto simp: allowed_without_asking_def new_middleware_def)
  with graph dd show ?thesis by auto
qed

lemma hitl_config_empty:
  "\<exists>cfg. get_hitl_config (\<lambda>_. None) now empty_store (Some t) [] [] = (Inr cfg, empty_store) \<and> hc_enabled cfg"
proof -
  have "is_yolo_active now empty_store (Some t) = (Inr False, empty_store)"
    by (simp add: is_yolo_active_def yolo_status_def)
  then show ?thesis
    by (simp add: get_hitl_config_def yaml_hitl_config_def dict_section_def dget_or_def override_config_def
        Let_def)
qed

theorem graph_and_bus_agree_witness:
  "fst (allowed_without_asking (\<lambda>_. None) 0 empty_store (Some ''t'') [] (new_middleware True False)
      ''shell_exec'' (Some ''ls'') False) = AskOperator"
proof -
  obtain cfg where cfg: "get_hitl_config (\<lambda>_. None) 0 empty_store (Some ''t'') [] [] = (Inr cfg, empty_store)"
    "hc_enabled cfg" using hitl_config_empty by blast
  have ng: "\<not> git_write_call ''shell_exec'' (Some ''ls'')"
    by (simp add: git_write_call_def is_git_write_command_def re_search_def git_write_re_def
        word_after_def word_before_def is_word_def is_digit_def lower_char_def)
  have "approval_floor (\<lambda>_. None) ''shell_exec'' cfg"
    by (rule canonical_floor) (simp add: CANONICAL_DANGER_TOOLS_def)
  then have "fst (requires_approval (\<lambda>_. None) 0 empty_store (Some ''t'') ''shell_exec'' cfg)"
    using cfg(2) by (simp add: requires_approval_def approval_need_def standing_approval_spec standing_live_def)
  moreover have "''shell_exec'' \<notin> set SENSITIVE_READS" by (simp add: SENSITIVE_READS_def)
  ultimately show ?thesis
    using graph_and_bus_agree[OF cfg(1) _ _ ng] cfg(2) by simp
qed

text \<open>
  The exception is real: a sensitive read an operator put on the configured list is asked about
  by the graph, and runs unasked on the bus, which looks at its own list of reads first.
\<close>

theorem sensitive_read_diverges:
  assumes "tool \<in> set SENSITIVE_READS" and "tool \<in> set (hc_require cfg)" and "hc_enabled cfg"
    and "standing_live now cs t tool = None"
  shows "fst (requires_approval env now cs (Some t) tool cfg)
    \<and> allowed_without_asking env now cs (Some t) merged (new_middleware en hl) tool None False
        = (RunSensitiveRead, cs)"
proof -
  have "tool \<notin> set ALWAYS_HITL_TOOLS" "\<not> starts_with ''mcp__'' tool"
    using assms(1) by (auto simp: SENSITIVE_READS_def ALWAYS_HITL_TOOLS_def)
  with assms show ?thesis
    by (simp add: requires_approval_def approval_need_def standing_approval_spec approval_floor_def
        allowed_without_asking_def git_write_call_def new_middleware_def)
qed

text \<open>
  The synchronous check lets a gated call run only in a middleware that is switched off or
  that allows headless danger, and then only without a working bus; every other gated call is
  refused and counted.
\<close>

theorem check_sync_refuses:
  assumes "mw_enabled m" and "force \<or> tool \<in> set (mw_danger m)"
    and "bus = RealBus \<or> \<not> mw_headless m"
  shows "check_sync env now cs tid merged bus m tool force = (False, m\<lparr>mw_rejected := mw_rejected m + 1\<rparr>, cs)"
  using assms by (auto simp: check_sync_def is_danger_tool_def)

subsection \<open>Turning YOLO off\<close>

lemma find_row_filter_not: "store_wf cs \<Longrightarrow> find_row cs k = Some r \<Longrightarrow> \<not> P r \<Longrightarrow>
    find_row (cs\<lparr>rows := filter P (rows cs)\<rparr>) k = None"
  by (auto simp: find_row_def find_None_iff store_wf_def find_Some_iff distinct_conv_nth in_set_conv_nth)

lemma cs_get_filter_leaf:
  assumes "leaf_key cs k" "can_read cs" "store_wf cs"
  shows "cs_get (cs\<lparr>rows := filter P (rows cs)\<rparr>) k =
    (case find_row cs k of None \<Rightarrow> Inr PNone | Some r \<Rightarrow> if P r then Inr (rval r) else Inr PNone)"
proof -
  let ?cs = "cs\<lparr>rows := filter P (rows cs)\<rparr>"
  have leaf: "leaf_key ?cs k" and cr: "can_read ?cs" using assms leaf_key_filter by auto
  show ?thesis
  proof (cases "find_row cs k")
    case None
    then have "find_row ?cs k = None" by (auto simp: find_row_def find_None_iff)
    with leaf cr None show ?thesis by (simp add: cs_get_leaf_missing)
  next
    case (Some r)
    show ?thesis
    proof (cases "P r")
      case True
      with Some have "find_row ?cs k = Some r" by (simp add: find_row_def find_filter_keep)
      with True Some cr show ?thesis by (simp add: cs_get_row)
    next
      case False
      with Some assms(3) have "find_row ?cs k = None" by (intro find_row_filter_not)
      with leaf cr False Some show ?thesis by (simp add: cs_get_leaf_missing)
    qed
  qed
qed

text \<open>
  Turning YOLO off ends the thread's window and its tool grants, and nothing else: from then on
  the only standing approval the thread can have is the task grant it had before, which still lets
  every danger tool run.
\<close>

theorem disable_yolo_leaves_task_grant:
  assumes "disable_yolo cs t = (Inr (), cs')" and "can_read cs" and "store_wf cs" and "t \<noteq> []"
    and "approval_leaves t tool cs"
    and "\<forall>r \<in> set (rows cs). rkey r = grant_key t tool \<longrightarrow> rcat r = ''safety''"
  shows "standing_live now cs' t tool = (if task_live now cs t then Some ByTaskGrant else None)"
proof -
  obtain P where cs': "cs' = cs\<lparr>rows := filter P (rows cs)\<rparr>"
    and P: "r \<in> set (rows cs) \<Longrightarrow>
       (P r \<longrightarrow> rkey r \<noteq> yolo_key t \<and> \<not> (rcat r = ''safety'' \<and> starts_with (grant_prefix t) (rkey r))) \<and>
       (rkey r \<noteq> yolo_key t \<and> \<not> starts_with (grant_prefix t) (rkey r) \<longrightarrow> P r)" for r
    using disable_yolo_rows[OF assms(1,2,4)] by blast
  have pre: "starts_with (grant_prefix t) (grant_key t tool)" "\<not> starts_with (grant_prefix t) (task_key t)"
    by (simp add: grant_prefix_def grant_key_def starts_with_iff, simp add: grant_prefix_def task_key_def)
  have none: "cs_get cs' k = Inr PNone"
    if "leaf_key cs k" "\<And>r. find_row cs k = Some r \<Longrightarrow> \<not> P r" for k
    using that cs_get_filter_leaf[OF that(1) assms(2,3), of P] by (simp add: cs' split: option.split)
  have leaves: "leaf_key cs (yolo_key t)" "leaf_key cs (task_key t)" "leaf_key cs (grant_key t tool)"
    using assms(5) by (simp_all add: approval_leaves_def)
  have "cs_get cs' (yolo_key t) = Inr PNone"
    by (rule none[OF leaves(1)]) (use P find_row_SomeD in blast)
  then have "\<not> yolo_live now cs' t" by (simp add: yolo_live_def window_open_def)
  moreover have "cs_get cs' (grant_key t tool) = Inr PNone"
    by (rule none[OF leaves(3)]) (use P pre(1) assms(6) find_row_SomeD in metis)
  then have "\<not> tool_live now cs' t tool" by (simp add: tool_live_def grant_open_def window_open_def)
  moreover have "task_live now cs' t = task_live now cs t"
  proof (cases "find_row cs (task_key t)")
    case None
    then have "cs_get cs' (task_key t) = Inr PNone" by (intro none[OF leaves(2)]) simp
    with None leaves(2) assms(2) show ?thesis by (simp add: task_live_def cs_get_leaf_missing)
  next
    case (Some r)
    then have "P r" using P pre(2) find_row_SomeD key_neq(2) by metis
    with Some cs_get_filter_leaf[OF leaves(2) assms(2,3), of P] assms(2) show ?thesis
      by (simp add: task_live_def cs' cs_get_row)
  qed
  ultimately show ?thesis by (simp add: standing_live_def)
qed

definition two_approvals :: cstore where
  "two_approvals =
     put_row 0 (task_key ''t'') (PDict (task_payload 0 ''op'' 600)) ''safety''
       (put_row 0 (yolo_key ''t'') (PDict (yolo_payload 0 ''op'' 3600 False)) ''safety'' empty_store)"

text \<open>
  The three kinds of record treat a bare flag from before records had an end time differently:
  a bare True is no YOLO window at any time, and is a task grant and a tool grant without end.
\<close>

theorem bare_flags_disagree:
  "\<not> yolo_live now (put_row 0 (yolo_key ''t'') (PBool True) ''safety'' empty_store) ''t''
   \<and> task_live now (put_row 0 (task_key ''t'') (PBool True) ''safety'' empty_store) ''t''
   \<and> tool_live now (put_row 0 (grant_key ''t'' ''x'') (PBool True) ''safety'' empty_store) ''t'' ''x''"
  by (simp add: yolo_live_def window_open_def task_live_def task_open_def task_record_def tool_live_def
      grant_open_def)

end
