(* ===== verification/CallAuthority.thy ===== *)
theory CallAuthority
  imports HitlGrants "HOL-Library.Multiset"
begin

text \<open>
  The chat graph's authority over one tool call (kazma_core/safety/call_authority.py), as the tool registry
  spends it (kazma_core/agent/tool_registry.py), and the calls an answered card covers when a standing approval
  lets them run unasked (kazma_core/safety/unasked.py).

  An authority is an object that contexts share: copying a context copies the reference, and spending the
  authority in one copy is seen in all of them. So the objects live in a store, by index, and each context
  (a task's) holds indices, with the values its open \<open>with\<close> blocks will restore.
\<close>

subsection \<open>Contexts and authorities\<close>

datatype auth_var = Approved | GraphGate

record authority =
  a_tool :: string
  a_consumed :: bool

record ctx =
  x_approved :: "nat option"
  x_graph :: "nat option"
  x_saved :: "(auth_var \<times> nat option) list"

record world =
  w_auths :: "authority list"
  w_ctxs :: "ctx list"

fun var_get :: "auth_var \<Rightarrow> ctx \<Rightarrow> nat option" where
  "var_get Approved x = x_approved x"
| "var_get GraphGate x = x_graph x"

fun var_set :: "auth_var \<Rightarrow> nat option \<Rightarrow> ctx \<Rightarrow> ctx" where
  "var_set Approved a x = x\<lparr>x_approved := a\<rparr>"
| "var_set GraphGate a x = x\<lparr>x_graph := a\<rparr>"

text \<open>\<open>var.set\<close> with a token to come back to, and \<open>var.reset\<close> of the latest token.\<close>

definition var_push :: "auth_var \<Rightarrow> nat option \<Rightarrow> ctx \<Rightarrow> ctx" where
  "var_push v a x = (var_set v a x)\<lparr>x_saved := (v, var_get v x) # x_saved x\<rparr>"

definition var_pop :: "ctx \<Rightarrow> ctx" where
  "var_pop x = (case x_saved x of [] \<Rightarrow> x | (v, old) # saved \<Rightarrow> (var_set v old x)\<lparr>x_saved := saved\<rparr>)"

definition on_ctx :: "nat \<Rightarrow> (ctx \<Rightarrow> ctx) \<Rightarrow> world \<Rightarrow> world" where
  "on_ctx c f w = (if c < length (w_ctxs w) then w\<lparr>w_ctxs := (w_ctxs w)[c := f (w_ctxs w ! c)]\<rparr> else w)"

text \<open>\<open>call_authority\<close>: a new object, bound for the block.\<close>

definition bind_authority :: "nat \<Rightarrow> auth_var \<Rightarrow> string \<Rightarrow> world \<Rightarrow> world" where
  "bind_authority c v tool w =
     (if c < length (w_ctxs w)
      then on_ctx c (var_push v (Some (length (w_auths w)))) (w\<lparr>w_auths := w_auths w @ [\<lparr>a_tool = tool, a_consumed = False\<rparr>]\<rparr>)
      else w)"

definition leave_block :: "nat \<Rightarrow> world \<Rightarrow> world" where
  "leave_block c w = on_ctx c var_pop w"

text \<open>\<open>without_call_authority\<close>: both variables are None in the block; leaving it is two \<open>leave_block\<close>s.\<close>

definition enter_without :: "nat \<Rightarrow> world \<Rightarrow> world" where
  "enter_without c w = on_ctx c (\<lambda>x. var_push GraphGate None (var_push Approved None x)) w"

text \<open>\<open>asyncio.create_task\<close> copies the context; \<open>detached_context\<close> is a copy with no authority.\<close>

definition copy_context :: "nat \<Rightarrow> world \<Rightarrow> world" where
  "copy_context c w =
     (if c < length (w_ctxs w) then w\<lparr>w_ctxs := w_ctxs w @ [(w_ctxs w ! c)\<lparr>x_saved := []\<rparr>]\<rparr> else w)"

definition detached_context :: "nat \<Rightarrow> world \<Rightarrow> world" where
  "detached_context c w =
     (if c < length (w_ctxs w)
      then w\<lparr>w_ctxs := w_ctxs w @ [(w_ctxs w ! c)\<lparr>x_approved := None, x_graph := None, x_saved := []\<rparr>]\<rparr> else w)"

definition claim_call_authority :: "nat \<Rightarrow> auth_var \<Rightarrow> string \<Rightarrow> world \<Rightarrow> bool \<times> world" where
  "claim_call_authority c v tool w =
     (if c < length (w_ctxs w)
      then (case var_get v (w_ctxs w ! c) of
              None \<Rightarrow> (False, w)
            | Some a \<Rightarrow>
                if a < length (w_auths w) \<and> \<not> a_consumed (w_auths w ! a) \<and> a_tool (w_auths w ! a) = tool
                then (True, w\<lparr>w_auths := (w_auths w)[a := (w_auths w ! a)\<lparr>a_consumed := True\<rparr>]\<rparr>)
                else (False, w))
      else (False, w))"

text \<open>An execution claims both; either one keeps it from asking the bus.\<close>

definition execute_claims :: "nat \<Rightarrow> string \<Rightarrow> world \<Rightarrow> (bool \<times> bool) \<times> world" where
  "execute_claims c tool w =
     (case claim_call_authority c Approved tool w of
        (approved, w1) \<Rightarrow>
          (case claim_call_authority c GraphGate tool w1 of (graph, w2) \<Rightarrow> ((approved, graph), w2)))"

datatype authority_op =
    Bind nat auth_var string
  | Leave nat
  | Without nat
  | Spawn nat
  | Detach nat
  | Execute nat string

text \<open>A run, and the executions in it: the context, the tool, and what each variable answered.\<close>

type_synonym execution = "nat \<times> string \<times> bool \<times> bool"

fun authority_step :: "world \<Rightarrow> authority_op \<Rightarrow> world \<times> execution list" where
  "authority_step w (Bind c v tool) = (bind_authority c v tool w, [])"
| "authority_step w (Leave c) = (leave_block c w, [])"
| "authority_step w (Without c) = (enter_without c w, [])"
| "authority_step w (Spawn c) = (copy_context c w, [])"
| "authority_step w (Detach c) = (detached_context c w, [])"
| "authority_step w (Execute c tool) = (case execute_claims c tool w of (r, w') \<Rightarrow> (w', [(c, tool, fst r, snd r)]))"

fun authority_run :: "world \<Rightarrow> authority_op list \<Rightarrow> world \<times> execution list" where
  "authority_run w [] = (w, [])"
| "authority_run w (op # ops) =
     (case authority_step w op of (w1, es) \<Rightarrow> (case authority_run w1 ops of (w2, es') \<Rightarrow> (w2, es @ es')))"

definition first_context :: world where
  "first_context = \<lparr>w_auths = [], w_ctxs = [\<lparr>x_approved = None, x_graph = None, x_saved = []\<rparr>]\<rparr>"

subsection \<open>Each decision is spent once\<close>

text \<open>
  What kind each object is of: the variable it was bound to. Contexts refer, under a variable, only to
  objects of that kind, and the blocks they will leave restore only such.
\<close>

definition refers :: "auth_var list \<Rightarrow> auth_var \<Rightarrow> nat option \<Rightarrow> bool" where
  "refers ks v old \<longleftrightarrow> (case old of None \<Rightarrow> True | Some a \<Rightarrow> a < length ks \<and> ks ! a = v)"

definition ctx_kinds :: "auth_var list \<Rightarrow> ctx \<Rightarrow> bool" where
  "ctx_kinds ks x \<longleftrightarrow> (\<forall>v. refers ks v (var_get v x)) \<and> (\<forall>(v, old) \<in> set (x_saved x). refers ks v old)"

definition world_kinds :: "auth_var list \<Rightarrow> world \<Rightarrow> bool" where
  "world_kinds ks w \<longleftrightarrow> length ks = length (w_auths w) \<and> (\<forall>x \<in> set (w_ctxs w). ctx_kinds ks x)"

definition unspent :: "auth_var list \<Rightarrow> world \<Rightarrow> auth_var \<Rightarrow> string \<Rightarrow> nat" where
  "unspent ks w v tool = length (filter (\<lambda>(k, a). k = v \<and> a_tool a = tool \<and> \<not> a_consumed a) (zip ks (w_auths w)))"

lemma var_get_set [simp]: "var_get v' (var_set v a x) = (if v' = v then a else var_get v' x)"
  by (cases v; cases v') simp_all

lemma var_set_saved [simp]: "x_saved (var_set v a x) = x_saved x"
  by (cases v) simp_all

lemma var_get_saved [simp]: "var_get v (x\<lparr>x_saved := s\<rparr>) = var_get v x"
  by (cases v) simp_all

lemma var_push_simps [simp]:
  "var_get v' (var_push v a x) = (if v' = v then a else var_get v' x)"
  "x_saved (var_push v a x) = (v, var_get v x) # x_saved x"
  by (simp_all add: var_push_def)

lemma refers_None [simp]: "refers ks v None"
  by (simp add: refers_def)

lemma refers_more: "refers ks v old \<Longrightarrow> refers (ks @ [k]) v old"
  by (auto simp: refers_def nth_append split: option.splits)

lemma kinds_push: "ctx_kinds ks x \<Longrightarrow> refers ks v a \<Longrightarrow> ctx_kinds ks (var_push v a x)"
  by (auto simp: ctx_kinds_def)

lemma kinds_pop: "ctx_kinds ks x \<Longrightarrow> ctx_kinds ks (var_pop x)"
  by (auto simp: ctx_kinds_def var_pop_def split: list.split)

lemma kinds_more: "ctx_kinds ks x \<Longrightarrow> ctx_kinds (ks @ [k]) x"
  using refers_more by (fastforce simp: ctx_kinds_def)

lemma world_kinds_on_ctx:
  "world_kinds ks w \<Longrightarrow> (\<And>x. ctx_kinds ks x \<Longrightarrow> ctx_kinds ks (f x)) \<Longrightarrow> world_kinds ks (on_ctx c f w)"
  by (auto simp: world_kinds_def on_ctx_def dest!: subsetD[OF set_update_subset_insert])

lemma on_ctx_auths [simp]: "w_auths (on_ctx c f w) = w_auths w"
  by (simp add: on_ctx_def)

lemma unspent_on_ctx [simp]: "unspent ks (on_ctx c f w) v tool = unspent ks w v tool"
  by (simp add: unspent_def)

lemma length_filter_update:
  "a < length xs \<Longrightarrow> length (filter P (xs[a := y])) + (if P (xs ! a) then 1 else 0) = length (filter P xs) + (if P y then 1 else 0)"
proof (induction xs arbitrary: a)
  case (Cons x xs)
  then show ?case by (cases a) auto
qed simp

lemma claim_spent:
  assumes "c < length (w_ctxs w)" "var_get v (w_ctxs w ! c) = Some a" "a < length (w_auths w)" "\<not> a_consumed (w_auths w ! a)"
    and "world_kinds ks w"
  defines "w' \<equiv> w\<lparr>w_auths := (w_auths w)[a := (w_auths w ! a)\<lparr>a_consumed := True\<rparr>]\<rparr>"
  shows "world_kinds ks w'"
    and "unspent ks w' v' t + (if v' = v \<and> t = a_tool (w_auths w ! a) then 1 else 0) = unspent ks w v' t"
proof -
  let ?x = "(w_auths w ! a)\<lparr>a_consumed := True\<rparr>"
  let ?P = "\<lambda>(k, x). k = v' \<and> a_tool x = t \<and> \<not> a_consumed x"
  have len: "length ks = length (w_auths w)" using assms(5) by (simp add: world_kinds_def)
  have "ctx_kinds ks (w_ctxs w ! c)" using assms(5,1) by (simp add: world_kinds_def)
  then have "refers ks v (Some a)" using assms(2) unfolding ctx_kinds_def by metis
  then have kind: "ks ! a = v" by (simp add: refers_def)
  have zip: "zip ks ((w_auths w)[a := ?x]) = (zip ks (w_auths w))[a := (ks ! a, ?x)]"
    using update_zip[of ks "w_auths w" a "(ks ! a, ?x)"] by simp
  have "length (filter ?P ((zip ks (w_auths w))[a := (ks ! a, ?x)])) + (if ?P (zip ks (w_auths w) ! a) then 1 else 0)
      = length (filter ?P (zip ks (w_auths w))) + (if ?P (ks ! a, ?x) then 1 else 0)"
    by (rule length_filter_update) (use len assms(3) in simp)
  moreover have "?P (zip ks (w_auths w) ! a) \<longleftrightarrow> v' = v \<and> t = a_tool (w_auths w ! a)"
    using assms(3,4) len kind by auto
  moreover have "\<not> ?P (ks ! a, ?x)" by simp
  ultimately have "length (filter ?P ((zip ks (w_auths w))[a := (ks ! a, ?x)])) + (if v' = v \<and> t = a_tool (w_auths w ! a) then 1 else 0)
      = length (filter ?P (zip ks (w_auths w)))" by (simp only: if_False add_0_right)
  then show "unspent ks w' v' t + (if v' = v \<and> t = a_tool (w_auths w ! a) then 1 else 0) = unspent ks w v' t"
    by (simp add: unspent_def w'_def zip)
  show "world_kinds ks w'" using assms(5) by (simp add: world_kinds_def w'_def)
qed

lemma claim_uses_up:
  assumes "claim_call_authority c v tool w = (r, w')" "world_kinds ks w"
  shows "world_kinds ks w'"
    and "unspent ks w' v' t + (if r \<and> v' = v \<and> t = tool then 1 else 0) = unspent ks w v' t"
proof -
  let ?claimed = "\<lambda>a. c < length (w_ctxs w) \<and> var_get v (w_ctxs w ! c) = Some a \<and> a < length (w_auths w)
    \<and> \<not> a_consumed (w_auths w ! a) \<and> a_tool (w_auths w ! a) = tool"
  have "world_kinds ks w' \<and> unspent ks w' v' t + (if r \<and> v' = v \<and> t = tool then 1 else 0) = unspent ks w v' t"
  proof (cases "\<exists>a. ?claimed a")
    case False
    then have "claim_call_authority c v tool w = (False, w)"
      by (auto simp: claim_call_authority_def split: option.split)
    then show ?thesis using assms by simp
  next
    case True
    then obtain a where a: "?claimed a" ..
    then have "claim_call_authority c v tool w = (True, w\<lparr>w_auths := (w_auths w)[a := (w_auths w ! a)\<lparr>a_consumed := True\<rparr>]\<rparr>)"
      by (simp add: claim_call_authority_def)
    then show ?thesis using assms claim_spent[of c w v a ks] a by simp
  qed
  then show "world_kinds ks w'" "unspent ks w' v' t + (if r \<and> v' = v \<and> t = tool then 1 else 0) = unspent ks w v' t"
    by blast+
qed

definition spends :: "auth_var \<Rightarrow> string \<Rightarrow> execution list \<Rightarrow> nat" where
  "spends v tool es = length (filter (\<lambda>(c, t, approved, graph). t = tool \<and> (if v = Approved then approved else graph)) es)"

definition decisions :: "auth_var \<Rightarrow> string \<Rightarrow> authority_op list \<Rightarrow> nat" where
  "decisions v tool ops = length (filter (\<lambda>op. case op of Bind c v' t \<Rightarrow> v' = v \<and> t = tool | _ \<Rightarrow> False) ops)"

lemma spends_append [simp]: "spends v tool (es @ es') = spends v tool es + spends v tool es'"
  by (simp add: spends_def)

lemma spends_Nil [simp]: "spends v tool [] = 0"
  by (simp add: spends_def)

lemma step_uses_up:
  assumes "authority_step w op = (w', es)" "world_kinds ks w"
  shows "\<exists>ks'. world_kinds ks' w' \<and> (\<forall>v tool. unspent ks' w' v tool + spends v tool es \<le> unspent ks w v tool + decisions v tool [op])"
proof (cases op)
  case (Bind c v tool)
  show ?thesis
  proof (cases "c < length (w_ctxs w)")
    case True
    let ?w = "w\<lparr>w_auths := w_auths w @ [\<lparr>a_tool = tool, a_consumed = False\<rparr>]\<rparr>"
    have len: "length ks = length (w_auths w)" using assms(2) by (simp add: world_kinds_def)
    have "world_kinds (ks @ [v]) ?w" using assms(2) kinds_more by (auto simp: world_kinds_def)
    then have "world_kinds (ks @ [v]) (on_ctx c (var_push v (Some (length (w_auths w)))) ?w)"
      by (rule world_kinds_on_ctx) (rule kinds_push, simp_all add: refers_def nth_append len[symmetric])
    moreover have "unspent (ks @ [v]) ?w v' t = unspent ks w v' t + decisions v' t [op]" for v' t
      using Bind len by (simp add: unspent_def decisions_def)
    ultimately show ?thesis using Bind True assms(1) by (intro exI[of _ "ks @ [v]"]) (auto simp: bind_authority_def)
  next
    case False
    then show ?thesis using Bind assms by (intro exI[of _ ks]) (auto simp: bind_authority_def)
  qed
next
  case (Leave c)
  have "world_kinds ks (on_ctx c var_pop w)" using assms(2) kinds_pop by (rule world_kinds_on_ctx)
  then show ?thesis using Leave assms(1) by (intro exI[of _ ks]) (auto simp: leave_block_def)
next
  case (Without c)
  have "world_kinds ks (on_ctx c (\<lambda>x. var_push GraphGate None (var_push Approved None x)) w)"
    using assms(2) by (rule world_kinds_on_ctx) (simp add: kinds_push)
  then show ?thesis using Without assms(1) by (intro exI[of _ ks]) (auto simp: enter_without_def)
next
  case (Spawn c)
  show ?thesis
  proof (cases "c < length (w_ctxs w)")
    case True
    have "ctx_kinds ks (w_ctxs w ! c)" using True assms(2) by (simp add: world_kinds_def)
    then have "ctx_kinds ks ((w_ctxs w ! c)\<lparr>x_saved := []\<rparr>)" by (simp add: ctx_kinds_def)
    then have "world_kinds ks (copy_context c w)" using True assms(2) by (simp add: copy_context_def world_kinds_def)
    then show ?thesis using Spawn True assms(1) by (intro exI[of _ ks]) (auto simp: copy_context_def unspent_def)
  next
    case False
    then show ?thesis using Spawn assms by (intro exI[of _ ks]) (auto simp: copy_context_def)
  qed
next
  case (Detach c)
  show ?thesis
  proof (cases "c < length (w_ctxs w)")
    case True
    have none: "var_get v (x\<lparr>x_approved := None, x_graph := None, x_saved := []\<rparr>) = None" for v and x :: ctx by (cases v) simp_all
    have "ctx_kinds ks ((w_ctxs w ! c)\<lparr>x_approved := None, x_graph := None, x_saved := []\<rparr>)"
      unfolding ctx_kinds_def none by simp
    then have "world_kinds ks (detached_context c w)" using True assms(2) by (simp add: detached_context_def world_kinds_def)
    then show ?thesis using Detach True assms(1) by (intro exI[of _ ks]) (auto simp: detached_context_def unspent_def)
  next
    case False
    then show ?thesis using Detach assms by (intro exI[of _ ks]) (auto simp: detached_context_def)
  qed
next
  case (Execute c tool)
  obtain r1 w1 r2 where cl: "claim_call_authority c Approved tool w = (r1, w1)" "claim_call_authority c GraphGate tool w1 = (r2, w')"
    and es: "es = [(c, tool, r1, r2)]"
    using Execute assms(1) by (auto simp: execute_claims_def split: prod.splits)
  note s1 = claim_uses_up[OF cl(1) assms(2)]
  note s2 = claim_uses_up[OF cl(2) s1(1)]
  have "unspent ks w' v t + spends v t es = unspent ks w v t" for v t
    using s1(2)[of v t] s2(2)[of v t] es by (cases v) (auto simp: spends_def split: if_splits)
  then show ?thesis using s2(1) Execute by (intro exI[of _ ks]) (simp add: decisions_def)
qed

lemma run_uses_up:
  assumes "authority_run w ops = (w', es)" "world_kinds ks w"
  shows "spends v tool es \<le> unspent ks w v tool + decisions v tool ops"
  using assms
proof (induction ops arbitrary: w ks es)
  case (Cons op ops)
  obtain w1 es1 es2 where s: "authority_step w op = (w1, es1)" "authority_run w1 ops = (w', es2)" "es = es1 @ es2"
    using Cons.prems(1) by (auto split: prod.splits)
  obtain ks1 where k: "world_kinds ks1 w1" "\<forall>v tool. unspent ks1 w1 v tool + spends v tool es1 \<le> unspent ks w v tool + decisions v tool [op]"
    using step_uses_up[OF s(1) Cons.prems(2)] by blast
  have "decisions v tool (op # ops) = decisions v tool [op] + decisions v tool ops" by (simp add: decisions_def)
  then show ?case using Cons.IH[OF s(2) k(1)] k(2)[rule_format, of v tool] s(3) by simp
qed simp

text \<open>C2: A decision of the graph is spent at most once: in any interleaving of tasks, copied contexts, detached work and
  blocks, the executions of a tool that are let past the swarm bus under an approval, or under the graph's gate, are
  never more than the calls of that tool it was given for.\<close>

theorem decisions_are_spent_once:
  "spends v tool (snd (authority_run first_context ops)) \<le> decisions v tool ops"
proof -
  obtain w' es where r: "authority_run first_context ops = (w', es)" by fastforce
  have none: "var_get v \<lparr>x_approved = None, x_graph = None, x_saved = []\<rparr> = None" for v by (cases v) simp_all
  have "world_kinds [] first_context" by (simp add: first_context_def world_kinds_def ctx_kinds_def none)
  from run_uses_up[OF r this] show ?thesis using r by (simp add: unspent_def first_context_def)
qed

subsection \<open>Detached work\<close>

text \<open>Nothing of an authority is in the context, and no block it is in would bring one back.\<close>

definition bare :: "ctx \<Rightarrow> bool" where
  "bare x \<longleftrightarrow> x_approved x = None \<and> x_graph x = None \<and> (\<forall>(v, old) \<in> set (x_saved x). old = None)"

lemma bare_var: "bare x \<Longrightarrow> var_get v x = None"
  by (cases v) (simp_all add: bare_def)

lemma bare_push: "bare x \<Longrightarrow> bare (var_push v None x)"
  by (cases v) (auto simp: bare_def var_push_def)

lemma bare_pop: "bare x \<Longrightarrow> bare (var_pop x)"
proof (cases "x_saved x")
  case (Cons p ps)
  assume "bare x"
  then show ?thesis using Cons by (cases p; cases "fst p") (auto simp: bare_def var_pop_def)
qed (simp add: var_pop_def)

lemma on_ctx_nth: "n < length (w_ctxs w) \<Longrightarrow> w_ctxs (on_ctx c f w) ! n = (if n = c then f (w_ctxs w ! c) else w_ctxs w ! n)"
  by (auto simp: on_ctx_def nth_list_update)

lemma on_ctx_length [simp]: "length (w_ctxs (on_ctx c f w)) = length (w_ctxs w)"
  by (simp add: on_ctx_def)

text \<open>The contexts that stem from a set of contexts: those and the copies made of them. What they execute in a run, and
  that no call of the graph is bound in them.\<close>

definition next_family :: "nat set \<Rightarrow> world \<Rightarrow> authority_op \<Rightarrow> nat set" where
  "next_family S w op =
     (case op of
        Spawn c \<Rightarrow> if c \<in> S then insert (length (w_ctxs w)) S else S
      | Detach c \<Rightarrow> if c \<in> S then insert (length (w_ctxs w)) S else S
      | _ \<Rightarrow> S)"

fun family_executions :: "nat set \<Rightarrow> world \<Rightarrow> authority_op list \<Rightarrow> execution list" where
  "family_executions S w [] = []"
| "family_executions S w (op # ops) =
     filter (\<lambda>e. fst e \<in> S) (snd (authority_step w op))
       @ family_executions (next_family S w op) (fst (authority_step w op)) ops"

fun no_binding :: "nat set \<Rightarrow> world \<Rightarrow> authority_op list \<Rightarrow> bool" where
  "no_binding S w [] = True"
| "no_binding S w (op # ops) =
     ((case op of Bind c v tool \<Rightarrow> c \<notin> S | _ \<Rightarrow> True) \<and> no_binding (next_family S w op) (fst (authority_step w op)) ops)"

definition clean :: "nat set \<Rightarrow> world \<Rightarrow> bool" where
  "clean S w \<longleftrightarrow> (\<forall>i \<in> S. i < length (w_ctxs w) \<and> bare (w_ctxs w ! i))"

lemma clean_on_ctx:
  "clean S w \<Longrightarrow> (c \<in> S \<Longrightarrow> \<forall>x. bare x \<longrightarrow> bare (f x)) \<Longrightarrow> clean S (on_ctx c f w)"
  by (auto simp: clean_def on_ctx_nth)

lemma clean_more: "clean S w \<Longrightarrow> w_ctxs w' = w_ctxs w @ xs \<Longrightarrow> clean S w'"
  by (auto simp: clean_def nth_append)

lemma claim_bare:
  "clean S w \<Longrightarrow> c \<in> S \<Longrightarrow> claim_call_authority c v tool w = (False, w)"
  by (simp add: clean_def claim_call_authority_def bare_var)

lemma claim_ctxs: "w_ctxs (snd (claim_call_authority c v tool w)) = w_ctxs w"
  by (simp add: claim_call_authority_def split: option.split)

lemma step_clean:
  assumes "clean S w" "case op of Bind c v tool \<Rightarrow> c \<notin> S | _ \<Rightarrow> True"
  shows "clean (next_family S w op) (fst (authority_step w op))"
    and "\<forall>e \<in> set (snd (authority_step w op)). fst e \<in> S \<longrightarrow> snd (snd e) = (False, False)"
proof -
  show "clean (next_family S w op) (fst (authority_step w op))"
  proof (cases op)
    case (Bind c v tool)
    have "clean S (w\<lparr>w_auths := as\<rparr>)" for as using assms(1) by (simp add: clean_def)
    then show ?thesis using Bind assms by (auto simp: next_family_def bind_authority_def intro!: clean_on_ctx)
  next
    case (Leave c)
    then show ?thesis using assms(1) bare_pop by (auto simp: next_family_def leave_block_def intro!: clean_on_ctx)
  next
    case (Without c)
    then show ?thesis using assms(1) bare_push by (auto simp: next_family_def enter_without_def intro!: clean_on_ctx)
  next
    case (Spawn c)
    show ?thesis
    proof (cases "c < length (w_ctxs w)")
      case True
      have "bare (w_ctxs w ! c) \<Longrightarrow> bare ((w_ctxs w ! c)\<lparr>x_saved := []\<rparr>)" by (simp add: bare_def)
      then show ?thesis using Spawn True assms(1) by (auto simp: next_family_def copy_context_def clean_def nth_append)
    next
      case False
      then show ?thesis using Spawn assms(1) by (auto simp: next_family_def copy_context_def clean_def)
    qed
  next
    case (Detach c)
    have "bare (x\<lparr>x_approved := None, x_graph := None, x_saved := []\<rparr>)" for x by (simp add: bare_def)
    then show ?thesis using Detach assms(1) by (auto simp: next_family_def detached_context_def clean_def nth_append)
  next
    case (Execute c tool)
    have "w_ctxs (fst (authority_step w op)) = w_ctxs w"
      using Execute claim_ctxs by (auto simp: execute_claims_def split: prod.split) (metis snd_conv)
    then show ?thesis using Execute assms(1) by (simp add: next_family_def clean_def)
  qed
  show "\<forall>e \<in> set (snd (authority_step w op)). fst e \<in> S \<longrightarrow> snd (snd e) = (False, False)"
    using assms(1) by (cases op) (auto simp: execute_claims_def claim_bare split: prod.splits)
qed

lemma family_asks:
  assumes "clean S w" "no_binding S w ops" "e \<in> set (family_executions S w ops)"
  shows "snd (snd e) = (False, False)"
  using assms
proof (induction ops arbitrary: S w)
  case (Cons op ops)
  note s = step_clean[OF Cons.prems(1), of op]
  show ?case using Cons.prems(2,3) s Cons.IH by (cases op) auto
qed simp

text \<open>C3: Work that was detached from a call never runs on that call's authority: whatever it and the tasks it starts
  execute, neither variable answers for them, so every danger tool of theirs asks the swarm bus - unless the graph
  itself decides a call in them.\<close>

theorem detached_work_asks:
  assumes "c < length (w_ctxs w)" "no_binding {length (w_ctxs w)} (detached_context c w) ops"
    and "e \<in> set (family_executions {length (w_ctxs w)} (detached_context c w) ops)"
  shows "snd (snd e) = (False, False)"
proof (rule family_asks[OF _ assms(2,3)])
  show "clean {length (w_ctxs w)} (detached_context c w)"
    using assms(1) by (simp add: clean_def detached_context_def bare_def)
qed

subsection \<open>Calls an answered card covers\<close>

text \<open>The calls each thread's last card approved: when it was answered, and how often each tool.\<close>

type_synonym card_calls = "string \<rightharpoonup> real \<times> string multiset"

definition CARD_MARK_S :: real where "CARD_MARK_S = 300"

text \<open>\<open>Counter(str(t["name"]) for t in tools ...)\<close>; a single call may carry only its name.\<close>

definition card_names :: "(pyval \<Rightarrow> string) \<Rightarrow> pyval list \<Rightarrow> string \<Rightarrow> string multiset" where
  "card_names str_of tools tool =
     (let named = concat (map (\<lambda>t. case t of PDict d \<Rightarrow> if truthy (dget d ''name'')
                                         then [case dget d ''name'' of PStr s \<Rightarrow> s | v \<Rightarrow> str_of v] else [] | _ \<Rightarrow> []) tools)
      in if named \<noteq> [] then mset named
         else if tool \<noteq> [] \<and> \<not> is_tool_batch_label tool then {#tool#}
         else {#})"

definition card_answered ::
  "(pyval \<Rightarrow> string) \<Rightarrow> real \<Rightarrow> string \<Rightarrow> pyval list \<Rightarrow> string \<Rightarrow> card_calls \<Rightarrow> card_calls" where
  "card_answered str_of now thread tools tool m =
     (let names = card_names str_of tools tool
      in if thread = [] \<or> names = {#} then m else m(thread \<mapsto> (now, names)))"

definition asked_on_its_card :: "real \<Rightarrow> string \<Rightarrow> string \<Rightarrow> card_calls \<Rightarrow> bool \<times> card_calls" where
  "asked_on_its_card now tool thread m =
     (case m thread of
        None \<Rightarrow> (False, m)
      | Some (answered, names) \<Rightarrow>
          if CARD_MARK_S < now - answered then (False, m(thread := None))
          else if tool \<notin># names then (False, m)
          else (let left = names - {#tool#}
                in (True, if left = {#} then m(thread := None) else m(thread \<mapsto> (answered, left)))))"

text \<open>Whether the line "ran without asking" is written.\<close>

definition note_ran_without_asking :: "real \<Rightarrow> string \<Rightarrow> string \<Rightarrow> card_calls \<Rightarrow> bool \<times> card_calls" where
  "note_ran_without_asking now tool thread m =
     (case asked_on_its_card now tool thread m of (asked, m') \<Rightarrow> (\<not> asked, m'))"

text \<open>The calls that run on a thread under a standing approval, one after another: which of them are not noted.\<close>

fun unnoted :: "string \<Rightarrow> (real \<times> string) list \<Rightarrow> card_calls \<Rightarrow> (real \<times> string) list" where
  "unnoted thread [] m = []"
| "unnoted thread ((now, tool) # calls) m =
     (case note_ran_without_asking now tool thread m of
        (noted, m') \<Rightarrow> (if noted then [] else [(now, tool)]) @ unnoted thread calls m')"

definition marks :: "card_calls \<Rightarrow> string \<Rightarrow> string \<Rightarrow> nat" where
  "marks m thread tool = (case m thread of None \<Rightarrow> 0 | Some (_, names) \<Rightarrow> count names tool)"

lemma note_spends_mark:
  assumes "note_ran_without_asking now t thread m = (noted, m')"
  shows "marks m' thread tool + (if \<not> noted \<and> t = tool then 1 else 0) \<le> marks m thread tool"
proof (cases "m thread")
  case None
  then show ?thesis using assms by (simp add: note_ran_without_asking_def asked_on_its_card_def)
next
  case (Some p)
  obtain answered names where p: "p = (answered, names)" by (cases p)
  show ?thesis
  proof (cases "CARD_MARK_S < now - answered \<or> t \<notin># names")
    case True
    then show ?thesis using assms Some p
      by (auto simp: note_ran_without_asking_def asked_on_its_card_def marks_def split: if_split_asm)
  next
    case False
    define left where "left = names - {#t#}"
    have "count left tool + (if t = tool then 1 else 0) = count names tool"
      using False count_greater_zero_iff[of names t] by (auto simp: left_def)
    moreover have "\<not> noted" "m' = (if left = {#} then m(thread := None) else m(thread \<mapsto> (answered, left)))"
      using assms Some p False by (auto simp: note_ran_without_asking_def asked_on_its_card_def Let_def left_def)
    ultimately show ?thesis using Some p by (cases "left = {#}") (auto simp: marks_def)
  qed
qed

text \<open>A card hides no more calls than it asked about: of the calls that run under a standing approval after a card
  was answered, at most as many of a tool go unnoted as the card listed of it.\<close>

theorem card_hides_only_its_calls:
  assumes "names = card_names str_of tools tool0" "thread \<noteq> []" "m thread = None"
  shows "length (filter (\<lambda>c. snd c = tool) (unnoted thread calls (card_answered str_of now thread tools tool0 m))) \<le> count names tool"
proof -
  have "length (filter (\<lambda>c. snd c = tool) (unnoted thread calls m')) \<le> marks m' thread tool" for m'
  proof (induction calls arbitrary: m')
    case (Cons c calls)
    obtain t call where c: "c = (t, call)" by (cases c)
    obtain noted m1 where n: "note_ran_without_asking t call thread m' = (noted, m1)" by fastforce
    show ?case using Cons[of m1] note_spends_mark[OF n, of tool] c n by auto
  qed simp
  moreover have "marks (card_answered str_of now thread tools tool0 m) thread tool \<le> count names tool"
    using assms by (simp add: card_answered_def marks_def Let_def)
  ultimately show ?thesis using le_trans by blast
qed

subsection \<open>Examples\<close>

lemma detached_work_asks_witness:
  "(1, ''shell_exec'', False, False) \<in> set (family_executions {1} (detached_context 0 (bind_authority 0 Approved ''shell_exec'' first_context))
     [Execute 1 ''shell_exec''])
   \<and> snd (snd (1 :: nat, ''shell_exec'', False, False)) = (False, False)"
proof -
  have "(1, ''shell_exec'', False, False) \<in> set (family_executions {1} (detached_context 0 (bind_authority 0 Approved ''shell_exec'' first_context))
     [Execute 1 ''shell_exec''])" by code_simp
  moreover have "w_ctxs (bind_authority 0 Approved ''shell_exec'' first_context) \<noteq> []"
    "length (w_ctxs (bind_authority 0 Approved ''shell_exec'' first_context)) = 1" by code_simp+
  ultimately show ?thesis
    using detached_work_asks[of 0 "bind_authority 0 Approved ''shell_exec'' first_context" "[Execute 1 ''shell_exec'']"] by simp
qed

end
