(* ===== verification/HitlGates.thy ===== *)
theory HitlGates
  imports Interfaces
begin

text \<open>
  The registry of approval gates (kazma_core/safety/hitl_gates.py): one row for one question, in
  one SQLite table. The registry is the list of its rows in rowid order and the log of the events
  it published. Every transition is a compare-and-set of one row; a call that raises leaves the
  registry as it was. Rows with equal \<open>created_at\<close> are read in rowid order.
\<close>

subsection \<open>Rows\<close>

datatype gstate = Pending | Claimed | Resuming | Settled | TimedOut | Superseded | Errored

record gate =
  g_id :: string
  g_thread :: string
  g_tool :: string
  g_mech :: string
  g_kind :: string
  g_alias :: string
  g_tenant :: string
  g_session :: string
  g_turn :: string
  g_args :: string
  g_message :: string
  g_payload :: string
  g_state :: gstate
  g_decision :: string
  g_actor :: string
  g_supersedes :: string
  g_created :: real
  g_claimed :: "real option"
  g_settled :: "real option"
  g_expires :: "real option"

definition LIVE_STATES :: "gstate list" where
  "LIVE_STATES = [Pending, Claimed, Resuming]"

definition is_live :: "gate \<Rightarrow> bool" where
  "is_live g \<longleftrightarrow> g_state g \<in> set LIVE_STATES"

record registry =
  gates :: "gate list"
  events :: "(string \<times> gate) list"

definition publish :: "string \<Rightarrow> gate \<Rightarrow> registry \<Rightarrow> registry" where
  "publish ev g r = r\<lparr>events := events r @ [(ev, g)]\<rparr>"

text \<open>
  What a call can raise: a transition conflict, which carries the state, decision and actor the row
  really has (no state when there is no such row), or the table's primary key constraint.
\<close>

datatype gate_error =
    TransitionConflict string string "gstate option" string string
  | IntegrityError

type_synonym gate_result = "gate_error + gate"

definition get_gate :: "gate list \<Rightarrow> string \<Rightarrow> gate option" where
  "get_gate gs gid = find (\<lambda>g. g_id g = gid) gs"

subsection \<open>Registration\<close>

definition same_pause_args :: "string \<Rightarrow> string \<Rightarrow> bool" where
  "same_pause_args a b =
     (let left = py_strip a; right = py_strip b in
      if left = [] \<or> right = [] \<or> left \<in> {''{}'', ''null''} \<or> right \<in> {''{}'', ''null''} then False
      else left = right)"

text \<open>Live rows first, the newest first among each.\<close>

definition live_then_new :: "gate list \<Rightarrow> gate list" where
  "live_then_new gs = sort_key (\<lambda>g. - g_created g) (filter is_live gs)
                    @ sort_key (\<lambda>g. - g_created g) (filter (\<lambda>g. \<not> is_live g) gs)"

definition by_either_id :: "gate list \<Rightarrow> string \<Rightarrow> gate option" where
  "by_either_id gs cid =
     (case live_then_new (filter (\<lambda>g. g_id g = cid \<or> (g_alias g \<noteq> [] \<and> g_alias g = cid)) gs) of
        [] \<Rightarrow> None
      | g # _ \<Rightarrow> if is_live g then Some g else None)"

fun first_live :: "gate list \<Rightarrow> string list \<Rightarrow> gate option" where
  "first_live gs [] = None"
| "first_live gs (cid # cids) =
     (case by_either_id gs cid of Some g \<Rightarrow> Some g | None \<Rightarrow> first_live gs cids)"

text \<open>A live row of the same thread and tool that stands for the same pause, oldest first.\<close>

fun find_twin :: "gate \<Rightarrow> gate list \<Rightarrow> gate option" where
  "find_twin gate [] = None"
| "find_twin gate (ex # exs) =
     (if (g_id gate \<noteq> [] \<and> g_id ex = g_id gate)
         \<or> (g_alias gate \<noteq> [] \<and> g_id ex = g_alias gate)
         \<or> (g_alias ex \<noteq> [] \<and> g_alias ex \<in> {g_id gate, g_alias gate})
         \<or> same_pause_args (g_args ex) (g_args gate)
      then Some ex else find_twin gate exs)"

text \<open>
  The twin found by its arguments alone, when it has no alias yet, gets the new gate's id as its
  alias; one found by an id is returned as it is.
\<close>

definition twin_by_id :: "gate \<Rightarrow> gate \<Rightarrow> bool" where
  "twin_by_id gate ex \<longleftrightarrow>
     (g_id gate \<noteq> [] \<and> g_id ex = g_id gate)
     \<or> (g_alias gate \<noteq> [] \<and> g_id ex = g_alias gate)
     \<or> (g_alias ex \<noteq> [] \<and> g_alias ex \<in> {g_id gate, g_alias gate})"

definition set_row :: "string \<Rightarrow> (gate \<Rightarrow> gate) \<Rightarrow> gate list \<Rightarrow> gate list" where
  "set_row gid f gs = map (\<lambda>g. if g_id g = gid then f g else g) gs"

definition lookup_live_gate :: "gate list \<Rightarrow> gate \<Rightarrow> gate option \<times> gate list" where
  "lookup_live_gate gs gate =
     (case first_live gs (filter (\<lambda>x. x \<noteq> []) [g_alias gate, g_id gate]) of
        Some g \<Rightarrow> (Some g, gs)
      | None \<Rightarrow>
          if g_thread gate = [] \<or> g_tool gate = [] then (None, gs)
          else if g_mech gate = ''swarm_bus'' then (None, gs)
          else case find_twin gate
                 (sort_key g_created
                    (filter (\<lambda>g. g_thread g = g_thread gate \<and> g_tool g = g_tool gate \<and> is_live g) gs)) of
            None \<Rightarrow> (None, gs)
          | Some ex \<Rightarrow>
              if \<not> twin_by_id gate ex \<and> g_alias ex = [] \<and> g_id gate \<noteq> g_id ex
              then (Some (ex\<lparr>g_alias := g_id gate\<rparr>), set_row (g_id ex) (\<lambda>g. g\<lparr>g_alias := g_id gate\<rparr>) gs)
              else (Some ex, gs))"

definition default_gate_ttl :: real where
  "default_gate_ttl = 30 * 60"

definition with_expiry :: "real \<Rightarrow> real option \<Rightarrow> gate \<Rightarrow> gate" where
  "with_expiry now ttl_seconds gate =
     (case g_expires gate of
        Some _ \<Rightarrow> gate
      | None \<Rightarrow>
          let ttl = (case ttl_seconds of None \<Rightarrow> default_gate_ttl | Some t \<Rightarrow> t)
          in gate\<lparr>g_expires := (if 0 < ttl then Some (now + ttl) else None)\<rparr>)"

text \<open>The id of a fresh row for a question asked again under a hash id.\<close>

definition again_id :: "real \<Rightarrow> string \<Rightarrow> string" where
  "again_id now gid = gid @ ''-r'' @ nat_str (nat (trunc (now * 1000) mod 1000000))"

definition insert_gate :: "real \<Rightarrow> gate \<Rightarrow> registry \<Rightarrow> gate_result \<times> registry" where
  "insert_gate now gate r =
     (let g = gate\<lparr>g_created := now\<rparr> in
      if get_gate (gates r) (g_id g) \<noteq> None then (Inl IntegrityError, r)
      else (Inr g, publish ''gate_pending'' g (r\<lparr>gates := gates r @ [g]\<rparr>)))"

definition register_gate :: "real \<Rightarrow> gate \<Rightarrow> real option \<Rightarrow> registry \<Rightarrow> gate_result \<times> registry" where
  "register_gate now gate0 ttl_seconds r =
     (let gate = with_expiry now ttl_seconds gate0 in
      case lookup_live_gate (gates r) gate of
        (Some ex, gs) \<Rightarrow>
          if g_alias gate \<noteq> [] \<and> g_id ex = g_alias gate
          then (if g_id gate \<noteq> g_id ex \<and> get_gate gs (g_id gate) \<noteq> None then (Inl IntegrityError, r)
                else (Inr (ex\<lparr>g_alias := g_id ex, g_id := g_id gate\<rparr>),
                      r\<lparr>gates := set_row (g_id ex) (\<lambda>g. g\<lparr>g_alias := g_id ex, g_id := g_id gate\<rparr>) gs\<rparr>))
          else (Inr ex, r\<lparr>gates := gs\<rparr>)
      | (None, gs) \<Rightarrow>
          (case get_gate gs (g_id gate) of
             None \<Rightarrow> insert_gate now gate r
           | Some ex \<Rightarrow>
               if is_live ex then (Inr ex, r)
               else if starts_with ''gate-'' (g_id gate)
               then insert_gate now (gate\<lparr>g_alias := g_id gate, g_id := again_id now (g_id gate)\<rparr>) r
               else (Inr ex, r)))"

subsection \<open>Transitions\<close>

text \<open>
  \<open>_cas\<close>: the rows of that id in that state take the new state and columns. None when there is
  none, and nothing changed.
\<close>

definition cas :: "string \<Rightarrow> gstate \<Rightarrow> gstate \<Rightarrow> (gate \<Rightarrow> gate) \<Rightarrow> gate list \<Rightarrow> gate list option" where
  "cas gid from_state to_state sets gs =
     (if list_ex (\<lambda>g. g_id g = gid \<and> g_state g = from_state) gs
      then Some (map (\<lambda>g. if g_id g = gid \<and> g_state g = from_state
                          then (sets g)\<lparr>g_state := to_state\<rparr> else g) gs)
      else None)"

definition conflict :: "gate list \<Rightarrow> string \<Rightarrow> string \<Rightarrow> gate_error" where
  "conflict gs gid expected =
     (case get_gate gs gid of
        None \<Rightarrow> TransitionConflict gid expected None [] []
      | Some g \<Rightarrow> TransitionConflict gid expected (Some (g_state g)) (g_decision g) (g_actor g))"

text \<open>After a winning compare-and-set: read the row, publish it, return it.\<close>

definition moved :: "string \<Rightarrow> string \<Rightarrow> gate list \<Rightarrow> registry \<Rightarrow> gate_result \<times> registry" where
  "moved ev gid gs r =
     (case get_gate gs gid of
        None \<Rightarrow> (Inl IntegrityError, r)
      | Some g \<Rightarrow> (Inr g, publish ev g (r\<lparr>gates := gs\<rparr>)))"

text \<open>A losing one: an idempotent repeat returns the row, anything else raises the conflict.\<close>

definition repeat_or_conflict ::
    "string \<Rightarrow> string \<Rightarrow> (gate \<Rightarrow> bool) \<Rightarrow> registry \<Rightarrow> gate_result \<times> registry" where
  "repeat_or_conflict gid expected ok r =
     (case get_gate (gates r) gid of
        None \<Rightarrow> (Inl (conflict (gates r) gid expected), r)
      | Some g \<Rightarrow> if ok g then (Inr g, r) else (Inl (conflict (gates r) gid expected), r))"

definition supersede_gate :: "real \<Rightarrow> string \<Rightarrow> string \<Rightarrow> registry \<Rightarrow> gate option \<times> registry" where
  "supersede_gate now gid new_id r =
     (case cas gid Pending Superseded (\<lambda>g. g\<lparr>g_settled := Some now, g_supersedes := new_id\<rparr>) (gates r) of
        None \<Rightarrow> (None, r)
      | Some gs \<Rightarrow>
          (case get_gate gs gid of
             None \<Rightarrow> (None, r\<lparr>gates := gs\<rparr>)
           | Some g \<Rightarrow> (Some g, publish ''gate_settled'' g (r\<lparr>gates := gs\<rparr>))))"

definition twin_of :: "gate \<Rightarrow> gate \<Rightarrow> bool" where
  "twin_of claimed other \<longleftrightarrow>
     (g_alias claimed \<noteq> [] \<and> g_id other = g_alias claimed)
     \<or> (g_alias other \<noteq> [] \<and> g_alias other \<in> {g_id claimed, g_alias claimed})
     \<or> same_pause_args (g_args other) (g_args claimed)"

definition pending_twins :: "gate \<Rightarrow> gate list \<Rightarrow> gate list" where
  "pending_twins claimed gs =
     filter (\<lambda>g. g_thread g = g_thread claimed \<and> g_tool g = g_tool claimed \<and> g_state g = Pending
                  \<and> g_id g \<noteq> g_id claimed \<and> twin_of claimed g) gs"

definition supersede_pending_twins :: "real \<Rightarrow> gate \<Rightarrow> registry \<Rightarrow> registry" where
  "supersede_pending_twins now claimed r =
     (if g_thread claimed = [] \<or> g_tool claimed = [] \<or> g_mech claimed = ''swarm_bus'' then r
      else foldl (\<lambda>r g. snd (supersede_gate now (g_id g) (g_id claimed) r)) r
             (pending_twins claimed (gates r)))"

text \<open>
  \<open>claim_gate\<close>. Its second transaction, the one on the twins, runs before the event of the claim
  is published.
\<close>

definition claim_gate ::
    "real \<Rightarrow> string \<Rightarrow> string \<Rightarrow> string \<Rightarrow> bool \<Rightarrow> registry \<Rightarrow> gate_result \<times> registry" where
  "claim_gate now gid decision actor allow_reclaim r =
     (case cas gid Pending Claimed
             (\<lambda>g. g\<lparr>g_decision := decision, g_actor := actor, g_claimed := Some now\<rparr>) (gates r) of
        None \<Rightarrow>
          repeat_or_conflict gid ''pending''
            (\<lambda>g. allow_reclaim \<and> g_state g \<in> {Claimed, Resuming} \<and> g_decision g = decision) r
      | Some gs \<Rightarrow>
          (case get_gate gs gid of
             None \<Rightarrow> (Inl IntegrityError, r)
           | Some g \<Rightarrow> (Inr g, publish ''gate_claimed'' g (supersede_pending_twins now g (r\<lparr>gates := gs\<rparr>)))))"

definition mark_resuming :: "string \<Rightarrow> registry \<Rightarrow> gate_result \<times> registry" where
  "mark_resuming gid r =
     (case cas gid Claimed Resuming id (gates r) of
        None \<Rightarrow> repeat_or_conflict gid ''claimed'' (\<lambda>g. g_state g = Resuming) r
      | Some gs \<Rightarrow> moved ''gate_resuming'' gid gs r)"

text \<open>The first of the from-states the row is in.\<close>

fun cas_first :: "string \<Rightarrow> gstate list \<Rightarrow> gstate \<Rightarrow> (gate \<Rightarrow> gate) \<Rightarrow> gate list \<Rightarrow> gate list option" where
  "cas_first gid [] to_state sets gs = None"
| "cas_first gid (s # ss) to_state sets gs =
     (case cas gid s to_state sets gs of Some gs' \<Rightarrow> Some gs' | None \<Rightarrow> cas_first gid ss to_state sets gs)"

definition settle_gate :: "real \<Rightarrow> string \<Rightarrow> string \<Rightarrow> registry \<Rightarrow> gate_result \<times> registry" where
  "settle_gate now gid outcome r =
     (case cas_first gid [Resuming, Claimed, Pending] Settled
             (\<lambda>g. g\<lparr>g_settled := Some now, g_decision := (if outcome \<noteq> [] then outcome else g_decision g)\<rparr>)
             (gates r) of
        None \<Rightarrow>
          repeat_or_conflict gid ''live'' (\<lambda>g. g_state g \<in> {Settled, TimedOut, Superseded, Errored}) r
      | Some gs \<Rightarrow> moved ''gate_settled'' gid gs r)"

definition fail_gate :: "real \<Rightarrow> string \<Rightarrow> string \<Rightarrow> registry \<Rightarrow> gate_result \<times> registry" where
  "fail_gate now gid error r =
     (case cas_first gid [Resuming, Claimed] Errored
             (\<lambda>g. g\<lparr>g_settled := Some now, g_message := take 2000 error\<rparr>) (gates r) of
        None \<Rightarrow> repeat_or_conflict gid ''claimed|resuming'' (\<lambda>g. g_state g = Errored) r
      | Some gs \<Rightarrow> moved ''gate_settled'' gid gs r)"

definition timeout_gate :: "real \<Rightarrow> string \<Rightarrow> registry \<Rightarrow> gate option \<times> registry" where
  "timeout_gate now gid r =
     (case cas gid Pending TimedOut (\<lambda>g. g\<lparr>g_settled := Some now\<rparr>) (gates r) of
        None \<Rightarrow> (None, r)
      | Some gs \<Rightarrow>
          (case get_gate gs gid of
             None \<Rightarrow> (None, r\<lparr>gates := gs\<rparr>)
           | Some g \<Rightarrow> (Some g, publish ''gate_settled'' g (r\<lparr>gates := gs\<rparr>))))"

subsection \<open>Queries\<close>

definition gate_for :: "gate list \<Rightarrow> string \<Rightarrow> gate option" where
  "gate_for gs gid =
     (case get_gate gs gid of
        Some g \<Rightarrow> Some g
      | None \<Rightarrow>
          (case live_then_new (filter (\<lambda>g. g_alias g \<noteq> [] \<and> g_alias g = gid) gs) of
             [] \<Rightarrow> None | g # _ \<Rightarrow> Some g))"

definition live_gates :: "string \<Rightarrow> gate list \<Rightarrow> gate list" where
  "live_gates tid gs = sort_key g_created (filter (\<lambda>g. g_thread g = tid \<and> is_live g) gs)"

definition display_gates :: "string \<Rightarrow> gate list \<Rightarrow> gate list" where
  "display_gates tid gs =
     sort_key g_created (filter (\<lambda>g. g_thread g = tid \<and> g_state g \<in> {Pending, Claimed, Resuming, Errored}) gs)"

definition pending_gates :: "string option \<Rightarrow> nat \<Rightarrow> gate list \<Rightarrow> gate list" where
  "pending_gates tenant limit gs =
     take limit (sort_key g_created
       (filter (\<lambda>g. g_state g = Pending \<and> (case tenant of None \<Rightarrow> True | Some t \<Rightarrow> g_tenant g = t)) gs))"

definition recorded_decision_count :: "gate list \<Rightarrow> nat" where
  "recorded_decision_count gs = length (filter (\<lambda>g. g_decision g \<noteq> []) gs)"

definition expired_unanswered :: "string \<Rightarrow> bool" where
  "expired_unanswered actor = starts_with ''watchdog:'' actor"

definition gate_outcome :: "gate \<Rightarrow> string" where
  "gate_outcome g =
     (if g_state g \<in> {Errored, TimedOut} \<or> expired_unanswered (g_actor g)
      then (if g_state g \<noteq> Errored then ''timeout'' else ''error'')
      else if g_decision g \<noteq> [] then g_decision g else ''waiting'')"

fun bump :: "string \<Rightarrow> (string \<times> nat) list \<Rightarrow> (string \<times> nat) list" where
  "bump k [] = [(k, 1)]"
| "bump k ((k', n) # c) = (if k' = k then (k', n + 1) # c else (k', n) # bump k c)"

definition gate_outcomes_since :: "real \<Rightarrow> gate list \<Rightarrow> (string \<times> nat) list" where
  "gate_outcomes_since since gs =
     foldl (\<lambda>c g. bump (gate_outcome g) c) []
       (filter (\<lambda>g. since \<le> g_created g \<and> g_state g \<noteq> Superseded) gs)"

subsection \<open>Sweeps\<close>

text \<open>The targets are read first; then each is moved by its own compare-and-set.\<close>

fun sweep_targets ::
    "gstate \<Rightarrow> (gate \<Rightarrow> gate) \<Rightarrow> (string \<times> gstate) list \<Rightarrow> gate list \<Rightarrow> gate list \<times> gate list" where
  "sweep_targets to_state sets [] gs = ([], gs)"
| "sweep_targets to_state sets ((gid, st) # ts) gs =
     (case cas gid st to_state sets gs of
        None \<Rightarrow> sweep_targets to_state sets ts gs
      | Some gs1 \<Rightarrow>
          (case sweep_targets to_state sets ts gs1 of
             (swept, gs2) \<Rightarrow>
               ((case get_gate gs1 gid of None \<Rightarrow> swept | Some g \<Rightarrow> g # swept), gs2)))"

definition targets :: "(gate \<Rightarrow> bool) \<Rightarrow> gate list \<Rightarrow> (string \<times> gstate) list" where
  "targets P gs = map (\<lambda>g. (g_id g, g_state g)) (filter P gs)"

definition publish_all :: "gate list \<Rightarrow> registry \<Rightarrow> registry" where
  "publish_all swept r = foldl (\<lambda>r g. publish ''gate_settled'' g r) r swept"

definition overdue :: "real \<Rightarrow> gate \<Rightarrow> bool" where
  "overdue now g \<longleftrightarrow> is_live g \<and> (case g_expires g of None \<Rightarrow> False | Some e \<Rightarrow> e \<le> now)"

definition expire_due_gates :: "real \<Rightarrow> registry \<Rightarrow> gate list \<times> registry" where
  "expire_due_gates now r =
     (case sweep_targets TimedOut (\<lambda>g. g\<lparr>g_settled := Some now\<rparr>) (targets (overdue now) (gates r)) (gates r) of
        (swept, gs) \<Rightarrow> (swept, publish_all swept (r\<lparr>gates := gs\<rparr>)))"

definition orphan_notice :: string where
  "orphan_notice = ''The process stopped during approval resume. The recorded decision ''
     @ ''is preserved, but execution is unconfirmed. Verify the tool target ''
     @ ''before starting new work; this approval will not be replayed.''"

definition orphaned :: "real \<Rightarrow> gate \<Rightarrow> bool" where
  "orphaned cutoff g \<longleftrightarrow> g_state g \<in> {Claimed, Resuming} \<and>
     (case g_claimed g of Some t \<Rightarrow> t | None \<Rightarrow> g_created g) \<le> cutoff"

text \<open>The sweep reads the clock three times: for the cutoff, for the settling, in the expiry.\<close>

definition boot_sweep :: "real \<Rightarrow> real \<Rightarrow> real \<Rightarrow> real \<Rightarrow> registry \<Rightarrow> (nat \<times> nat) \<times> registry" where
  "boot_sweep t0 t1 t2 grace r =
     (case sweep_targets Errored (\<lambda>g. g\<lparr>g_settled := Some t1, g_message := orphan_notice\<rparr>)
             (targets (orphaned (t0 - max 0 grace)) (gates r)) (gates r) of
        (swept, gs) \<Rightarrow>
          (case expire_due_gates t2 (publish_all swept (r\<lparr>gates := gs\<rparr>)) of
             (expired, r') \<Rightarrow> ((length swept, length expired), r')))"

definition prune_batch :: nat where
  "prune_batch = 5000"

text \<open>At most one batch of decided rows, here the first ones in rowid order.\<close>

definition prunable :: "real \<Rightarrow> gate \<Rightarrow> bool" where
  "prunable cutoff g \<longleftrightarrow> \<not> is_live g \<and>
     (case g_settled g of Some t \<Rightarrow> t
      | None \<Rightarrow> (case g_claimed g of Some t \<Rightarrow> t | None \<Rightarrow> g_created g)) < cutoff"

definition prune_decided_gates :: "real \<Rightarrow> real \<Rightarrow> registry \<Rightarrow> nat \<times> registry" where
  "prune_decided_gates now days r =
     (let ids = map g_id (take prune_batch (filter (prunable (now - days * 86400)) (gates r)));
          kept = filter (\<lambda>g. g_id g \<notin> set ids) (gates r)
      in (length (gates r) - length kept, r\<lparr>gates := kept\<rparr>))"

subsection \<open>One row's life\<close>

text \<open>
  The abstract specification: what may happen to one row. A row is renamed only while it is live;
  it is claimed, and so gets its decision, actor and claim time, only from pending; a terminal row
  does not move.
\<close>

inductive gate_trans :: "gate \<Rightarrow> gate \<Rightarrow> bool" where
  rename: "is_live g \<Longrightarrow> gate_trans g (g\<lparr>g_alias := a, g_id := i\<rparr>)"
| claim: "g_state g = Pending \<Longrightarrow>
    gate_trans g (g\<lparr>g_decision := d, g_actor := a, g_claimed := Some t, g_state := Claimed\<rparr>)"
| resume: "g_state g = Claimed \<Longrightarrow> gate_trans g (g\<lparr>g_state := Resuming\<rparr>)"
| settle: "is_live g \<Longrightarrow> gate_trans g (g\<lparr>g_settled := Some t, g_decision := d, g_state := Settled\<rparr>)"
| expire: "is_live g \<Longrightarrow> gate_trans g (g\<lparr>g_settled := Some t, g_state := TimedOut\<rparr>)"
| supersede: "g_state g = Pending \<Longrightarrow>
    gate_trans g (g\<lparr>g_settled := Some t, g_supersedes := n, g_state := Superseded\<rparr>)"
| fail: "g_state g \<in> {Claimed, Resuming} \<Longrightarrow>
    gate_trans g (g\<lparr>g_settled := Some t, g_message := m, g_state := Errored\<rparr>)"

inductive_cases gate_transE: "gate_trans g g'"

lemma is_live_iff: "is_live g \<longleftrightarrow> g_state g = Pending \<or> g_state g = Claimed \<or> g_state g = Resuming"
  by (auto simp: is_live_def LIVE_STATES_def)

lemma gate_trans_live: "gate_trans g g' \<Longrightarrow> is_live g"
  by (auto simp: is_live_iff elim: gate_transE)

lemma life_terminal: "gate_trans\<^sup>*\<^sup>* g g' \<Longrightarrow> \<not> is_live g \<Longrightarrow> g' = g"
  by (induction rule: converse_rtranclp_induct) (auto dest: gate_trans_live)

fun rank :: "gstate \<Rightarrow> nat" where
  "rank Pending = 0"
| "rank Claimed = 1"
| "rank Resuming = 2"
| "rank _ = 3"

lemma trans_rank: "gate_trans g g' \<Longrightarrow> rank (g_state g) \<le> rank (g_state g')"
  by (cases "g_state g") (auto elim!: gate_transE simp: is_live_iff)

lemma life_rank: "gate_trans\<^sup>*\<^sup>* g g' \<Longrightarrow> rank (g_state g) \<le> rank (g_state g')"
  by (induction rule: rtranclp_induct) (auto dest: trans_rank)

text \<open>What a row keeps for its whole life.\<close>

definition question :: "gate \<Rightarrow> string list \<times> real \<times> real option" where
  "question g = ([g_thread g, g_tool g, g_mech g, g_kind g, g_tenant g, g_session g, g_turn g, g_args g,
     g_payload g], g_created g, g_expires g)"

lemma life_question: "gate_trans\<^sup>*\<^sup>* g g' \<Longrightarrow> question g' = question g"
  by (induction rule: rtranclp_induct) (auto simp: question_def elim!: gate_transE)

lemma life_decision:
  "gate_trans\<^sup>*\<^sup>* g g' \<Longrightarrow> g_state g \<noteq> Pending \<Longrightarrow>
     g_actor g' = g_actor g \<and> g_claimed g' = g_claimed g \<and> g_state g' \<noteq> Pending \<and>
     (g_state g' = Settled \<or> g_decision g' = g_decision g)"
  by (induction rule: rtranclp_induct) (auto simp: is_live_iff elim!: gate_transE)

subsection \<open>Rows of a registry\<close>

definition gates_wf :: "registry \<Rightarrow> bool" where
  "gates_wf r \<longleftrightarrow> distinct (map g_id (gates r))"

abbreviation life :: "gate \<Rightarrow> gate \<Rightarrow> bool" where "life \<equiv> gate_trans\<^sup>*\<^sup>*"

text \<open>The rows of the second list continue the rows of the first; new rows come after them.\<close>

definition follows :: "gate list \<Rightarrow> gate list \<Rightarrow> bool" where
  "follows gs gs' \<longleftrightarrow> length gs \<le> length gs' \<and> (\<forall>i < length gs. life (gs ! i) (gs' ! i))"

lemma follows_refl [simp]: "follows gs gs"
  by (simp add: follows_def)

lemma follows_trans: "follows gs gs' \<Longrightarrow> follows gs' gs'' \<Longrightarrow> follows gs gs''"
  unfolding follows_def by (meson order_less_le_trans order_trans rtranclp_trans)

lemma follows_map: "(\<And>g. g \<in> set gs \<Longrightarrow> life g (f g)) \<Longrightarrow> follows gs (map f gs)"
  by (simp add: follows_def)

lemma follows_snoc [simp]: "follows gs (gs @ [g])"
  by (simp add: follows_def nth_append)

text \<open>A step that keeps the ids apart and continues every row.\<close>

definition good_step :: "gate list \<Rightarrow> gate list \<Rightarrow> bool" where
  "good_step gs gs' \<longleftrightarrow>
     (distinct (map g_id gs) \<longrightarrow> distinct (map g_id gs') \<and> follows gs gs')"

lemma good_refl [simp]: "good_step gs gs"
  by (simp add: good_step_def)

lemma good_trans: "good_step gs gs' \<Longrightarrow> good_step gs' gs'' \<Longrightarrow> good_step gs gs''"
  unfolding good_step_def using follows_trans by blast

text \<open>The column updates a compare-and-set makes are moves of the row.\<close>

definition good_sets :: "gstate \<Rightarrow> gstate \<Rightarrow> (gate \<Rightarrow> gate) \<Rightarrow> bool" where
  "good_sets from_state to_state sets \<longleftrightarrow>
     (\<forall>g. g_state g = from_state \<longrightarrow>
        gate_trans g ((sets g)\<lparr>g_state := to_state\<rparr>) \<and> g_id (sets g) = g_id g)"

lemma cas_good: "cas gid s s' sets gs = Some gs' \<Longrightarrow> good_sets s s' sets \<Longrightarrow> good_step gs gs'"
proof -
  assume c: "cas gid s s' sets gs = Some gs'" and ok: "good_sets s s' sets"
  let ?f = "\<lambda>g. if g_id g = gid \<and> g_state g = s then (sets g)\<lparr>g_state := s'\<rparr> else g"
  from c have gs': "gs' = map ?f gs" by (auto simp: cas_def split: if_splits)
  have "map g_id gs' = map g_id gs" unfolding gs' using ok by (auto simp: good_sets_def)
  moreover have "follows gs gs'"
    unfolding gs' using ok by (intro follows_map) (auto simp: good_sets_def)
  ultimately show ?thesis by (simp add: good_step_def)
qed

lemma settle_keep: "is_live g \<Longrightarrow> gate_trans g (g\<lparr>g_settled := Some t, g_state := Settled\<rparr>)"
  using settle[where g = g and t = t and d = "g_decision g"] by simp

lemma good_sets_all:
  "good_sets Pending Claimed (\<lambda>g. g\<lparr>g_decision := d, g_actor := a, g_claimed := Some t\<rparr>)"
  "good_sets Claimed Resuming id"
  "good_sets Pending Superseded (\<lambda>g. g\<lparr>g_settled := Some t, g_supersedes := n\<rparr>)"
  "s \<in> set LIVE_STATES \<Longrightarrow> good_sets s TimedOut (\<lambda>g. g\<lparr>g_settled := Some t\<rparr>)"
  "s \<in> {Claimed, Resuming} \<Longrightarrow> good_sets s Errored (\<lambda>g. g\<lparr>g_settled := Some t, g_message := m\<rparr>)"
  "s \<in> set LIVE_STATES \<Longrightarrow>
     good_sets s Settled (\<lambda>g. g\<lparr>g_settled := Some t, g_decision := (if d' \<noteq> [] then d' else g_decision g)\<rparr>)"
  by (auto simp: good_sets_def is_live_def intro: gate_trans.intros settle_keep)

lemma cas_first_good:
  "cas_first gid ss s' sets gs = Some gs' \<Longrightarrow> \<forall>s \<in> set ss. good_sets s s' sets \<Longrightarrow> good_step gs gs'"
  by (induction ss) (auto intro: cas_good split: option.splits)

lemma sweep_good:
  "\<forall>(gid, s) \<in> set ts. good_sets s s' sets \<Longrightarrow> good_step gs (snd (sweep_targets s' sets ts gs))"
proof (induction ts arbitrary: gs)
  case Nil
  show ?case by simp
next
  case (Cons t ts)
  obtain gid s where t: "t = (gid, s)" by (cases t)
  show ?case
  proof (cases "cas gid s s' sets gs")
    case None
    with Cons t show ?thesis by simp
  next
    case (Some gs1)
    then have "good_step gs gs1" using Cons.prems t by (auto intro: cas_good)
    moreover have "good_step gs1 (snd (sweep_targets s' sets ts gs1))" using Cons by simp
    ultimately show ?thesis using Some t by (auto intro: good_trans split: prod.splits)
  qed
qed

lemma set_row_good:
  assumes "\<forall>g \<in> set gs. g_id g = gid \<longrightarrow> is_live g" and "i = gid \<or> i \<notin> g_id ` set gs"
  shows "good_step gs (set_row gid (\<lambda>g. g\<lparr>g_alias := a, g_id := i\<rparr>) gs)"
proof -
  let ?f = "\<lambda>g. if g_id g = gid then g\<lparr>g_alias := a, g_id := i\<rparr> else g"
  have "follows gs (map ?f gs)"
    using assms(1) by (intro follows_map) (auto intro: rename)
  moreover have "distinct (map g_id (map ?f gs))" if "distinct (map g_id gs)"
    using that assms(2) by (auto simp: distinct_map inj_on_def)
  ultimately show ?thesis by (simp add: good_step_def set_row_def)
qed

lemma get_gate_SomeD: "get_gate gs gid = Some g \<Longrightarrow> g \<in> set gs \<and> g_id g = gid"
  by (auto simp: get_gate_def find_Some_iff)

lemma get_gate_None_iff: "get_gate gs gid = None \<longleftrightarrow> gid \<notin> g_id ` set gs"
  by (auto simp: get_gate_def find_None_iff)

lemma get_gate_mem: "distinct (map g_id gs) \<Longrightarrow> g \<in> set gs \<Longrightarrow> get_gate gs (g_id g) = Some g"
  by (induction gs) (auto simp: get_gate_def)

lemma distinct_same_id: "distinct (map g_id gs) \<Longrightarrow> g \<in> set gs \<Longrightarrow> g' \<in> set gs \<Longrightarrow> g_id g = g_id g' \<Longrightarrow> g = g'"
  by (auto simp: distinct_map inj_on_def)

subsection \<open>Registration\<close>

lemma set_live_then_new [simp]: "set (live_then_new gs) = set gs"
  by (auto simp: live_then_new_def)

lemma by_either_id_SomeD:
  assumes "by_either_id gs cid = Some g"
  shows "g \<in> set gs \<and> is_live g \<and> (g_id g = cid \<or> g_alias g \<noteq> [] \<and> g_alias g = cid)"
proof -
  let ?gs = "filter (\<lambda>g. g_id g = cid \<or> (g_alias g \<noteq> [] \<and> g_alias g = cid)) gs"
  from assms obtain rest where eq: "live_then_new ?gs = g # rest" and live: "is_live g"
    by (auto simp: by_either_id_def split: list.splits if_splits)
  have "g \<in> set (live_then_new ?gs)" unfolding eq by simp
  with live show ?thesis by simp
qed

lemma first_live_SomeD: "first_live gs cids = Some g \<Longrightarrow> g \<in> set gs \<and> is_live g"
  by (induction cids) (auto dest: by_either_id_SomeD split: option.splits)

lemma find_twin_SomeD: "find_twin gate gs = Some g \<Longrightarrow> g \<in> set gs"
  by (induction gs) (auto split: if_splits)

lemma life_rename: "is_live g \<Longrightarrow> gate_trans g (g\<lparr>g_alias := a\<rparr>)"
  using rename[where g = g and a = a and i = "g_id g"] by simp

lemma set_alias_good:
  assumes "\<forall>g \<in> set gs. g_id g = gid \<longrightarrow> is_live g"
  shows "good_step gs (set_row gid (\<lambda>g. g\<lparr>g_alias := a\<rparr>) gs)"
proof -
  have "set_row gid (\<lambda>g. g\<lparr>g_alias := a\<rparr>) gs = set_row gid (\<lambda>g. g\<lparr>g_alias := a, g_id := gid\<rparr>) gs"
    by (auto simp: set_row_def)
  with set_row_good[OF assms, of gid a] show ?thesis by simp
qed

text \<open>
  What a lookup returns is a live row, renamed at most in its alias, and the rows it leaves differ
  from the ones before in that alias only.
\<close>

lemma lookup_live_gate_SomeD:
  assumes "lookup_live_gate gs gate = (Some ex, gs')" and "distinct (map g_id gs)"
  shows "is_live ex \<and> good_step gs gs' \<and> map g_id gs' = map g_id gs \<and> ex \<in> set gs'"
proof (cases "first_live gs (filter (\<lambda>x. x \<noteq> []) [g_alias gate, g_id gate])")
  case (Some g)
  with assms(1) have "ex = g" "gs' = gs" by (simp_all add: lookup_live_gate_def)
  with Some show ?thesis by (auto dest: first_live_SomeD)
next
  case None
  let ?same = "filter (\<lambda>g. g_thread g = g_thread gate \<and> g_tool g = g_tool gate \<and> is_live g) gs"
  from None assms(1) obtain tw where tw: "find_twin gate (sort_key g_created ?same) = Some tw"
    and ex: "ex = tw \<and> gs' = gs \<or>
       ex = tw\<lparr>g_alias := g_id gate\<rparr> \<and> gs' = set_row (g_id tw) (\<lambda>g. g\<lparr>g_alias := g_id gate\<rparr>) gs"
    unfolding lookup_live_gate_def by (auto split: if_splits option.splits)
  from find_twin_SomeD[OF tw] have mem: "tw \<in> set gs" "is_live tw" by auto
  have live: "\<forall>g \<in> set gs. g_id g = g_id tw \<longrightarrow> is_live g"
    using mem assms(2) distinct_same_id by metis
  from ex show ?thesis
  proof
    assume "ex = tw \<and> gs' = gs"
    with mem show ?thesis by simp
  next
    assume e: "ex = tw\<lparr>g_alias := g_id gate\<rparr> \<and> gs' = set_row (g_id tw) (\<lambda>g. g\<lparr>g_alias := g_id gate\<rparr>) gs"
    then have "good_step gs gs'" using live set_alias_good by blast
    moreover have "map g_id gs' = map g_id gs" using e by (auto simp: set_row_def)
    moreover have "is_live ex" using e mem(2) by (simp add: is_live_def)
    ultimately show ?thesis using e mem(1) by (force simp: set_row_def)
  qed
qed

lemma lookup_live_gate_None: "lookup_live_gate gs gate = (None, gs') \<Longrightarrow> gs' = gs"
  by (auto simp: lookup_live_gate_def split: option.splits if_splits)

lemma insert_gate_good:
  "insert_gate now gate r = (res, r') \<Longrightarrow> good_step (gates r) (gates r')"
  by (auto simp: insert_gate_def Let_def publish_def good_step_def get_gate_None_iff split: if_splits)

lemma register_gate_good:
  assumes "gates_wf r" "register_gate now gate0 ttl r = (res, r')"
  shows "good_step (gates r) (gates r')"
proof -
  let ?gate = "with_expiry now ttl gate0"
  obtain opt gs where lk: "lookup_live_gate (gates r) ?gate = (opt, gs)" by fastforce
  show ?thesis
  proof (cases opt)
    case None
    with lk have "gs = gates r" by (auto dest: lookup_live_gate_None)
    with assms(2) lk None show ?thesis
      by (auto simp: register_gate_def Let_def intro: insert_gate_good split: option.splits if_splits)
  next
    case (Some ex)
    from lookup_live_gate_SomeD[OF lk[unfolded Some]] assms(1)
    have ex: "is_live ex" "good_step (gates r) gs" "map g_id gs = map g_id (gates r)" "ex \<in> set gs"
      by (auto simp: gates_wf_def)
    have d: "distinct (map g_id gs)" using ex(3) assms(1) by (simp add: gates_wf_def)
    then have live: "\<forall>g \<in> set gs. g_id g = g_id ex \<longrightarrow> is_live g"
      using ex(1,4) distinct_same_id by metis
    show ?thesis
    proof (cases "gates r' = gates r \<or> gates r' = gs")
      case True
      with ex(2) show ?thesis by auto
    next
      case False
      with assms(2) lk Some
      have "gates r' = set_row (g_id ex) (\<lambda>g. g\<lparr>g_alias := g_id ex, g_id := g_id ?gate\<rparr>) gs"
        and "g_id ?gate = g_id ex \<or> get_gate gs (g_id ?gate) = None"
        by (auto simp: register_gate_def Let_def split: if_splits)
      then show ?thesis
        using good_trans[OF ex(2)] set_row_good[OF live] by (simp add: get_gate_None_iff)
    qed
  qed
qed

subsection \<open>Every call continues the rows\<close>

lemma publish_gates [simp]: "gates (publish ev g r) = gates r"
  by (simp add: publish_def)

lemma publish_all_gates [simp]: "gates (publish_all gs r) = gates r"
  by (induction gs arbitrary: r) (simp_all add: publish_all_def)

lemma moved_gates: "good_step (gates r) gs \<Longrightarrow> good_step (gates r) (gates (snd (moved ev gid gs r)))"
  by (simp add: moved_def split: option.split)

lemma repeat_gates [simp]: "snd (repeat_or_conflict gid expected ok r) = r"
  by (simp add: repeat_or_conflict_def split: option.split)

lemma supersede_gate_good: "good_step (gates r) (gates (snd (supersede_gate now gid n r)))"
  unfolding supersede_gate_def
  by (auto split: option.split intro: cas_good good_sets_all)

lemma supersede_twins_good: "good_step (gates r) (gates (supersede_pending_twins now g r))"
proof -
  have "good_step (gates r) (gates (foldl (\<lambda>r g. snd (supersede_gate now (g_id g) n r)) r gs))"
    for n and gs :: "gate list"
  proof (induction gs arbitrary: r)
    case (Cons g gs)
    show ?case
      using good_trans[OF supersede_gate_good[of r now "g_id g" n] Cons] by simp
  qed simp
  then show ?thesis by (simp add: supersede_pending_twins_def)
qed

lemma claim_gate_good: "good_step (gates r) (gates (snd (claim_gate now gid d a re r)))"
proof (cases "cas gid Pending Claimed (\<lambda>g. g\<lparr>g_decision := d, g_actor := a, g_claimed := Some now\<rparr>) (gates r)")
  case None
  then show ?thesis by (simp add: claim_gate_def)
next
  case (Some gs)
  then have "good_step (gates r) gs" by (rule cas_good) (rule good_sets_all)
  moreover have "good_step gs (gates (supersede_pending_twins now g (r\<lparr>gates := gs\<rparr>)))" for g
    using supersede_twins_good[of "r\<lparr>gates := gs\<rparr>"] by simp
  ultimately show ?thesis
    using Some by (auto simp: claim_gate_def split: option.split intro: good_trans)
qed

lemma mark_resuming_good: "good_step (gates r) (gates (snd (mark_resuming gid r)))"
  unfolding mark_resuming_def
  by (auto split: option.split intro: moved_gates cas_good good_sets_all)

lemma settle_gate_good: "good_step (gates r) (gates (snd (settle_gate now gid outcome r)))"
proof (cases "cas_first gid [Resuming, Claimed, Pending] Settled
    (\<lambda>g. g\<lparr>g_settled := Some now, g_decision := (if outcome \<noteq> [] then outcome else g_decision g)\<rparr>) (gates r)")
  case None
  then show ?thesis unfolding settle_gate_def by (simp only: option.case repeat_gates good_refl)
next
  case (Some gs)
  then have "good_step (gates r) gs"
    by (rule cas_first_good) (simp add: good_sets_all(6)[simplified] LIVE_STATES_def)
  with Some show ?thesis unfolding settle_gate_def by (simp only: option.case moved_gates)
qed

lemma fail_gate_good: "good_step (gates r) (gates (snd (fail_gate now gid e r)))"
proof (cases "cas_first gid [Resuming, Claimed] Errored
    (\<lambda>g. g\<lparr>g_settled := Some now, g_message := take 2000 e\<rparr>) (gates r)")
  case None
  then show ?thesis unfolding fail_gate_def by (simp only: option.case repeat_gates good_refl)
next
  case (Some gs)
  then have "good_step (gates r) gs"
    by (rule cas_first_good) (simp add: good_sets_all(5))
  with Some show ?thesis unfolding fail_gate_def by (simp only: option.case moved_gates)
qed

lemma timeout_gate_good: "good_step (gates r) (gates (snd (timeout_gate now gid r)))"
proof -
  have "good_sets Pending TimedOut (\<lambda>g. g\<lparr>g_settled := Some now\<rparr>)"
    by (rule good_sets_all) (simp add: LIVE_STATES_def)
  then show ?thesis
    unfolding timeout_gate_def by (auto split: option.split dest: cas_good)
qed

lemma targets_states: "(gid, s) \<in> set (targets P gs) \<Longrightarrow> \<exists>g. P g \<and> g_state g = s"
  by (auto simp: targets_def)

lemma expire_good: "good_step (gates r) (gates (snd (expire_due_gates now r)))"
proof -
  have "\<forall>(gid, s) \<in> set (targets (overdue now) (gates r)). good_sets s TimedOut (\<lambda>g. g\<lparr>g_settled := Some now\<rparr>)"
    by (auto simp: overdue_def is_live_def good_sets_all dest!: targets_states)
  from sweep_good[OF this, of "gates r"] show ?thesis
    by (auto simp: expire_due_gates_def split: prod.splits)
qed

lemma boot_sweep_good: "good_step (gates r) (gates (snd (boot_sweep t0 t1 t2 grace r)))"
proof -
  let ?sets = "\<lambda>g. g\<lparr>g_settled := Some t1, g_message := orphan_notice\<rparr>"
  let ?ts = "targets (orphaned (t0 - max 0 grace)) (gates r)"
  obtain swept gs where sw: "sweep_targets Errored ?sets ?ts (gates r) = (swept, gs)" by fastforce
  have "\<forall>(gid, s) \<in> set ?ts. good_sets s Errored ?sets"
    by (auto simp: orphaned_def good_sets_all dest!: targets_states)
  from sweep_good[OF this, of "gates r"] sw have "good_step (gates r) gs" by simp
  moreover have "good_step gs (gates (snd (expire_due_gates t2 (publish_all swept (r\<lparr>gates := gs\<rparr>)))))"
    using expire_good[of "publish_all swept (r\<lparr>gates := gs\<rparr>)"] by simp
  ultimately show ?thesis
    using sw by (auto simp: boot_sweep_def split: prod.split intro: good_trans)
qed

subsection \<open>The registry as a machine\<close>

text \<open>
  The calls, and \<open>GClaimCas\<close>, the first transaction of a claim alone: with \<open>GSupersede\<close> it stands for
  claims whose two transactions are interleaved with other calls. Pruning deletes rows and has
  its own lemma.
\<close>

datatype gate_op =
    GRegister real gate "real option"
  | GClaim real string string string bool
  | GClaimCas real string string string
  | GMarkResuming string
  | GSettle real string string
  | GFail real string string
  | GSupersede real string string
  | GTimeout real string
  | GExpire real
  | GBoot real real real real

fun gate_step :: "registry \<Rightarrow> gate_op \<Rightarrow> registry" where
  "gate_step r (GRegister now g ttl) = snd (register_gate now g ttl r)"
| "gate_step r (GClaim now gid d a re) = snd (claim_gate now gid d a re r)"
| "gate_step r (GClaimCas now gid d a) =
     (case cas gid Pending Claimed (\<lambda>g. g\<lparr>g_decision := d, g_actor := a, g_claimed := Some now\<rparr>) (gates r) of
        None \<Rightarrow> r | Some gs \<Rightarrow> r\<lparr>gates := gs\<rparr>)"
| "gate_step r (GMarkResuming gid) = snd (mark_resuming gid r)"
| "gate_step r (GSettle now gid outcome) = snd (settle_gate now gid outcome r)"
| "gate_step r (GFail now gid e) = snd (fail_gate now gid e r)"
| "gate_step r (GSupersede now gid n) = snd (supersede_gate now gid n r)"
| "gate_step r (GTimeout now gid) = snd (timeout_gate now gid r)"
| "gate_step r (GExpire now) = snd (expire_due_gates now r)"
| "gate_step r (GBoot t0 t1 t2 grace) = snd (boot_sweep t0 t1 t2 grace r)"

lemma gate_step_good: "gates_wf r \<Longrightarrow> good_step (gates r) (gates (gate_step r op))"
proof (cases op)
  case (GRegister now g ttl)
  assume "gates_wf r"
  with GRegister show ?thesis
    by (cases "register_gate now g ttl r") (auto intro: register_gate_good)
next
  case (GClaimCas now gid d a)
  then show ?thesis by (auto split: option.split intro: cas_good good_sets_all)
qed (simp_all add: claim_gate_good mark_resuming_good settle_gate_good fail_gate_good supersede_gate_good
      timeout_gate_good expire_good boot_sweep_good)

text \<open>Where each row stands: how far its state is along its life, 0 where there is no row.\<close>

definition progress :: "registry \<Rightarrow> nat \<Rightarrow> nat" where
  "progress r = (\<lambda>i. if i < length (gates r) then Suc (rank (g_state (gates r ! i))) else 0)"

lemma follows_progress: "follows (gates r) (gates r') \<Longrightarrow> progress r \<le> progress r'"
  by (auto simp: progress_def follows_def le_fun_def life_rank)

interpretation registry: monotone_machine gate_step gates_wf progress
proof unfold_locales
  fix r op
  assume wf: "gates_wf r"
  from gate_step_good[OF this] show "gates_wf (gate_step r op)"
    using wf by (auto simp: good_step_def gates_wf_def)
  from gate_step_good[OF wf] show "progress r \<le> progress (gate_step r op)"
    using wf by (intro follows_progress) (auto simp: good_step_def gates_wf_def)
qed

lemma run_follows: "gates_wf r \<Longrightarrow> follows (gates r) (gates (foldl gate_step r ops))"
proof (induction ops arbitrary: r)
  case (Cons op ops)
  have "follows (gates r) (gates (gate_step r op))"
    using gate_step_good[OF Cons.prems] Cons.prems by (auto simp: good_step_def gates_wf_def)
  moreover have "gates_wf (gate_step r op)" using Cons.prems by (rule registry.step_inv)
  ultimately show ?case using Cons.IH follows_trans by auto
qed simp

subsection \<open>The sweeps, row by row\<close>

lemma sweep_targets_rows:
  assumes "distinct (map g_id gs)" "distinct (map g_id rs)" "set rs \<subseteq> set gs"
    and "\<And>g. g_id (sets g) = g_id g"
  shows "sweep_targets s' sets (map (\<lambda>g. (g_id g, g_state g)) rs) gs =
    (map (\<lambda>g. (sets g)\<lparr>g_state := s'\<rparr>) rs,
     map (\<lambda>g. if g \<in> set rs then (sets g)\<lparr>g_state := s'\<rparr> else g) gs)"
  using assms(1-3)
proof (induction rs arbitrary: gs)
  case Nil
  then show ?case by simp
next
  case (Cons g rs)
  let ?u = "\<lambda>g. (sets g)\<lparr>g_state := s'\<rparr>"
  let ?gs = "map (\<lambda>x. if x = g then ?u x else x) gs"
  have uid: "g_id (?u x) = g_id x" for x using assms(4) by simp
  have mem: "g \<in> set gs" using Cons.prems by simp
  have same: "g_id x = g_id g \<Longrightarrow> x = g" if "x \<in> set gs" for x
    using Cons.prems(1) mem that distinct_same_id by blast
  have gs1: "cas (g_id g) (g_state g) s' sets gs = Some ?gs"
    using mem same by (auto simp: cas_def list_ex_iff)
  have ids: "map g_id ?gs = map g_id gs" using uid by auto
  have d: "distinct (map g_id ?gs)" unfolding ids by (rule Cons.prems(1))
  have new: "get_gate ?gs (g_id g) = Some (?u g)"
    using get_gate_mem[OF d, of "?u g"] mem uid by force
  have "set rs \<subseteq> set ?gs" using Cons.prems by force
  from Cons.IH[OF d _ this] Cons.prems(2) have ih:
    "sweep_targets s' sets (map (\<lambda>g. (g_id g, g_state g)) rs) ?gs =
      (map ?u rs, map (\<lambda>g. if g \<in> set rs then ?u g else g) ?gs)" by simp
  have "map (\<lambda>x. if x \<in> set rs then ?u x else x) ?gs
      = map (\<lambda>x. if x \<in> set (g # rs) then ?u x else x) gs"
    using Cons.prems(2) uid[of g] by (auto simp: image_iff)
  then show ?case using gs1 new ih by simp
qed

lemma sweep_targets_eq:
  assumes "distinct (map g_id gs)" and "\<And>g. g_id (sets g) = g_id g"
  shows "sweep_targets s' sets (targets P gs) gs =
    (map (\<lambda>g. (sets g)\<lparr>g_state := s'\<rparr>) (filter P gs),
     map (\<lambda>g. if P g then (sets g)\<lparr>g_state := s'\<rparr> else g) gs)"
proof -
  have "distinct (map g_id (filter P gs))"
    using assms(1) by (induction gs) auto
  then have "sweep_targets s' sets (map (\<lambda>g. (g_id g, g_state g)) (filter P gs)) gs =
    (map (\<lambda>g. (sets g)\<lparr>g_state := s'\<rparr>) (filter P gs),
     map (\<lambda>g. if g \<in> set (filter P gs) then (sets g)\<lparr>g_state := s'\<rparr> else g) gs)"
    using assms by (intro sweep_targets_rows) auto
  then show ?thesis unfolding targets_def by simp
qed

definition timed_out :: "real \<Rightarrow> gate \<Rightarrow> gate" where
  "timed_out now g = g\<lparr>g_settled := Some now, g_state := TimedOut\<rparr>"

lemma expire_rows:
  assumes "gates_wf r"
  shows "fst (expire_due_gates now r) = map (timed_out now) (filter (overdue now) (gates r))"
    and "gates (snd (expire_due_gates now r)) = map (\<lambda>g. if overdue now g then timed_out now g else g) (gates r)"
  using sweep_targets_eq[of "gates r" "\<lambda>g. g\<lparr>g_settled := Some now\<rparr>" TimedOut "overdue now"] assms
  by (simp_all add: expire_due_gates_def gates_wf_def timed_out_def)

definition unconfirmed :: "real \<Rightarrow> gate \<Rightarrow> gate" where
  "unconfirmed now g = g\<lparr>g_settled := Some now, g_message := orphan_notice, g_state := Errored\<rparr>"

lemma orphaned_not_overdue: "\<not> overdue now (unconfirmed t g)"
  by (simp add: overdue_def is_live_def LIVE_STATES_def unconfirmed_def)

lemma boot_rows:
  assumes "gates_wf r"
  shows "gates (snd (boot_sweep t0 t1 t2 grace r)) =
    map (\<lambda>g. if orphaned (t0 - max 0 grace) g then unconfirmed t1 g
              else if overdue t2 g then timed_out t2 g else g) (gates r)"
proof -
  let ?o = "orphaned (t0 - max 0 grace)"
  let ?gs = "map (\<lambda>g. if ?o g then unconfirmed t1 g else g) (gates r)"
  let ?r = "publish_all (map (unconfirmed t1) (filter ?o (gates r))) (r\<lparr>gates := ?gs\<rparr>)"
  have sw: "sweep_targets Errored (\<lambda>g. g\<lparr>g_settled := Some t1, g_message := orphan_notice\<rparr>)
      (targets ?o (gates r)) (gates r) = (map (unconfirmed t1) (filter ?o (gates r)), ?gs)"
    using sweep_targets_eq[of "gates r" "\<lambda>g. g\<lparr>g_settled := Some t1, g_message := orphan_notice\<rparr>"
        Errored ?o] assms by (simp add: gates_wf_def unconfirmed_def)
  have "map g_id ?gs = map g_id (gates r)" by (simp add: unconfirmed_def)
  then have "gates_wf ?r" using assms unfolding gates_wf_def publish_all_gates by (simp del: map_map)
  from expire_rows(2)[OF this, of t2] show ?thesis
    by (auto simp: boot_sweep_def sw orphaned_not_overdue split: prod.split)
qed

subsection \<open>Guarantees\<close>


definition sample_gate :: "string \<Rightarrow> string \<Rightarrow> gate" where
  "sample_gate gid args =
     \<lparr>g_id = gid, g_thread = ''t'', g_tool = ''shell_exec'', g_mech = ''graph'', g_kind = ''security'',
      g_alias = [], g_tenant = [], g_session = [], g_turn = [], g_args = args, g_message = [],
      g_payload = ''{}'', g_state = Pending, g_decision = [], g_actor = [], g_supersedes = [],
      g_created = 0, g_claimed = None, g_settled = None, g_expires = Some 100\<rparr>"

definition one_gate :: registry where
  "one_gate = \<lparr>gates = [sample_gate ''g'' ''{}''], events = []\<rparr>"

lemma one_gate_wf [simp]: "gates_wf one_gate"
  by (simp add: gates_wf_def one_gate_def)


text \<open>
  Once a row is terminal (settled, timed out, superseded, failed), no later call changes any
  column of it, and its id keeps naming it.
\<close>

theorem terminal_row_frozen:
  assumes "gates_wf r" and "get_gate (gates r) gid = Some g" and "\<not> is_live g"
  shows "get_gate (gates (foldl gate_step r ops)) gid = Some g"
proof -
  let ?r = "foldl gate_step r ops"
  from assms(2) obtain i where i: "i < length (gates r)" "gates r ! i = g" "g_id g = gid"
    by (auto simp: in_set_conv_nth dest!: get_gate_SomeD)
  have f: "follows (gates r) (gates ?r)" and wf: "gates_wf ?r"
    using assms(1) run_follows registry.run_inv by auto
  from f i have "i < length (gates ?r)" "life g (gates ?r ! i)" by (auto simp: follows_def)
  with assms(3) have "g \<in> set (gates ?r)" using life_terminal nth_mem by metis
  with wf i(3) show ?thesis using get_gate_mem by (auto simp: gates_wf_def)
qed

text \<open>
  The decision, actor and claim time recorded when a gate was claimed stay with its row
  through every later call; only settling may replace the decision by the outcome it reports, and
  the row never becomes pending again.
\<close>

theorem recorded_decision_kept:
  assumes "gates_wf r" and "i < length (gates r)" and "g_state (gates r ! i) \<noteq> Pending"
    and "g' = gates (foldl gate_step r ops) ! i"
  shows "g_actor g' = g_actor (gates r ! i) \<and> g_claimed g' = g_claimed (gates r ! i) \<and>
    g_state g' \<noteq> Pending \<and> (g_state g' = Settled \<or> g_decision g' = g_decision (gates r ! i))"
  unfolding assms(4)
  using run_follows[OF assms(1), of ops] assms(2,3) by (intro life_decision) (auto simp: follows_def)

subsection \<open>One winner\<close>

fun claims :: "registry \<Rightarrow> string \<Rightarrow> (real \<times> string \<times> string) list \<Rightarrow> gate_result list" where
  "claims r gid [] = []"
| "claims r gid ((now, d, a) # cs) =
     (case claim_gate now gid d a True r of (res, r') \<Rightarrow> res # claims r' gid cs)"

lemma cas_get:
  assumes "get_gate gs gid = Some g" "g_state g = s" "distinct (map g_id gs)" "\<And>g. g_id (sets g) = g_id g"
  shows "\<exists>gs'. cas gid s s' sets gs = Some gs' \<and> get_gate gs' gid = Some ((sets g)\<lparr>g_state := s'\<rparr>)"
proof -
  have g: "g \<in> set gs" "g_id g = gid" using get_gate_SomeD[OF assms(1)] by auto
  let ?gs = "map (\<lambda>g. if g_id g = gid \<and> g_state g = s then (sets g)\<lparr>g_state := s'\<rparr> else g) gs"
  have cas: "cas gid s s' sets gs = Some ?gs" using g assms(2) by (auto simp: cas_def list_ex_iff)
  have "map g_id ?gs = map g_id gs" using assms(4) by auto
  then have "distinct (map g_id ?gs)" using assms(3) by (simp only:)
  from get_gate_mem[OF this, of "(sets g)\<lparr>g_state := s'\<rparr>"] have "get_gate ?gs gid = Some ((sets g)\<lparr>g_state := s'\<rparr>)"
    using g assms(2,4) by force
  with cas show ?thesis by blast
qed

lemma supersede_other: "gid' \<noteq> gid \<Longrightarrow> get_gate (gates (snd (supersede_gate now gid' n r))) gid = get_gate (gates r) gid"
proof -
  assume ne: "gid' \<noteq> gid"
  have "get_gate (map (\<lambda>g. if g_id g = gid' \<and> g_state g = s then (f g)\<lparr>g_state := s'\<rparr> else g) gs) gid = get_gate gs gid"
    if "\<And>g. g_id (f g) = g_id g" for s s' f and gs :: "gate list"
    using ne that by (induction gs) (auto simp: get_gate_def)
  then show ?thesis by (auto simp: supersede_gate_def cas_def split: option.splits)
qed

lemma supersede_twins_other:
  "get_gate (gates (supersede_pending_twins now g r)) (g_id g) = get_gate (gates r) (g_id g)"
proof -
  have "get_gate (gates (foldl (\<lambda>r x. snd (supersede_gate now (g_id x) n r)) r gs)) gid = get_gate (gates r) gid"
    if "\<forall>x \<in> set gs. g_id x \<noteq> gid" for n gid and gs :: "gate list"
    using that by (induction gs arbitrary: r) (simp_all add: supersede_other)
  then show ?thesis by (simp add: supersede_pending_twins_def pending_twins_def)
qed

definition claimed_as :: "real \<Rightarrow> string \<Rightarrow> string \<Rightarrow> gate \<Rightarrow> gate" where
  "claimed_as now d a g = g\<lparr>g_decision := d, g_actor := a, g_claimed := Some now, g_state := Claimed\<rparr>"

lemma claim_pending:
  assumes "gates_wf r" "get_gate (gates r) gid = Some g" "g_state g = Pending"
  shows "\<exists>r'. claim_gate now gid d a re r = (Inr (claimed_as now d a g), r') \<and>
    get_gate (gates r') gid = Some (claimed_as now d a g)"
proof -
  let ?sets = "\<lambda>g. g\<lparr>g_decision := d, g_actor := a, g_claimed := Some now\<rparr>"
  obtain gs where gs: "cas gid Pending Claimed ?sets (gates r) = Some gs"
    "get_gate gs gid = Some (claimed_as now d a g)"
    using cas_get[OF assms(2,3), of ?sets Claimed] assms(1) by (auto simp: gates_wf_def claimed_as_def)
  have "g_id (claimed_as now d a g) = gid" using get_gate_SomeD[OF gs(2)] by simp
  then have "get_gate (gates (supersede_pending_twins now (claimed_as now d a g) (r\<lparr>gates := gs\<rparr>))) gid
      = Some (claimed_as now d a g)"
    using supersede_twins_other[of now "claimed_as now d a g" "r\<lparr>gates := gs\<rparr>"] gs(2) by simp
  with gs show ?thesis by (simp add: claim_gate_def)
qed

lemma claim_not_pending:
  assumes "gates_wf r" "get_gate (gates r) gid = Some g" "g_state g = Claimed"
  shows "claim_gate now gid d a True r =
    (if d = g_decision g then Inr g
     else Inl (TransitionConflict gid ''pending'' (Some Claimed) (g_decision g) (g_actor g)), r)"
proof -
  have "\<not> list_ex (\<lambda>g. g_id g = gid \<and> g_state g = Pending) (gates r)"
    using assms get_gate_SomeD[OF assms(2)] distinct_same_id[of "gates r"]
    by (fastforce simp: list_ex_iff gates_wf_def)
  with assms show ?thesis by (auto simp: claim_gate_def cas_def repeat_or_conflict_def conflict_def)
qed

text \<open>
  C5: of any sequence of claims on a pending gate the first one wins and is recorded; every later
  claim gets the winner's row when it says the same, and otherwise a conflict that carries the
  winner's decision and actor. No later claim changes the record.
\<close>

theorem claim_has_one_winner:
  assumes "gates_wf r" and "get_gate (gates r) gid = Some g" and "g_state g = Pending"
  shows "claims r gid ((now, d, a) # cs) =
    Inr (claimed_as now d a g) #
    map (\<lambda>(_, d', _). if d' = d then Inr (claimed_as now d a g)
                      else Inl (TransitionConflict gid ''pending'' (Some Claimed) d a)) cs"
proof -
  let ?w = "claimed_as now d a g"
  have rest: "claims r' gid cs = map (\<lambda>(_, d', _). if d' = d then Inr ?w
      else Inl (TransitionConflict gid ''pending'' (Some Claimed) d a)) cs"
    if "gates_wf r'" "get_gate (gates r') gid = Some ?w" for r'
    using that
  proof (induction cs)
    case (Cons c cs)
    obtain t' d' a' where c: "c = (t', d', a')" by (cases c)
    have "claim_gate t' gid d' a' True r' = (if d' = d then Inr ?w
        else Inl (TransitionConflict gid ''pending'' (Some Claimed) d a), r')"
      using claim_not_pending[OF Cons.prems] by (simp add: claimed_as_def)
    with Cons c show ?case by simp
  qed simp
  obtain r' where r': "claim_gate now gid d a True r = (Inr ?w, r')" "get_gate (gates r') gid = Some ?w"
    using claim_pending[OF assms] by blast
  moreover have "gates_wf r'"
    using registry.step_inv[OF assms(1), of "GClaim now gid d a True"] r'(1) by simp
  ultimately show ?thesis using rest by simp
qed

theorem claim_has_one_winner_witness:
  "claims one_gate ''g'' [(1, ''approve'', ''ann''), (2, ''deny'', ''bob''), (3, ''approve'', ''cy'')] =
     [Inr (claimed_as 1 ''approve'' ''ann'' (sample_gate ''g'' ''{}'')),
      Inl (TransitionConflict ''g'' ''pending'' (Some Claimed) ''approve'' ''ann''),
      Inr (claimed_as 1 ''approve'' ''ann'' (sample_gate ''g'' ''{}''))]"
  by (subst claim_has_one_winner) (simp_all add: one_gate_def sample_gate_def get_gate_def gates_wf_def)

subsection \<open>Sweeping and pruning\<close>

text \<open>
  The expiry sweep moves exactly the live rows whose end time has come to \<open>timeout\<close>, returns
  them, and touches no other row; afterwards no live row is overdue. A claimed or resuming row is
  no exception, and keeps the decision it recorded.
\<close>

theorem expire_moves_exactly_overdue:
  assumes "gates_wf r"
  shows "expire_due_gates now r =
      (map (timed_out now) (filter (overdue now) (gates r)),
       publish_all (map (timed_out now) (filter (overdue now) (gates r)))
         (r\<lparr>gates := map (\<lambda>g. if overdue now g then timed_out now g else g) (gates r)\<rparr>))
    \<and> filter (overdue now) (gates (snd (expire_due_gates now r))) = []"
proof -
  have over: "\<not> overdue now (timed_out now g)" for g
    by (simp add: overdue_def is_live_def LIVE_STATES_def timed_out_def)
  have "expire_due_gates now r =
      (map (timed_out now) (filter (overdue now) (gates r)),
       publish_all (map (timed_out now) (filter (overdue now) (gates r)))
         (r\<lparr>gates := map (\<lambda>g. if overdue now g then timed_out now g else g) (gates r)\<rparr>))"
    using sweep_targets_eq[of "gates r" "\<lambda>g. g\<lparr>g_settled := Some now\<rparr>" TimedOut "overdue now"] assms
    unfolding timed_out_def[abs_def] by (simp add: expire_due_gates_def gates_wf_def)
  moreover have "filter (overdue now) (gates (snd (expire_due_gates now r))) = []"
    using over by (auto simp: expire_rows(2)[OF assms] filter_empty_conv)
  ultimately show ?thesis by blast
qed

text \<open>
  The boot sweep marks exactly the claimed and resuming rows older than the grace period as
  failed, keeping their decision and actor, times out the live rows that are overdue, and leaves
  every other row, each pending question still in time above all, as it was.
\<close>

theorem boot_sweep_rows:
  assumes "gates_wf r" and "i < length (gates r)"
  shows "let g = gates r ! i; g' = gates (snd (boot_sweep t0 t1 t2 grace r)) ! i in
    g' = (if orphaned (t0 - max 0 grace) g then unconfirmed t1 g
          else if overdue t2 g then timed_out t2 g else g)
    \<and> g_decision g' = g_decision g \<and> g_actor g' = g_actor g
    \<and> (g_state g = Pending \<and> \<not> overdue t2 g \<longrightarrow> g' = g)"
  using assms by (auto simp: boot_rows Let_def unconfirmed_def timed_out_def orphaned_def)

lemma length_filter_not: "length xs - length (filter (\<lambda>x. \<not> P x) xs) = length (filter P xs)"
  using sum_length_filter_compl[of P xs] by simp

text \<open>
  Pruning removes only decided rows past the retention time, one batch at most, and reports how
  many; every live row and every younger row stays, and the ids stay unique.
\<close>

theorem prune_removes_only_old_decided:
  assumes "gates_wf r" and "prune_decided_gates now days r = (n, r')"
  shows "n = min prune_batch (length (filter (prunable (now - days * 86400)) (gates r)))
    \<and> gates_wf r' \<and> length (gates r') + n = length (gates r)
    \<and> set (gates r') \<subseteq> set (gates r)
    \<and> (\<forall>g \<in> set (gates r). \<not> prunable (now - days * 86400) g \<longrightarrow> g \<in> set (gates r'))"
proof -
  let ?p = "prunable (now - days * 86400)"
  let ?out = "take prune_batch (filter ?p (gates r))"
  let ?kept = "filter (\<lambda>g. g_id g \<notin> set (map g_id ?out)) (gates r)"
  from assms(2) have r': "gates r' = ?kept" and n: "n = length (gates r) - length ?kept"
    by (auto simp: prune_decided_gates_def Let_def)
  have out: "set ?out \<subseteq> set (filter ?p (gates r))" by (rule set_take_subset)
  have d: "distinct (gates r)" using assms(1) by (simp add: gates_wf_def distinct_map)
  have mem: "g_id g \<in> set (map g_id ?out) \<longleftrightarrow> g \<in> set ?out" if "g \<in> set (gates r)" for g
    using that out assms(1) distinct_same_id[of "gates r" g] by (auto simp: gates_wf_def)
  then have kept: "?kept = filter (\<lambda>g. g \<notin> set ?out) (gates r)"
    by (intro filter_cong) auto
  have "length (filter (\<lambda>g. g \<in> set ?out) (gates r)) = card (set (filter (\<lambda>g. g \<in> set ?out) (gates r)))"
    by (rule distinct_card[symmetric]) (simp add: d)
  also have "set (filter (\<lambda>g. g \<in> set ?out) (gates r)) = set ?out" using out by auto
  also have "card (set ?out) = length ?out" using d by (intro distinct_card distinct_take distinct_filter)
  finally have cnt: "length (filter (\<lambda>g. g \<in> set ?out) (gates r)) = min prune_batch (length (filter ?p (gates r)))"
    by (simp add: min.commute)
  have "n = min prune_batch (length (filter ?p (gates r)))"
    unfolding n kept using cnt length_filter_not[of "gates r" "\<lambda>g. g \<in> set ?out"] by simp
  moreover have "gates_wf r'" using assms(1) by (simp add: gates_wf_def r' distinct_map_filter)
  moreover have "length (gates r') + n = length (gates r)"
    using n length_filter_le[of _ "gates r"] by (simp add: r')
  moreover have "\<forall>g \<in> set (gates r). \<not> ?p g \<longrightarrow> g \<in> set (gates r')"
    unfolding r' kept using out by auto
  ultimately show ?thesis by (auto simp: r')
qed

text \<open>
  Settling reaches every row there is: a live row becomes settled with the outcome, a terminal
  one is returned unchanged, and only an unknown id is a conflict.
\<close>

theorem settle_total:
  assumes "gates_wf r" and "get_gate (gates r) gid = Some g"
  shows "\<exists>g' r'. settle_gate now gid outcome r = (Inr g', r') \<and> get_gate (gates r') gid = Some g' \<and>
    (if is_live g
     then g' = g\<lparr>g_settled := Some now, g_decision := (if outcome \<noteq> [] then outcome else g_decision g),
                  g_state := Settled\<rparr>
     else g' = g \<and> r' = r)"
proof -
  let ?sets = "\<lambda>g. g\<lparr>g_settled := Some now, g_decision := (if outcome \<noteq> [] then outcome else g_decision g)\<rparr>"
  have miss: "cas gid s Settled ?sets (gates r) = None" if "g_state g \<noteq> s" for s
    using that assms distinct_same_id[of "gates r" _ g] get_gate_SomeD[OF assms(2)]
    by (fastforce simp: cas_def list_ex_iff gates_wf_def)
  show ?thesis
  proof (cases "is_live g")
    case True
    obtain gs where gs: "cas gid (g_state g) Settled ?sets (gates r) = Some gs"
      "get_gate gs gid = Some ((?sets g)\<lparr>g_state := Settled\<rparr>)"
      using cas_get[OF assms(2) refl, of ?sets Settled] assms(1) by (auto simp: gates_wf_def)
    have "cas_first gid [Resuming, Claimed, Pending] Settled ?sets (gates r) = Some gs"
      using True gs(1) miss by (cases "g_state g") (simp_all add: is_live_def LIVE_STATES_def)
    with True gs(2) show ?thesis by (simp only: settle_gate_def moved_def option.case) simp
  next
    case False
    then have "g_state g \<in> {Settled, TimedOut, Superseded, Errored}"
      by (cases "g_state g") (simp_all add: is_live_iff)
    then have rep: "repeat_or_conflict gid ''live'' (\<lambda>g. g_state g \<in> {Settled, TimedOut, Superseded, Errored}) r
        = (Inr g, r)" using assms(2) by (simp add: repeat_or_conflict_def)
    have none: "cas_first gid [Resuming, Claimed, Pending] Settled ?sets (gates r) = None"
      using miss[of Resuming] miss[of Claimed] miss[of Pending] False
      by (simp only: cas_first.simps option.case is_live_iff de_Morgan_disj simp_thms)
    have "settle_gate now gid outcome r = (Inr g, r)"
      unfolding settle_gate_def none option.case rep ..
    with False assms(2) show ?thesis by simp
  qed
qed

text \<open>
  The transition table of the module allows a resuming gate only to be settled or to fail, but
  the expiry sweep times it out: a gate approved and being executed at its end time is recorded as
  a question that expired unanswered, with its approval.
\<close>

theorem resuming_gate_times_out:
  "let r = foldl gate_step one_gate [GClaim 98 ''g'' ''approve'' ''op'' True, GMarkResuming ''g'', GExpire 100];
       g = gates r ! 0
   in g_state g = TimedOut \<and> g_decision g = ''approve'' \<and> gate_outcome g = ''timeout''"
  by (simp add: one_gate_def sample_gate_def claim_gate_def cas_def get_gate_def supersede_pending_twins_def
      pending_twins_def mark_resuming_def moved_def publish_def expire_due_gates_def targets_def overdue_def
      is_live_def LIVE_STATES_def publish_all_def gate_outcome_def)

subsection \<open>Counting outcomes\<close>

lemma map_of_bump: "map_of (bump k c) k' = (if k' = k then Some (case map_of c k of None \<Rightarrow> 1 | Some n \<Rightarrow> n + 1)
    else map_of c k')"
  by (induction c) auto

definition counted :: "nat \<Rightarrow> nat option" where
  "counted n = (if n = 0 then None else Some n)"

lemma foldl_bump:
  "map_of (foldl (\<lambda>c g. bump (f g) c) c gs) k =
     counted ((case map_of c k of None \<Rightarrow> 0 | Some n \<Rightarrow> n) + count_list (map f gs) k)"
  if "\<forall>k. map_of c k \<noteq> Some 0"
  using that
proof (induction gs arbitrary: c)
  case Nil
  then show ?case by (cases "map_of c k") (auto simp: counted_def intro!: gr0I)
next
  case (Cons g gs)
  have "\<forall>k. map_of (bump (f g) c) k \<noteq> Some 0" using Cons.prems by (auto simp: map_of_bump split: option.splits)
  from Cons.IH[OF this] show ?case by (auto simp: map_of_bump split: option.split)
qed

text \<open>
  The digest counts every question asked since the given time exactly once, under the outcome
  its row has, except the second id of a pause: each count is the number of such rows.
\<close>

theorem outcomes_count_each_question:
  "map_of (gate_outcomes_since since gs) k =
    (let n = length (filter (\<lambda>g. since \<le> g_created g \<and> g_state g \<noteq> Superseded \<and> gate_outcome g = k) gs)
     in if n = 0 then None else Some n)"
proof -
  have "count_list (map gate_outcome xs) k = length (filter (\<lambda>g. gate_outcome g = k) xs)" for xs
    by (induction xs) auto
  then show ?thesis
    by (simp add: gate_outcomes_since_def foldl_bump counted_def Let_def conj_assoc
        filter_filter[symmetric] del: filter_filter)
qed

subsection \<open>One pause, one row\<close>

definition named :: "string \<Rightarrow> gate \<Rightarrow> bool" where
  "named c g \<longleftrightarrow> g_id g = c \<or> (g_alias g \<noteq> [] \<and> g_alias g = c)"

lemma case_head_append:
  "(\<forall>x \<in> set l. P x) \<Longrightarrow> (\<forall>x \<in> set n. \<not> P x) \<Longrightarrow>
    (case l @ n of [] \<Rightarrow> None | g # _ \<Rightarrow> if P g then Some g else None) = (case l of [] \<Rightarrow> None | g # _ \<Rightarrow> Some g)"
  by (cases l; cases n) auto

lemma by_either_id_eq:
  "by_either_id gs c = (case sort_key (\<lambda>g. - g_created g) (filter (\<lambda>g. is_live g \<and> named c g) gs) of
     [] \<Rightarrow> None | g # _ \<Rightarrow> Some g)"
proof -
  let ?k = "\<lambda>g. - g_created g"
  let ?l = "sort_key ?k (filter is_live (filter (named c) gs))"
  let ?n = "sort_key ?k (filter (\<lambda>g. \<not> is_live g) (filter (named c) gs))"
  have e: "by_either_id gs c = (case ?l @ ?n of [] \<Rightarrow> None | g # _ \<Rightarrow> if is_live g then Some g else None)"
    by (simp add: by_either_id_def live_then_new_def named_def[abs_def])
  have l: "\<forall>g \<in> set ?l. is_live g" and n: "\<forall>g \<in> set ?n. \<not> is_live g" by auto
  have "by_either_id gs c = (case ?l of [] \<Rightarrow> None | g # _ \<Rightarrow> Some g)"
    unfolding e by (rule case_head_append[OF l n])
  then show ?thesis by (simp add: conj_commute)
qed

lemma by_either_id_None_iff: "by_either_id gs c = None \<longleftrightarrow> (\<forall>g \<in> set gs. \<not> (is_live g \<and> named c g))"
proof -
  have "by_either_id gs c = None \<longleftrightarrow> sort_key (\<lambda>g. - g_created g) (filter (\<lambda>g. is_live g \<and> named c g) gs) = []"
    by (auto simp: by_either_id_eq split: list.split)
  also have "\<dots> \<longleftrightarrow> filter (\<lambda>g. is_live g \<and> named c g) gs = []"
    by (metis set_empty set_sort)
  finally show ?thesis by (simp add: filter_empty_conv)
qed

lemma by_either_id_unique:
  assumes "g \<in> set gs" "is_live g" "named c g" "\<And>x. x \<in> set gs \<Longrightarrow> is_live x \<Longrightarrow> named c x \<Longrightarrow> x = g"
  shows "by_either_id gs c = Some g"
proof (cases "by_either_id gs c")
  case None
  with assms(1-3) show ?thesis by (auto simp: by_either_id_None_iff)
next
  case (Some x)
  with by_either_id_SomeD[OF Some] assms(4)[of x] show ?thesis by (auto simp: named_def)
qed

lemma insort_key_map: "insort_key k (f x) (map f xs) = map f (insort_key (\<lambda>y. k (f y)) x xs)"
  by (induction xs) simp_all

lemma sort_key_map: "sort_key k (map f xs) = map f (sort_key (\<lambda>y. k (f y)) xs)"
  by (induction xs) (simp_all add: insort_key_map)

text \<open>A renaming that keeps which rows a name finds keeps the row it finds.\<close>

lemma by_either_id_map:
  assumes "\<And>g. is_live (f g) = is_live g" "\<And>g. g_created (f g) = g_created g"
    and "\<And>g. g \<in> set gs \<Longrightarrow> is_live g \<Longrightarrow> named c (f g) = named c g"
  shows "by_either_id (map f gs) c = map_option f (by_either_id gs c)"
proof -
  have "filter (\<lambda>g. is_live g \<and> named c g) (map f gs) = map f (filter (\<lambda>g. is_live g \<and> named c g) gs)"
    using assms(1,3) by (induction gs) auto
  then show ?thesis
    by (simp add: by_either_id_eq sort_key_map assms(2) split: list.split)
qed

abbreviation names :: "gate \<Rightarrow> string list" where
  "names gate \<equiv> filter (\<lambda>x. x \<noteq> []) [g_alias gate, g_id gate]"

lemma first_live_None_iff: "first_live gs cs = None \<longleftrightarrow> (\<forall>c \<in> set cs. by_either_id gs c = None)"
  by (induction cs) (auto split: option.splits)

lemma first_live_only:
  assumes "g \<in> set gs" "is_live g" "\<exists>c \<in> set cs. named c g"
    and "\<And>x c. x \<in> set gs \<Longrightarrow> is_live x \<Longrightarrow> c \<in> set cs \<Longrightarrow> named c x \<Longrightarrow> x = g"
  shows "first_live gs cs = Some g"
  using assms(3,4)
proof (induction cs)
  case (Cons c cs)
  show ?case
  proof (cases "named c g")
    case True
    then have "by_either_id gs c = Some g"
      using assms(1,2) Cons.prems(2) by (intro by_either_id_unique) auto
    then show ?thesis by simp
  next
    case False
    then have "by_either_id gs c = None"
      using Cons.prems(2)[of _ c] by (fastforce simp: by_either_id_None_iff)
    moreover have "first_live gs cs = Some g" using Cons False by auto
    ultimately show ?thesis by simp
  qed
qed simp

lemma with_expiry_fields [simp]:
  "g_id (with_expiry now ttl g) = g_id g" "g_alias (with_expiry now ttl g) = g_alias g"
  "g_thread (with_expiry now ttl g) = g_thread g" "g_tool (with_expiry now ttl g) = g_tool g"
  "g_mech (with_expiry now ttl g) = g_mech g" "g_args (with_expiry now ttl g) = g_args g"
  by (simp_all add: with_expiry_def Let_def split: option.split)

lemma find_twin_with_expiry [simp]: "find_twin (with_expiry now ttl g) gs = find_twin g gs"
  by (induction gs) auto

lemma lookup_with_expiry [simp]: "lookup_live_gate gs (with_expiry now ttl g) = lookup_live_gate gs g"
  unfolding lookup_live_gate_def twin_by_id_def with_expiry_fields find_twin_with_expiry ..

lemma self_named: "g_alias g = g_id g \<Longrightarrow> g\<lparr>g_alias := g_id g, g_id := g_id g\<rparr> = g"
  by (cases g) simp

text \<open>A pause found under one of its names, already named as the caller names it, is returned as it is.\<close>

lemma register_found:
  assumes "gates_wf r" "first_live (gates r) (names gate) = Some g"
    and "g_alias gate \<noteq> [] \<and> g_id g = g_alias gate \<Longrightarrow> g_id gate = g_alias gate \<and> g_alias g = g_alias gate"
  shows "register_gate now gate ttl r = (Inr g, r)"
proof -
  have lk: "lookup_live_gate (gates r) gate = (Some g, gates r)"
    using assms(2) by (simp add: lookup_live_gate_def)
  show ?thesis
  proof (cases "g_alias gate \<noteq> [] \<and> g_id g = g_alias gate")
    case True
    with assms(3) have ids: "g_id gate = g_id g" "g_alias g = g_id g" by auto
    have "g \<in> set (gates r)" using first_live_SomeD[OF assms(2)] by simp
    then have "\<forall>x \<in> set (gates r). g_id x = g_id g \<longrightarrow> x = g"
      using assms(1) distinct_same_id[of "gates r" _ g] by (auto simp: gates_wf_def)
    then have "\<forall>x \<in> set (gates r). g_id x = g_id g \<longrightarrow> x\<lparr>g_alias := g_id g, g_id := g_id g\<rparr> = x"
      using self_named[OF ids(2)] by auto
    then have "set_row (g_id g) (\<lambda>x. x\<lparr>g_alias := g_id g, g_id := g_id g\<rparr>) (gates r) = gates r"
      by (auto simp: set_row_def intro: map_idI)
    moreover note self_named[OF ids(2)]
    ultimately show ?thesis using True ids(1) lk by (simp add: register_gate_def Let_def)
  next
    case False
    with lk show ?thesis by (auto simp: register_gate_def Let_def)
  qed
qed

lemma first_live_alias:
  assumes "first_live gs (names gate) = Some ex" "is_live ex" "ex \<in> set gs"
    "g_alias gate \<noteq> []" "g_id ex = g_alias gate"
  shows "by_either_id gs (g_alias gate) = Some ex"
proof (cases "by_either_id gs (g_alias gate)")
  case None
  with assms show ?thesis by (auto simp: by_either_id_None_iff named_def)
qed (use assms in simp)

lemma register_upgraded:
  assumes "gates_wf r" "first_live (gates r) (names gate) = Some ex"
    and "g_alias gate \<noteq> []" "g_id ex = g_alias gate"
    and "register_gate now gate ttl r = (Inr g, r1)"
  shows "first_live (gates r1) (names gate) = Some g \<and> g_alias g = g_alias gate \<and> g_id g = g_id gate"
proof -
  let ?f = "\<lambda>g. if g_id g = g_alias gate then g\<lparr>g_alias := g_alias gate, g_id := g_id gate\<rparr> else g"
  have ex: "is_live ex" "ex \<in> set (gates r)" using first_live_SomeD[OF assms(2)] by auto
  have lk: "lookup_live_gate (gates r) gate = (Some ex, gates r)"
    using assms(2) by (simp add: lookup_live_gate_def)
  from assms(3-5) lk have g: "g = ?f ex" and r1: "gates r1 = map ?f (gates r)"
    by (auto simp: register_gate_def Let_def set_row_def split: if_splits)
  have "by_either_id (map ?f (gates r)) (g_alias gate) = map_option ?f (by_either_id (gates r) (g_alias gate))"
    using assms(3) by (intro by_either_id_map) (auto simp: is_live_def named_def)
  with first_live_alias[OF assms(2) ex assms(3,4)] have "by_either_id (gates r1) (g_alias gate) = Some g"
    by (simp add: r1 g)
  with assms(3,4) show ?thesis by (simp add: g)
qed

lemma register_inserted:
  assumes "gates_wf r" "first_live (gates r) (names gate) = None" "g_id gate \<noteq> []"
    and "g \<in> set gs" "set gs \<subseteq> insert g (set (gates r))" "is_live g"
    and "named (g_id gate) g"
  shows "first_live gs (names gate) = Some g"
proof (rule first_live_only[OF assms(4,6)])
  show "\<exists>c \<in> set (names gate). named c g" using assms(3,7) by auto
  fix x c
  assume "x \<in> set gs" "is_live x" "c \<in> set (names gate)" "named c x"
  with assms(2,5) show "x = g" unfolding first_live_None_iff by_either_id_None_iff by blast
qed

lemma register_new_again:
  assumes "gates_wf r" "g_id gate \<noteq> []" "g_alias gate \<noteq> again_id now (g_id gate)"
    and "first_live (gates r) (names gate) = None" "lookup_live_gate (gates r) gate = (None, gs)"
    and "register_gate now gate ttl r = (Inr g, r1)" "is_live g"
  shows "first_live (gates r1) (names gate) = Some g \<and>
    (g_alias gate \<noteq> [] \<and> g_id g = g_alias gate \<longrightarrow> g_id gate = g_alias gate \<and> g_alias g = g_alias gate)"
proof -
  have gs: "gs = gates r" using assms(5) by (rule lookup_live_gate_None)
  have dead: "\<not> is_live ex" if "get_gate (gates r) (g_id gate) = Some ex" for ex
  proof -
    have "ex \<in> set (gates r)" "named (g_id gate) ex" using get_gate_SomeD[OF that] by (auto simp: named_def)
    moreover have "g_id gate \<in> set (names gate)" using assms(2) by simp
    ultimately show ?thesis
      using assms(4) unfolding first_live_None_iff by_either_id_None_iff by blast
  qed
  have ins: "gates r1 = gates r @ [g] \<and> g_id g = g_id x \<and> g_alias g = g_alias x"
    if "insert_gate now x r = (Inr g, r1)" for x
  proof -
    let ?g = "x\<lparr>g_created := now\<rparr>"
    from that have "?g = g" "gates r1 = gates (publish ''gate_pending'' ?g (r\<lparr>gates := gates r @ [?g]\<rparr>))"
      unfolding insert_gate_def Let_def by (cases "get_gate (gates r) (g_id ?g) = None"; auto)+
    then show ?thesis by auto
  qed
  have "gates r1 = gates r @ [g] \<and>
     (g_id g = g_id gate \<and> g_alias g = g_alias gate \<or> g_id g = again_id now (g_id gate) \<and> g_alias g = g_id gate)"
  proof (cases "get_gate (gates r) (g_id gate)")
    case None
    with assms(5,6) gs have "insert_gate now (with_expiry now ttl gate) r = (Inr g, r1)"
      by (simp add: register_gate_def)
    from ins[OF this] show ?thesis by simp
  next
    case (Some ex)
    with dead assms(5-7) gs
    have "insert_gate now ((with_expiry now ttl gate)\<lparr>g_alias := g_id gate, g_id := again_id now (g_id gate)\<rparr>) r
        = (Inr g, r1)"
      by (auto simp: register_gate_def Let_def split: if_splits)
    from ins[OF this] show ?thesis by simp
  qed
  moreover from this have "named (g_id gate) g" using assms(2) by (auto simp: named_def)
  ultimately show ?thesis
    using assms(2,3,7) register_inserted[OF assms(1,4,2), of g "gates r1"] by auto
qed

lemma register_twin_again:
  assumes "gates_wf r" "g_id gate \<noteq> []" "first_live (gates r) (names gate) = None"
    and "lookup_live_gate (gates r) gate = (Some ex, gs)" "register_gate now gate ttl r = (Inr g, r1)"
  shows "register_gate now' gate ttl' r1 = (Inr g, r1)"
proof -
  have d: "distinct (map g_id (gates r))" using assms(1) by (simp add: gates_wf_def)
  have nolive: "x \<in> set (gates r) \<Longrightarrow> is_live x \<Longrightarrow> c \<in> set (names gate) \<Longrightarrow> \<not> named c x" for x c
    using assms(3) unfolding first_live_None_iff by_either_id_None_iff by blast
  let ?same = "filter (\<lambda>g. g_thread g = g_thread gate \<and> g_tool g = g_tool gate \<and> is_live g) (gates r)"
  from assms(3,4) obtain tw where tw: "find_twin gate (sort_key g_created ?same) = Some tw"
    and ex: "ex = tw \<and> gs = gates r \<or>
       ex = tw\<lparr>g_alias := g_id gate\<rparr> \<and> gs = set_row (g_id tw) (\<lambda>g. g\<lparr>g_alias := g_id gate\<rparr>) (gates r)"
    unfolding lookup_live_gate_def by (auto split: if_splits option.splits)
  from find_twin_SomeD[OF tw] have mem: "tw \<in> set (gates r)" "is_live tw" by auto
  have "\<not> (g_alias gate \<noteq> [] \<and> g_id ex = g_alias gate)"
    using ex nolive[OF mem, of "g_alias gate"] by (auto simp: named_def)
  then have res: "g = ex" "r1 = r\<lparr>gates := gs\<rparr>"
    using assms(4,5) by (auto simp: register_gate_def Let_def split: if_splits)
  from ex show ?thesis
  proof
    assume "ex = tw \<and> gs = gates r"
    with res assms(4) \<open>\<not> (g_alias gate \<noteq> [] \<and> g_id ex = g_alias gate)\<close> show ?thesis
      by (auto simp: register_gate_def Let_def)
  next
    assume e: "ex = tw\<lparr>g_alias := g_id gate\<rparr> \<and> gs = set_row (g_id tw) (\<lambda>g. g\<lparr>g_alias := g_id gate\<rparr>) (gates r)"
    have sub: "set gs \<subseteq> insert ex (set (gates r))" and "ex \<in> set gs"
      using e mem(1) distinct_same_id[OF d _ mem(1)] by (auto simp: set_row_def)
    moreover have "is_live ex" "named (g_id gate) ex" using e mem(2) assms(2) by (simp_all add: is_live_def named_def)
    ultimately have "first_live (gates r1) (names gate) = Some g"
      using register_inserted[OF assms(1,3,2), of ex gs] res by simp
    moreover have "gates_wf r1"
      using registry.step_inv[OF assms(1), of "GRegister now gate ttl"] assms(5) by simp
    ultimately show ?thesis
      using res \<open>\<not> (g_alias gate \<noteq> [] \<and> g_id ex = g_alias gate)\<close> by (intro register_found) auto
  qed
qed

text \<open>
  Registering the same pause again, whenever and with whatever time to live, returns the row the
  first registration returned, as long as it is live, and adds, renames or changes no row: one pause
  never draws two cards, whichever of its two ids the caller knows.
\<close>

theorem register_once:
  assumes "gates_wf r" and "register_gate now gate ttl r = (Inr g, r1)" and "is_live g"
    and "g_id gate \<noteq> []" and "g_alias gate \<noteq> again_id now (g_id gate)"
  shows "register_gate now' gate ttl' r1 = (Inr g, r1)"
proof -
  have wf1: "gates_wf r1"
    using registry.step_inv[OF assms(1), of "GRegister now gate ttl"] assms(2) by simp
  show ?thesis
  proof (cases "first_live (gates r) (names gate)")
    case (Some ex)
    then have lk: "lookup_live_gate (gates r) gate = (Some ex, gates r)" by (simp add: lookup_live_gate_def)
    show ?thesis
    proof (cases "g_alias gate \<noteq> [] \<and> g_id ex = g_alias gate")
      case True
      then show ?thesis using register_upgraded[OF assms(1) Some _ _ assms(2)] register_found[OF wf1] by metis
    next
      case False
      with assms(2) lk have "g = ex" "r1 = r" by (auto simp: register_gate_def Let_def split: if_splits)
      with Some False assms(1) show ?thesis by (intro register_found) auto
    qed
  next
    case None
    note miss = None
    obtain opt gs where lk: "lookup_live_gate (gates r) gate = (opt, gs)" by fastforce
    show ?thesis
    proof (cases opt)
      case (Some ex)
      show ?thesis using register_twin_again[OF assms(1,4) miss lk[unfolded Some] assms(2)] wf1 by blast
    next
      case None
      show ?thesis
        using register_new_again[OF assms(1,4,5) miss lk[unfolded None] assms(2,3)] register_found[OF wf1] by blast
    qed
  qed
qed

text \<open>
  A pause registered under its provisional id keeps its one row when the real id is known: the row
  takes the real id, the provisional one becomes its alias, no row is added, and both ids lead to
  that row.
\<close>

theorem two_names_one_row:
  assumes "gates_wf r" and "g_alias gate \<noteq> []" and "get_gate (gates r) (g_alias gate) = Some ex"
    and "is_live ex" and "get_gate (gates r) (g_id gate) = None"
    and "\<forall>x \<in> set (gates r). is_live x \<and> named (g_alias gate) x \<longrightarrow> x = ex"
  shows "\<exists>g r1. register_gate now gate ttl r = (Inr g, r1) \<and> length (gates r1) = length (gates r)
    \<and> question g = question ex \<and> g_state g = g_state ex
    \<and> gate_for (gates r1) (g_id gate) = Some g \<and> gate_for (gates r1) (g_alias gate) = Some g"
proof -
  let ?a = "g_alias gate"
  let ?f = "\<lambda>g. if g_id g = ?a then g\<lparr>g_alias := ?a, g_id := g_id gate\<rparr> else g"
  let ?g = "ex\<lparr>g_alias := ?a, g_id := g_id gate\<rparr>"
  let ?r1 = "r\<lparr>gates := map ?f (gates r)\<rparr>"
  have ex: "ex \<in> set (gates r)" "g_id ex = ?a" using get_gate_SomeD[OF assms(3)] by auto
  have ne: "g_id gate \<noteq> ?a" using assms(3,5) by auto
  have by_a: "by_either_id (gates r) ?a = Some ex"
  proof (rule by_either_id_unique[OF ex(1) assms(4)])
    show "named ?a ex" using ex(2) by (simp add: named_def)
  qed (use assms(6) in blast)
  then have lk: "lookup_live_gate (gates r) gate = (Some ex, gates r)"
    using assms(2) by (simp add: lookup_live_gate_def)
  have reg: "register_gate now gate ttl r = (Inr ?g, ?r1)"
    using lk assms(2,5) ex ne by (simp add: register_gate_def Let_def set_row_def)
  have "gates_wf ?r1" using registry.step_inv[OF assms(1), of "GRegister now gate ttl"] reg by simp
  moreover have "?g \<in> set (gates ?r1)" using ex by force
  ultimately have get: "get_gate (gates ?r1) (g_id gate) = Some ?g"
    using get_gate_mem[of "gates ?r1" ?g] by (simp add: gates_wf_def)
  have none: "get_gate (gates ?r1) ?a = None" using ne by (auto simp: get_gate_None_iff)
  have "by_either_id (gates ?r1) ?a = Some ?g"
    using by_a ex(2) assms(2) by (simp, subst by_either_id_map) (auto simp: is_live_def named_def)
  moreover have "filter (\<lambda>g. g_id g = ?a \<or> g_alias g \<noteq> [] \<and> g_alias g = ?a) (gates ?r1)
      = filter (\<lambda>g. g_alias g \<noteq> [] \<and> g_alias g = ?a) (gates ?r1)"
  proof (rule filter_cong[OF refl])
    fix x
    assume "x \<in> set (gates ?r1)"
    then have "g_id x \<noteq> ?a" using ne by auto
    then show "(g_id x = ?a \<or> g_alias x \<noteq> [] \<and> g_alias x = ?a) = (g_alias x \<noteq> [] \<and> g_alias x = ?a)"
      by blast
  qed
  ultimately have "gate_for (gates ?r1) ?a = Some ?g"
    using none by (simp add: gate_for_def by_either_id_def split: list.splits if_splits)
  moreover have "gate_for (gates ?r1) (g_id gate) = Some ?g" using get by (simp add: gate_for_def)
  ultimately show ?thesis using reg by (auto simp: question_def)
qed

end
