(* ===== verification/Breaker.thy ===== *)
theory Breaker
  imports Yolo
begin

text \<open>
  The circuit breaker of a swarm worker (kazma_core/swarm/reliability.py, class
  \<open>CircuitBreaker\<close>): closed, open and half-open states, the single half-open probe, generations, and
  the copy shared between replicas in the settings store with the probe's lease.

  A clock reading is a pair: the process's monotonic clock and the wall clock. Whether breakers are
  shared (\<open>_shared_breakers_enabled\<close>) is an argument, as is the id of the probe's holder
  (process id and object id). Metrics and log lines are not modelled.
\<close>

subsection \<open>State\<close>

datatype cb_state = CbClosed | CbOpen | CbHalfOpen

record admission =
  ad_generation :: int
  ad_probe :: bool

record breaker =
  cb_threshold :: int
  cb_cooldown :: real
  cb_state_raw :: cb_state
  cb_failures :: int
  cb_opened :: "real option"
  cb_opened_wall :: "real option"
  cb_in_flight :: bool
  cb_lease_worker :: "string option"
  cb_lease_holder :: "string option"
  cb_generation :: int
  cb_token :: "admission option"
  cb_stale :: nat

definition new_breaker :: "int \<Rightarrow> real \<Rightarrow> breaker" where
  "new_breaker threshold cooldown =
     \<lparr>cb_threshold = threshold, cb_cooldown = cooldown, cb_state_raw = CbClosed, cb_failures = 0,
      cb_opened = None, cb_opened_wall = None, cb_in_flight = False, cb_lease_worker = None,
      cb_lease_holder = None, cb_generation = 0, cb_token = None, cb_stale = 0\<rparr>"

type_synonym clock = "real \<times> real"

text \<open>Reading \<open>state\<close> moves an open breaker whose cooldown has passed to half-open.\<close>

definition cb_tick :: "clock \<Rightarrow> breaker \<Rightarrow> breaker" where
  "cb_tick now b =
     (if cb_state_raw b = CbOpen
      then (case cb_opened b of
              None \<Rightarrow> b
            | Some t \<Rightarrow> if cb_cooldown b \<le> fst now - t then b\<lparr>cb_state_raw := CbHalfOpen\<rparr> else b)
      else b)"

subsection \<open>The probe's lease\<close>

definition lease_key :: "string \<Rightarrow> string" where
  "lease_key worker = ''swarm.breaker.probe.'' @ worker"

definition lease_ttl :: "breaker \<Rightarrow> real" where
  "lease_ttl b = max (cb_cooldown b) 60 + 30"

definition hold_lease :: "string \<Rightarrow> string \<Rightarrow> breaker \<Rightarrow> breaker" where
  "hold_lease worker holder b = b\<lparr>cb_lease_worker := Some worker, cb_lease_holder := Some holder\<rparr>"

text \<open>A store that cannot be written lets the probe run without its lease.\<close>

definition try_acquire_probe_lease ::
    "bool \<Rightarrow> string \<Rightarrow> clock \<Rightarrow> string \<Rightarrow> breaker \<Rightarrow> cstore \<Rightarrow> bool \<times> breaker \<times> cstore" where
  "try_acquire_probe_lease shared holder now worker b cs =
     (if \<not> shared then (True, hold_lease worker holder b, cs)
      else case cs_set_if_absent (snd now) cs (lease_key worker)
                  (lease_dict holder (snd now) (snd now + lease_ttl b)) (Some (lease_ttl b)) ''swarm'' of
        Inl _ \<Rightarrow> (True, hold_lease worker holder b, cs)
      | Inr (True, cs') \<Rightarrow> (True, hold_lease worker holder b, cs')
      | Inr (False, cs') \<Rightarrow> (False, b, cs'))"

text \<open>
  The stored holder, when it is this probe's, is cleared. A holder that is not a string is
  never one of the ids a probe writes.
\<close>

definition stored_holder :: "pydict \<Rightarrow> string option" where
  "stored_holder d =
     (case dget d ''holder'' of PStr s \<Rightarrow> Some s | v \<Rightarrow> if truthy v then None else Some [])"

definition release_probe_lease :: "bool \<Rightarrow> clock \<Rightarrow> breaker \<Rightarrow> cstore \<Rightarrow> breaker \<times> cstore" where
  "release_probe_lease shared now b cs =
     (let b' = b\<lparr>cb_lease_worker := None, cb_lease_holder := None\<rparr> in
      case cb_lease_worker b of
        None \<Rightarrow> (b', cs)
      | Some worker \<Rightarrow>
          if worker = [] \<or> \<not> shared then (b', cs)
          else (case cs_get cs (lease_key worker) of
            Inr (PDict d) \<Rightarrow>
              if stored_holder d = Some (case cb_lease_holder b of None \<Rightarrow> [] | Some h \<Rightarrow> h)
              then (b', (case cs_set (snd now) cs (lease_key worker)
                               (PDict [(''holder'', PStr []), (''expires_at'', PFloat 0)]) ''swarm'' of
                           Inl _ \<Rightarrow> cs | Inr cs' \<Rightarrow> cs'))
              else (b', cs)
          | _ \<Rightarrow> (b', cs)))"

subsection \<open>Admission\<close>

definition cb_admit ::
    "bool \<Rightarrow> string \<Rightarrow> clock \<Rightarrow> string \<Rightarrow> breaker \<Rightarrow> cstore \<Rightarrow> admission option \<times> breaker \<times> cstore" where
  "cb_admit shared holder now worker b0 cs =
     (let b = cb_tick now b0 in
      case cb_state_raw b of
        CbClosed \<Rightarrow> (Some \<lparr>ad_generation = cb_generation b, ad_probe = False\<rparr>, b, cs)
      | CbHalfOpen \<Rightarrow>
          if cb_in_flight b then (None, b, cs)
          else (case (if worker = [] then (True, b, cs)
                      else try_acquire_probe_lease shared holder now worker b cs) of
            (False, b', cs') \<Rightarrow> (None, b', cs')
          | (True, b', cs') \<Rightarrow>
              let tok = \<lparr>ad_generation = cb_generation b', ad_probe = True\<rparr>
              in (Some tok, b'\<lparr>cb_in_flight := True, cb_token := Some tok\<rparr>, cs'))
      | CbOpen \<Rightarrow> (None, b, cs))"

text \<open>Whether an outcome must not change the state. Admissions are compared by value.\<close>

definition cb_is_stale :: "breaker \<Rightarrow> admission option \<Rightarrow> bool" where
  "cb_is_stale b token \<longleftrightarrow>
     (cb_in_flight b \<and> cb_token b \<noteq> None \<and> token \<noteq> cb_token b) \<or>
     (case token of None \<Rightarrow> False | Some t \<Rightarrow> ad_generation t \<noteq> cb_generation b)"

definition cb_release_probe :: "bool \<Rightarrow> clock \<Rightarrow> breaker \<Rightarrow> cstore \<Rightarrow> breaker \<times> cstore" where
  "cb_release_probe shared now b cs = release_probe_lease shared now (b\<lparr>cb_in_flight := False\<rparr>) cs"

subsection \<open>Outcomes\<close>

definition count_stale :: "breaker \<Rightarrow> breaker" where
  "count_stale b = b\<lparr>cb_stale := cb_stale b + 1\<rparr>"

definition record_success ::
    "bool \<Rightarrow> clock \<Rightarrow> admission option \<Rightarrow> breaker \<Rightarrow> cstore \<Rightarrow> breaker \<times> cstore" where
  "record_success shared now token b0 cs =
     (let b = cb_tick now b0 in
      if cb_is_stale b token then (count_stale b, cs)
      else case release_probe_lease shared now
                  (b\<lparr>cb_failures := 0, cb_in_flight := False, cb_token := None\<rparr>) cs of
        (b', cs') \<Rightarrow>
          (if cb_state_raw b = CbHalfOpen
           then b'\<lparr>cb_state_raw := CbClosed, cb_opened := None, cb_opened_wall := None,
                   cb_generation := cb_generation b' + 1\<rparr>
           else b', cs'))"

definition trip :: "clock \<Rightarrow> breaker \<Rightarrow> breaker" where
  "trip now b = b\<lparr>cb_state_raw := CbOpen, cb_opened := Some (fst now), cb_opened_wall := Some (snd now),
                  cb_generation := cb_generation b + 1\<rparr>"

definition record_failure ::
    "bool \<Rightarrow> clock \<Rightarrow> admission option \<Rightarrow> breaker \<Rightarrow> cstore \<Rightarrow> breaker \<times> cstore" where
  "record_failure shared now token b0 cs =
     (if cb_is_stale b0 token then (count_stale b0, cs)
      else let b = cb_tick now b0 in
        case release_probe_lease shared now (b\<lparr>cb_in_flight := False, cb_token := None\<rparr>) cs of
          (b', cs') \<Rightarrow>
            (if cb_state_raw b = CbHalfOpen then trip now b'
             else let b'' = b'\<lparr>cb_failures := cb_failures b' + 1\<rparr>
                  in if cb_threshold b'' \<le> cb_failures b'' then trip now b'' else b'', cs'))"

definition cb_reset :: "bool \<Rightarrow> clock \<Rightarrow> breaker \<Rightarrow> cstore \<Rightarrow> breaker \<times> cstore" where
  "cb_reset shared now b cs =
     (case release_probe_lease shared now
             (b\<lparr>cb_state_raw := CbClosed, cb_failures := 0, cb_opened := None, cb_in_flight := False,
                cb_token := None\<rparr>) cs of
        (b', cs') \<Rightarrow> (b'\<lparr>cb_generation := cb_generation b' + 1\<rparr>, cs'))"

subsection \<open>The shared copy\<close>

definition state_name :: "cb_state \<Rightarrow> string" where
  "state_name s = (case s of CbClosed \<Rightarrow> ''closed'' | CbOpen \<Rightarrow> ''open'' | CbHalfOpen \<Rightarrow> ''half-open'')"

definition state_named :: "pyval \<Rightarrow> cb_state" where
  "state_named v =
     (if v = PStr ''open'' then CbOpen else if v = PStr ''half-open'' then CbHalfOpen else CbClosed)"

text \<open>\<open>to_dict\<close> reads \<open>state\<close>, so it may move the breaker to half-open.\<close>

definition cb_to_dict :: "clock \<Rightarrow> breaker \<Rightarrow> pydict \<times> breaker" where
  "cb_to_dict now b0 =
     (let b = cb_tick now b0 in
      ([(''state'', PStr (state_name (cb_state_raw b))), (''consecutive_failures'', PInt (cb_failures b)),
        (''failure_threshold'', PInt (cb_threshold b)), (''cooldown_seconds'', PFloat (cb_cooldown b)),
        (''opened_at_wall'', case cb_opened_wall b of None \<Rightarrow> PNone | Some t \<Rightarrow> PFloat t),
        (''generation'', PInt (cb_generation b))], b))"

text \<open>
  \<open>from_dict\<close>. None stands for a copy with a field that is no number: \<open>load_shared\<close> then finds
  none, and a fractional count is truncated. The snapshots the breaker writes have neither.
\<close>

definition num_field :: "pydict \<Rightarrow> string \<Rightarrow> real \<Rightarrow> real option" where
  "num_field d k dflt = (case map_of d k of None \<Rightarrow> Some dflt | Some v \<Rightarrow> py_float v)"

definition int_field :: "pydict \<Rightarrow> string \<Rightarrow> int \<Rightarrow> int option" where
  "int_field d k dflt = (case map_of d k of None \<Rightarrow> Some dflt | Some v \<Rightarrow> py_int v)"

definition generation_field :: "pydict \<Rightarrow> int option" where
  "generation_field d = (let v = dget d ''generation'' in if truthy v then py_int v else Some 0)"

definition cb_from_dict :: "clock \<Rightarrow> pydict \<Rightarrow> breaker option" where
  "cb_from_dict now d =
     (case (int_field d ''failure_threshold'' 5, num_field d ''cooldown_seconds'' 60,
            int_field d ''consecutive_failures'' 0, generation_field d) of
        (Some threshold, Some cooldown, Some failures, Some gen) \<Rightarrow>
          (let b = (new_breaker threshold cooldown)
                     \<lparr>cb_failures := failures, cb_generation := gen,
                      cb_state_raw := (case map_of d ''state'' of None \<Rightarrow> CbClosed | Some v \<Rightarrow> state_named v)\<rparr>
           in if cb_state_raw b = CbOpen
              then (if dget d ''opened_at_wall'' = PNone then Some (b\<lparr>cb_opened := Some (fst now)\<rparr>)
                    else case py_float (dget d ''opened_at_wall'') of
                      None \<Rightarrow> None
                    | Some wall \<Rightarrow>
                        Some (b\<lparr>cb_opened_wall := Some wall,
                               cb_opened := Some (fst now - max 0 (snd now - wall))\<rparr>))
              else Some b)
      | _ \<Rightarrow> None)"

definition shared_key :: "string \<Rightarrow> string" where
  "shared_key worker = ''swarm.breaker.'' @ worker"

definition load_shared :: "bool \<Rightarrow> clock \<Rightarrow> string \<Rightarrow> cstore \<Rightarrow> breaker option" where
  "load_shared shared now worker cs =
     (if \<not> shared then None
      else case cs_get cs (shared_key worker) of
        Inr (PDict d) \<Rightarrow> if d = [] then None else cb_from_dict now d
      | _ \<Rightarrow> None)"

definition newer :: "pydict \<Rightarrow> int \<Rightarrow> pyval \<Rightarrow> pyval option" where
  "newer snapshot gen prev =
     (case prev of
        PDict d \<Rightarrow> (case generation_field d of
                      None \<Rightarrow> None
                    | Some g \<Rightarrow> Some (if gen < g then prev else PDict snapshot))
      | _ \<Rightarrow> Some (PDict snapshot))"

text \<open>A compare-and-set whose update raises, or that the store refuses, changes nothing.\<close>

definition persist_shared :: "bool \<Rightarrow> clock \<Rightarrow> string \<Rightarrow> breaker \<Rightarrow> cstore \<Rightarrow> breaker \<times> cstore" where
  "persist_shared shared now worker b0 cs =
     (if \<not> shared then (b0, cs)
      else case cb_to_dict now b0 of
        (snapshot, b) \<Rightarrow>
          (b, case newer snapshot (cb_generation b)
                     (case find_row cs (shared_key worker) of None \<Rightarrow> PNone | Some r \<Rightarrow> rval r) of
                None \<Rightarrow> cs
              | Some v \<Rightarrow>
                  (case cs_atomic_update (snd now) cs (shared_key worker) (\<lambda>_. v) ''swarm'' of
                     Inl _ \<Rightarrow> cs | Inr (_, cs') \<Rightarrow> cs')))"

definition cb_overlay :: "breaker \<Rightarrow> breaker \<Rightarrow> breaker" where
  "cb_overlay shared_b b =
     (if cb_generation shared_b < cb_generation b then b
      else let b' = b\<lparr>cb_failures := cb_failures shared_b, cb_threshold := cb_threshold shared_b,
                      cb_cooldown := cb_cooldown shared_b\<rparr>
           in if cb_generation shared_b = cb_generation b then b'
              else b'\<lparr>cb_state_raw := cb_state_raw shared_b, cb_opened := cb_opened shared_b,
                      cb_opened_wall := cb_opened_wall shared_b, cb_generation := cb_generation shared_b\<rparr>)"

definition refresh_from_shared :: "bool \<Rightarrow> clock \<Rightarrow> string \<Rightarrow> breaker \<Rightarrow> cstore \<Rightarrow> breaker" where
  "refresh_from_shared shared now worker b cs =
     (case load_shared shared now worker cs of None \<Rightarrow> b | Some sb \<Rightarrow> cb_overlay sb b)"

definition check_or_raise ::
    "bool \<Rightarrow> string \<Rightarrow> clock \<Rightarrow> string \<Rightarrow> breaker \<Rightarrow> cstore \<Rightarrow> (exn + admission) \<times> breaker \<times> cstore" where
  "check_or_raise shared holder now worker b cs =
     (case cb_admit shared holder now worker (refresh_from_shared shared now worker b cs) cs of
        (None, b', cs') \<Rightarrow> (Inl (OtherError ''CircuitBreakerOpenError''), b', cs')
      | (Some a, b', cs') \<Rightarrow> (Inr a, b', cs'))"

text \<open>The two deletes share one \<open>try\<close>: the second is not made when the first raises.\<close>

definition forget_shared :: "bool \<Rightarrow> string \<Rightarrow> cstore \<Rightarrow> cstore" where
  "forget_shared shared worker cs =
     (if \<not> shared then cs
      else case cs_delete cs (shared_key worker) of
        Inl _ \<Rightarrow> cs
      | Inr (_, cs1) \<Rightarrow> (case cs_delete cs1 (lease_key worker) of Inl _ \<Rightarrow> cs1 | Inr (_, cs2) \<Rightarrow> cs2))"

definition shared_breakers_enabled :: "environ \<Rightarrow> bool \<Rightarrow> bool" where
  "shared_breakers_enabled env multi_user_or_production =
     (let raw = py_lower (py_strip (env_or_empty env ''KAZMA_SHARED_BREAKERS'')) in
      if raw \<in> {''0'', ''false'', ''off'', ''no''} then False
      else if raw \<in> {''1'', ''true'', ''on'', ''yes''} then True
      else multi_user_or_production)"

subsection \<open>The breaker as a machine\<close>

text \<open>
  What one replica does with the breaker of one worker, and \<open>CbWorld\<close>: the settings store changed
  by anybody else.
\<close>

datatype cb_op =
    CbAdmit clock
  | CbOk clock "admission option"
  | CbFail clock "admission option"
  | CbReset clock
  | CbRelease clock
  | CbRefresh clock
  | CbPersist clock
  | CbWorld cstore

text \<open>One step: the admission it gave, if any, and the breaker and store after it.\<close>

fun cb_step :: "bool \<Rightarrow> string \<Rightarrow> string \<Rightarrow> breaker \<times> cstore \<Rightarrow> cb_op \<Rightarrow> admission option \<times> breaker \<times> cstore" where
  "cb_step sh h w (b, cs) (CbAdmit now) = cb_admit sh h now w b cs"
| "cb_step sh h w (b, cs) (CbOk now a) = (None, record_success sh now a b cs)"
| "cb_step sh h w (b, cs) (CbFail now a) = (None, record_failure sh now a b cs)"
| "cb_step sh h w (b, cs) (CbReset now) = (None, cb_reset sh now b cs)"
| "cb_step sh h w (b, cs) (CbRelease now) = (None, cb_release_probe sh now b cs)"
| "cb_step sh h w (b, cs) (CbRefresh now) = (None, refresh_from_shared sh now w b cs, cs)"
| "cb_step sh h w (b, cs) (CbPersist now) = (None, persist_shared sh now w b cs)"
| "cb_step sh h w (b, cs) (CbWorld cs') = (None, b, cs')"

definition cb_next :: "bool \<Rightarrow> string \<Rightarrow> string \<Rightarrow> breaker \<times> cstore \<Rightarrow> cb_op \<Rightarrow> breaker \<times> cstore" where
  "cb_next sh h w s op = snd (cb_step sh h w s op)"

text \<open>What every breaker keeps: an open one knows since when, a probe in flight has its token.\<close>

definition cb_wf :: "breaker \<Rightarrow> bool" where
  "cb_wf b \<longleftrightarrow>
     (cb_state_raw b = CbOpen \<longrightarrow> cb_opened b \<noteq> None) \<and>
     (cb_in_flight b \<longrightarrow> cb_token b \<noteq> None) \<and>
     (\<forall>t. cb_token b = Some t \<longrightarrow> ad_probe t \<and> ad_generation t \<le> cb_generation b)"

lemma new_breaker_wf [simp]: "cb_wf (new_breaker n c)"
  by (simp add: cb_wf_def new_breaker_def)

lemma cb_tick_fields [simp]:
  "cb_generation (cb_tick now b) = cb_generation b" "cb_in_flight (cb_tick now b) = cb_in_flight b"
  "cb_token (cb_tick now b) = cb_token b" "cb_failures (cb_tick now b) = cb_failures b"
  "cb_opened_wall (cb_tick now b) = cb_opened_wall b" "cb_opened (cb_tick now b) = cb_opened b"
  "cb_threshold (cb_tick now b) = cb_threshold b" "cb_cooldown (cb_tick now b) = cb_cooldown b"
  "cb_lease_worker (cb_tick now b) = cb_lease_worker b" "cb_lease_holder (cb_tick now b) = cb_lease_holder b"
  "cb_is_stale (cb_tick now b) tok = cb_is_stale b tok"
  by (simp_all add: cb_tick_def cb_is_stale_def split: option.split)

lemma cb_tick_state:
  "cb_state_raw (cb_tick now b) = cb_state_raw b \<or> cb_state_raw b = CbOpen \<and> cb_state_raw (cb_tick now b) = CbHalfOpen"
  by (simp add: cb_tick_def split: option.split)

lemma cb_tick_wf [simp]: "cb_wf (cb_tick now b) = cb_wf b"
  by (auto simp: cb_wf_def cb_tick_def split: option.split)

subsection \<open>The breaker without its lease\<close>

text \<open>
  The lease columns only say which store row to clear. Forgetting them, every operation is a
  function of the breaker alone, but for the store's answer to a half-open admission.
\<close>

definition core :: "breaker \<Rightarrow> breaker" where
  "core b = b\<lparr>cb_lease_worker := None, cb_lease_holder := None\<rparr>"

lemma core_fields [simp]:
  "cb_generation (core b) = cb_generation b" "cb_in_flight (core b) = cb_in_flight b"
  "cb_token (core b) = cb_token b" "cb_state_raw (core b) = cb_state_raw b"
  "cb_opened (core b) = cb_opened b" "cb_failures (core b) = cb_failures b"
  "cb_threshold (core b) = cb_threshold b"
  "core (core b) = core b"
  by (simp_all add: core_def)

lemma core_wf [simp]: "cb_wf (core b) = cb_wf b"
  unfolding cb_wf_def core_fields ..

lemma core_updates [simp]:
  "core (b\<lparr>cb_in_flight := f\<rparr>) = (core b)\<lparr>cb_in_flight := f\<rparr>"
  "core (b\<lparr>cb_token := t\<rparr>) = (core b)\<lparr>cb_token := t\<rparr>"
  "core (b\<lparr>cb_failures := n\<rparr>) = (core b)\<lparr>cb_failures := n\<rparr>"
  "core (b\<lparr>cb_state_raw := st\<rparr>) = (core b)\<lparr>cb_state_raw := st\<rparr>"
  "core (b\<lparr>cb_opened := t1\<rparr>) = (core b)\<lparr>cb_opened := t1\<rparr>"
  "core (b\<lparr>cb_opened_wall := t2\<rparr>) = (core b)\<lparr>cb_opened_wall := t2\<rparr>"
  "core (b\<lparr>cb_generation := g\<rparr>) = (core b)\<lparr>cb_generation := g\<rparr>"
  "core (b\<lparr>cb_stale := k\<rparr>) = (core b)\<lparr>cb_stale := k\<rparr>"
  "core (b\<lparr>cb_lease_worker := ws\<rparr>) = core b"
  "core (b\<lparr>cb_lease_holder := hs\<rparr>) = core b"
  by (cases b; simp add: core_def)+

lemma core_trip [simp]: "core (trip now b) = trip now (core b)"
  by (simp add: trip_def)

lemma core_count_stale [simp]: "core (count_stale b) = count_stale (core b)"
  by (cases b) (simp add: count_stale_def core_def)

lemma core_tick [simp]: "core (cb_tick now b) = cb_tick now (core b)"
  by (cases b) (simp add: cb_tick_def core_def split: option.split)

lemma core_stale [simp]: "cb_is_stale (core b) tok = cb_is_stale b tok"
  unfolding cb_is_stale_def core_fields ..

lemma core_acquire [simp]: "core (fst (snd (try_acquire_probe_lease sh h now w b cs))) = core b"
  by (simp add: try_acquire_probe_lease_def hold_lease_def split: sum.split prod.split bool.split)

lemma core_release [simp]: "core (fst (release_probe_lease sh now b cs)) = core b"
  by (simp add: release_probe_lease_def Let_def split: option.split sum.split pyval.split)

definition abs_success :: "clock \<Rightarrow> admission option \<Rightarrow> breaker \<Rightarrow> breaker" where
  "abs_success now tok b0 =
     (let b = cb_tick now b0; b1 = b\<lparr>cb_failures := 0, cb_in_flight := False, cb_token := None\<rparr> in
      if cb_is_stale b tok then count_stale b
      else if cb_state_raw b = CbHalfOpen
      then b1\<lparr>cb_state_raw := CbClosed, cb_opened := None, cb_opened_wall := None,
              cb_generation := cb_generation b + 1\<rparr>
      else b1)"

definition abs_failure :: "clock \<Rightarrow> admission option \<Rightarrow> breaker \<Rightarrow> breaker" where
  "abs_failure now tok b0 =
     (let b = cb_tick now b0; b1 = b\<lparr>cb_in_flight := False, cb_token := None\<rparr>;
          b2 = b1\<lparr>cb_failures := cb_failures b + 1\<rparr> in
      if cb_is_stale b0 tok then count_stale b0
      else if cb_state_raw b = CbHalfOpen then trip now b1
      else if cb_threshold b \<le> cb_failures b + 1 then trip now b2 else b2)"

lemma pair_acquire: "try_acquire_probe_lease sh h now w b cs = (ok, b', cs') \<Longrightarrow> core b' = core b"
  by (drule arg_cong[where f = "\<lambda>x. core (fst (snd x))"]) simp

lemma pair_release: "release_probe_lease sh now b cs = (b', cs') \<Longrightarrow> core b' = core b"
  using core_release[of sh now b cs] by simp

lemma core_eq_fields:
  "core b' = core b \<Longrightarrow> cb_generation b' = cb_generation b \<and> cb_failures b' = cb_failures b \<and>
     cb_threshold b' = cb_threshold b"
  by (metis core_fields(1,6,7))

lemma core_success: "core (fst (record_success sh now tok b cs)) = abs_success now tok (core b)"
proof (cases "cb_is_stale b tok")
  case True
  then show ?thesis by (simp add: record_success_def abs_success_def Let_def)
next
  case False
  let ?b = "(cb_tick now b)\<lparr>cb_failures := 0, cb_in_flight := False, cb_token := None\<rparr>"
  obtain b' cs' where r: "release_probe_lease sh now ?b cs = (b', cs')" by fastforce
  from pair_release[OF r] core_eq_fields[OF pair_release[OF r]] False r show ?thesis
    by (simp add: record_success_def abs_success_def Let_def core_tick[symmetric] del: core_tick)
qed

lemma core_failure: "core (fst (record_failure sh now tok b cs)) = abs_failure now tok (core b)"
proof (cases "cb_is_stale b tok")
  case True
  then show ?thesis by (simp add: record_failure_def abs_failure_def Let_def)
next
  case False
  let ?b = "(cb_tick now b)\<lparr>cb_in_flight := False, cb_token := None\<rparr>"
  obtain b' cs' where r: "release_probe_lease sh now ?b cs = (b', cs')" by fastforce
  from pair_release[OF r] core_eq_fields[OF pair_release[OF r]] False r show ?thesis
    by (simp add: record_failure_def abs_failure_def Let_def core_tick[symmetric] del: core_tick)
qed

lemma core_reset:
  "core (fst (cb_reset sh now b cs)) = (core b)\<lparr>cb_state_raw := CbClosed, cb_failures := 0,
     cb_opened := None, cb_in_flight := False, cb_token := None, cb_generation := cb_generation b + 1\<rparr>"
proof -
  let ?b = "b\<lparr>cb_state_raw := CbClosed, cb_failures := 0, cb_opened := None, cb_in_flight := False, cb_token := None\<rparr>"
  obtain b' cs' where r: "release_probe_lease sh now ?b cs = (b', cs')" by fastforce
  from pair_release[OF r] core_eq_fields[OF pair_release[OF r]] r show ?thesis
    by (simp add: cb_reset_def)
qed

lemma core_release_probe: "core (fst (cb_release_probe sh now b cs)) = (core b)\<lparr>cb_in_flight := False\<rparr>"
  by (simp add: cb_release_probe_def)

definition probe_token :: "breaker \<Rightarrow> admission" where
  "probe_token b = \<lparr>ad_generation = cb_generation b, ad_probe = True\<rparr>"

lemma admit_cases:
  obtains (closed) "cb_state_raw (cb_tick now b) = CbClosed"
      "cb_admit sh h now w b cs = (Some \<lparr>ad_generation = cb_generation b, ad_probe = False\<rparr>, cb_tick now b, cs)"
  | (refused) b' cs' where "cb_state_raw (cb_tick now b) \<noteq> CbClosed"
      "cb_admit sh h now w b cs = (None, b', cs')" "core b' = cb_tick now (core b)"
  | (probe) b' cs' where "cb_state_raw (cb_tick now b) = CbHalfOpen" "\<not> cb_in_flight b"
      "cb_admit sh h now w b cs = (Some (probe_token b), b', cs')"
      "core b' = (cb_tick now (core b))\<lparr>cb_in_flight := True, cb_token := Some (probe_token b)\<rparr>"
proof (cases "cb_state_raw (cb_tick now b) = CbHalfOpen \<and> \<not> cb_in_flight b")
  case True
  let ?lease = "if w = [] then (True, cb_tick now b, cs) else try_acquire_probe_lease sh h now w (cb_tick now b) cs"
  obtain ok b' cs' where t: "?lease = (ok, b', cs')" by (cases ?lease)
  then have core: "core b' = cb_tick now (core b)"
    by (auto split: if_splits dest: pair_acquire)
  then have gen: "cb_generation b' = cb_generation b" by (metis core_fields(1) cb_tick_fields(1))
  show ?thesis
  proof (cases ok)
    case ok: True
    with True t gen core probe[of "b'\<lparr>cb_in_flight := True, cb_token := Some (probe_token b)\<rparr>" cs'] show ?thesis
      by (simp add: cb_admit_def Let_def probe_token_def)
  next
    case False
    with True t core refused[of b' cs'] show ?thesis by (simp add: cb_admit_def Let_def)
  qed
next
  case False
  with closed refused[of "cb_tick now b" cs] show ?thesis
    by (cases "cb_state_raw (cb_tick now b)") (simp_all add: cb_admit_def Let_def)
qed

subsection \<open>Invariant and generations\<close>

lemma wf_of_core: "core b' = x \<Longrightarrow> cb_wf b' = cb_wf x"
  using core_wf[of b'] by simp

lemma gen_of_core: "core b' = x \<Longrightarrow> cb_generation b' = cb_generation x"
  using core_fields(1)[of b'] by simp

lemma tick_open: "cb_wf b \<Longrightarrow> cb_state_raw (cb_tick now b) = CbOpen \<Longrightarrow> cb_opened b \<noteq> None"
  using cb_tick_state[of now b] by (auto simp: cb_wf_def)

lemma abs_success_ok:
  "cb_wf b \<Longrightarrow> cb_wf (abs_success now tok b) \<and> cb_generation b \<le> cb_generation (abs_success now tok b)"
  using tick_open[of b now] cb_tick_wf[of now b]
  by (auto simp: abs_success_def Let_def cb_wf_def count_stale_def split: option.splits)

lemma abs_failure_ok:
  "cb_wf b \<Longrightarrow> cb_wf (abs_failure now tok b) \<and> cb_generation b \<le> cb_generation (abs_failure now tok b)"
  using tick_open[of b now] cb_tick_wf[of now b]
  by (auto simp: abs_failure_def Let_def cb_wf_def count_stale_def trip_def split: option.splits)

lemma admit_ok:
  assumes "cb_wf b"
  shows "cb_wf (fst (snd (cb_admit sh h now w b cs))) \<and>
    cb_generation (fst (snd (cb_admit sh h now w b cs))) = cb_generation b"
proof (rule admit_cases[of now b sh h w cs])
  fix b' cs'
  assume "cb_admit sh h now w b cs = (None, b', cs')" "core b' = cb_tick now (core b)"
  with assms wf_of_core[of b'] gen_of_core[of b'] show ?thesis by simp
next
  fix b' cs'
  assume a: "cb_admit sh h now w b cs = (Some (probe_token b), b', cs')"
    and c: "core b' = (cb_tick now (core b))\<lparr>cb_in_flight := True, cb_token := Some (probe_token b)\<rparr>"
  have "cb_wf (cb_tick now (core b))" using assms by simp
  then have "cb_wf b'" using wf_of_core[OF c] by (simp add: cb_wf_def probe_token_def)
  with a gen_of_core[OF c] show ?thesis by simp
qed (use assms in simp)

lemma from_dict_open: "cb_from_dict now d = Some b \<Longrightarrow> cb_state_raw b = CbOpen \<Longrightarrow> cb_opened b \<noteq> None"
  by (auto simp: cb_from_dict_def Let_def split: option.splits if_splits)

lemma overlay_ok:
  "cb_wf b \<Longrightarrow> (cb_state_raw sb = CbOpen \<longrightarrow> cb_opened sb \<noteq> None) \<Longrightarrow>
     cb_wf (cb_overlay sb b) \<and> cb_generation b \<le> cb_generation (cb_overlay sb b)"
  by (auto simp: cb_overlay_def Let_def cb_wf_def split: option.splits)

lemma load_open: "load_shared sh now w cs = Some sb \<Longrightarrow> cb_state_raw sb = CbOpen \<Longrightarrow> cb_opened sb \<noteq> None"
  unfolding load_shared_def
  by (erule from_dict_open[rotated, of sb now "case cs_get cs (shared_key w) of Inr (PDict d) \<Rightarrow> d | _ \<Rightarrow> []"])
     (simp split: if_splits sum.splits pyval.splits)

lemma refresh_ok:
  "cb_wf b \<Longrightarrow> cb_wf (refresh_from_shared sh now w b cs) \<and>
     cb_generation b \<le> cb_generation (refresh_from_shared sh now w b cs)"
  using load_open[of sh now w cs] by (auto simp: refresh_from_shared_def overlay_ok split: option.split)

lemma persist_breaker: "fst (persist_shared sh now w b cs) \<in> {b, cb_tick now b}"
  by (auto simp: persist_shared_def cb_to_dict_def Let_def)

lemma cb_next_ok:
  assumes "cb_wf b" "cb_next sh h w (b, cs) op = (b', cs')"
  shows "cb_wf b' \<and> cb_generation b \<le> cb_generation b'"
proof (cases op)
  case (CbAdmit now)
  with assms admit_ok[OF assms(1), of sh h now w cs] show ?thesis by (auto simp: cb_next_def)
next
  case (CbOk now tok)
  then have "b' = fst (record_success sh now tok b cs)" using assms(2) by (simp add: cb_next_def)
  then have c: "core b' = abs_success now tok (core b)" by (simp add: core_success)
  show ?thesis
    using wf_of_core[OF c] gen_of_core[OF c] abs_success_ok[of "core b" now tok] assms(1) by simp
next
  case (CbFail now tok)
  then have "b' = fst (record_failure sh now tok b cs)" using assms(2) by (simp add: cb_next_def)
  then have c: "core b' = abs_failure now tok (core b)" by (simp add: core_failure)
  show ?thesis
    using wf_of_core[OF c] gen_of_core[OF c] abs_failure_ok[of "core b" now tok] assms(1) by simp
next
  case (CbReset now)
  then have b': "b' = fst (cb_reset sh now b cs)" using assms(2) by (simp add: cb_next_def)
  note c = core_reset[of sh now b cs, folded b']
  show ?thesis using wf_of_core[OF c] gen_of_core[OF c] by (simp add: cb_wf_def)
next
  case (CbRelease now)
  then have b': "b' = fst (cb_release_probe sh now b cs)" using assms(2) by (simp add: cb_next_def)
  note c = core_release_probe[of sh now b cs, folded b']
  show ?thesis using wf_of_core[OF c] gen_of_core[OF c] assms(1) by (auto simp: cb_wf_def)
next
  case (CbRefresh now)
  with assms(2) have "b' = refresh_from_shared sh now w b cs" by (auto simp: cb_next_def)
  then show ?thesis using refresh_ok[OF assms(1), of sh now w cs] by simp
next
  case (CbPersist now)
  with assms persist_breaker[of sh now w b cs] show ?thesis by (auto simp: cb_next_def)
next
  case (CbWorld cs1)
  with assms show ?thesis by (simp add: cb_next_def)
qed

interpretation breaker_machine: monotone_machine
  "cb_next sh h w" "\<lambda>s. cb_wf (fst s)" "\<lambda>s. cb_generation (fst s)" for sh h w
proof unfold_locales
  fix s :: "breaker \<times> cstore" and op
  assume "cb_wf (fst s)"
  then show "cb_wf (fst (cb_next sh h w s op))" "cb_generation (fst s) \<le> cb_generation (fst (cb_next sh h w s op))"
    using cb_next_ok[of "fst s" sh h w "snd s" op "fst (cb_next sh h w s op)" "snd (cb_next sh h w s op)"]
    by simp_all
qed

subsection \<open>One probe for a generation\<close>

text \<open>The generations of the probes a run of steps admitted, in order.\<close>

fun probes :: "bool \<Rightarrow> string \<Rightarrow> string \<Rightarrow> breaker \<times> cstore \<Rightarrow> cb_op list \<Rightarrow> int list" where
  "probes sh h w s [] = []"
| "probes sh h w s (op # ops) =
     (case cb_step sh h w s op of
        (Some a, s') \<Rightarrow> (if ad_probe a then [ad_generation a] else []) @ probes sh h w s' ops
      | (None, s') \<Rightarrow> probes sh h w s' ops)"

text \<open>
  A probe in flight is the breaker's own half-open one. Only releasing a probe, and taking over
  another replica's newer state, can break this.
\<close>

definition probe_inv :: "breaker \<Rightarrow> bool" where
  "probe_inv b \<longleftrightarrow> (cb_in_flight b \<longrightarrow> cb_state_raw b = CbHalfOpen \<and> cb_token b = Some (probe_token b))"

fun own_step :: "cb_op \<Rightarrow> bool" where
  "own_step (CbRelease _) = False"
| "own_step (CbRefresh _) = False"
| "own_step _ = True"

text \<open>The lowest generation the next probe can have.\<close>

definition next_probe :: "breaker \<Rightarrow> int" where
  "next_probe b = (if cb_in_flight b then cb_generation b + 1 else cb_generation b)"

lemma probe_inv_core [simp]: "probe_inv (core b) = probe_inv b"
  by (simp add: probe_inv_def probe_token_def)

lemma next_probe_core [simp]: "next_probe (core b) = next_probe b"
  by (simp add: next_probe_def)

lemma of_core:
  assumes "core b' = x"
  shows "probe_inv b' = probe_inv x" "next_probe b' = next_probe x"
  using probe_inv_core[of b'] next_probe_core[of b'] assms by simp_all

lemma tick_half_open: "cb_state_raw b = CbHalfOpen \<Longrightarrow> cb_tick now b = b"
  by (simp add: cb_tick_def)

lemma probe_inv_tick [simp]: "probe_inv b \<Longrightarrow> probe_inv (cb_tick now b)"
  by (cases "cb_in_flight b") (auto simp: probe_inv_def probe_token_def tick_half_open)

lemma next_probe_tick [simp]: "next_probe (cb_tick now b) = next_probe b"
  by (simp add: next_probe_def)

lemma abs_success_probe:
  assumes "probe_inv b"
  shows "probe_inv (abs_success now tok b) \<and> next_probe b \<le> next_probe (abs_success now tok b)"
proof (cases "cb_is_stale b tok")
  case True
  then show ?thesis using probe_inv_tick[OF assms, of now]
    by (simp add: abs_success_def Let_def count_stale_def probe_inv_def next_probe_def probe_token_def)
next
  case False
  with assms show ?thesis
    by (cases "cb_in_flight b") (auto simp: abs_success_def Let_def probe_inv_def next_probe_def tick_half_open)
qed

lemma abs_failure_probe:
  assumes "probe_inv b"
  shows "probe_inv (abs_failure now tok b) \<and> next_probe b \<le> next_probe (abs_failure now tok b)"
proof (cases "cb_is_stale b tok")
  case True
  then show ?thesis using assms
    by (simp add: abs_failure_def Let_def count_stale_def probe_inv_def next_probe_def probe_token_def)
next
  case False
  with assms show ?thesis
    by (cases "cb_in_flight b")
       (auto simp: abs_failure_def Let_def probe_inv_def next_probe_def tick_half_open trip_def)
qed

lemma admit_probe:
  assumes "probe_inv b" "cb_admit sh h now w b cs = (a, b', cs')"
  shows "probe_inv b' \<and> next_probe b \<le> next_probe b' \<and>
    (\<forall>x. a = Some x \<and> ad_probe x \<longrightarrow> next_probe b \<le> ad_generation x \<and> ad_generation x < next_probe b')"
proof (rule admit_cases[of now b sh h w cs])
  assume "cb_admit sh h now w b cs = (Some \<lparr>ad_generation = cb_generation b, ad_probe = False\<rparr>, cb_tick now b, cs)"
  with assms show ?thesis by auto
next
  fix b1 cs1
  assume "cb_admit sh h now w b cs = (None, b1, cs1)" "core b1 = cb_tick now (core b)"
  with assms of_core[of b1 "cb_tick now (core b)"] show ?thesis by simp
next
  fix b1 cs1
  assume h: "cb_state_raw (cb_tick now b) = CbHalfOpen" "\<not> cb_in_flight b"
    and a: "cb_admit sh h now w b cs = (Some (probe_token b), b1, cs1)"
    and c: "core b1 = (cb_tick now (core b))\<lparr>cb_in_flight := True, cb_token := Some (probe_token b)\<rparr>"
  have "cb_state_raw (cb_tick now (core b)) = CbHalfOpen" using h(1) by (simp add: core_tick[symmetric] del: core_tick)
  with of_core[OF c] have "probe_inv b1" "next_probe b1 = cb_generation b + 1"
    by (simp_all add: probe_inv_def probe_token_def next_probe_def)
  with a assms(2) h(2) show ?thesis by (auto simp: probe_token_def next_probe_def)
qed

lemma own_step_probe:
  assumes "own_step op" "probe_inv b" "cb_step sh h w (b, cs) op = (a, b', cs')"
  shows "probe_inv b' \<and> next_probe b \<le> next_probe b' \<and>
    (\<forall>x. a = Some x \<and> ad_probe x \<longrightarrow> next_probe b \<le> ad_generation x \<and> ad_generation x < next_probe b')"
proof (cases op)
  case (CbAdmit now)
  with assms(3) admit_probe[OF assms(2)] show ?thesis by simp
next
  case (CbOk now tok)
  then have "b' = fst (record_success sh now tok b cs)" "a = None" using assms(3) by auto
  moreover from this have "core b' = abs_success now tok (core b)" by (simp add: core_success)
  ultimately show ?thesis
    using of_core[of b'] abs_success_probe[of "core b" now tok] assms(2) by simp
next
  case (CbFail now tok)
  then have "b' = fst (record_failure sh now tok b cs)" "a = None" using assms(3) by auto
  moreover from this have "core b' = abs_failure now tok (core b)" by (simp add: core_failure)
  ultimately show ?thesis
    using of_core[of b'] abs_failure_probe[of "core b" now tok] assms(2) by simp
next
  case (CbReset now)
  then have b': "b' = fst (cb_reset sh now b cs)" "a = None" using assms(3) by auto
  from of_core[OF core_reset[of sh now b cs, folded b'(1)]] b'(2) show ?thesis
    by (simp add: probe_inv_def next_probe_def)
next
  case (CbPersist now)
  then have "b' = fst (persist_shared sh now w b cs)" "a = None" using assms(3) by auto
  then show ?thesis using persist_breaker[of sh now w b cs] assms(2) by auto
qed (use assms in auto)

lemma probes_increase:
  "probe_inv (fst s) \<Longrightarrow> list_all own_step ops \<Longrightarrow>
     sorted_wrt (<) (probes sh h w s ops) \<and> (\<forall>g \<in> set (probes sh h w s ops). next_probe (fst s) \<le> g)"
proof (induction ops arbitrary: s)
  case Nil
  show ?case by simp
next
  case (Cons op ops)
  obtain b cs where s: "s = (b, cs)" by (cases s)
  obtain a b' cs' where st: "cb_step sh h w s op = (a, b', cs')" by (cases "cb_step sh h w s op")
  have own: "own_step op" "probe_inv b" using Cons.prems s by auto
  note ok = own_step_probe[OF own st[unfolded s]]
  have ih: "sorted_wrt (<) (probes sh h w (b', cs') ops)"
    "\<forall>g \<in> set (probes sh h w (b', cs') ops). next_probe b' \<le> g"
    using Cons.IH[of "(b', cs')"] ok Cons.prems(2) by auto
  show ?case
  proof (cases "\<exists>x. a = Some x \<and> ad_probe x")
    case True
    with ok ih st s show ?thesis by fastforce
  next
    case False
    then have "probes sh h w s (op # ops) = probes sh h w (b', cs') ops"
      using st by (auto split: option.split)
    with ok ih s show ?thesis by fastforce
  qed
qed

text \<open>
  C26: between two releases of a probe and two takeovers of another replica's state, each generation
  of the breaker admits at most one half-open probe: in any run of admissions, outcomes (of any
  admission, fresh or stale), resets and writes of the shared copy, the generations of the probes
  admitted strictly increase.
\<close>

theorem one_probe_per_generation:
  assumes "probe_inv b" and "list_all own_step ops"
  shows "sorted_wrt (<) (probes shared holder worker (b, cs) ops)"
  using probes_increase[of "(b, cs)"] assms by simp

theorem one_probe_per_generation_witness:
  "let ops = [CbFail (0, 0) None, CbAdmit (60, 60), CbAdmit (61, 61),
       CbFail (62, 62) (Some \<lparr>ad_generation = 1, ad_probe = True\<rparr>), CbAdmit (130, 130)];
     s = (new_breaker 1 60, empty_store)
   in probes False ''h'' ''w'' s ops = [1, 2] \<and> sorted_wrt (<) (probes False ''h'' ''w'' s ops)"
proof -
  let ?ops = "[CbFail (0, 0) None, CbAdmit (60, 60), CbAdmit (61, 61),
       CbFail (62, 62) (Some \<lparr>ad_generation = 1, ad_probe = True\<rparr>), CbAdmit (130, 130)]"
  have "probe_inv (new_breaker 1 60)" "list_all own_step ?ops" by (simp_all add: probe_inv_def new_breaker_def)
  from one_probe_per_generation[OF this] have "sorted_wrt (<) (probes False ''h'' ''w'' (new_breaker 1 60, empty_store) ?ops)" .
  moreover have "probes False ''h'' ''w'' (new_breaker 1 60, empty_store) ?ops = [1, 2]"
    by (simp add: new_breaker_def record_failure_def cb_is_stale_def cb_tick_def release_probe_lease_def
        trip_def cb_admit_def try_acquire_probe_lease_def hold_lease_def Let_def)
  ultimately show ?thesis by simp
qed

text \<open>
  In any run of one replica's calls, takeovers of other replicas' copies and changes of the store
  included, the breaker stays well formed (an open one knows since when, a probe in flight has a
  token) and its generation never goes down.
\<close>

theorem breaker_generation_never_falls:
  assumes "cb_wf b"
  shows "cb_wf (fst (foldl (cb_next shared holder worker) (b, cs) ops)) \<and>
    cb_generation b \<le> cb_generation (fst (foldl (cb_next shared holder worker) (b, cs) ops))"
  using breaker_machine.run_inv[of "(b, cs)" shared holder worker ops]
    breaker_machine.run_mono[of "(b, cs)" shared holder worker ops] assms by simp

subsection \<open>A probe overtaken by another replica\<close>

text \<open>
  A probe is in flight in a generation that is over, and the breaker is not closed: what taking over
  another replica's newer open state leaves behind.
\<close>

definition overtaken :: "breaker \<Rightarrow> bool" where
  "overtaken b \<longleftrightarrow> cb_in_flight b \<and> cb_state_raw b \<noteq> CbClosed \<and>
     map_option ad_generation (cb_token b) \<notin> {None, Some (cb_generation b)}"

fun traffic :: "cb_op \<Rightarrow> bool" where
  "traffic (CbAdmit _) = True"
| "traffic (CbOk _ _) = True"
| "traffic (CbFail _ _) = True"
| "traffic _ = False"

lemma overtaken_tick: "overtaken b \<Longrightarrow> overtaken (cb_tick now b)"
  using cb_tick_state[of now b] by (auto simp: overtaken_def)

lemma overtaken_stale: "overtaken b \<Longrightarrow> cb_is_stale b tok"
  by (auto simp: overtaken_def cb_is_stale_def split: option.splits)

lemma overtaken_step:
  assumes "overtaken b" "traffic op" "cb_step sh h w (b, cs) op = (a, b', cs')"
  shows "a = None \<and> overtaken b' \<and> cb_generation b' = cb_generation b \<and> cs' = cs"
proof (cases op)
  case (CbAdmit now)
  have "overtaken (cb_tick now b)" using assms(1) by (rule overtaken_tick)
  then have "cb_state_raw (cb_tick now b) \<noteq> CbClosed" "cb_in_flight b" by (auto simp: overtaken_def)
  then have "cb_admit sh h now w b cs = (None, cb_tick now b, cs)"
    by (cases "cb_state_raw (cb_tick now b)") (simp_all add: cb_admit_def Let_def)
  with CbAdmit assms(3) overtaken_tick[OF assms(1), of now] show ?thesis by auto
next
  case (CbOk now tok)
  with assms overtaken_stale[OF assms(1)] overtaken_tick[OF assms(1), of now] show ?thesis
    by (auto simp: record_success_def Let_def count_stale_def overtaken_def)
next
  case (CbFail now tok)
  with assms overtaken_stale[OF assms(1)] show ?thesis
    by (auto simp: record_failure_def Let_def count_stale_def overtaken_def)
qed (use assms(2) in simp_all)

fun admissions :: "bool \<Rightarrow> string \<Rightarrow> string \<Rightarrow> breaker \<times> cstore \<Rightarrow> cb_op list \<Rightarrow> admission list" where
  "admissions sh h w s [] = []"
| "admissions sh h w s (op # ops) =
     (case cb_step sh h w s op of
        (Some a, s') \<Rightarrow> a # admissions sh h w s' ops
      | (None, s') \<Rightarrow> admissions sh h w s' ops)"

text \<open>
  An overtaken probe blocks its worker on this replica: every outcome, the probe's own included, is
  taken for stale and does not clear the probe, so however long the cooldown is over, no run of
  admissions and outcomes admits a call again. (A reset, a release of the probe, or taking over a
  closed state of another replica frees it.)
\<close>

theorem overtaken_probe_blocks:
  assumes "overtaken b" and "list_all traffic ops"
  shows "admissions shared holder worker (b, cs) ops = []"
  using assms
proof (induction ops arbitrary: b)
  case Nil
  show ?case by simp
next
  case (Cons op ops)
  obtain a b' cs' where st: "cb_step shared holder worker (b, cs) op = (a, b', cs')"
    by (cases "cb_step shared holder worker (b, cs) op")
  have "a = None \<and> overtaken b' \<and> cb_generation b' = cb_generation b \<and> cs' = cs"
    using Cons.prems by (intro overtaken_step[OF _ _ st]) auto
  with st Cons show ?case by auto
qed

text \<open>
  One way there: this replica's breaker trips, its cooldown passes and its probe is admitted; another
  replica shares an open state two generations on; a second call here refreshes from it.
\<close>

definition other_replica :: pydict where
  "other_replica = [(''state'', PStr ''open''), (''consecutive_failures'', PInt 1), (''failure_threshold'', PInt 1),
     (''cooldown_seconds'', PFloat 60), (''opened_at_wall'', PFloat 70), (''generation'', PInt 3)]"

definition overtaking :: "cb_op list" where
  "overtaking = [CbFail (0, 0) None, CbAdmit (60, 60),
     CbWorld (put_row 70 (shared_key ''w'') (PDict other_replica) ''swarm'' empty_store), CbRefresh (80, 80)]"

lemma overtaking_reached:
  "\<exists>b cs. foldl (cb_next True ''h'' ''w'') (new_breaker 1 60, empty_store) overtaking = (b, cs) \<and> overtaken b"
proof -
  let ?s0 = "(new_breaker 1 60, empty_store)"
  let ?cs1 = "put_row 60 (lease_key ''w'') (lease_dict ''h'' 60 150) ''swarm'' empty_store"
  let ?cs2 = "put_row 70 (shared_key ''w'') (PDict other_replica) ''swarm'' empty_store"
  have s1: "cb_next True ''h'' ''w'' ?s0 (CbFail (0, 0) None) = (trip (0, 0) ((new_breaker 1 60)\<lparr>cb_failures := 1\<rparr>), empty_store)"
    by (simp add: cb_next_def new_breaker_def record_failure_def cb_is_stale_def cb_tick_def release_probe_lease_def
        trip_def Let_def)
  have s2: "\<exists>b. cb_next True ''h'' ''w'' (trip (0, 0) ((new_breaker 1 60)\<lparr>cb_failures := 1\<rparr>), empty_store) (CbAdmit (60, 60))
      = (b, ?cs1) \<and> cb_in_flight b \<and> cb_generation b = 1 \<and> cb_token b = Some \<lparr>ad_generation = 1, ad_probe = True\<rparr>"
    by (simp add: cb_next_def cb_admit_def cb_tick_def trip_def new_breaker_def try_acquire_probe_lease_def
        cs_set_if_absent_def lease_value_def lease_dict_def lease_ttl_def hold_lease_def Let_def)
  then obtain b where b: "cb_next True ''h'' ''w'' (trip (0, 0) ((new_breaker 1 60)\<lparr>cb_failures := 1\<rparr>), empty_store)
      (CbAdmit (60, 60)) = (b, ?cs1)" "cb_in_flight b" "cb_generation b = 1"
      "cb_token b = Some \<lparr>ad_generation = 1, ad_probe = True\<rparr>" by blast
  have load: "load_shared True (80, 80) ''w'' ?cs2 = cb_from_dict (80, 80) other_replica"
    by (simp add: load_shared_def other_replica_def)
  obtain sb where sb: "cb_from_dict (80, 80) other_replica = Some sb" "cb_generation sb = 3" "cb_state_raw sb = CbOpen"
    by (simp add: cb_from_dict_def other_replica_def int_field_def num_field_def generation_field_def
        state_named_def new_breaker_def)
  have "overtaken (refresh_from_shared True (80, 80) ''w'' b ?cs2)"
    using b sb load by (simp add: refresh_from_shared_def cb_overlay_def overtaken_def Let_def)
  then show ?thesis using s1 b(1) by (simp add: overtaking_def) (simp add: cb_next_def)
qed

subsection \<open>A released probe\<close>

lemma admit_alone:
  assumes "cb_state_raw (cb_tick t b) = CbHalfOpen" "\<not> cb_in_flight b"
  shows "\<exists>b'. cb_admit False h t w b cs = (Some (probe_token b), b', cs) \<and>
    core b' = (cb_tick t (core b))\<lparr>cb_in_flight := True, cb_token := Some (probe_token b)\<rparr>"
  using assms
  by (simp add: cb_admit_def try_acquire_probe_lease_def hold_lease_def Let_def probe_token_def)

text \<open>What the state of a half-open breaker with this probe in flight is, up to its lease.\<close>

definition probing :: "breaker \<Rightarrow> int \<Rightarrow> bool" where
  "probing b g \<longleftrightarrow> cb_state_raw b = CbHalfOpen \<and> cb_in_flight b \<and> cb_generation b = g \<and>
     cb_token b = Some \<lparr>ad_generation = g, ad_probe = True\<rparr>"

lemma probing_of_core:
  assumes "core b' = (cb_tick t (core b))\<lparr>cb_in_flight := True, cb_token := Some (probe_token b)\<rparr>"
    and "cb_state_raw (cb_tick t b) = CbHalfOpen"
  shows "probing b' (cb_generation b)"
proof -
  have "probing (core b') (cb_generation b)"
    using assms(2) unfolding assms(1) by (simp add: probing_def probe_token_def core_tick[symmetric] del: core_tick)
  then show ?thesis by (simp add: probing_def)
qed

lemma admitted_probe:
  assumes "cb_state_raw (cb_tick t b) = CbHalfOpen" "\<not> cb_in_flight b"
    and "cb_admit False h t w b cs = (Some a, b', cs)"
  shows "a = probe_token b \<and> probing b' (cb_generation b)"
proof -
  obtain c where "cb_admit False h t w b cs = (Some (probe_token b), c, cs)"
    and c: "core c = (cb_tick t (core b))\<lparr>cb_in_flight := True, cb_token := Some (probe_token b)\<rparr>"
    using admit_alone[OF assms(1,2)] by blast
  with assms(3) have "a = probe_token b" "b' = c" by simp_all
  with probing_of_core[OF c assms(1)] show ?thesis by simp
qed

lemma probing_released:
  assumes "probing b g"
  shows "cb_state_raw (fst (cb_release_probe False t b cs)) = CbHalfOpen \<and>
    \<not> cb_in_flight (fst (cb_release_probe False t b cs)) \<and> cb_generation (fst (cb_release_probe False t b cs)) = g"
proof -
  let ?b = "fst (cb_release_probe False t b cs)"
  have "cb_state_raw (core ?b) = CbHalfOpen \<and> \<not> cb_in_flight (core ?b) \<and> cb_generation (core ?b) = g"
    unfolding core_release_probe using assms by (simp add: probing_def)
  then show ?thesis by simp
qed

lemma probing_success:
  assumes "probing b g"
  shows "\<not> cb_is_stale b (Some \<lparr>ad_generation = g, ad_probe = True\<rparr>) \<and>
    cb_state_raw (fst (record_success sh t (Some \<lparr>ad_generation = g, ad_probe = True\<rparr>) b cs)) = CbClosed \<and>
    \<not> cb_in_flight (fst (record_success sh t (Some \<lparr>ad_generation = g, ad_probe = True\<rparr>) b cs))"
proof -
  let ?tok = "Some \<lparr>ad_generation = g, ad_probe = True\<rparr>"
  let ?b = "fst (record_success sh t ?tok b cs)"
  have ns: "\<not> cb_is_stale b ?tok" using assms by (simp add: probing_def cb_is_stale_def)
  have half: "cb_tick t (core b) = core b" using assms by (simp add: probing_def tick_half_open)
  have "cb_state_raw (core ?b) = CbClosed \<and> \<not> cb_in_flight (core ?b)"
    unfolding core_success using ns half assms by (simp add: abs_success_def Let_def probing_def)
  with ns show ?thesis by simp
qed

text \<open>
  Admissions are compared by value, so a released probe speaks for its successor: after a half-open
  probe is released and the next call of the same generation is admitted as the probe, the first
  call's late outcome is not stale, and closes the breaker while the second probe still runs.
\<close>

theorem released_probe_resolves_next:
  assumes "cb_state_raw (cb_tick t1 b) = CbHalfOpen" and "\<not> cb_in_flight b"
    and "cb_admit False h t1 w b cs = (Some first, b1, cs)"
    and "cb_admit False h t2 w (fst (cb_release_probe False t1 b1 cs)) cs = (Some second, b2, cs)"
  shows "first = second \<and> \<not> cb_is_stale b2 (Some first) \<and> cb_in_flight b2 \<and>
    cb_state_raw (fst (record_success False t3 (Some first) b2 cs)) = CbClosed \<and>
    \<not> cb_in_flight (fst (record_success False t3 (Some first) b2 cs))"
proof -
  let ?tok = "\<lparr>ad_generation = cb_generation b, ad_probe = True\<rparr>"
  let ?b = "fst (cb_release_probe False t1 b1 cs)"
  have f: "first = ?tok" and p1: "probing b1 (cb_generation b)"
    using admitted_probe[OF assms(1-3)] by (simp_all add: probe_token_def)
  note rel = probing_released[OF p1, of t1 cs]
  then have half: "cb_state_raw (cb_tick t2 ?b) = CbHalfOpen" "\<not> cb_in_flight ?b"
    by (simp_all add: tick_half_open)
  have s: "second = ?tok" and p2: "probing b2 (cb_generation ?b)"
    using admitted_probe[OF half assms(4)] rel by (simp_all add: probe_token_def)
  have "probing b2 (cb_generation b)" using p2 rel by simp
  from probing_success[OF this, of False t3 cs] this show ?thesis by (simp add: f s probing_def)
qed

definition cooled_down :: breaker where
  "cooled_down = trip (0, 0) (new_breaker 1 60)"

subsection \<open>Replicas\<close>

text \<open>The stored lease, if there is one, has an end time that can be read.\<close>

definition lease_readable :: "cstore \<Rightarrow> string \<Rightarrow> bool" where
  "lease_readable cs k \<longleftrightarrow>
     (case find_row cs k of
        None \<Rightarrow> True
      | Some r \<Rightarrow> (case rval r of
                    PDict d \<Rightarrow> truthy (dget d ''expires_at'') \<longrightarrow> py_float (dget d ''expires_at'') \<noteq> None
                  | _ \<Rightarrow> True))"

lemma lease_readable_answers:
  assumes "lease_readable cs k" "can_write cs"
  shows "cs_set_if_absent now cs k v ttl cat \<noteq> Inl e"
proof (cases "find_row cs k")
  case (Some r)
  have "\<exists>ov. lease_over now ttl r = Inr ov"
    using assms(1) Some
    by (cases "rval r") (auto simp: lease_readable_def lease_over_def split: option.splits if_splits)
  with Some assms(2) show ?thesis by (auto simp: cs_set_if_absent_def split: if_splits)
qed (use assms(2) in \<open>simp add: cs_set_if_absent_def\<close>)



end
