(* ===== verification/Dispatch.thy ===== *)
theory Dispatch
  imports Prelude
begin

text \<open>
  What a swarm dispatch does when a worker fails (kazma_core/swarm/reliability.py): the retry policy
  (\<open>RetryPolicy\<close>) with its backoff, and the chain of fallback workers (\<open>FallbackChain\<close>), with the
  results they pass on (\<open>WorkerResult\<close> and \<open>HandoffRecord\<close> of kazma_core/swarm/task.py).

  The outcome of the k-th call of the wrapped function, or of the k-th fallback dispatch, is an
  argument, as are the random jitter of each pause and the time stamp of each handoff record. Log
  lines are not modelled.
\<close>

subsection \<open>Retry\<close>

record failure =
  fl_transient :: pyval
  fl_message :: string

record retry_policy =
  rp_max_retries :: int
  rp_base_delay :: real
  rp_max_delay :: real
  rp_jitter :: bool

definition NON_RETRYABLE_PATTERNS :: "string list" where
  "NON_RETRYABLE_PATTERNS =
     [''401'', ''403'', ''authentication'', ''unauthorized'', ''forbidden'',
      ''api key'', ''invalid key'', ''permission denied'',
      ''not found'', ''does not exist'',
      ''quota exceeded'', ''insufficient_quota'', ''billing'']"

definition is_retryable_exception :: "failure \<Rightarrow> bool" where
  "is_retryable_exception e =
     (case fl_transient e of
        PBool b \<Rightarrow> b
      | _ \<Rightarrow> \<not> list_ex (\<lambda>p. contains p (py_lower (fl_message e))) NON_RETRYABLE_PATTERNS)"

definition compute_delay_no_jitter :: "retry_policy \<Rightarrow> int \<Rightarrow> real" where
  "compute_delay_no_jitter pol attempt = min (rp_base_delay pol * 2 powi (attempt - 1)) (rp_max_delay pol)"

text \<open>\<open>amount\<close> is what \<open>random.uniform(0, 0.25 * base_delay)\<close> returned.\<close>

definition compute_delay :: "retry_policy \<Rightarrow> real \<Rightarrow> int \<Rightarrow> real" where
  "compute_delay pol amount attempt =
     (let base = compute_delay_no_jitter pol attempt
      in if rp_jitter pol then min (base + amount) (rp_max_delay pol * 125 / 100) else base)"

text \<open>How one call of the function ends: it raises, it is cancelled, or it returns a value.\<close>

datatype outcome = Raised failure | Cancelled | Returned pyval

definition status_dict :: "string \<Rightarrow> string \<Rightarrow> string \<Rightarrow> pyval \<Rightarrow> pydict" where
  "status_dict worker status out err =
     [(''worker'', PStr worker), (''task_id'', PStr []), (''status'', PStr status),
      (''output'', PStr out), (''error'', err)]"

text \<open>
  The body of one attempt: either it ends the execution, or another attempt may follow, with what
  \<open>last_result\<close> (Inl) or, when that is None, \<open>last_error\<close> (Inr) now is. The error text of a
  returned dict is never read: its \<open>last_result\<close> goes first. \<open>str_of\<close> is \<open>str\<close> of the values
  that are neither dict nor string.
\<close>

datatype attempt_end = Done "exn + pydict" | Again "pydict + string"

definition run_attempt :: "(pyval \<Rightarrow> string) \<Rightarrow> string \<Rightarrow> outcome \<Rightarrow> attempt_end" where
  "run_attempt str_of worker out =
     (case out of
        Cancelled \<Rightarrow> Done (Inl (OtherError ''CancelledError''))
      | Raised e \<Rightarrow>
          (let last_error = take 500 (fl_message e) in
           if is_retryable_exception e then Again (Inr last_error)
           else Done (Inr (status_dict worker ''error'' [] (PStr last_error))))
      | Returned (PDict d) \<Rightarrow>
          if dget d ''status'' = PStr ''success'' \<or> dget d ''retry_safe'' = PBool False
             \<or> dget d ''retryable'' = PBool False
          then Done (Inr d) else Again (Inl d)
      | Returned (PStr s) \<Rightarrow> Done (Inr (status_dict worker ''success'' s PNone))
      | Returned v \<Rightarrow> Done (Inr (status_dict worker ''success'' (str_of v) PNone)))"

definition give_up :: "string \<Rightarrow> int \<Rightarrow> (pydict + string) option \<Rightarrow> pydict" where
  "give_up worker tot prior =
     (case prior of
        Some (Inl d) \<Rightarrow> d
      | _ \<Rightarrow> status_dict worker ''error'' []
               (PStr (''Worker '' @ [CHR 0x27] @ worker @ [CHR 0x27] @ '' failed after '' @ int_str tot @
                      '' retry attempts. Last error: '' @
                      (case prior of Some (Inr e) \<Rightarrow> e | _ \<Rightarrow> ''None''))))"

text \<open>The loop over the attempts: the result, the attempts made, the pauses between them.\<close>

fun retry_loop ::
    "retry_policy \<Rightarrow> (pyval \<Rightarrow> string) \<Rightarrow> string \<Rightarrow> (nat \<Rightarrow> real) \<Rightarrow> (nat \<Rightarrow> outcome) \<Rightarrow> int
      \<Rightarrow> (pydict + string) option \<Rightarrow> nat list \<Rightarrow> (exn + pydict) \<times> nat list \<times> real list" where
  "retry_loop pol str_of worker jit fn tot prior [] = (Inr (give_up worker tot prior), [], [])"
| "retry_loop pol str_of worker jit fn tot prior (a # as) =
     (case run_attempt str_of worker (fn a) of
        Done r \<Rightarrow> (r, [a], [])
      | Again l \<Rightarrow>
          (case retry_loop pol str_of worker jit fn tot (Some l) as of
             (r, made, pauses) \<Rightarrow>
               (r, a # made, (if int a < tot then [compute_delay pol (jit a) (int a)] else []) @ pauses)))"

definition execute_with_retry ::
    "retry_policy \<Rightarrow> (pyval \<Rightarrow> string) \<Rightarrow> string \<Rightarrow> (nat \<Rightarrow> real) \<Rightarrow> (nat \<Rightarrow> outcome)
      \<Rightarrow> (exn + pydict) \<times> nat list \<times> real list" where
  "execute_with_retry pol str_of worker jit fn =
     (let tot = rp_max_retries pol + 1
      in retry_loop pol str_of worker jit fn tot None [1..<nat tot + 1])"

subsection \<open>Fallbacks\<close>

record handoff =
  ho_from :: string
  ho_to :: string
  ho_context :: string
  ho_timestamp :: string
  ho_reason :: string

record wresult =
  wr_worker :: string
  wr_task_id :: string
  wr_status :: string
  wr_output :: string
  wr_error :: "string option"
  wr_tokens :: int
  wr_cost :: real
  wr_duration :: real
  wr_handoffs :: "handoff list"
  wr_retry_safe :: bool

datatype dispatched = Answered wresult | DispatchRaised failure | DispatchCancelled

text \<open>\<open>error or dflt\<close>\<close>

definition err_or :: "string option \<Rightarrow> string \<Rightarrow> string" where
  "err_or e dflt = (case e of None \<Rightarrow> dflt | Some s \<Rightarrow> if s = [] then dflt else s)"

definition handoff_to :: "string \<Rightarrow> string \<Rightarrow> string option \<Rightarrow> string \<Rightarrow> handoff" where
  "handoff_to stamp prev err name =
     \<lparr>ho_from = prev, ho_to = name,
      ho_context = ''Fallback after '' @ prev @ '' failed. Error: '' @ err_or err ''unknown'',
      ho_timestamp = stamp, ho_reason = []\<rparr>"

definition error_line :: "string \<Rightarrow> string \<Rightarrow> string" where
  "error_line worker err = ''['' @ worker @ ''] '' @ err"

definition exhaustion_summary :: "string \<Rightarrow> string list \<Rightarrow> string list \<Rightarrow> string" where
  "exhaustion_summary primary chain errors =
     ''All fallback workers exhausted for primary '' @ [CHR 0x27] @ primary @ [CHR 0x27] @ ''. Chain: '' @
     repr_list chain @ ''. Errors: '' @ join_with ''; '' errors"

text \<open>
  The loop over the fallbacks from the i-th on: what \<open>execute\<close> returns, and \<open>attempted_results\<close>. The
  name \<open>WorkerResult\<close> is imported for type checking only, so the handler of a fallback that
  raises raises NameError itself. The last attempted result is the object that is returned
  when the chain is exhausted: it gets the summary too.
\<close>

fun fallback_loop ::
    "(nat \<Rightarrow> string) \<Rightarrow> (nat \<Rightarrow> string \<Rightarrow> dispatched) \<Rightarrow> string \<Rightarrow> string list \<Rightarrow> nat \<Rightarrow> handoff list \<Rightarrow> string
      \<Rightarrow> wresult \<Rightarrow> string list \<Rightarrow> wresult list \<Rightarrow> string list \<Rightarrow> (exn + wresult) \<times> wresult list" where
  "fallback_loop stamp dispatch primary chain i hs prev prior errs att [] =
     (let r = prior\<lparr>wr_error := Some (exhaustion_summary primary chain errs), wr_handoffs := hs\<rparr>
      in (Inr r, butlast att @ [r]))"
| "fallback_loop stamp dispatch primary chain i hs prev prior errs att (n # ns) =
     (let hs1 = hs @ [handoff_to (stamp i) prev (wr_error prior) n] in
      case dispatch i n of
        DispatchCancelled \<Rightarrow> (Inl (OtherError ''CancelledError''), att)
      | DispatchRaised e \<Rightarrow> (Inl (NameError ''WorkerResult''), att)
      | Answered r0 \<Rightarrow>
          (let hs2 = hs1 @ wr_handoffs r0; r = r0\<lparr>wr_handoffs := hs2\<rparr>; att' = att @ [r] in
           if \<not> wr_retry_safe r then (Inr r, att')
           else if wr_status r = ''success'' then (Inr r, att')
           else fallback_loop stamp dispatch primary chain (i + 1) hs2 n r
                  (errs @ [error_line n (err_or (wr_error r) ''unknown error'')]) att' ns))"

definition first_errors :: "wresult \<Rightarrow> string list" where
  "first_errors p =
     (case wr_error p of Some e \<Rightarrow> if e = [] then [] else [error_line (wr_worker p) e] | None \<Rightarrow> [])"

definition fallback_execute ::
    "(nat \<Rightarrow> string) \<Rightarrow> (nat \<Rightarrow> string \<Rightarrow> dispatched) \<Rightarrow> string list \<Rightarrow> wresult
      \<Rightarrow> (exn + wresult) \<times> wresult list" where
  "fallback_execute stamp dispatch chain p =
     (if wr_status p = ''success'' \<or> \<not> wr_retry_safe p then (Inr p, [])
      else if chain = [] then (Inr p, [])
      else fallback_loop stamp dispatch (wr_worker p) chain 0 (wr_handoffs p) (wr_worker p) p
             (first_errors p) [] chain)"

subsection \<open>What the retry policy does\<close>

text \<open>The attempts that end an execution, and what each ends it with.\<close>

definition ends_it :: "(pyval \<Rightarrow> string) \<Rightarrow> string \<Rightarrow> outcome \<Rightarrow> (exn + pydict) option" where
  "ends_it str_of worker out = (case run_attempt str_of worker out of Done r \<Rightarrow> Some r | Again _ \<Rightarrow> None)"

definition left_over :: "(pyval \<Rightarrow> string) \<Rightarrow> string \<Rightarrow> outcome \<Rightarrow> (pydict + string) option" where
  "left_over str_of worker out = (case run_attempt str_of worker out of Done r \<Rightarrow> None | Again l \<Rightarrow> Some l)"

lemma retry_loop_exhausted:
  assumes "\<forall>a \<in> set as. ends_it str_of worker (fn a) = None"
  shows "retry_loop pol str_of worker jit fn tot prior as =
    (Inr (give_up worker tot (if as = [] then prior else left_over str_of worker (fn (last as)))), as,
     map (\<lambda>a. compute_delay pol (jit a) (int a)) (filter (\<lambda>a. int a < tot) as))"
  using assms
  by (induction as arbitrary: prior) (auto simp: ends_it_def left_over_def split: attempt_end.splits)

lemma retry_loop_ended:
  assumes "\<forall>a \<in> set as. ends_it str_of worker (fn a) = None" "ends_it str_of worker (fn b) = Some r"
  shows "retry_loop pol str_of worker jit fn tot prior (as @ b # bs) =
    (r, as @ [b], map (\<lambda>a. compute_delay pol (jit a) (int a)) (filter (\<lambda>a. int a < tot) as))"
  using assms
  by (induction as arbitrary: prior) (auto simp: ends_it_def split: attempt_end.splits)


lemma filter_below: "filter (\<lambda>a. int a < t) [1..<m] = [1..<min m (nat t)]"
proof -
  have "filter (\<lambda>a. a < k) [1..<m] = [1..<min m k]" for k :: nat
    by (induction m) (auto simp: min_def not_less_eq_eq dest!: le_antisym)
  then show ?thesis by (simp add: zless_nat_eq_int_zless[symmetric])
qed

lemma first_done:
  assumes "filter P [1..<n + 1] = b # bs"
  shows "[1..<n + 1] = [1..<b] @ b # [b + 1..<n + 1] \<and> P b \<and> b \<le> n \<and> 1 \<le> b \<and> (\<forall>a \<in> set [1..<b]. \<not> P a)"
proof -
  obtain us vs where s: "[1..<n + 1] = us @ b # vs" and no: "\<forall>a \<in> set us. \<not> P a" and b: "P b"
    using assms by (auto simp: filter_eq_Cons_iff)
  have len: "length us < n" using arg_cong[OF s, of length] by (simp del: upt_Suc)
  have "[1..<n + 1] ! length us = b" unfolding s by simp
  then have bn: "b = length us + 1" using len by (simp del: upt_Suc)
  have "us = take (length us) [1..<n + 1]" unfolding s by simp
  then have us: "us = [1..<b]" using len bn by (simp del: upt_Suc)
  have "vs = drop (length us + 1) [1..<n + 1]" unfolding s by simp
  then have "vs = [b + 1..<n + 1]" using len bn by (simp del: upt_Suc)
  then have "[1..<n + 1] = [1..<b] @ b # [b + 1..<n + 1]" using s us by (simp only:)
  moreover have "\<forall>a \<in> set [1..<b]. \<not> P a" using no us by (simp only:)
  ultimately show ?thesis using b bn len by simp
qed

lemma retry_run:
  "execute_with_retry pol str_of worker jit fn =
     (let n = nat (rp_max_retries pol + 1);
          pauses = (\<lambda>m. map (\<lambda>a. compute_delay pol (jit a) (int a)) [1..<m])
      in case filter (\<lambda>a. ends_it str_of worker (fn a) \<noteq> None) [1..<n + 1] of
           [] \<Rightarrow> (Inr (give_up worker (rp_max_retries pol + 1)
                        (if n = 0 then None else left_over str_of worker (fn n))), [1..<n + 1], pauses n)
         | b # _ \<Rightarrow> (the (ends_it str_of worker (fn b)), [1..<b + 1], pauses b))"
proof -
  define n where "n = nat (rp_max_retries pol + 1)"
  define P where "P = (\<lambda>a. ends_it str_of worker (fn a) \<noteq> None)"
  have run: "execute_with_retry pol str_of worker jit fn =
      retry_loop pol str_of worker jit fn (rp_max_retries pol + 1) None [1..<n + 1]"
    by (simp add: execute_with_retry_def n_def Let_def)
  show ?thesis
  proof (cases "filter P [1..<n + 1]")
    case Nil
    then have "\<forall>a \<in> set [1..<n + 1]. ends_it str_of worker (fn a) = None"
      by (auto simp: filter_empty_conv P_def)
    from retry_loop_exhausted[OF this, of pol jit "rp_max_retries pol + 1" None]
    have "execute_with_retry pol str_of worker jit fn = (Inr (give_up worker (rp_max_retries pol + 1)
        (if n = 0 then None else left_over str_of worker (fn n))), [1..<n + 1],
        map (\<lambda>a. compute_delay pol (jit a) (int a)) [1..<n])"
      unfolding run filter_below n_def[symmetric] by (simp add: min_def del: upt_Suc)
    with Nil show ?thesis by (simp add: Let_def n_def[symmetric] P_def del: upt_Suc)
  next
    case (Cons b bs)
    note f = first_done[OF Cons]
    have u: "[1..<b + 1] = [1..<b] @ [b]" using f by simp
    obtain r where r: "ends_it str_of worker (fn b) = Some r" using f by (auto simp: P_def)
    have "\<forall>a \<in> set [1..<b]. ends_it str_of worker (fn a) = None" using f by (auto simp: P_def)
    from retry_loop_ended[OF this r, of pol jit "rp_max_retries pol + 1" None "[b + 1..<n + 1]"]
    have "execute_with_retry pol str_of worker jit fn =
        (r, [1..<b + 1], map (\<lambda>a. compute_delay pol (jit a) (int a)) (filter (\<lambda>a. int a < rp_max_retries pol + 1) [1..<b]))"
      by (simp only: run f[THEN conjunct1] u)
    moreover have "min b (nat (rp_max_retries pol + 1)) = b" using f by (simp add: n_def)
    ultimately have "execute_with_retry pol str_of worker jit fn =
        (r, [1..<b + 1], map (\<lambda>a. compute_delay pol (jit a) (int a)) [1..<b])"
      by (simp only: filter_below)
    with Cons r show ?thesis by (simp add: Let_def n_def[symmetric] P_def del: upt_Suc)
  qed
qed


text \<open>
  A dispatch under a retry policy ends with the first attempt that ends it (a success, a value that
  is no dict, a result marked unsafe or not worth a retry, a permanent failure) and with that attempt's
  result; when none of the 1 + max_retries attempts does, with the last one's result or error. It
  pauses between attempts, never after the last.
\<close>

theorem retry_ends_at_first_end:
  "execute_with_retry pol str_of worker jit fn =
     (let n = nat (rp_max_retries pol + 1);
          pauses = (\<lambda>m. map (\<lambda>a. compute_delay pol (jit a) (int a)) [1..<m])
      in case filter (\<lambda>a. ends_it str_of worker (fn a) \<noteq> None) [1..<n + 1] of
           [] \<Rightarrow> (Inr (give_up worker (rp_max_retries pol + 1)
                        (if n = 0 then None else left_over str_of worker (fn n))), [1..<n + 1], pauses n)
         | b # _ \<Rightarrow> (the (ends_it str_of worker (fn b)), [1..<b + 1], pauses b))"
  by (rule retry_run)

text \<open>What ends an attempt in particular: a success, and anything marked unsafe to repeat.\<close>

lemma unsafe_ends: "dget d ''retry_safe'' = PBool False \<Longrightarrow> ends_it str_of worker (Returned (PDict d)) = Some (Inr d)"
  by (simp add: ends_it_def run_attempt_def)

lemma success_ends: "dget d ''status'' = PStr ''success'' \<Longrightarrow> ends_it str_of worker (Returned (PDict d)) = Some (Inr d)"
  by (simp add: ends_it_def run_attempt_def)

lemma retry_made:
  assumes "a \<in> set (fst (snd (execute_with_retry pol str_of worker jit fn)))"
  shows "1 \<le> a \<and> int a \<le> rp_max_retries pol + 1 \<and>
    (\<forall>c. 1 \<le> c \<and> c < a \<longrightarrow> ends_it str_of worker (fn c) = None)"
proof (cases "filter (\<lambda>a. ends_it str_of worker (fn a) \<noteq> None) [1..<nat (rp_max_retries pol + 1) + 1]")
  case Nil
  with assms have "a \<in> set [1..<nat (rp_max_retries pol + 1) + 1]"
    unfolding retry_run Let_def by (simp del: upt_Suc)
  with Nil show ?thesis by (auto simp: filter_empty_conv simp del: upt_Suc)
next
  case (Cons b bs)
  with assms have "a \<in> set [1..<b + 1]"
    unfolding retry_run Let_def by (simp del: upt_Suc)
  with first_done[OF Cons] show ?thesis by (auto simp del: upt_Suc)
qed


text \<open>
  A result marked unsafe to repeat is never followed by another attempt, and no execution makes more
  than 1 + max_retries attempts: whatever the attempts return, an attempt that was made has an allowed
  number, and no earlier one returned a success or a result whose \<open>retry_safe\<close> or \<open>retryable\<close> is False.
\<close>

theorem retry_never_repeats_unsafe:
  assumes "a \<in> set (fst (snd (execute_with_retry pol str_of worker jit fn)))"
    and "c < a" "1 \<le> c" "fn c = Returned (PDict d)"
  shows "int a \<le> rp_max_retries pol + 1 \<and> dget d ''status'' \<noteq> PStr ''success'' \<and>
    dget d ''retry_safe'' \<noteq> PBool False \<and> dget d ''retryable'' \<noteq> PBool False"
  using retry_made[OF assms(1)] assms(2-4)
  by (auto simp: ends_it_def run_attempt_def)

definition three_tries :: retry_policy where
  "three_tries = \<lparr>rp_max_retries = 2, rp_base_delay = 1, rp_max_delay = 60, rp_jitter = False\<rparr>"

text \<open>A worker that fails twice and then succeeds.\<close>

definition flaky :: "nat \<Rightarrow> outcome" where
  "flaky a = Returned (PDict [(''status'', PStr (if a < 3 then ''error'' else ''success''))])"

lemma flaky_run:
  "fst (snd (execute_with_retry three_tries str_of worker jit flaky)) = [1, 2, 3]"
  by (simp add: execute_with_retry_def three_tries_def flaky_def run_attempt_def upt_rec Let_def)

text \<open>
  The pause before the retry after attempt a is at least the exponential delay and at most a quarter
  of the base delay more, never more than the cap and a quarter; without the jitter the pauses
  never get shorter from one attempt to the next.
\<close>

lemma backoff_between:
  assumes "1 \<le> a" "0 \<le> rp_base_delay pol" "0 \<le> rp_max_delay pol"
    and "0 \<le> amount" "amount \<le> rp_base_delay pol * 25 / 100"
  shows "0 \<le> compute_delay pol amount a \<and> compute_delay_no_jitter pol a \<le> compute_delay pol amount a \<and>
    compute_delay pol amount a \<le> compute_delay_no_jitter pol a + rp_base_delay pol * 25 / 100 \<and>
    compute_delay pol amount a \<le> rp_max_delay pol * 125 / 100 \<and>
    compute_delay_no_jitter pol a \<le> compute_delay_no_jitter pol (a + 1)"
proof -
  have "0 \<le> rp_base_delay pol * 2 powi (a - 1)" using assms(2) by simp
  then have nj: "0 \<le> compute_delay_no_jitter pol a" using assms(3) by (simp add: compute_delay_no_jitter_def)
  have cap: "compute_delay_no_jitter pol a \<le> rp_max_delay pol" by (simp add: compute_delay_no_jitter_def)
  have "(2::real) powi (a - 1) \<le> 2 powi (a + 1 - 1)" by (intro power_int_increasing) auto
  then have "rp_base_delay pol * 2 powi (a - 1) \<le> rp_base_delay pol * 2 powi (a + 1 - 1)"
    using assms(2) by (intro mult_left_mono)
  then have up: "compute_delay_no_jitter pol a \<le> compute_delay_no_jitter pol (a + 1)"
    unfolding compute_delay_no_jitter_def by (intro min.mono) auto
  show ?thesis using nj cap up assms(2-5) by (auto simp: compute_delay_def Let_def min_def)
qed

subsection \<open>What the fallback chain does\<close>

text \<open>The handoffs a run over these fallbacks and their answers adds, in order.\<close>

fun fallback_trail :: "(nat \<Rightarrow> string) \<Rightarrow> nat \<Rightarrow> string \<Rightarrow> string option \<Rightarrow> (string \<times> wresult) list \<Rightarrow> handoff list" where
  "fallback_trail stamp i prev err [] = []"
| "fallback_trail stamp i prev err ((n, r) # xs) =
     handoff_to (stamp i) prev err n # wr_handoffs r @ fallback_trail stamp (i + 1) n (wr_error r) xs"

text \<open>The lines of the summary for these fallbacks.\<close>

definition fallback_errors :: "(string \<times> wresult) list \<Rightarrow> string list" where
  "fallback_errors xs = map (\<lambda>(n, r). error_line n (err_or (wr_error r) ''unknown error'')) xs"

text \<open>A result without the handoffs the chain writes into it.\<close>

definition answer :: "wresult \<Rightarrow> wresult" where
  "answer r = r\<lparr>wr_handoffs := []\<rparr>"

lemma answer_handoffs [simp]: "answer (r\<lparr>wr_handoffs := hs\<rparr>) = answer r"
  by (simp add: answer_def)

definition failed_safe :: "wresult \<Rightarrow> bool" where
  "failed_safe r \<longleftrightarrow> wr_status r \<noteq> ''success'' \<and> wr_retry_safe r"

text \<open>The fallbacks \<open>ns\<close> answer \<open>rs\<close> from the i-th dispatch on, each a failure safe to follow up.\<close>

definition fail_in_turn :: "(nat \<Rightarrow> string \<Rightarrow> dispatched) \<Rightarrow> nat \<Rightarrow> string list \<Rightarrow> wresult list \<Rightarrow> bool" where
  "fail_in_turn dispatch i ns rs \<longleftrightarrow>
     length ns = length rs \<and>
     (\<forall>k < length rs. dispatch (i + k) (ns ! k) = Answered (rs ! k) \<and> failed_safe (rs ! k))"

lemma fail_in_turn_Cons:
  "fail_in_turn dispatch i (n # ns) (r # rs) \<longleftrightarrow>
     dispatch i n = Answered r \<and> failed_safe r \<and> fail_in_turn dispatch (i + 1) ns rs"
  by (auto simp: fail_in_turn_def All_less_Suc2)

lemma loop_prefix:
  assumes "length ns = length rs" "fail_in_turn dispatch i ns rs"
  shows "\<exists>prior' att'. fallback_loop stamp dispatch primary chain i hs prev prior errs att (ns @ rest) =
      fallback_loop stamp dispatch primary chain (i + length ns)
        (hs @ fallback_trail stamp i prev (wr_error prior) (zip ns rs)) (last (prev # ns)) prior'
        (errs @ fallback_errors (zip ns rs)) att' rest \<and>
    answer prior' = answer (last (prior # rs)) \<and> map answer att' = map answer att @ map answer rs"
  using assms
proof (induction ns rs arbitrary: i hs prev prior errs att rule: list_induct2)
  case Nil
  show ?case by (auto simp: fallback_errors_def)
next
  case (Cons n ns r rs)
  let ?hs = "hs @ handoff_to (stamp i) prev (wr_error prior) n # wr_handoffs r"
  let ?r = "r\<lparr>wr_handoffs := ?hs\<rparr>"
  have d: "dispatch i n = Answered r" "failed_safe r" "fail_in_turn dispatch (i + 1) ns rs"
    using Cons.prems by (simp_all add: fail_in_turn_Cons)
  have step: "fallback_loop stamp dispatch primary chain i hs prev prior errs att ((n # ns) @ rest) =
      fallback_loop stamp dispatch primary chain (i + 1) ?hs n ?r
        (errs @ [error_line n (err_or (wr_error r) ''unknown error'')]) (att @ [?r]) (ns @ rest)"
    using d(1,2) by (simp add: failed_safe_def Let_def)
  obtain prior' att' where ih: "fallback_loop stamp dispatch primary chain (i + 1) ?hs n ?r
        (errs @ [error_line n (err_or (wr_error r) ''unknown error'')]) (att @ [?r]) (ns @ rest) =
      fallback_loop stamp dispatch primary chain (i + 1 + length ns)
        (?hs @ fallback_trail stamp (i + 1) n (wr_error ?r) (zip ns rs)) (last (n # ns)) prior'
        ((errs @ [error_line n (err_or (wr_error r) ''unknown error'')]) @ fallback_errors (zip ns rs)) att' rest"
    "answer prior' = answer (last (?r # rs))" "map answer att' = map answer (att @ [?r]) @ map answer rs"
    using Cons.IH[OF d(3)] by blast
  have "answer (last (?r # rs)) = answer (last (prior # r # rs))" by simp
  with step ih show ?case
    by (intro exI[of _ prior'] exI[of _ att']) (simp add: fallback_errors_def)
qed

lemma trail_snoc:
  "length ns = length rs \<Longrightarrow>
     fallback_trail stamp i prev err (zip (ns @ [n]) (rs @ [r])) =
     fallback_trail stamp i prev err (zip ns rs) @
       handoff_to (stamp (i + length ns)) (last (prev # ns)) (last (err # map wr_error rs)) n # wr_handoffs r"
  by (induction ns rs arbitrary: i prev err rule: list_induct2) auto

lemma answer_error: "answer r = answer r' \<Longrightarrow> wr_error r = wr_error r'"
  by (cases r, cases r') (simp add: answer_def)

lemma answer_same_handoffs: "answer r = answer r' \<Longrightarrow> r\<lparr>wr_error := e, wr_handoffs := hs\<rparr> = r'\<lparr>wr_error := e, wr_handoffs := hs\<rparr>"
  by (cases r, cases r') (simp add: answer_def)

text \<open>The chain after its first fallbacks \<open>ns\<close> all failed.\<close>

lemma chain_prefix:
  assumes "failed_safe p" "chain = ns @ rest" "chain \<noteq> []" "fail_in_turn dispatch 0 ns rs"
  obtains prior att where
    "fallback_execute stamp dispatch chain p = fallback_loop stamp dispatch (wr_worker p) chain (length ns)
       (wr_handoffs p @ fallback_trail stamp 0 (wr_worker p) (wr_error p) (zip ns rs)) (last (wr_worker p # ns))
       prior (first_errors p @ fallback_errors (zip ns rs)) att rest"
    "answer prior = answer (last (p # rs))" "map answer att = map answer rs"
proof -
  have run: "fallback_execute stamp dispatch chain p =
      fallback_loop stamp dispatch (wr_worker p) chain 0 (wr_handoffs p) (wr_worker p) p (first_errors p) [] (ns @ rest)"
    using assms(1,3) unfolding assms(2)[symmetric] by (simp add: fallback_execute_def failed_safe_def)
  have "length ns = length rs" using assms(4) by (simp add: fail_in_turn_def)
  from loop_prefix[OF this assms(4), of stamp "wr_worker p" chain "wr_handoffs p" "wr_worker p" p "first_errors p" "[]" rest]
  show ?thesis using that unfolding run by auto
qed

text \<open>
  Fallbacks are tried in the declared order, and the first answer that is a success, or that is not
  safe to follow up, is returned unchanged but for its handoffs; when every fallback fails, the
  last one's answer is returned with the summary as its error. The handoffs are the primary's, then
  one record for each hop, followed by that fallback's own; the attempted results are the answers so far.
\<close>

theorem fallback_first_answer:
  assumes "failed_safe p" "chain = ns @ rest" "chain \<noteq> []" "fail_in_turn dispatch 0 ns rs"
  shows "(rest = [] \<longrightarrow> fst (fallback_execute stamp dispatch chain p) =
      Inr ((last rs)\<lparr>wr_error := Some (exhaustion_summary (wr_worker p) chain (first_errors p @ fallback_errors (zip ns rs))),
             wr_handoffs := wr_handoffs p @ fallback_trail stamp 0 (wr_worker p) (wr_error p) (zip ns rs)\<rparr>)) \<and>
    (\<forall>n ns' r. rest = n # ns' \<and> dispatch (length ns) n = Answered r \<and> \<not> failed_safe r \<longrightarrow>
      fst (fallback_execute stamp dispatch chain p) =
        Inr (r\<lparr>wr_handoffs := wr_handoffs p @
          fallback_trail stamp 0 (wr_worker p) (wr_error p) (zip (ns @ [n]) (rs @ [r]))\<rparr>) \<and>
      map answer (snd (fallback_execute stamp dispatch chain p)) = map answer (rs @ [r]))"
proof -
  obtain prior att where run: "fallback_execute stamp dispatch chain p = fallback_loop stamp dispatch (wr_worker p) chain (length ns)
       (wr_handoffs p @ fallback_trail stamp 0 (wr_worker p) (wr_error p) (zip ns rs)) (last (wr_worker p # ns))
       prior (first_errors p @ fallback_errors (zip ns rs)) att rest"
    and prior: "answer prior = answer (last (p # rs))" and att: "map answer att = map answer rs"
    using chain_prefix[OF assms] .
  have len: "length ns = length rs" using assms(4) by (simp add: fail_in_turn_def)
  have err: "wr_error prior = last (wr_error p # map wr_error rs)"
    using answer_error[OF prior] by (cases rs) (simp_all add: last_map)
  show ?thesis
  proof (intro conjI impI allI)
    assume "rest = []"
    moreover from this len assms(2,3) have "last (p # rs) = last rs" by auto
    ultimately show "fst (fallback_execute stamp dispatch chain p) =
        Inr ((last rs)\<lparr>wr_error := Some (exhaustion_summary (wr_worker p) chain (first_errors p @ fallback_errors (zip ns rs))),
             wr_handoffs := wr_handoffs p @ fallback_trail stamp 0 (wr_worker p) (wr_error p) (zip ns rs)\<rparr>)"
      unfolding run using answer_same_handoffs[OF prior] by (simp add: Let_def)
  next
    fix n ns' r
    assume a: "rest = n # ns' \<and> dispatch (length ns) n = Answered r \<and> \<not> failed_safe r"
    then have loop: "fallback_execute stamp dispatch chain p =
      (Inr (r\<lparr>wr_handoffs := (wr_handoffs p @ fallback_trail stamp 0 (wr_worker p) (wr_error p) (zip ns rs) @
           [handoff_to (stamp (length ns)) (last (wr_worker p # ns)) (wr_error prior) n]) @ wr_handoffs r\<rparr>),
       att @ [r\<lparr>wr_handoffs := (wr_handoffs p @ fallback_trail stamp 0 (wr_worker p) (wr_error p) (zip ns rs) @
           [handoff_to (stamp (length ns)) (last (wr_worker p # ns)) (wr_error prior) n]) @ wr_handoffs r\<rparr>])"
      unfolding run by (auto simp: failed_safe_def Let_def)
    show "fst (fallback_execute stamp dispatch chain p) =
        Inr (r\<lparr>wr_handoffs := wr_handoffs p @
          fallback_trail stamp 0 (wr_worker p) (wr_error p) (zip (ns @ [n]) (rs @ [r]))\<rparr>)"
      unfolding loop trail_snoc[OF len] by (simp add: err)
    show "map answer (snd (fallback_execute stamp dispatch chain p)) = map answer (rs @ [r])"
      unfolding loop by (simp add: att)
  qed
qed

definition plain_result :: "string \<Rightarrow> string \<Rightarrow> wresult" where
  "plain_result worker status =
     \<lparr>wr_worker = worker, wr_task_id = ''t'', wr_status = status, wr_output = [], wr_error = None, wr_tokens = 0,
      wr_cost = 0, wr_duration = 0, wr_handoffs = [], wr_retry_safe = True\<rparr>"

definition second_answers :: "nat \<Rightarrow> string \<Rightarrow> dispatched" where
  "second_answers i n = Answered (plain_result n (if i = 0 then ''error'' else ''success''))"

text \<open>
  A fallback whose dispatch raises ends the chain with a NameError: the handler builds a
  \<open>WorkerResult\<close>, a name this module imports for type checking only. The fallbacks after it are never
  tried, whatever they would answer, and no result carries its error.
\<close>

theorem raising_fallback_aborts:
  assumes "failed_safe p" "fail_in_turn dispatch 0 ns rs" "dispatch (length ns) n = DispatchRaised e"
  shows "fst (fallback_execute stamp dispatch (ns @ n # ns') p) = Inl (NameError ''WorkerResult'') \<and>
    map answer (snd (fallback_execute stamp dispatch (ns @ n # ns') p)) = map answer rs"
proof -
  obtain prior att where "fallback_execute stamp dispatch (ns @ n # ns') p =
      fallback_loop stamp dispatch (wr_worker p) (ns @ n # ns') (length ns)
       (wr_handoffs p @ fallback_trail stamp 0 (wr_worker p) (wr_error p) (zip ns rs)) (last (wr_worker p # ns))
       prior (first_errors p @ fallback_errors (zip ns rs)) att (n # ns')"
    "map answer att = map answer rs"
    using chain_prefix[OF assms(1) refl _ assms(2), of "n # ns'" stamp] by blast
  with assms(3) show ?thesis by (simp add: Let_def)
qed

end
