(* ===== verification/Reliability.thy ===== *)
theory Reliability
  imports Breaker Dispatch
begin

text \<open>
  The registry that keeps each worker's breaker and retry policy
  (kazma_core/swarm/reliability_registry.py, class \<open>ReliabilityRegistry\<close>), on the breaker of
  \<open>Breaker\<close>, and what its operations mean for the other replicas. Timeout guards, output validators and
  concurrency limits are not modelled.
\<close>

subsection \<open>The registry\<close>

record rel_registry =
  rg_breakers :: "string \<rightharpoonup> breaker"
  rg_policies :: "string \<rightharpoonup> retry_policy"

definition default_breaker :: breaker where
  "default_breaker = new_breaker 5 60"

definition put_breaker :: "string \<Rightarrow> breaker \<Rightarrow> rel_registry \<Rightarrow> rel_registry" where
  "put_breaker worker b reg = reg\<lparr>rg_breakers := (rg_breakers reg)(worker \<mapsto> b)\<rparr>"

definition get_circuit_breaker :: "bool \<Rightarrow> clock \<Rightarrow> string \<Rightarrow> rel_registry \<Rightarrow> cstore \<Rightarrow> breaker \<times> rel_registry" where
  "get_circuit_breaker shared now worker reg cs =
     (let b = (case rg_breakers reg worker of
                 None \<Rightarrow> (case load_shared shared now worker cs of None \<Rightarrow> default_breaker | Some sb \<Rightarrow> sb)
               | Some b \<Rightarrow> refresh_from_shared shared now worker b cs)
      in (b, put_breaker worker b reg))"

definition breaker_for_dispatch :: "string \<Rightarrow> rel_registry \<Rightarrow> breaker \<times> rel_registry" where
  "breaker_for_dispatch worker reg =
     (case rg_breakers reg worker of
        None \<Rightarrow> (default_breaker, put_breaker worker default_breaker reg)
      | Some b \<Rightarrow> (b, reg))"

definition note_breaker_outcome :: "bool \<Rightarrow> clock \<Rightarrow> string \<Rightarrow> rel_registry \<Rightarrow> cstore \<Rightarrow> rel_registry \<times> cstore" where
  "note_breaker_outcome shared now worker reg cs =
     (case rg_breakers reg worker of
        None \<Rightarrow> (reg, cs)
      | Some b \<Rightarrow> (case persist_shared shared now worker b cs of (b', cs') \<Rightarrow> (put_breaker worker b' reg, cs')))"

definition reset_circuit_breaker ::
    "bool \<Rightarrow> clock \<Rightarrow> string \<Rightarrow> rel_registry \<Rightarrow> cstore \<Rightarrow> breaker \<times> rel_registry \<times> cstore" where
  "reset_circuit_breaker shared now worker reg cs =
     (case get_circuit_breaker shared now worker reg cs of
        (b, reg1) \<Rightarrow>
          (case cb_reset shared now b cs of
             (b1, cs1) \<Rightarrow>
               (case persist_shared shared now worker b1 cs1 of
                  (b2, cs2) \<Rightarrow> (b2, put_breaker worker b2 reg1, cs2))))"

definition set_circuit_breaker_config ::
    "bool \<Rightarrow> clock \<Rightarrow> string \<Rightarrow> int \<Rightarrow> real \<Rightarrow> rel_registry \<Rightarrow> cstore \<Rightarrow> breaker \<times> rel_registry \<times> cstore" where
  "set_circuit_breaker_config shared now worker threshold cooldown reg cs =
     (case persist_shared shared now worker (new_breaker threshold cooldown) cs of
        (b, cs') \<Rightarrow> (b, put_breaker worker b reg, cs'))"

definition cleanup_worker :: "string \<Rightarrow> rel_registry \<Rightarrow> rel_registry" where
  "cleanup_worker worker reg =
     reg\<lparr>rg_breakers := (rg_breakers reg)(worker := None), rg_policies := (rg_policies reg)(worker := None)\<rparr>"

definition get_retry_policy :: "string \<Rightarrow> rel_registry \<Rightarrow> retry_policy" where
  "get_retry_policy worker reg =
     (case rg_policies reg worker of
        None \<Rightarrow> \<lparr>rp_max_retries = 0, rp_base_delay = 1, rp_max_delay = 60, rp_jitter = True\<rparr>
      | Some pol \<Rightarrow> pol)"

definition set_retry_policy :: "string \<Rightarrow> retry_policy \<Rightarrow> rel_registry \<Rightarrow> rel_registry" where
  "set_retry_policy worker pol reg = reg\<lparr>rg_policies := (rg_policies reg)(worker \<mapsto> pol)\<rparr>"

subsection \<open>The shared copy read back\<close>

lemma state_named_name [simp]: "state_named (PStr (state_name s)) = s"
  by (cases s) (simp_all add: state_named_def state_name_def)

lemma snapshot_generation [simp]: "generation_field (fst (cb_to_dict t b)) = Some (cb_generation b)"
  by (simp add: generation_field_def cb_to_dict_def Let_def)

lemma snapshot_not_empty [simp]: "fst (cb_to_dict t b) \<noteq> []"
  by (simp add: cb_to_dict_def Let_def)

lemma snapshot_breaker [simp]: "snd (cb_to_dict t b) = cb_tick t b"
  by (simp add: cb_to_dict_def Let_def)

text \<open>A breaker read back from its own snapshot, here or on another replica's clock.\<close>

lemma snapshot_restore:
  obtains r where "cb_from_dict now (fst (cb_to_dict t b)) = Some r"
    "cb_state_raw r = cb_state_raw (cb_tick t b)" "cb_generation r = cb_generation b"
    "cb_failures r = cb_failures b" "cb_threshold r = cb_threshold b" "cb_cooldown r = cb_cooldown b"
    "cb_state_raw r = CbOpen \<longrightarrow> cb_opened r =
       Some (case cb_opened_wall b of None \<Rightarrow> fst now | Some w \<Rightarrow> fst now - max 0 (snd now - w))"
proof -
  let ?d = "fst (cb_to_dict t b)"
  have f: "int_field ?d ''failure_threshold'' 5 = Some (cb_threshold b)"
      "num_field ?d ''cooldown_seconds'' 60 = Some (cb_cooldown b)"
      "int_field ?d ''consecutive_failures'' 0 = Some (cb_failures b)"
      "map_of ?d ''state'' = Some (PStr (state_name (cb_state_raw (cb_tick t b))))"
      "dget ?d ''opened_at_wall'' = (case cb_opened_wall b of None \<Rightarrow> PNone | Some w \<Rightarrow> PFloat w)"
    by (simp_all add: cb_to_dict_def Let_def int_field_def num_field_def)
  note eval = cb_from_dict_def f snapshot_generation prod.case option.case Let_def state_named_name new_breaker_def
  show ?thesis
  proof (cases "cb_state_raw (cb_tick t b) = CbOpen")
    case True
    then show ?thesis
      using that by (cases "cb_opened_wall b") (simp_all add: eval)
  next
    case False
    then show ?thesis using that by (simp add: eval)
  qed
qed

lemma from_dict_generation: "cb_from_dict now d = Some sb \<Longrightarrow> generation_field d = Some (cb_generation sb)"
  by (auto simp: cb_from_dict_def Let_def split: option.splits if_splits)

lemma from_dict_settings:
  "cb_from_dict now d = Some sb \<Longrightarrow> cb_from_dict now' d = Some sb' \<Longrightarrow>
     cb_threshold sb' = cb_threshold sb \<and> cb_cooldown sb' = cb_cooldown sb \<and>
     cb_state_raw sb' = cb_state_raw sb \<and> cb_failures sb' = cb_failures sb"
  by (auto simp: cb_from_dict_def Let_def new_breaker_def split: option.splits if_splits)

lemma from_dict_any_clock: "cb_from_dict now d = Some sb \<Longrightarrow> \<exists>sb'. cb_from_dict now' d = Some sb'"
  by (auto simp: cb_from_dict_def Let_def split: option.splits if_splits)

lemma load_shared_row:
  assumes "can_read cs" "find_row cs (shared_key w) = Some r" "rval r = PDict d" "d \<noteq> []"
  shows "load_shared True now w cs = cb_from_dict now d"
  using assms by (simp add: load_shared_def cs_get_row)

subsection \<open>Writing the shared copy\<close>

text \<open>The stored copy is no newer than this generation.\<close>

definition not_ahead :: "cstore \<Rightarrow> string \<Rightarrow> int \<Rightarrow> bool" where
  "not_ahead cs w gen \<longleftrightarrow>
     (case find_row cs (shared_key w) of
        None \<Rightarrow> True
      | Some r \<Rightarrow> (case rval r of
                    PDict d \<Rightarrow> (case generation_field d of None \<Rightarrow> False | Some g \<Rightarrow> g \<le> gen)
                  | _ \<Rightarrow> True))"

lemma persist_written:
  assumes "can_write cs" "not_ahead cs w (cb_generation b)"
  shows "persist_shared True t w b cs =
    (cb_tick t b, put_row (snd t) (shared_key w) (PDict (fst (cb_to_dict t b))) ''swarm'' cs)"
proof -
  obtain sn where d: "cb_to_dict t b = (sn, cb_tick t b)" by (metis prod.collapse snapshot_breaker)
  have "newer (fst (cb_to_dict t b)) (cb_generation (cb_tick t b))
      (case find_row cs (shared_key w) of None \<Rightarrow> PNone | Some r \<Rightarrow> rval r) = Some (PDict (fst (cb_to_dict t b)))"
    using assms(2) by (auto simp: newer_def not_ahead_def split: option.splits pyval.splits)
  with assms(1) d show ?thesis
    unfolding persist_shared_def by (simp add: cs_atomic_update_def Let_def)
qed

lemma persist_kept:
  assumes "can_write cs" "find_row cs (shared_key w) = Some r" "rval r = PDict d"
    "generation_field d = Some g" "cb_generation b < g"
  shows "persist_shared True t w b cs = (cb_tick t b, put_row (snd t) (shared_key w) (PDict d) ''swarm'' cs)"
proof -
  obtain sn where d: "cb_to_dict t b = (sn, cb_tick t b)" by (metis prod.collapse snapshot_breaker)
  have "newer (fst (cb_to_dict t b)) (cb_generation (cb_tick t b)) (PDict d) = Some (PDict d)"
    using assms(4,5) by (simp add: newer_def)
  with assms(1-3) d show ?thesis
    unfolding persist_shared_def by (simp add: cs_atomic_update_def Let_def)
qed

lemma refresh_newer:
  assumes "load_shared sh now w cs = Some sb" "cb_generation b < cb_generation sb"
  shows "cb_state_raw (refresh_from_shared sh now w b cs) = cb_state_raw sb \<and>
    cb_generation (refresh_from_shared sh now w b cs) = cb_generation sb \<and>
    cb_failures (refresh_from_shared sh now w b cs) = cb_failures sb \<and>
    cb_threshold (refresh_from_shared sh now w b cs) = cb_threshold sb \<and>
    cb_cooldown (refresh_from_shared sh now w b cs) = cb_cooldown sb"
  using assms by (simp add: refresh_from_shared_def cb_overlay_def Let_def)

lemma refresh_generation:
  "load_shared sh now w cs = Some sb \<Longrightarrow>
     cb_generation (refresh_from_shared sh now w b cs) = max (cb_generation b) (cb_generation sb)"
  by (simp add: refresh_from_shared_def cb_overlay_def Let_def max_def)

subsection \<open>A configured breaker\<close>

text \<open>
  Reconfiguring the breaker of a worker whose shared copy has moved is undone: the new breaker
  starts at generation 0, the compare-and-set keeps the stored newer copy, and the next read of the
  breaker brings that copy's threshold, cooldown and state back.
\<close>

theorem configured_breaker_reverted:
  assumes "can_read cs" "can_write cs" "find_row cs (shared_key w) = Some r" "rval r = PDict d"
    and "cb_from_dict t2 d = Some sb" "0 < cb_generation sb"
    and "set_circuit_breaker_config True t1 w threshold cooldown reg cs = (b, reg1, cs1)"
    and "get_circuit_breaker True t2 w reg1 cs1 = (b', reg2)"
  shows "cb_threshold b' = cb_threshold sb \<and> cb_cooldown b' = cb_cooldown sb \<and> cb_state_raw b' = cb_state_raw sb"
proof -
  have g: "generation_field d = Some (cb_generation sb)" using assms(5) by (rule from_dict_generation)
  then have ne: "d \<noteq> []" using assms(6) by (auto simp: generation_field_def)
  have "cb_generation (new_breaker threshold cooldown) < cb_generation sb" using assms(6) by (simp add: new_breaker_def)
  from persist_kept[OF assms(2-4) g this, of t1] assms(7)
  have cs1: "cs1 = put_row (snd t1) (shared_key w) (PDict d) ''swarm'' cs"
    and reg1: "rg_breakers reg1 w = Some (cb_tick t1 (new_breaker threshold cooldown))"
    by (auto simp: set_circuit_breaker_config_def put_breaker_def)
  have load: "load_shared True t2 w cs1 = Some sb"
    using load_shared_row[of cs1 w _ d t2] assms(1,5) ne by (simp add: cs1)
  have "cb_generation (cb_tick t1 (new_breaker threshold cooldown)) < cb_generation sb"
    using assms(6) by (simp add: new_breaker_def)
  from refresh_newer[OF load this] assms(8) reg1 show ?thesis
    by (auto simp: get_circuit_breaker_def Let_def)
qed

definition empty_registry :: rel_registry where
  "empty_registry = \<lparr>rg_breakers = (\<lambda>_. None), rg_policies = (\<lambda>_. None)\<rparr>"

definition tripped_store :: cstore where
  "tripped_store = put_row 70 (shared_key ''w'') (PDict other_replica) ''swarm'' empty_store"

subsection \<open>A reset on every replica\<close>

text \<open>The stored copy, if there is one, can be read.\<close>

definition copy_readable :: "clock \<Rightarrow> cstore \<Rightarrow> string \<Rightarrow> bool" where
  "copy_readable now cs w \<longleftrightarrow>
     (case find_row cs (shared_key w) of
        None \<Rightarrow> True
      | Some r \<Rightarrow> (case rval r of PDict d \<Rightarrow> d \<noteq> [] \<and> cb_from_dict now d \<noteq> None | _ \<Rightarrow> True))"

lemma keys_apart: "lease_key w \<noteq> shared_key w"
proof
  assume "lease_key w = shared_key w"
  from arg_cong[OF this, of length] show False by (simp add: lease_key_def shared_key_def)
qed

lemma cs_set_other:
  "cs_set t cs k v cat = Inr cs' \<Longrightarrow> k' \<noteq> k \<Longrightarrow> find_row cs' k' = find_row cs k' \<and> can_read cs' = can_read cs \<and> can_write cs' = can_write cs"
  by (auto simp: cs_set_def split: if_splits)

lemma release_keeps_copy:
  assumes "cb_lease_worker b = None \<or> cb_lease_worker b = Some w"
  shows "find_row (snd (release_probe_lease sh t b cs)) (shared_key w) = find_row cs (shared_key w) \<and>
    can_read (snd (release_probe_lease sh t b cs)) = can_read cs \<and>
    can_write (snd (release_probe_lease sh t b cs)) = can_write cs"
  using assms keys_apart[of w, THEN not_sym]
  by (auto simp: release_probe_lease_def Let_def dest: cs_set_other split: option.splits sum.splits pyval.splits)

lemma from_dict_lease: "cb_from_dict now d = Some sb \<Longrightarrow> cb_lease_worker sb = None"
  by (auto simp: cb_from_dict_def Let_def new_breaker_def split: option.splits if_splits)

lemma load_lease: "load_shared sh now w cs = Some sb \<Longrightarrow> cb_lease_worker sb = None"
  by (auto simp: load_shared_def dest: from_dict_lease split: if_splits sum.splits pyval.splits)

lemma refresh_lease [simp]: "cb_lease_worker (refresh_from_shared sh now w b cs) = cb_lease_worker b"
  by (simp add: refresh_from_shared_def cb_overlay_def Let_def split: option.split)

lemma get_breaker_ok:
  assumes "can_read cs" "copy_readable now cs w" "get_circuit_breaker True now w reg cs = (b, reg1)"
    and "\<forall>b0. rg_breakers reg w = Some b0 \<longrightarrow> cb_lease_worker b0 = None \<or> cb_lease_worker b0 = Some w"
  shows "not_ahead cs w (cb_generation b) \<and> (cb_lease_worker b = None \<or> cb_lease_worker b = Some w)"
proof
  show "cb_lease_worker b = None \<or> cb_lease_worker b = Some w"
    using assms(3,4) load_lease[of True now w cs]
    by (auto simp: get_circuit_breaker_def Let_def default_breaker_def new_breaker_def split: option.splits)
  show "not_ahead cs w (cb_generation b)"
  proof (cases "\<exists>r d. find_row cs (shared_key w) = Some r \<and> rval r = PDict d")
    case True
    then obtain r d where r: "find_row cs (shared_key w) = Some r" "rval r = PDict d" by blast
    with assms(2) obtain sb where sb: "d \<noteq> []" "cb_from_dict now d = Some sb" by (auto simp: copy_readable_def)
    with load_shared_row[OF assms(1) r] have load: "load_shared True now w cs = Some sb" by simp
    have "cb_generation sb \<le> cb_generation b"
      using assms(3) load refresh_generation[OF load]
      by (auto simp: get_circuit_breaker_def Let_def split: option.splits)
    with r from_dict_generation[OF sb(2)] show ?thesis by (simp add: not_ahead_def)
  next
    case False
    then show ?thesis by (auto simp: not_ahead_def split: option.split pyval.split)
  qed
qed

lemma reset_generation:
  assumes "get_circuit_breaker sh t w reg cs = (b0, reg0)" "reset_circuit_breaker sh t w reg cs = (b, reg1, cs1)"
  shows "cb_generation b = cb_generation b0 + 1"
proof -
  obtain b1 cs' where rs: "cb_reset sh t b0 cs = (b1, cs')" by (cases "cb_reset sh t b0 cs")
  have "cb_generation b1 = cb_generation b0 + 1"
    using gen_of_core[OF core_reset[of sh t b0 cs]] rs by simp
  moreover have "b = b1 \<or> b = cb_tick t b1"
    using assms rs persist_breaker[of sh t w b1 cs'] by (auto simp: reset_circuit_breaker_def split: prod.splits)
  ultimately show ?thesis by auto
qed

lemma reset_shares_closed:
  assumes "can_read cs" "can_write cs" "copy_readable t1 cs w"
    and "\<forall>b0. rg_breakers reg w = Some b0 \<longrightarrow> cb_lease_worker b0 = None \<or> cb_lease_worker b0 = Some w"
    and "reset_circuit_breaker True t1 w reg cs = (b, reg1, cs1)"
  obtains r where "load_shared True t2 w cs1 = Some r" "cb_state_raw r = CbClosed" "cb_failures r = 0"
    "cb_generation r = cb_generation b"
proof -
  obtain b0 reg0 where get: "get_circuit_breaker True t1 w reg cs = (b0, reg0)"
    by (cases "get_circuit_breaker True t1 w reg cs")
  note ok = get_breaker_ok[OF assms(1,3) get assms(4)]
  obtain b1 cs' where rs: "cb_reset True t1 b0 cs = (b1, cs')" by (cases "cb_reset True t1 b0 cs")
  have core: "core b1 = (core b0)\<lparr>cb_state_raw := CbClosed, cb_failures := 0, cb_opened := None,
      cb_in_flight := False, cb_token := None, cb_generation := cb_generation b0 + 1\<rparr>"
    using core_reset[of True t1 b0 cs] rs by simp
  have b1: "cb_state_raw b1 = CbClosed" "cb_failures b1 = 0" "cb_generation b1 = cb_generation b0 + 1"
    using core_fields(4,6,1)[of b1] unfolding core by simp_all
  let ?b = "b0\<lparr>cb_state_raw := CbClosed, cb_failures := 0, cb_opened := None, cb_in_flight := False, cb_token := None\<rparr>"
  have "cs' = snd (release_probe_lease True t1 ?b cs)" using rs by (auto simp: cb_reset_def split: prod.splits)
  with release_keeps_copy[of ?b w True t1 cs] ok
  have cs': "find_row cs' (shared_key w) = find_row cs (shared_key w)" "can_read cs'" "can_write cs'"
    using assms(1,2) by simp_all
  have "not_ahead cs' w (cb_generation b1)"
    using ok b1(3) unfolding not_ahead_def cs'(1) by (auto split: option.splits pyval.splits)
  from persist_written[OF cs'(3) this, of t1] assms(5) get rs
  have out: "b = cb_tick t1 b1" "cs1 = put_row (snd t1) (shared_key w) (PDict (fst (cb_to_dict t1 b1))) ''swarm'' cs'"
    by (auto simp: reset_circuit_breaker_def)
  obtain r where r: "cb_from_dict t2 (fst (cb_to_dict t1 b1)) = Some r"
    "cb_state_raw r = cb_state_raw (cb_tick t1 b1)" "cb_generation r = cb_generation b1" "cb_failures r = cb_failures b1"
    using snapshot_restore[of t2 t1 b1] by metis
  have load: "load_shared True t2 w cs1 = Some r"
    using load_shared_row[of cs1 w _ "fst (cb_to_dict t1 b1)" t2] cs'(2) r(1) by (simp add: out(2))
  have "cb_state_raw (cb_tick t1 b1) = CbClosed" using b1(1) by (simp add: cb_tick_def)
  with that[OF load] r b1 out(1) show ?thesis by simp
qed

text \<open>
  An operator's reset reaches every replica: with the store up and its copy readable, after one
  replica resets a worker's breaker, another replica that was not ahead of it (or has none yet) reads
  that breaker closed, with no failures counted and in the reset's new generation.
\<close>

theorem reset_reaches_replicas:
  assumes "can_read cs" "can_write cs" "copy_readable t1 cs w"
    and "\<forall>b0. rg_breakers regA w = Some b0 \<longrightarrow> cb_lease_worker b0 = None \<or> cb_lease_worker b0 = Some w"
    and "reset_circuit_breaker True t1 w regA cs = (bA, regA', cs1)"
    and "\<forall>b0. rg_breakers regB w = Some b0 \<longrightarrow>
      cb_generation b0 \<le> cb_generation (fst (get_circuit_breaker True t1 w regA cs))"
    and "get_circuit_breaker True t2 w regB cs1 = (bB, regB')"
  shows "cb_state_raw bB = CbClosed \<and> cb_failures bB = 0 \<and> cb_generation bB = cb_generation bA"
proof -
  obtain r where load: "load_shared True t2 w cs1 = Some r"
    and r: "cb_state_raw r = CbClosed" "cb_failures r = 0" "cb_generation r = cb_generation bA"
    using reset_shares_closed[OF assms(1-5)] .
  show ?thesis
  proof (cases "rg_breakers regB w")
    case None
    with assms(7) load r show ?thesis by (simp add: get_circuit_breaker_def Let_def)
  next
    case (Some b0)
    have "cb_generation bA = cb_generation (fst (get_circuit_breaker True t1 w regA cs)) + 1"
      using reset_generation[of True t1 w regA cs _ _ bA regA' cs1] assms(5) by (metis prod.collapse)
    with assms(6) Some r have "cb_generation b0 < cb_generation r" by simp
    from refresh_newer[OF load this] Some assms(7) r show ?thesis
      by (auto simp: get_circuit_breaker_def Let_def)
  qed
qed

end
