(* ===== verification/Calendar.thy ===== *)
theory Calendar
  imports Prelude "HOL-Library.Char_ord" "HOL-Library.List_Lexorder"
begin

text \<open>
  What the scheduler uses of Python's datetime module: the proleptic Gregorian calendar, the
  one text form its store writes (\<open>norm_iso\<close> of kazma_core/cron/store.py) and the reader of ISO
  texts. An aware instant is its POSIX time, a \<open>real\<close>; a civil (naive) time is a day number, counted
  like \<open>date.toordinal\<close>, and the seconds of that day. Texts compare as SQLite compares them,
  by character codes.
\<close>

subsection \<open>Days\<close>

definition is_leap :: "int \<Rightarrow> bool" where
  "is_leap y \<longleftrightarrow> y mod 4 = 0 \<and> (y mod 100 \<noteq> 0 \<or> y mod 400 = 0)"

definition days_in_month :: "int \<Rightarrow> int \<Rightarrow> int" where
  "days_in_month y m = (if m = 2 then (if is_leap y then 29 else 28)
     else if m \<in> {4, 6, 9, 11} then 30 else 31)"

definition days_before_year :: "int \<Rightarrow> int" where
  "days_before_year y = (let p = y - 1 in p * 365 + p div 4 - p div 100 + p div 400)"

definition month_starts :: "int list" where
  "month_starts = [0, 31, 59, 90, 120, 151, 181, 212, 243, 273, 304, 334]"

definition days_before_month :: "int \<Rightarrow> int \<Rightarrow> int" where
  "days_before_month y m = month_starts ! nat (m - 1) + (if 2 < m \<and> is_leap y then 1 else 0)"

definition ymd2ord :: "int \<Rightarrow> int \<Rightarrow> int \<Rightarrow> int" where
  "ymd2ord y m d = days_before_year y + days_before_month y m + d"

definition valid_date :: "int \<Rightarrow> int \<Rightarrow> int \<Rightarrow> bool" where
  "valid_date y m d \<longleftrightarrow> 1 \<le> m \<and> m \<le> 12 \<and> 1 \<le> d \<and> d \<le> days_in_month y m"

text \<open>The month a day of the year lies in, the first of January being day 0.\<close>

definition month_of :: "bool \<Rightarrow> int \<Rightarrow> int" where
  "month_of leap n = (let l = (if leap then 1 else 0) in
     if n < 31 then 1 else if n < 59 + l then 2 else if n < 90 + l then 3
     else if n < 120 + l then 4 else if n < 151 + l then 5 else if n < 181 + l then 6
     else if n < 212 + l then 7 else if n < 243 + l then 8 else if n < 273 + l then 9
     else if n < 304 + l then 10 else if n < 334 + l then 11 else 12)"

definition ord2ymd :: "int \<Rightarrow> int \<times> int \<times> int" where
  "ord2ymd n =
     (let a = (n - 1) div 146097; r = (n - 1) mod 146097;
          b = min 3 (r div 36524); r2 = r - 36524 * b;
          c = r2 div 1461; r3 = r2 mod 1461;
          e = min 3 (r3 div 365); k = r3 - 365 * e;
          y = 400 * a + 100 * b + 4 * c + e + 1;
          m = month_of (is_leap y) k
      in (y, m, k - days_before_month y m + 1))"

text \<open>\<open>date.weekday()\<close>: Monday is 0.\<close>

definition weekday :: "int \<Rightarrow> nat" where
  "weekday n = nat ((n + 6) mod 7)"

lemma days_before_year_digits:
  assumes "0 \<le> b" "b \<le> 3" "0 \<le> c" "c \<le> 24" "0 \<le> e" "e \<le> 3"
  shows "days_before_year (400 * a + 100 * b + 4 * c + e + 1)
           = 146097 * a + 36524 * b + 1461 * c + 365 * e"
proof -
  have "(400 * a + 100 * b + 4 * c + e) div 4 = 100 * a + 25 * b + c"
    by (rule int_div_pos_eq[where r = e]) (use assms in \<open>simp_all add: algebra_simps\<close>)
  moreover have "(400 * a + 100 * b + 4 * c + e) div 100 = 4 * a + b"
    by (rule int_div_pos_eq[where r = "4 * c + e"]) (use assms in \<open>simp_all add: algebra_simps\<close>)
  moreover have "(400 * a + 100 * b + 4 * c + e) div 400 = a"
    by (rule int_div_pos_eq[where r = "100 * b + 4 * c + e"]) (use assms in \<open>simp_all add: algebra_simps\<close>)
  ultimately show ?thesis unfolding days_before_year_def Let_def by (simp add: algebra_simps)
qed

text \<open>When a number that is one below a bound is a multiple of it.\<close>

lemma succ_mod_eq_0:
  assumes "(x :: int) = b * q + r" "0 \<le> r" "r < b"
  shows "(x + 1) mod b = 0 \<longleftrightarrow> r = b - 1"
proof (cases "r = b - 1")
  case True
  then have "x + 1 = b * (q + 1)" using assms by (simp add: algebra_simps)
  then show ?thesis using True by simp
next
  case False
  then have "(x + 1) mod b = r + 1"
    by (intro int_mod_pos_eq[where q = q]) (use assms in auto)
  then show ?thesis using False assms by simp
qed

lemma is_leap_digits:
  assumes "0 \<le> b" "b \<le> 3" "0 \<le> c" "c \<le> 24" "0 \<le> e" "e \<le> 3"
  shows "is_leap (400 * a + 100 * b + 4 * c + e + 1) \<longleftrightarrow> e = 3 \<and> (c \<noteq> 24 \<or> b = 3)"
proof -
  let ?x = "400 * a + 100 * b + 4 * c + e"
  have "(?x + 1) mod 4 = 0 \<longleftrightarrow> e = 4 - 1"
    by (rule succ_mod_eq_0[where q = "100 * a + 25 * b + c"]) (use assms in \<open>simp_all add: algebra_simps\<close>)
  moreover have "(?x + 1) mod 100 = 0 \<longleftrightarrow> 4 * c + e = 100 - 1"
    by (rule succ_mod_eq_0[where q = "4 * a + b"]) (use assms in \<open>simp_all add: algebra_simps\<close>)
  moreover have "(?x + 1) mod 400 = 0 \<longleftrightarrow> 100 * b + 4 * c + e = 400 - 1"
    by (rule succ_mod_eq_0[where q = a]) (use assms in \<open>simp_all add: algebra_simps\<close>)
  ultimately show ?thesis unfolding is_leap_def using assms by auto
qed

lemma month_cases:
  "1 \<le> m \<Longrightarrow> m \<le> 12 \<Longrightarrow>
     m = (1::int) \<or> m = 2 \<or> m = 3 \<or> m = 4 \<or> m = 5 \<or> m = 6 \<or> m = 7 \<or> m = 8 \<or> m = 9 \<or> m = 10
     \<or> m = 11 \<or> m = 12"
  by arith

lemma days_before_month_eval:
  "days_before_month y 1 = 0" "days_before_month y 2 = 31"
  "days_before_month y 3 = (if is_leap y then 60 else 59)"
  "days_before_month y 4 = (if is_leap y then 91 else 90)"
  "days_before_month y 5 = (if is_leap y then 121 else 120)"
  "days_before_month y 6 = (if is_leap y then 152 else 151)"
  "days_before_month y 7 = (if is_leap y then 182 else 181)"
  "days_before_month y 8 = (if is_leap y then 213 else 212)"
  "days_before_month y 9 = (if is_leap y then 244 else 243)"
  "days_before_month y 10 = (if is_leap y then 274 else 273)"
  "days_before_month y 11 = (if is_leap y then 305 else 304)"
  "days_before_month y 12 = (if is_leap y then 335 else 334)"
  by (simp_all add: days_before_month_def month_starts_def eval_nat_numeral)

lemmas month_eval = days_before_month_eval days_in_month_def

lemma month_of_day:
  assumes "0 \<le> k" "k < (if is_leap y then 366 else 365)"
  defines "m \<equiv> month_of (is_leap y) k"
  shows "1 \<le> m \<and> m \<le> 12 \<and> days_before_month y m \<le> k
         \<and> k < days_before_month y m + days_in_month y m"
  using assms unfolding month_of_def Let_def
  by (cases "is_leap y") (simp_all add: month_eval)

text \<open>The day number of the date of a day is that day.\<close>

lemma ord2ymd_right:
  assumes "ord2ymd n = (y, m, d)"
  shows "ymd2ord y m d = n \<and> valid_date y m d"
proof -
  define a where "a = (n - 1) div 146097"
  define r where "r = (n - 1) mod 146097"
  define b where "b = min 3 (r div 36524)"
  define r2 where "r2 = r - 36524 * b"
  define c where "c = r2 div 1461"
  define r3 where "r3 = r2 mod 1461"
  define e where "e = min 3 (r3 div 365)"
  define k where "k = r3 - 365 * e"
  define y' where "y' = 400 * a + 100 * b + 4 * c + e + 1"
  have r: "0 \<le> r" "r < 146097" unfolding r_def by simp_all
  have b: "0 \<le> b" "b \<le> 3" "0 \<le> r2" "r2 \<le> 36524" "r2 = 36524 \<Longrightarrow> b = 3"
    using div_mult_mod_eq[of r 36524] pos_mod_bound[of 36524 r] pos_mod_sign[of 36524 r] r
    unfolding b_def r2_def by (auto simp: min_def split: if_splits)
  have c: "0 \<le> c" "c \<le> 24" using b unfolding c_def by auto
  have r3: "0 \<le> r3" "r3 < 1461" "r2 = 1461 * c + r3" unfolding r3_def c_def by simp_all
  have e: "0 \<le> e" "e \<le> 3" "0 \<le> k" "k < 366" "k = 365 \<Longrightarrow> e = 3 \<and> r3 = 1460"
    using div_mult_mod_eq[of r3 365] pos_mod_bound[of 365 r3] pos_mod_sign[of 365 r3] r3
    unfolding e_def k_def by (auto simp: min_def split: if_splits)
  have leap: "is_leap y' \<longleftrightarrow> e = 3 \<and> (c \<noteq> 24 \<or> b = 3)"
    unfolding y'_def by (rule is_leap_digits) (use b c e in auto)
  have k: "k < (if is_leap y' then 366 else 365)"
  proof (cases "k = 365")
    case True
    then have "e = 3" "r3 = 1460" using e by auto
    moreover have "c = 24 \<Longrightarrow> b = 3" using r3 \<open>r3 = 1460\<close> b by auto
    ultimately have "is_leap y'" unfolding leap by auto
    then show ?thesis using e by simp
  qed (use e in auto)
  have split: "ord2ymd n = (y', month_of (is_leap y') k,
      k - days_before_month y' (month_of (is_leap y') k) + 1)"
    unfolding ord2ymd_def Let_def y'_def k_def e_def r3_def c_def r2_def b_def r_def a_def
    by (rule refl)
  then have y: "y = y'" "m = month_of (is_leap y') k" "d = k - days_before_month y' m + 1"
    using assms by auto
  have "days_before_year y' = 146097 * a + 36524 * b + 1461 * c + 365 * e"
    unfolding y'_def by (rule days_before_year_digits) (use b c e in auto)
  moreover have "n - 1 = 146097 * a + r" unfolding a_def r_def by simp
  ultimately have "ymd2ord y m d = n"
    using r3 unfolding ymd2ord_def y r2_def k_def by simp
  moreover have "valid_date y m d"
    using month_of_day[OF e(3) k] unfolding valid_date_def y by auto
  ultimately show ?thesis by simp
qed

lemma div_pred:
  assumes "0 < (b :: int)"
  shows "y div b = (y - 1) div b + (if y mod b = 0 then 1 else 0)"
proof (cases "y mod b = 0")
  case True
  then have "y = b * (y div b)" using mult_div_mod_eq[of b y] by linarith
  moreover have "b * (y div b - 1) = b * (y div b) - b" by (simp only: right_diff_distrib mult_1_right)
  ultimately have "y - 1 = b * (y div b - 1) + (b - 1)" by linarith
  then have "(y - 1) div b = y div b - 1"
    by (rule int_div_pos_eq) (use assms in auto)
  then show ?thesis using True by simp
next
  case False
  have "0 \<le> y mod b" "y mod b < b" using assms by simp_all
  with False have "y - 1 = b * (y div b) + (y mod b - 1)" "0 \<le> y mod b - 1" "y mod b - 1 < b"
    using mult_div_mod_eq[of b y] by linarith+
  then have "(y - 1) div b = y div b" by (rule int_div_pos_eq)
  then show ?thesis using False by simp
qed

lemma leap_count:
  fixes a b c y :: int
  assumes "p100 \<Longrightarrow> p4" "p400 \<Longrightarrow> p100"
    and "a' = a + (if p4 then 1 else 0)" "b' = b + (if p100 then 1 else 0)"
    "c' = c + (if p400 then 1 else 0)"
  shows "y * 365 + a' - b' + c'
         = (y - 1) * 365 + a - b + c + (if p4 \<and> (\<not> p100 \<or> p400) then 366 else 365)"
  using assms by (cases p4; cases p100; cases p400) auto

lemma year_starts: "days_before_year (y + 1) = days_before_year y + (if is_leap y then 366 else 365)"
proof -
  have y: "days_before_year (y + 1) = y * 365 + y div 4 - y div 100 + y div 400"
    "days_before_year y = (y - 1) * 365 + (y - 1) div 4 - (y - 1) div 100 + (y - 1) div 400"
    by (simp_all only: days_before_year_def Let_def add_diff_cancel_right')
  show ?thesis
    unfolding y is_leap_def
  proof (rule leap_count)
    show "y mod 100 = 0 \<Longrightarrow> y mod 4 = 0" using dvd_trans[of 4 100 y] by (simp add: mod_eq_0_iff_dvd)
    show "y mod 400 = 0 \<Longrightarrow> y mod 100 = 0"
      using dvd_trans[of 100 400 y] by (simp add: mod_eq_0_iff_dvd)
  qed (intro div_pred zero_less_numeral)+
qed

lemma year_starts_mono: "y \<le> y' \<Longrightarrow> days_before_year y \<le> days_before_year y'"
  by (induction y' rule: int_ge_induct) (auto simp: year_starts)

lemma day_in_year:
  assumes "valid_date y m d"
  shows "days_before_year y < ymd2ord y m d" "ymd2ord y m d \<le> days_before_year (y + 1)"
proof -
  have m: "1 \<le> m" "m \<le> 12" "1 \<le> d" "d \<le> days_in_month y m"
    using assms unfolding valid_date_def by auto
  have "0 \<le> days_before_month y m
        \<and> days_before_month y m + days_in_month y m \<le> (if is_leap y then 366 else 365)"
    using month_cases[OF m(1,2)] by (elim disjE) (simp_all add: month_eval)
  then show "days_before_year y < ymd2ord y m d" "ymd2ord y m d \<le> days_before_year (y + 1)"
    using m unfolding ymd2ord_def year_starts by auto
qed

lemma month_starts_step:
  "1 \<le> m \<Longrightarrow> m \<le> 11 \<Longrightarrow> days_before_month y (m + 1) = days_before_month y m + days_in_month y m"
  using month_cases[of m] by (auto simp: month_eval)

lemma days_in_month_pos: "0 < days_in_month y m"
  by (simp add: days_in_month_def)

lemma month_starts_mono:
  assumes "1 \<le> m" "m < m'" "m' \<le> 12"
  shows "days_before_month y m + days_in_month y m \<le> days_before_month y m'"
proof -
  have "m + 1 \<le> m'" using assms by simp
  then show ?thesis
    using assms(1,3)
  proof (induction m' rule: int_ge_induct)
    case base
    then show ?case using month_starts_step[of m y] by simp
  next
    case (step i)
    then show ?case using month_starts_step[of i y] days_in_month_pos[of y i] by simp
  qed
qed

text \<open>Days are ordered as their dates are.\<close>

lemma ymd2ord_less:
  assumes "valid_date y m d" "valid_date y' m' d'"
    and "y < y' \<or> y = y' \<and> (m < m' \<or> m = m' \<and> d < d')"
  shows "ymd2ord y m d < ymd2ord y' m' d'"
proof (cases "y < y'")
  case True
  then have "days_before_year (y + 1) \<le> days_before_year y'" by (intro year_starts_mono) simp
  then show ?thesis using day_in_year(2)[OF assms(1)] day_in_year(1)[OF assms(2)] by simp
next
  case False
  then have eq: "y = y'" "m < m' \<or> m = m' \<and> d < d'" using assms by auto
  show ?thesis
  proof (cases "m < m'")
    case True
    then show ?thesis
      using month_starts_mono[of m m' y'] assms unfolding valid_date_def ymd2ord_def eq by auto
  qed (use eq in \<open>auto simp: ymd2ord_def\<close>)
qed

lemma ymd2ord_less_iff:
  assumes "valid_date y m d" "valid_date y' m' d'"
  shows "ymd2ord y m d < ymd2ord y' m' d' \<longleftrightarrow> y < y' \<or> y = y' \<and> (m < m' \<or> m = m' \<and> d < d')"
proof -
  consider "y < y' \<or> y = y' \<and> (m < m' \<or> m = m' \<and> d < d')" | "y = y' \<and> m = m' \<and> d = d'"
    | "y' < y \<or> y' = y \<and> (m' < m \<or> m' = m \<and> d' < d)" by linarith
  then show ?thesis
    by cases (use ymd2ord_less[OF assms] ymd2ord_less[OF assms(2,1)] in auto)
qed

lemma ord2ymd_left:
  assumes "valid_date y m d"
  shows "ord2ymd (ymd2ord y m d) = (y, m, d)"
proof -
  obtain y' m' d' where o: "ord2ymd (ymd2ord y m d) = (y', m', d')" by (cases "ord2ymd (ymd2ord y m d)")
  then have "ymd2ord y' m' d' = ymd2ord y m d" "valid_date y' m' d'"
    using ord2ymd_right by auto
  then have "y = y' \<and> m = m' \<and> d = d'"
    using ymd2ord_less_iff[OF assms, of y' m' d'] ymd2ord_less_iff[OF _ assms, of y' m' d'] by linarith
  then show ?thesis using o by simp
qed

subsection \<open>ISO texts\<close>

definition digit :: "int \<Rightarrow> char" where
  "digit k = char_of (48 + nat k)"

definition pad2 :: "int \<Rightarrow> string" where
  "pad2 n = [digit (n div 10), digit (n mod 10)]"

definition pad4 :: "int \<Rightarrow> string" where
  "pad4 n = pad2 (n div 100) @ pad2 (n mod 100)"

text \<open>The day number of 1970-01-01.\<close>

definition epoch_day :: int where
  "epoch_day = 719163"

definition date_text :: "int \<Rightarrow> string" where
  "date_text day = (case ord2ymd day of (y, m, d) \<Rightarrow> pad4 y @ ''-'' @ pad2 m @ ''-'' @ pad2 d)"

definition clock_text :: "int \<Rightarrow> string" where
  "clock_text s = pad2 (s div 3600) @ '':'' @ pad2 (s mod 3600 div 60) @ '':'' @ pad2 (s mod 60)"

text \<open>\<open>dt.astimezone(UTC).replace(microsecond=0).isoformat()\<close> of a whole second.\<close>

definition utc_text :: "int \<Rightarrow> string" where
  "utc_text t = date_text (t div 86400 + epoch_day) @ ''T'' @ clock_text (t mod 86400) @ ''+00:00''"

text \<open>Reading fixed fields: the value and the text after it.\<close>

fun two :: "string \<Rightarrow> (int \<times> string) option" where
  "two (a # b # s) = (if is_digit a \<and> is_digit b
     then Some (int (digits_nat [a, b]), s) else None)"
| "two _ = None"

fun lit :: "char \<Rightarrow> string \<Rightarrow> string option" where
  "lit c (x # s) = (if x = c then Some s else None)"
| "lit c [] = None"

text \<open>
  \<open>date.fromisoformat\<close> and \<open>datetime.fromisoformat\<close> in their extended forms; the forms without
  separators and the week dates are not read by this model.
\<close>

definition read_date :: "string \<Rightarrow> (int \<times> string) option" where
  "read_date s =
     (case two s of None \<Rightarrow> None | Some (c, s1) \<Rightarrow>
      case two s1 of None \<Rightarrow> None | Some (y, s2) \<Rightarrow>
      case lit (CHR ''-'') s2 of None \<Rightarrow> None | Some s3 \<Rightarrow>
      case two s3 of None \<Rightarrow> None | Some (m, s4) \<Rightarrow>
      case lit (CHR ''-'') s4 of None \<Rightarrow> None | Some s5 \<Rightarrow>
      case two s5 of None \<Rightarrow> None | Some (d, s6) \<Rightarrow>
      if 1 \<le> 100 * c + y \<and> valid_date (100 * c + y) m d
      then Some (ymd2ord (100 * c + y) m d, s6) else None)"

text \<open>The digits after the point of a second: at most six count.\<close>

definition read_fraction :: "string \<Rightarrow> (real \<times> string) option" where
  "read_fraction s =
     (let ds = takeWhile is_digit s in
      if ds = [] then None
      else Some (real (digits_nat (take 6 ds)) / 10 ^ length (take 6 ds), dropWhile is_digit s))"

text \<open>\<open>HH[:MM[:SS[.ffffff]]]\<close>.\<close>

definition read_clock :: "string \<Rightarrow> (real \<times> string) option" where
  "read_clock s =
     (case two s of None \<Rightarrow> None | Some (h, s1) \<Rightarrow>
      if 24 \<le> h then None else
      case lit (CHR '':'') s1 of None \<Rightarrow> Some (of_int (3600 * h), s1) | Some s2 \<Rightarrow>
      case two s2 of None \<Rightarrow> None | Some (m, s3) \<Rightarrow>
      if 60 \<le> m then None else
      case lit (CHR '':'') s3 of None \<Rightarrow> Some (of_int (3600 * h + 60 * m), s3) | Some s4 \<Rightarrow>
      case two s4 of None \<Rightarrow> None | Some (k, s5) \<Rightarrow>
      if 60 \<le> k then None else
      case lit (CHR ''.'') s5 of None \<Rightarrow> Some (of_int (3600 * h + 60 * m + k), s5) | Some s6 \<Rightarrow>
      case read_fraction s6 of None \<Rightarrow> None
      | Some (f, s7) \<Rightarrow> Some (of_int (3600 * h + 60 * m + k) + f, s7))"

text \<open>What follows the clock: nothing (a naive time), \<open>Z\<close>, or a signed offset.\<close>

definition read_offset :: "string \<Rightarrow> real option option" where
  "read_offset s =
     (case s of [] \<Rightarrow> Some None
      | c # s1 \<Rightarrow>
          if c = CHR ''Z'' then (if s1 = [] then Some (Some 0) else None)
          else if c = CHR ''+'' \<or> c = CHR ''-'' then
            (case read_clock s1 of
               Some (off, []) \<Rightarrow> Some (Some (if c = CHR ''+'' then off else - off))
             | _ \<Rightarrow> None)
          else None)"

record civil =
  c_day :: int
  c_secs :: real
  c_off :: "real option"

definition fromisoformat :: "string \<Rightarrow> civil option" where
  "fromisoformat s =
     (case read_date s of None \<Rightarrow> None | Some (day, rest) \<Rightarrow>
      case rest of [] \<Rightarrow> Some \<lparr>c_day = day, c_secs = 0, c_off = None\<rparr>
      | _ # s1 \<Rightarrow>
         (case read_clock s1 of None \<Rightarrow> None | Some (k, s2) \<Rightarrow>
          case read_offset s2 of None \<Rightarrow> None
          | Some off \<Rightarrow> Some \<lparr>c_day = day, c_secs = k, c_off = off\<rparr>))"

text \<open>The instant of a civil time; a naive one is read as UTC (\<open>dt.replace(tzinfo=UTC)\<close>).\<close>

definition instant_of :: "civil \<Rightarrow> real" where
  "instant_of c = of_int ((c_day c - epoch_day) * 86400) + c_secs c
     - (case c_off c of None \<Rightarrow> 0 | Some off \<Rightarrow> off)"

subsection \<open>The stored form of an instant\<close>

text \<open>\<open>norm_iso\<close> of an aware datetime and of a text; a text that cannot be read stays as it is.\<close>

definition norm_iso :: "real \<Rightarrow> string" where
  "norm_iso t = utc_text \<lfloor>t\<rfloor>"

definition norm_iso_text :: "string \<Rightarrow> string" where
  "norm_iso_text s = (if s = [] then [] else
     case fromisoformat s of None \<Rightarrow> s | Some c \<Rightarrow> norm_iso (instant_of c))"

text \<open>\<open>_parse\<close> of a stored text.\<close>

definition parse_instant :: "string \<Rightarrow> real option" where
  "parse_instant s = (if s = [] then None else map_option instant_of (fromisoformat s))"


subsection \<open>What is written is read back\<close>

lemma of_char_digit: "0 \<le> k \<Longrightarrow> k \<le> 9 \<Longrightarrow> of_char (digit k) = (48 + nat k :: nat)"
  by (simp add: digit_def)

lemma is_digit_digit [simp]: "0 \<le> k \<Longrightarrow> k \<le> 9 \<Longrightarrow> is_digit (digit k)"
  by (simp add: is_digit_def of_char_digit)

lemma pad2_digits: "0 \<le> (n :: int) \<Longrightarrow> n \<le> 99 \<Longrightarrow> 0 \<le> n div 10 \<and> n div 10 \<le> 9 \<and> 0 \<le> n mod 10 \<and> n mod 10 \<le> 9"
  by auto

lemma two_pad2 [simp]: "0 \<le> n \<Longrightarrow> n \<le> 99 \<Longrightarrow> two (pad2 n @ s) = Some (n, s)"
  using pad2_digits[of n] mult_div_mod_eq[of 10 n]
  by (simp add: pad2_def digits_nat_def of_char_digit)

lemma pad_length [simp]: "length (pad2 n) = 2" "length (pad4 n) = 4"
  by (simp_all add: pad2_def pad4_def)

lemma read_date_text:
  assumes "ord2ymd day = (y, m, d)" "1 \<le> y" "y \<le> 9999"
  shows "read_date (date_text day @ s) = Some (day, s)"
proof -
  have v: "valid_date y m d" "ymd2ord y m d = day" using ord2ymd_right[OF assms(1)] by auto
  then have "0 \<le> m" "m \<le> 99" "0 \<le> d" "d \<le> 99"
    unfolding valid_date_def days_in_month_def by (auto split: if_splits)
  moreover have "0 \<le> y div 100" "y div 100 \<le> 99" "0 \<le> y mod 100" "y mod 100 \<le> 99"
    using assms by auto
  ultimately show ?thesis
    using v assms unfolding read_date_def date_text_def by (simp add: pad4_def)
qed

lemma clock_fields:
  assumes "0 \<le> t" "t < (86400::int)"
  shows "0 \<le> t div 3600" "t div 3600 < 24" "0 \<le> t mod 3600 div 60" "t mod 3600 div 60 < 60"
    "0 \<le> t mod 60" "t mod 60 < 60" "3600 * (t div 3600) + 60 * (t mod 3600 div 60) + t mod 60 = t"
proof -
  have "t mod 3600 mod 60 = t mod 60" by (rule mod_mod_cancel) simp
  then show "3600 * (t div 3600) + 60 * (t mod 3600 div 60) + t mod 60 = t"
    using mult_div_mod_eq[of 3600 t] mult_div_mod_eq[of 60 "t mod 3600"] by linarith
qed (use assms in \<open>auto simp: div_int_pos_iff zdiv_mono_strict\<close>)

lemma read_clock_fields:
  assumes "0 \<le> h" "h < 24" "0 \<le> m" "m < 60" "0 \<le> k" "k < 60"
  shows "read_clock (pad2 h @ '':'' @ pad2 m @ '':'' @ pad2 k @ ''+'' @ s)
    = Some (of_int (3600 * h + 60 * m + k), ''+'' @ s)"
  using assms unfolding read_clock_def by simp

lemma read_clock_text:
  assumes "0 \<le> t" "t < 86400"
  shows "read_clock (clock_text t @ ''+'' @ s) = Some (of_int t, ''+'' @ s)"
  using read_clock_fields[OF clock_fields(1-6)[OF assms], of s]
  unfolding clock_text_def append_assoc clock_fields(7)[OF assms] .

lemma read_zero_offset: "read_offset ''+00:00'' = Some (Some 0)"
  by code_simp

text \<open>The years a datetime can hold.\<close>

definition in_years :: "int \<Rightarrow> bool" where
  "in_years t \<longleftrightarrow> days_before_year 1 < t div 86400 + epoch_day
     \<and> t div 86400 + epoch_day \<le> days_before_year 10000"

lemma in_years_ymd:
  assumes "in_years t" "ord2ymd (t div 86400 + epoch_day) = (y, m, d)"
  shows "1 \<le> y" "y \<le> 9999" "valid_date y m d"
proof -
  have o: "ymd2ord y m d = t div 86400 + epoch_day" and v: "valid_date y m d"
    using ord2ymd_right[OF assms(2)] by auto
  show "1 \<le> y"
  proof (rule ccontr)
    assume "\<not> 1 \<le> y"
    then have "days_before_year (y + 1) \<le> days_before_year 1" by (intro year_starts_mono) simp
    then show False using day_in_year(2)[OF v] o assms(1) unfolding in_years_def by simp
  qed
  show "y \<le> 9999"
  proof (rule ccontr)
    assume "\<not> y \<le> 9999"
    then have "days_before_year 10000 \<le> days_before_year y" by (intro year_starts_mono) simp
    then show False using day_in_year(1)[OF v] o assms(1) unfolding in_years_def by simp
  qed
  show "valid_date y m d" by (rule v)
qed

lemma fromisoformat_utc_text:
  assumes "in_years t"
  shows "fromisoformat (utc_text t)
    = Some \<lparr>c_day = t div 86400 + epoch_day, c_secs = of_int (t mod 86400), c_off = Some 0\<rparr>"
proof -
  obtain y m d where o: "ord2ymd (t div 86400 + epoch_day) = (y, m, d)"
    by (cases "ord2ymd (t div 86400 + epoch_day)")
  note y = in_years_ymd(1,2)[OF assms o]
  show ?thesis
    using read_date_text[OF o y, of "''T'' @ clock_text (t mod 86400) @ ''+00:00''"]
      read_clock_text[of "t mod 86400" "''00:00''"] read_zero_offset
    unfolding fromisoformat_def utc_text_def by simp
qed

lemma utc_text_not_Nil [simp]: "utc_text t \<noteq> []"
  by (simp add: utc_text_def)

text \<open>The instant read back from a stored text is the one written.\<close>

lemma parse_norm_iso:
  assumes "in_years \<lfloor>t\<rfloor>"
  shows "parse_instant (norm_iso t) = Some (of_int \<lfloor>t\<rfloor>)"
proof -
  have "of_int ((\<lfloor>t\<rfloor> div 86400) * 86400) + of_int (\<lfloor>t\<rfloor> mod 86400) = (of_int \<lfloor>t\<rfloor> :: real)"
    by (metis of_int_add div_mult_mod_eq)
  then show ?thesis
    using fromisoformat_utc_text[OF assms]
    unfolding parse_instant_def norm_iso_def instant_of_def by simp
qed


subsection \<open>Texts sort as instants\<close>

lemma append_less_append:
  fixes a b s t :: string
  shows "length a = length b \<Longrightarrow> a @ s < b @ t \<longleftrightarrow> a < b \<or> a = b \<and> s < t"
  by (induction a b rule: list_induct2) auto

lemma digit_less: "0 \<le> k \<Longrightarrow> k \<le> 9 \<Longrightarrow> 0 \<le> k' \<Longrightarrow> k' \<le> 9 \<Longrightarrow> digit k < digit k' \<longleftrightarrow> k < k'"
  by (simp add: less_char_def of_char_digit) linarith

lemma digit_eq: "0 \<le> k \<Longrightarrow> k \<le> 9 \<Longrightarrow> 0 \<le> k' \<Longrightarrow> k' \<le> 9 \<Longrightarrow> digit k = digit k' \<longleftrightarrow> k = k'"
  using digit_less[of k k'] digit_less[of k' k] by (metis less_irrefl linorder_neqE)

lemma pad2_eq:
  assumes "0 \<le> n" "n \<le> 99" "0 \<le> n'" "n' \<le> 99"
  shows "pad2 n = pad2 n' \<longleftrightarrow> n = n'"
proof
  assume "pad2 n = pad2 n'"
  then have "two (pad2 n @ []) = two (pad2 n' @ [])" by (simp only:)
  then show "n = n'"
    unfolding two_pad2[OF assms(1,2)] two_pad2[OF assms(3,4)] by (simp only: option.inject prod.inject)
qed (simp only:)

text \<open>Numbers compare first by quotient, then by remainder.\<close>

lemma less_div_mod:
  assumes "0 < (b :: int)"
  shows "n < n' \<longleftrightarrow> n div b < n' div b \<or> n div b = n' div b \<and> n mod b < n' mod b"
proof -
  have mono: "x \<le> y \<Longrightarrow> x div b \<le> y div b" for x y
    using assms by (intro zdiv_mono1)
  have eq: "x div b = y div b \<Longrightarrow> x - y = x mod b - y mod b" for x y
    by (metis add_diff_cancel_left mult_div_mod_eq)
  show ?thesis
    using mono[of n n'] mono[of n' n] eq[of n n'] by linarith
qed

lemma pad2_less:
  assumes "0 \<le> n" "n \<le> 99" "0 \<le> n'" "n' \<le> 99"
  shows "pad2 n < pad2 n' \<longleftrightarrow> n < n'"
proof -
  have "pad2 n < pad2 n' \<longleftrightarrow> n div 10 < n' div 10 \<or> n div 10 = n' div 10 \<and> n mod 10 < n' mod 10"
    using pad2_digits[OF assms(1,2)] pad2_digits[OF assms(3,4)]
    by (simp add: pad2_def digit_less digit_eq)
  then show ?thesis unfolding less_div_mod[of 10 n n', OF zero_less_numeral] .
qed

lemma pad4_less:
  assumes "0 \<le> n" "n \<le> 9999" "0 \<le> n'" "n' \<le> 9999"
  shows "pad4 n < pad4 n' \<longleftrightarrow> n < n'"
proof -
  have r: "0 \<le> n div 100" "n div 100 \<le> 99" "0 \<le> n mod 100" "n mod 100 \<le> 99"
    "0 \<le> n' div 100" "n' div 100 \<le> 99" "0 \<le> n' mod 100" "n' mod 100 \<le> 99"
    using assms by auto
  show ?thesis
    unfolding pad4_def append_less_append[OF pad_length(1)[THEN trans, OF pad_length(1)[symmetric]]]
      pad2_less[OF r(1,2,5,6)] pad2_eq[OF r(1,2,5,6)] pad2_less[OF r(3,4,7,8)]
    by (rule less_div_mod[symmetric]) simp
qed

lemma pad4_eq:
  assumes "0 \<le> n" "n \<le> 9999" "0 \<le> n'" "n' \<le> 9999"
  shows "pad4 n = pad4 n' \<longleftrightarrow> n = n'"
  using pad4_less[OF assms] pad4_less[OF assms(3,4,1,2)] by (metis less_irrefl linorder_neqE)

lemma date_text_cmp:
  assumes "ord2ymd a = (y, m, d)" "1 \<le> y" "y \<le> 9999" "ord2ymd a' = (y', m', d')" "1 \<le> y'" "y' \<le> 9999"
  shows "date_text a < date_text a' \<longleftrightarrow> a < a'" "date_text a = date_text a' \<longleftrightarrow> a = a'"
proof -
  have v: "valid_date y m d" "ymd2ord y m d = a" "valid_date y' m' d'" "ymd2ord y' m' d' = a'"
    using ord2ymd_right assms by auto
  then have r: "0 \<le> m" "m \<le> 99" "0 \<le> d" "d \<le> 99" "0 \<le> m'" "m' \<le> 99" "0 \<le> d'" "d' \<le> 99"
    unfolding valid_date_def days_in_month_def by (auto split: if_splits)
  have "date_text a < date_text a' \<longleftrightarrow> y < y' \<or> y = y' \<and> (m < m' \<or> m = m' \<and> d < d')"
    using r assms unfolding date_text_def
    by (simp add: append_less_append pad4_less pad4_eq pad2_less pad2_eq)
  then show "date_text a < date_text a' \<longleftrightarrow> a < a'"
    using ymd2ord_less_iff[OF v(1,3)] v by simp
  have "date_text a = date_text a' \<longleftrightarrow> y = y' \<and> m = m' \<and> d = d'"
    using r assms unfolding date_text_def by (simp add: append_eq_append_conv pad4_less pad4_eq pad2_eq)
  then show "date_text a = date_text a' \<longleftrightarrow> a = a'"
    using v ord2ymd_left assms by metis
qed

lemma date_text_length: "length (date_text a) = 10"
  by (simp add: date_text_def split: prod.split)

lemma clock_fields_less:
  fixes h m k h' m' k' :: int
  assumes "0 \<le> h" "h < 24" "0 \<le> m" "m < 60" "0 \<le> k" "k < 60"
    "0 \<le> h'" "h' < 24" "0 \<le> m'" "m' < 60" "0 \<le> k'" "k' < 60"
  shows "pad2 h @ '':'' @ pad2 m @ '':'' @ pad2 k < pad2 h' @ '':'' @ pad2 m' @ '':'' @ pad2 k'
    \<longleftrightarrow> 3600 * h + 60 * m + k < 3600 * h' + 60 * m' + k'"
proof -
  have "pad2 h @ '':'' @ pad2 m @ '':'' @ pad2 k < pad2 h' @ '':'' @ pad2 m' @ '':'' @ pad2 k'
    \<longleftrightarrow> h < h' \<or> h = h' \<and> (m < m' \<or> m = m' \<and> k < k')"
    using assms by (simp add: append_less_append pad2_less pad2_eq)
  also have "\<dots> \<longleftrightarrow> 3600 * h + 60 * m + k < 3600 * h' + 60 * m' + k'"
    using assms by linarith
  finally show ?thesis .
qed

lemma clock_text_less:
  assumes "0 \<le> t" "t < 86400" "0 \<le> t'" "t' < 86400"
  shows "clock_text t < clock_text t' \<longleftrightarrow> t < t'"
  using clock_fields_less[OF clock_fields(1-6)[OF assms(1,2)] clock_fields(1-6)[OF assms(3,4)]]
  unfolding clock_text_def clock_fields(7)[OF assms(1,2)] clock_fields(7)[OF assms(3,4)] .

lemma clock_text_length: "length (clock_text t) = 8"
  by (simp add: clock_text_def)

lemma append_same_end_less:
  fixes a b s :: string
  shows "length a = length b \<Longrightarrow> a @ s < b @ s \<longleftrightarrow> a < b"
  by (simp add: append_less_append)

text \<open>The stored texts of instants sort as SQLite sorts text exactly as the instants do.\<close>

lemma utc_text_sorts:
  assumes "in_years t" "in_years t'"
  shows "utc_text t < utc_text t' \<longleftrightarrow> t < t'"
proof -
  let ?a = "t div 86400 + epoch_day" and ?a' = "t' div 86400 + epoch_day"
  obtain y m d y' m' d' where o: "ord2ymd ?a = (y, m, d)" "ord2ymd ?a' = (y', m', d')"
    by (metis prod_cases3)
  note date = date_text_cmp[OF o(1) in_years_ymd(1,2)[OF assms(1) o(1)]
      o(2) in_years_ymd(1,2)[OF assms(2) o(2)]]
  have c: "0 \<le> t mod 86400" "t mod 86400 < 86400" "0 \<le> t' mod 86400" "t' mod 86400 < 86400" by simp_all
  have "utc_text t < utc_text t' \<longleftrightarrow> ?a < ?a' \<or> ?a = ?a' \<and> clock_text (t mod 86400) < clock_text (t' mod 86400)"
    unfolding utc_text_def
    by (simp add: append_less_append date date_text_length append_same_end_less clock_text_length)
  then show ?thesis
    unfolding clock_text_less[OF c] less_div_mod[of 86400 t t', OF zero_less_numeral] by simp
qed

end
