(* ===== verification/Recurrence.thy ===== *)
theory Recurrence
  imports Calendar Regex Interfaces
begin

text \<open>
  The time model of every scheduling path (kazma_core/cron/timing.py): what a timing text means,
  and which instants a recurrence names. An aware instant is its POSIX time. A time zone is
  outside the code (the tz database): it is a parameter, the offset it has at an instant and the
  offset by which it reads a wall time, for each fold. A wall time is counted in seconds of its own
  1970-01-01. A \<open>TimingError\<close> carries the reason here, not its wording; \<open>Overflow\<close> is the
  OverflowError of a datetime that leaves the years 1 to 9999.
\<close>

subsection \<open>Zones and instants\<close>

record zone =
  z_name :: string
  z_at :: "int \<Rightarrow> int"
  z_wall :: "bool \<Rightarrow> int \<Rightarrow> int"

definition utc_zone :: zone where
  "utc_zone = \<lparr>z_name = ''UTC'', z_at = (\<lambda>_. 0), z_wall = (\<lambda>_ _. 0)\<rparr>"

definition day_start :: "int \<Rightarrow> int" where
  "day_start day = (day - epoch_day) * 86400"

text \<open>\<open>t.astimezone(zone)\<close>: its wall time, and its date.\<close>

definition local_wall :: "zone \<Rightarrow> real \<Rightarrow> int" where
  "local_wall z t = \<lfloor>t\<rfloor> + z_at z \<lfloor>t\<rfloor>"

definition local_day :: "zone \<Rightarrow> real \<Rightarrow> int" where
  "local_day z t = local_wall z t div 86400 + epoch_day"

subsection \<open>Recurrences\<close>

datatype freq = Daily | Weekly

record recurrence =
  r_freq :: freq
  r_hour :: int
  r_minute :: int
  r_weekdays :: "nat list"
  r_until :: "int option"
  r_count :: "int option"
  r_tzid :: "string option"

text \<open>
  \<open>_instant\<close>: the wall time on a day, read with fold 0. The end date is the day whose last second
  the code stores.
\<close>

definition wall_of :: "recurrence \<Rightarrow> int \<Rightarrow> int" where
  "wall_of rec day = day_start day + 3600 * r_hour rec + 60 * r_minute rec"

definition rec_instant :: "recurrence \<Rightarrow> zone \<Rightarrow> int \<Rightarrow> int" where
  "rec_instant rec z day = wall_of rec day - z_wall z False (wall_of rec day)"

definition day_matches :: "recurrence \<Rightarrow> int \<Rightarrow> bool" where
  "day_matches rec day \<longleftrightarrow> r_freq rec = Daily \<or> weekday day \<in> set (r_weekdays rec)"

text \<open>
  \<open>_occurrences_through\<close>: the last day is one of the zone, so it is compared with the days tried
  as a wall time; the start is compared as an instant.
\<close>

definition counted :: "recurrence \<Rightarrow> zone \<Rightarrow> real \<Rightarrow> int \<Rightarrow> int \<Rightarrow> bool" where
  "counted rec z start final day \<longleftrightarrow> day_matches rec day \<and> start \<le> of_int (rec_instant rec z day) \<and> day \<le> final"

definition occurrences_through :: "recurrence \<Rightarrow> zone \<Rightarrow> real \<Rightarrow> int \<Rightarrow> nat" where
  "occurrences_through rec z start final =
     length (filter (counted rec z start final) [local_day z start - 1 .. final + 1])"

text \<open>The search of \<open>next_occurrence\<close>, day after day: at most the given number of days.\<close>

definition acceptable :: "recurrence \<Rightarrow> zone \<Rightarrow> real \<Rightarrow> real option \<Rightarrow> int \<Rightarrow> bool" where
  "acceptable rec z after start day \<longleftrightarrow> day_matches rec day \<and> after < of_int (rec_instant rec z day)
     \<and> (case start of None \<Rightarrow> True | Some s \<Rightarrow> s \<le> of_int (rec_instant rec z day))"

fun search_days :: "nat \<Rightarrow> (int \<Rightarrow> bool) \<Rightarrow> int \<Rightarrow> int option" where
  "search_days 0 ok day = None"
| "search_days (Suc n) ok day = (if ok day then Some day else search_days n ok (day + 1))"

definition next_in_zone :: "recurrence \<Rightarrow> zone \<Rightarrow> real \<Rightarrow> real option \<Rightarrow> real option" where
  "next_in_zone rec z after start =
     (case search_days 10 (acceptable rec z after start) (local_day z after - 1) of
        None \<Rightarrow> None
      | Some day \<Rightarrow>
          if (case r_until rec of None \<Rightarrow> False | Some u \<Rightarrow> u < day) then None
          else if (case (r_count rec, start) of
                     (Some n, Some s) \<Rightarrow> n < int (occurrences_through rec z s day) | _ \<Rightarrow> False)
          then None
          else Some (of_int (rec_instant rec z day)))"

datatype timing_error =
    TimeRequired | TooLong | BadRecurrence | BadClock | MinuteRange | HourRange | SayAmPm | BadWeekday
  | NoWeekday | BadEndDate | BadCount | CountRange | BadRRulePart | UnsupportedPart | BadInterval
  | BadFreq | BadByHour | BadByDay | NeedsByDay | UntilAndCount | UnknownZone | HorizonExceeded
  | NoOccurrence | TooSoon | BadTime | NotAWallTime | WallTimeTwice | InThePast | Overflow

text \<open>\<open>_zone_named\<close>: the zone of a name, by the tz database.\<close>

type_synonym tzdata = "string \<Rightarrow> zone option"

definition py_upper :: "string \<Rightarrow> string" where
  "py_upper = map (\<lambda>c. let n = of_char c :: nat in if 97 \<le> n \<and> n \<le> 122 then char_of (n - 32) else c)"

definition zone_named :: "tzdata \<Rightarrow> string \<Rightarrow> timing_error + zone" where
  "zone_named tz name =
     (let n = py_strip name in
      if n = [] \<or> py_upper n = ''UTC'' then Inr utc_zone
      else case tz n of None \<Rightarrow> Inl UnknownZone | Some z \<Rightarrow> Inr z)"

definition next_occurrence ::
  "tzdata \<Rightarrow> recurrence \<Rightarrow> zone \<Rightarrow> real \<Rightarrow> real option \<Rightarrow> timing_error + real option" where
  "next_occurrence tz rec z after start =
     (case r_tzid rec of
        None \<Rightarrow> Inr (next_in_zone rec z after start)
      | Some name \<Rightarrow>
          if name = [] then Inr (next_in_zone rec z after start)
          else case zone_named tz name of
            Inl e \<Rightarrow> Inl e
          | Inr z' \<Rightarrow> Inr (next_in_zone rec z' after start))"

text \<open>\<open>^\s*(daily|weekly|weekdays?|hourly|every\b|rrule:|freq=)\<close>, ignoring case.\<close>

definition RECURRING_HINT :: re where
  "RECURRING_HINT = seqs [Bol, Star (Cls is_blank),
     alts [Lit ''daily'', Lit ''weekly'', Seq (Lit ''weekday'') (Opt (Lit ''s'')), Lit ''hourly'',
           Seq (Lit ''every'') WordB, Lit ''rrule:'', Lit ''freq='']]"

definition looks_recurring :: "string \<Rightarrow> bool" where
  "looks_recurring text = re_search RECURRING_HINT text"

subsection \<open>The next occurrence\<close>

text \<open>
  What the tz database gives of a zone: offsets under 24 hours, as Python demands, and no clock
  change of more than 24 hours around a wall time (the largest one on record, Samoa's, is 24).
\<close>

definition zone_ok :: "zone \<Rightarrow> bool" where
  "zone_ok z \<longleftrightarrow> (\<forall>t. \<bar>z_at z t\<bar> < 86400) \<and> (\<forall>f w. \<bar>z_wall z f w\<bar> < 86400)
     \<and> (\<forall>f w t. \<bar>w - (t + z_at z t)\<bar> \<le> 259200 \<longrightarrow> \<bar>z_wall z f w - z_at z t\<bar> \<le> 86400)
     \<and> (\<forall>f w w'. \<bar>w - w'\<bar> \<le> 259200 \<longrightarrow> \<bar>z_wall z f w - z_wall z f w'\<bar> \<le> 86400)"

lemma zone_offsets: "zone_ok z \<Longrightarrow> \<bar>z_at z t\<bar> < 86400" "zone_ok z \<Longrightarrow> \<bar>z_wall z f w\<bar> < 86400"
  by (simp_all add: zone_ok_def)

lemma zone_near:
  "zone_ok z \<Longrightarrow> \<bar>w - (t + z_at z t)\<bar> \<le> 259200 \<Longrightarrow> \<bar>z_wall z f w - z_at z t\<bar> \<le> 86400"
  "zone_ok z \<Longrightarrow> \<bar>w - w'\<bar> \<le> 259200 \<Longrightarrow> \<bar>z_wall z f w - z_wall z f w'\<bar> \<le> 86400"
  by (simp_all add: zone_ok_def)

definition clock_ok :: "recurrence \<Rightarrow> bool" where
  "clock_ok rec \<longleftrightarrow> 0 \<le> r_hour rec \<and> r_hour rec \<le> 23 \<and> 0 \<le> r_minute rec \<and> r_minute rec \<le> 59"

lemma wall_in_day:
  "clock_ok rec \<Longrightarrow> day_start day \<le> wall_of rec day \<and> wall_of rec day < day_start (day + 1)"
  by (simp add: clock_ok_def wall_of_def day_start_def algebra_simps)

lemma day_start_mono: "day + n \<le> day' \<Longrightarrow> day_start day + 86400 * n \<le> day_start day'"
  by (simp add: day_start_def algebra_simps)

lemma local_day_wall: "day_start (local_day z t) \<le> local_wall z t \<and> local_wall z t < day_start (local_day z t + 1)"
proof -
  have "86400 * (local_wall z t div 86400) + local_wall z t mod 86400 = local_wall z t"
    "0 \<le> local_wall z t mod 86400" "local_wall z t mod 86400 < 86400" by simp_all
  then have "86400 * (local_wall z t div 86400) \<le> local_wall z t"
    "local_wall z t < 86400 + 86400 * (local_wall z t div 86400)" by linarith+
  then show ?thesis by (simp add: local_day_def day_start_def algebra_simps)
qed

text \<open>An occurrence two days before an instant's date has passed; one two days after it has not come.\<close>

lemma earlier_day_passed:
  assumes "zone_ok z" "clock_ok rec" "day + 2 \<le> local_day z t"
  shows "of_int (rec_instant rec z day) < t"
proof -
  let ?w = "wall_of rec day" and ?l = "local_wall z t"
  have w: "?w < day_start (day + 1)" using wall_in_day[OF assms(2)] by blast
  have far: "?w + 86400 < ?l" using w day_start_mono[of "day + 1" 1 "local_day z t"] assms(3) local_day_wall[of z t] by linarith
  have "z_at z \<lfloor>t\<rfloor> - z_wall z False ?w \<le> 86400 \<or> 259200 < ?l - ?w"
    using zone_near(1)[OF assms(1), of ?w "\<lfloor>t\<rfloor>" False] far unfolding local_wall_def by linarith
  moreover note off = zone_offsets(1)[OF assms(1), of "\<lfloor>t\<rfloor>"] zone_offsets(2)[OF assms(1), of False ?w]
  ultimately have "rec_instant rec z day < \<lfloor>t\<rfloor>"
    using far unfolding rec_instant_def local_wall_def by linarith
  then show ?thesis by linarith
qed

lemma later_day_to_come:
  assumes "zone_ok z" "clock_ok rec" "local_day z t + 2 \<le> day"
  shows "t < of_int (rec_instant rec z day)"
proof -
  let ?w = "wall_of rec day" and ?l = "local_wall z t"
  have w: "day_start day \<le> ?w" using wall_in_day[OF assms(2)] by blast
  have far: "?l + 86400 < ?w"
    using w day_start_mono[of "local_day z t + 1" 1 day] assms(3) local_day_wall[of z t] by linarith
  have "z_wall z False ?w - z_at z \<lfloor>t\<rfloor> \<le> 86400 \<or> 259200 < ?w - ?l"
    using zone_near(1)[OF assms(1), of ?w "\<lfloor>t\<rfloor>" False] far unfolding local_wall_def by linarith
  moreover note off = zone_offsets(1)[OF assms(1), of "\<lfloor>t\<rfloor>"] zone_offsets(2)[OF assms(1), of False ?w]
  ultimately have "\<lfloor>t\<rfloor> < rec_instant rec z day"
    using far unfolding rec_instant_def local_wall_def by linarith
  then show ?thesis by linarith
qed

text \<open>Occurrences come in the order of their days (two may fall together when a day is skipped).\<close>

lemma instants_in_day_order:
  assumes "zone_ok z" "clock_ok rec" "day \<le> day'"
  shows "rec_instant rec z day \<le> rec_instant rec z day'"
proof (cases "day = day'")
  case False
  let ?w = "wall_of rec day" and ?w' = "wall_of rec day'"
  have far: "?w + 86400 \<le> ?w'"
    using day_start_mono[of day 1 day'] assms(3) False by (simp add: wall_of_def)
  have "z_wall z False ?w' - z_wall z False ?w \<le> 86400 \<or> 259200 < ?w' - ?w"
    using zone_near(2)[OF assms(1), of ?w' ?w False] far by linarith
  moreover note off = zone_offsets(2)[OF assms(1), of False ?w] zone_offsets(2)[OF assms(1), of False ?w']
  ultimately show ?thesis using far unfolding rec_instant_def by linarith
qed simp

lemma search_days_Some:
  "search_days n ok d = Some day \<Longrightarrow> ok day \<and> d \<le> day \<and> day < d + int n \<and> (\<forall>e. d \<le> e \<and> e < day \<longrightarrow> \<not> ok e)"
proof (induction n arbitrary: d)
  case (Suc n)
  show ?case
  proof (cases "ok d")
    case False
    with Suc.prems have "search_days n ok (d + 1) = Some day" by simp
    from Suc.IH[OF this] have ih: "ok day" "d + 1 \<le> day" "day < d + 1 + int n"
      "\<And>e. d + 1 \<le> e \<Longrightarrow> e < day \<Longrightarrow> \<not> ok e" by auto
    have "\<not> ok e" if "d \<le> e" "e < day" for e
      using that False ih(4)[of e] by (cases "e = d") auto
    then show ?thesis using ih by auto
  next
    case True
    with Suc.prems have "day = d" by simp
    then show ?thesis using True by auto
  qed
qed simp

lemma search_days_None: "search_days n ok d = None \<Longrightarrow> d \<le> e \<Longrightarrow> e < d + int n \<Longrightarrow> \<not> ok e"
proof (induction n arbitrary: d)
  case (Suc n)
  then show ?case by (cases "e = d") (auto split: if_splits)
qed simp

definition weekdays_ok :: "recurrence \<Rightarrow> bool" where
  "weekdays_ok rec \<longleftrightarrow> r_freq rec = Daily \<or> r_weekdays rec \<noteq> [] \<and> (\<forall>d \<in> set (r_weekdays rec). d < 7)"

text \<open>Every run of seven days holds one the recurrence names.\<close>

lemma weekday_within:
  assumes "k < 7"
  shows "\<exists>day. d \<le> day \<and> day < d + 7 \<and> weekday day = k"
proof -
  let ?x = "(int k - (d + 6)) mod 7"
  have "(d + ?x + 6) mod 7 = (d + 6 + (int k - (d + 6)) mod 7) mod 7" by (simp add: algebra_simps)
  also have "\<dots> = (d + 6 + (int k - (d + 6))) mod 7" by (rule mod_add_right_eq)
  also have "\<dots> = int k" using assms by simp
  finally have "weekday (d + ?x) = k" by (simp add: weekday_def)
  moreover have "0 \<le> ?x" "?x < 7" by simp_all
  ultimately show ?thesis by (intro exI[of _ "d + ?x"]) linarith
qed

lemma matches_within:
  assumes "weekdays_ok rec"
  shows "\<exists>day. d \<le> day \<and> day < d + 7 \<and> day_matches rec day"
proof (cases "r_freq rec")
  case Daily
  then show ?thesis by (intro exI[of _ d]) (simp add: day_matches_def)
next
  case Weekly
  then obtain k where "k \<in> set (r_weekdays rec)" "k < 7"
    using assms by (cases "r_weekdays rec") (auto simp: weekdays_ok_def)
  then show ?thesis using weekday_within[of k d] by (auto simp: day_matches_def)
qed

lemma ten_days_suffice:
  assumes "zone_ok z" "clock_ok rec" "weekdays_ok rec" "\<And>s. start = Some s \<Longrightarrow> s \<le> after"
  shows "search_days 10 (acceptable rec z after start) (local_day z after - 1) \<noteq> None"
proof
  assume none: "search_days 10 (acceptable rec z after start) (local_day z after - 1) = None"
  obtain day where day: "local_day z after + 2 \<le> day" "day < local_day z after + 9" "day_matches rec day"
    using matches_within[OF assms(3), of "local_day z after + 2"] by auto
  have "after < of_int (rec_instant rec z day)" by (rule later_day_to_come[OF assms(1,2) day(1)])
  then have "acceptable rec z after start day"
    using day(3) assms(4) by (auto simp: acceptable_def split: option.split)
  then show False using search_days_None[OF none, of day] day by simp
qed

lemma next_in_zoneD:
  assumes "next_in_zone rec z after start = Some t"
  obtains day where "acceptable rec z after start day" "t = of_int (rec_instant rec z day)"
    "local_day z after - 1 \<le> day" "\<And>e. local_day z after - 1 \<le> e \<Longrightarrow> e < day \<Longrightarrow> \<not> acceptable rec z after start e"
    "\<And>u. r_until rec = Some u \<Longrightarrow> day \<le> u"
    "\<And>n s. r_count rec = Some n \<Longrightarrow> start = Some s \<Longrightarrow> int (occurrences_through rec z s day) \<le> n"
proof -
  from assms obtain day where d: "search_days 10 (acceptable rec z after start) (local_day z after - 1) = Some day"
    unfolding next_in_zone_def by (auto split: option.splits)
  with assms have t: "t = of_int (rec_instant rec z day)" "\<And>u. r_until rec = Some u \<Longrightarrow> day \<le> u"
    "\<And>n s. r_count rec = Some n \<Longrightarrow> start = Some s \<Longrightarrow> int (occurrences_through rec z s day) \<le> n"
    unfolding next_in_zone_def by (auto split: option.splits if_splits)
  show ?thesis
    using search_days_Some[OF d] t by (intro that[of day]) auto
qed

interpretation rec_series: series "\<lambda>after. next_in_zone rec z after start" for rec z start
  by unfold_locales (erule next_in_zoneD, simp add: acceptable_def)

lemma next_occurrence_is_the_earliest_parts:
  assumes "zone_ok z" "clock_ok rec" "next_in_zone rec z after start = Some t"
  shows "after < t" and "\<exists>day. day_matches rec day \<and> t = of_int (rec_instant rec z day)"
    and "\<forall>day. acceptable rec z after start day \<longrightarrow> t \<le> of_int (rec_instant rec z day)"
proof -
  obtain day where day: "acceptable rec z after start day" "t = of_int (rec_instant rec z day)"
    "local_day z after - 1 \<le> day" "\<And>e. local_day z after - 1 \<le> e \<Longrightarrow> e < day \<Longrightarrow> \<not> acceptable rec z after start e"
    using next_in_zoneD[OF assms(3)] by metis
  show "after < t" "\<exists>day. day_matches rec day \<and> t = of_int (rec_instant rec z day)"
    using day(1,2) by (auto simp: acceptable_def)
  show "\<forall>day. acceptable rec z after start day \<longrightarrow> t \<le> of_int (rec_instant rec z day)"
  proof (intro allI impI)
    fix e assume e: "acceptable rec z after start e"
    have "\<not> e + 2 \<le> local_day z after"
      using earlier_day_passed[OF assms(1,2), of e after] e by (auto simp: acceptable_def)
    then have "\<not> e < day" using day(4)[of e] e by auto
    then show "t \<le> of_int (rec_instant rec z e)"
      using instants_in_day_order[OF assms(1,2), of day e] day(2) by simp
  qed
qed


text \<open>A recurrence with neither an end date nor a count never runs out: ten days always hold its next
  occurrence, whatever the clock changes.\<close>

theorem unlimited_recurrence_goes_on:
  assumes "zone_ok z" "clock_ok rec" "weekdays_ok rec" "r_until rec = None" "r_count rec = None"
    and "case start of None \<Rightarrow> True | Some s \<Rightarrow> s \<le> after"
  shows "\<exists>t. next_in_zone rec z after start = Some t \<and> after < t"
proof -
  have "search_days 10 (acceptable rec z after start) (local_day z after - 1) \<noteq> None"
    by (rule ten_days_suffice[OF assms(1-3)]) (use assms(6) in simp)
  then obtain t where "next_in_zone rec z after start = Some t"
    using assms(4,5) by (auto simp: next_in_zone_def)
  then show ?thesis using rec_series.nxt_later by blast
qed

lemma last_is_greatest:
  fixes fs :: "real list"
  shows "sorted_wrt (<) fs \<Longrightarrow> f \<in> set fs \<Longrightarrow> f \<le> last fs"
proof (induction fs)
  case (Cons a fs)
  then show ?case by (cases "fs = []") (auto intro: less_imp_le)
qed simp

lemma fires_within_count:
  assumes "zone_ok z" "clock_ok rec" "r_count rec = Some n"
    and "fs = fires_of (\<lambda>after. next_in_zone rec z after (Some s)) k t" "fs \<noteq> []"
  shows "int (length fs) \<le> n"
proof -
  have "\<exists>day. day_matches rec day \<and> s \<le> of_int (rec_instant rec z day) \<and> f = of_int (rec_instant rec z day)
        \<and> int (occurrences_through rec z s day) \<le> n" if "f \<in> set fs" for f
    using rec_series.fires_are_nxt[of f rec z "Some s" k t] that assms(3)
    unfolding assms(4) by (auto elim!: next_in_zoneD simp: acceptable_def)
  then obtain day_of where day: "\<And>f. f \<in> set fs \<Longrightarrow> day_matches rec (day_of f)
        \<and> s \<le> of_int (rec_instant rec z (day_of f)) \<and> f = of_int (rec_instant rec z (day_of f))
        \<and> int (occurrences_through rec z s (day_of f)) \<le> n" by metis
  have sorted: "sorted_wrt (<) fs" using rec_series.fires_sorted[of t rec z "Some s" k] assms(4) by simp
  let ?u = "last fs"
  have u: "?u \<in> set fs" using assms(5) by simp
  have last: "f \<le> ?u" if "f \<in> set fs" for f
    by (rule last_is_greatest[OF sorted that])
  have in_count: "day_of f \<in> set (filter (counted rec z s (day_of ?u)) [local_day z s - 1 .. day_of ?u + 1])"
    if f: "f \<in> set fs" for f
  proof -
    have "\<not> day_of f + 2 \<le> local_day z s"
      using earlier_day_passed[OF assms(1,2), of "day_of f" s] day[OF f] by auto
    moreover have "day_of f \<le> day_of ?u"
    proof (rule ccontr)
      assume "\<not> ?thesis"
      then have "rec_instant rec z (day_of ?u) \<le> rec_instant rec z (day_of f)"
        by (intro instants_in_day_order[OF assms(1,2)]) simp
      then have "?u \<le> f" using day[OF f] day[OF u] by simp
      then have "f = ?u" using last[OF f] by simp
      with \<open>\<not> ?thesis\<close> show False by simp
    qed
    ultimately show ?thesis using day[OF f] by (simp add: counted_def)
  qed
  have "inj_on day_of (set fs)" by (rule inj_onI) (metis day)
  moreover have "distinct fs" using sorted strict_sorted_iff by auto
  ultimately have "length fs = card (day_of ` set fs)" by (simp add: card_image distinct_card)
  also have "\<dots> \<le> card (set (filter (counted rec z s (day_of ?u)) [local_day z s - 1 .. day_of ?u + 1]))"
    by (rule card_mono, rule finite_set, rule image_subsetI, rule in_count)
  also have "\<dots> \<le> occurrences_through rec z s (day_of ?u)"
    unfolding occurrences_through_def by (rule card_length)
  finally show ?thesis using day[OF u] by linarith
qed

lemma counted_recurrence_fires_at_most_count_parts:
  assumes "zone_ok z" "clock_ok rec" "r_count rec = Some n" "0 \<le> n"
  shows "int (length (fires_of (\<lambda>after. next_in_zone rec z after (Some s)) k t)) \<le> n"
    and "sorted_wrt (<) (t # fires_of (\<lambda>after. next_in_zone rec z after (Some s)) k t)"
proof -
  show "int (length (fires_of (\<lambda>after. next_in_zone rec z after (Some s)) k t)) \<le> n"
    using fires_within_count[OF assms(1-3) refl, of s k t] assms(4)
    by (cases "fires_of (\<lambda>after. next_in_zone rec z after (Some s)) k t = []") auto
qed (rule rec_series.fires_sorted)

text \<open>A recurrence with a count fires at most that often from the start of its series, each time
  later than the time before.\<close>

theorem counted_recurrence_fires_at_most_count:
  assumes "zone_ok z" "clock_ok rec" "r_count rec = Some n" "0 \<le> n"
  shows "(int (length (fires_of (\<lambda>after. next_in_zone rec z after (Some s)) k t)) \<le> n)
    \<and> (sorted_wrt (<) (t # fires_of (\<lambda>after. next_in_zone rec z after (Some s)) k t))"
  by (intro conjI counted_recurrence_fires_at_most_count_parts[OF assms])

definition nine_daily :: recurrence where
  "nine_daily = \<lparr>r_freq = Daily, r_hour = 9, r_minute = 0, r_weekdays = [], r_until = None,
     r_count = None, r_tzid = None\<rparr>"

lemma nine_daily_ok: "zone_ok utc_zone" "clock_ok nine_daily" "weekdays_ok nine_daily"
  by (simp_all add: zone_ok_def utc_zone_def clock_ok_def nine_daily_def weekdays_ok_def)

lemma nine_daily_next: "next_in_zone nine_daily utc_zone 0 None = Some 32400"
  by (simp add: next_in_zone_def eval_nat_numeral acceptable_def day_matches_def rec_instant_def
      wall_of_def day_start_def local_day_def local_wall_def nine_daily_def utc_zone_def)


end
