(* ===== verification/CronStore.thy ===== *)
theory CronStore
  imports Recurrence "HOL-Library.AList"
begin

text \<open>
  The scheduler's store (kazma_core/cron/store.py): jobs, the outbox of their messages, the outbox
  of ops alerts and the event history, four tables of one SQLite database. The state is the rows of
  each table in id order and the AUTOINCREMENT counters; every operation is one transaction, so it
  is a function of the whole state. An operation reads the clock once here, \<open>ts\<close>. A stored instant
  is its text; \<open>advance\<close>, the next occurrence of a recurring timing, is passed in by the scheduler
  as it is in the code. Rows that tie in an ORDER BY are read in id order. A job's pending edit is
  the parsed JSON object, the empty one when there is none.
\<close>

subsection \<open>Rows\<close>

datatype job_status =
    JPending | JRunning | JDelivering | JDone | JFailed | JCancelled | JUndeliverable
  | JDeliveryUnknown | JMissed

fun status_value :: "job_status \<Rightarrow> string" where
  "status_value JPending = ''pending''"
| "status_value JRunning = ''running''"
| "status_value JDelivering = ''delivering''"
| "status_value JDone = ''done''"
| "status_value JFailed = ''failed''"
| "status_value JCancelled = ''cancelled''"
| "status_value JUndeliverable = ''undeliverable''"
| "status_value JDeliveryUnknown = ''delivery_unknown''"
| "status_value JMissed = ''missed''"

definition TERMINAL_STATUSES :: "job_status list" where
  "TERMINAL_STATUSES = [JDone, JFailed, JCancelled, JUndeliverable, JMissed, JDeliveryUnknown]"

definition ACTIVE_STATUSES :: "job_status list" where
  "ACTIVE_STATUSES = [JPending, JRunning, JDelivering]"

type_synonym edit = "(string \<times> string) list"

record job =
  j_id :: string
  j_timing :: string
  j_prompt :: string
  j_platform :: string
  j_thread :: string
  j_status :: job_status
  j_created :: string
  j_next :: "string option"
  j_last_result :: "string option"
  j_tenant :: string
  j_target :: string
  j_failures :: nat
  j_kind :: string
  j_caps :: string
  j_version :: int
  j_owner :: string
  j_lease :: real
  j_attempt :: nat
  j_due :: string
  j_edit :: edit
  j_cancel :: bool
  j_finished :: string
  j_outcome :: string
  j_last_fire :: string
  j_delivery :: string
  j_derror :: string
  j_catchup :: nat
  j_series :: string
  j_created_by :: string
  j_updated_by :: string
  j_source :: string

text \<open>The defaults of the dataclass.\<close>

definition scheduled_job :: "string \<Rightarrow> string \<Rightarrow> string \<Rightarrow> string \<Rightarrow> string \<Rightarrow> string \<Rightarrow> job" where
  "scheduled_job jid timing prompt platform thread created =
     \<lparr>j_id = jid, j_timing = timing, j_prompt = prompt, j_platform = platform, j_thread = thread,
      j_status = JPending, j_created = created, j_next = None, j_last_result = None,
      j_tenant = ''default'', j_target = [], j_failures = 0, j_kind = ''task'', j_caps = ''read'',
      j_version = 1, j_owner = [], j_lease = 0, j_attempt = 0, j_due = [], j_edit = [],
      j_cancel = False, j_finished = [], j_outcome = [], j_last_fire = [], j_delivery = [],
      j_derror = [], j_catchup = 0, j_series = [], j_created_by = [], j_updated_by = [],
      j_source = []\<rparr>"

text \<open>The platform a job delivers to, and the job as lists, tool results and the page show it.\<close>

definition destination_label :: "string \<Rightarrow> string \<Rightarrow> string" where
  "destination_label target platform =
     (let t = py_strip target in
      if CHR '':'' \<in> set t then takeWhile (\<lambda>c. c \<noteq> CHR '':'') t else py_strip platform)"

definition opt_str :: "string option \<Rightarrow> pyval" where
  "opt_str v = (case v of None \<Rightarrow> PNone | Some s \<Rightarrow> PStr s)"

definition job_to_dict :: "job \<Rightarrow> pydict" where
  "job_to_dict j =
     [(''job_id'', PStr (j_id j)), (''timing'', PStr (j_timing j)), (''prompt'', PStr (j_prompt j)),
      (''platform'', PStr (j_platform j)),
      (''destination'', PStr (destination_label (j_target j) (j_platform j))),
      (''thread_id'', PStr (j_thread j)), (''status'', PStr (status_value (j_status j))),
      (''created_at'', PStr (j_created j)), (''next_run'', opt_str (j_next j)),
      (''last_result'', case j_last_result j of None \<Rightarrow> PNone
         | Some t \<Rightarrow> if t = [] then PNone else PStr (take 500 t)),
      (''last_outcome'', PStr (j_outcome j)), (''last_fire_at'', PStr (j_last_fire j)),
      (''delivery_state'', PStr (j_delivery j)), (''delivery_error'', PStr (j_derror j)),
      (''finished_at'', PStr (j_finished j)), (''tenant_id'', PStr (j_tenant j)),
      (''failure_count'', PInt (int (j_failures j))), (''kind'', PStr (j_kind j)),
      (''capabilities'', PStr (j_caps j)), (''version'', PInt (j_version j)),
      (''edit_pending'', PBool (j_edit j \<noteq> [])), (''cancel_pending'', PBool (j_cancel j)),
      (''created_by'', PStr (j_created_by j)), (''updated_by'', PStr (j_updated_by j)),
      (''source'', PStr (j_source j))]"

datatype delivery_state = DPending | DSending | DDelivered | DUndeliverable | DUnknown | DCancelled

fun delivery_value :: "delivery_state \<Rightarrow> string" where
  "delivery_value DPending = ''pending''"
| "delivery_value DSending = ''sending''"
| "delivery_value DDelivered = ''delivered''"
| "delivery_value DUndeliverable = ''undeliverable''"
| "delivery_value DUnknown = ''unknown''"
| "delivery_value DCancelled = ''cancelled''"

record delivery =
  d_id :: nat
  d_job :: string
  d_tenant :: string
  d_key :: string
  d_purpose :: string
  d_target :: string
  d_body :: string
  d_due :: string
  d_state :: delivery_state
  d_attempts :: nat
  d_next :: real
  d_owner :: string
  d_lease :: real
  d_error :: string
  d_created :: real
  d_finished :: "real option"
  d_alerted :: bool

record cron_alert =
  a_id :: nat
  a_dedupe :: string
  a_job :: string
  a_key :: string
  a_title :: string
  a_detail :: string
  a_severity :: string
  a_created :: real
  a_attempts :: nat
  a_next :: real
  a_error :: string
  a_sent :: "real option"

record cron_event =
  v_id :: nat
  v_job :: string
  v_at :: real
  v_event :: string
  v_actor :: string
  v_source :: string
  v_detail :: pydict

record cron =
  jobs :: "job list"
  deliveries :: "delivery list"
  alerts :: "cron_alert list"
  cron_events :: "cron_event list"
  delivery_seq :: nat
  alert_seq :: nat
  event_seq :: nat

definition empty_cron :: cron where
  "empty_cron = \<lparr>jobs = [], deliveries = [], alerts = [], cron_events = [],
     delivery_seq = 0, alert_seq = 0, event_seq = 0\<rparr>"

definition DELIVERY_MAX_ATTEMPTS :: nat where "DELIVERY_MAX_ATTEMPTS = 6"

definition DELIVERY_DEADLINE_S :: real where "DELIVERY_DEADLINE_S = 2 * 3600"

definition DELIVERY_LEASE_S :: real where "DELIVERY_LEASE_S = 60"

definition delivery_backoff :: "nat \<Rightarrow> real" where
  "delivery_backoff attempts = real (min 900 (30 * 2 ^ (attempts - 1)))"

record fire_result =
  f_success :: bool
  f_outcome :: string
  f_text :: string
  f_body :: string
  f_target :: string
  f_purpose :: string
  f_budget :: int
  f_lateness :: real

subsection \<open>What the operations share\<close>

definition set_job :: "string \<Rightarrow> (job \<Rightarrow> job) \<Rightarrow> cron \<Rightarrow> cron" where
  "set_job jid f c = c\<lparr>jobs := map (\<lambda>j. if j_id j = jid then f j else j) (jobs c)\<rparr>"

definition set_delivery :: "nat \<Rightarrow> (delivery \<Rightarrow> delivery) \<Rightarrow> cron \<Rightarrow> cron" where
  "set_delivery i f c = c\<lparr>deliveries := map (\<lambda>d. if d_id d = i then f d else d) (deliveries c)\<rparr>"

text \<open>\<open>_row\<close> and \<open>get\<close>: another tenant's id reads like an unknown one; a blank tenant is no filter.\<close>

definition job_row :: "cron \<Rightarrow> string \<Rightarrow> string \<Rightarrow> job option" where
  "job_row c jid tenant = find (\<lambda>j. j_id j = jid \<and> (tenant = [] \<or> j_tenant j = tenant)) (jobs c)"

definition add_event ::
  "real \<Rightarrow> string \<Rightarrow> string \<Rightarrow> string \<Rightarrow> string \<Rightarrow> pydict \<Rightarrow> cron \<Rightarrow> nat \<times> cron" where
  "add_event ts jid event actor src detail c =
     (let i = event_seq c + 1 in
      (i, c\<lparr>cron_events := cron_events c @
              [\<lparr>v_id = i, v_job = jid, v_at = ts, v_event = event, v_actor = actor,
                v_source = src, v_detail = detail\<rparr>],
            event_seq := i\<rparr>))"

text \<open>\<open>INSERT OR IGNORE\<close> on the unique fire key: the id of the row when one was added.\<close>

definition queue_delivery ::
  "real \<Rightarrow> string \<Rightarrow> string \<Rightarrow> string \<Rightarrow> string \<Rightarrow> string \<Rightarrow> string \<Rightarrow> string \<Rightarrow> cron
     \<Rightarrow> nat option \<times> cron" where
  "queue_delivery ts jid tenant key purpose target body due c =
     (if key \<in> d_key ` set (deliveries c) then (None, c)
      else let i = delivery_seq c + 1 in
        (Some i, c\<lparr>deliveries := deliveries c @
           [\<lparr>d_id = i, d_job = jid, d_tenant = tenant, d_key = key, d_purpose = purpose,
             d_target = target, d_body = body, d_due = due, d_state = DPending, d_attempts = 0,
             d_next = 0, d_owner = [], d_lease = 0, d_error = [], d_created = ts,
             d_finished = None, d_alerted = False\<rparr>],
           delivery_seq := i\<rparr>))"

record alert_text =
  t_key :: string
  t_title :: string
  t_detail :: string
  t_severity :: string

definition enqueue_alert ::
  "real \<Rightarrow> string \<Rightarrow> string \<Rightarrow> alert_text \<Rightarrow> nat option \<Rightarrow> cron \<Rightarrow> cron" where
  "enqueue_alert ts dedupe jid text did c =
     (let c1 = (if dedupe \<in> a_dedupe ` set (alerts c) then c
        else let i = alert_seq c + 1 in
          c\<lparr>alerts := alerts c @
             [\<lparr>a_id = i, a_dedupe = dedupe, a_job = jid, a_key = t_key text,
               a_title = take 500 (t_title text), a_detail = take 1000 (t_detail text),
               a_severity = t_severity text, a_created = ts, a_attempts = 0, a_next = 0,
               a_error = [], a_sent = None\<rparr>],
            alert_seq := i\<rparr>)
      in case did of None \<Rightarrow> c1 | Some i \<Rightarrow> set_delivery i (\<lambda>d. d\<lparr>d_alerted := True\<rparr>) c1)"

text \<open>The ops alert a fire's end needs, and the one of a message that ended unsent.\<close>

definition fire_alert ::
  "string \<Rightarrow> fire_result \<Rightarrow> string \<Rightarrow> nat \<Rightarrow> job_status \<Rightarrow> bool \<Rightarrow> alert_text option" where
  "fire_alert jid r timing failures status exhausted =
     (if f_success r then None
      else let text = take 200 (f_text r) in
        if exhausted then Some
          \<lparr>t_key = ''cron.job_failed'',
           t_title = ''Scheduled job '' @ jid @ '' failed '' @ nat_str failures
             @ '' times in a row and stopped'',
           t_detail = f_outcome r @ '': '' @ text @ '' | Timing: '' @ timing,
           t_severity = ''error''\<rparr>
        else if failures = 1 \<or> status = JFailed then Some
          \<lparr>t_key = ''cron.job_failure'',
           t_title = ''Scheduled job '' @ jid @ '' failed ('' @ f_outcome r @ '')'',
           t_detail = text @ '' | Timing: '' @ timing, t_severity = ''warn''\<rparr>
        else None)"

definition delivery_dedupe :: "nat \<Rightarrow> string" where
  "delivery_dedupe i = ''delivery:'' @ nat_str i"

definition delivery_alert :: "string \<Rightarrow> delivery_state \<Rightarrow> string \<Rightarrow> string \<Rightarrow> alert_text" where
  "delivery_alert jid st purpose error =
     (if st = DUnknown then
        \<lparr>t_key = ''cron.delivery_unknown'',
         t_title = ''A scheduled message for job '' @ jid @ '' may not have arrived'',
         t_detail = ''Kazma stopped while sending it; check the chat. It is not resent.'',
         t_severity = ''warn''\<rparr>
      else
        \<lparr>t_key = ''cron.delivery_failed'',
         t_title = ''A scheduled message for job '' @ jid @ '' was not delivered'',
         t_detail = purpose @ '': '' @ take 200 (if error = [] then ''no delivery target'' else error),
         t_severity = ''error''\<rparr>)"

subsection \<open>Reads\<close>

definition list_active :: "cron \<Rightarrow> job list" where
  "list_active c = filter (\<lambda>j. j_status j \<in> set ACTIVE_STATUSES) (jobs c)"

text \<open>\<open>ORDER BY key DESC\<close>.\<close>

definition sort_desc :: "('a \<Rightarrow> 'b::linorder) \<Rightarrow> 'a list \<Rightarrow> 'a list" where
  "sort_desc key xs = rev (sort_key key (rev xs))"

definition limit_rows :: "nat option \<Rightarrow> 'a list \<Rightarrow> 'a list" where
  "limit_rows n xs = (case n of None \<Rightarrow> xs | Some k \<Rightarrow> take k xs)"

definition list_all_jobs :: "string \<Rightarrow> nat option \<Rightarrow> cron \<Rightarrow> job list" where
  "list_all_jobs tenant n c =
     limit_rows n (sort_desc j_created (filter (\<lambda>j. tenant = [] \<or> j_tenant j = tenant) (jobs c)))"

definition due_jobs :: "real \<Rightarrow> nat \<Rightarrow> cron \<Rightarrow> job list" where
  "due_jobs now limit c =
     take limit (sort_key (\<lambda>j. the (j_next j))
       (filter (\<lambda>j. j_status j = JPending
          \<and> (case j_next j of None \<Rightarrow> False | Some n \<Rightarrow> n \<noteq> [] \<and> n \<le> norm_iso now)) (jobs c)))"

definition list_running :: "cron \<Rightarrow> job list" where
  "list_running c = filter (\<lambda>j. j_status j = JRunning) (jobs c)"

definition count_jobs :: "string option \<Rightarrow> string \<Rightarrow> cron \<Rightarrow> nat" where
  "count_jobs tenant thread c =
     length (filter (\<lambda>j. j_status j \<in> set ACTIVE_STATUSES
       \<and> (case tenant of None \<Rightarrow> True | Some t \<Rightarrow> j_tenant j = t)
       \<and> (thread = [] \<or> j_thread j = thread)) (jobs c))"

definition sibling_delivery_target :: "string \<Rightarrow> cron \<Rightarrow> string" where
  "sibling_delivery_target thread c =
     (if py_strip thread = [] then []
      else case sort_desc j_created (filter (\<lambda>j. j_thread j = thread \<and> CHR '':'' \<in> set (j_target j)) (jobs c))
        of [] \<Rightarrow> []
         | j # _ \<Rightarrow> let cand = py_strip (j_target j) in if CHR '':'' \<in> set cand then cand else [])"

subsection \<open>Booking and the operator's actions\<close>

text \<open>The primary key is refused: None.\<close>

definition insert_job :: "real \<Rightarrow> job \<Rightarrow> cron \<Rightarrow> cron option" where
  "insert_job ts j c =
     (let j1 = (if j_status j \<in> set TERMINAL_STATUSES \<and> j_finished j = []
                then j\<lparr>j_finished := norm_iso ts\<rparr> else j);
          next_run = (case j_next j1 of None \<Rightarrow> [] | Some n \<Rightarrow> norm_iso_text n);
          j2 = j1\<lparr>j_next := (if next_run = [] then None else Some next_run)\<rparr>
      in if j_id j \<in> j_id ` set (jobs c) then None
         else Some (snd (add_event ts (j_id j) ''created'' (j_created_by j) (j_source j)
           [(''timing'', PStr (j_timing j)), (''kind'', PStr (j_kind j)),
            (''capabilities'', PStr (j_caps j))]
           (c\<lparr>jobs := jobs c @ [j2]\<rparr>))))"

definition update_delivery_target :: "string \<Rightarrow> string \<Rightarrow> cron \<Rightarrow> cron" where
  "update_delivery_target jid target c = set_job jid (\<lambda>j. j\<lparr>j_target := py_strip target\<rparr>) c"

definition stale_version :: "int option \<Rightarrow> job \<Rightarrow> bool" where
  "stale_version expected j = (case expected of None \<Rightarrow> False | Some v \<Rightarrow> j_version j \<noteq> v)"

definition touched :: "string \<Rightarrow> job \<Rightarrow> job" where
  "touched actor j = j\<lparr>j_version := j_version j + 1, j_updated_by := actor\<rparr>"

definition cancel_deliveries :: "real \<Rightarrow> string \<Rightarrow> cron \<Rightarrow> cron" where
  "cancel_deliveries ts jid c = c\<lparr>deliveries := map (\<lambda>d.
     if d_job d = jid \<and> d_state d = DPending then d\<lparr>d_state := DCancelled, d_finished := Some ts\<rparr>
     else d) (deliveries c)\<rparr>"

definition cancel_job ::
  "real \<Rightarrow> string \<Rightarrow> string \<Rightarrow> int option \<Rightarrow> string \<Rightarrow> string \<Rightarrow> cron \<Rightarrow> string \<times> cron" where
  "cancel_job ts jid tenant expected actor src c =
     (case job_row c jid tenant of
        None \<Rightarrow> (''not_found'', c)
      | Some j \<Rightarrow>
          if stale_version expected j then (''conflict'', c)
          else case j_status j of
            JPending \<Rightarrow>
              (''cancelled'', snd (add_event ts jid ''cancel'' actor src []
                 (set_job jid (\<lambda>j. touched actor (j\<lparr>j_status := JCancelled,
                    j_finished := norm_iso ts, j_outcome := ''cancelled''\<rparr>)) c)))
          | JRunning \<Rightarrow>
              (''cancel_pending'', snd (add_event ts jid ''cancel_recorded'' actor src []
                 (set_job jid (\<lambda>j. touched actor (j\<lparr>j_cancel := True\<rparr>)) c)))
          | JDelivering \<Rightarrow>
              (''cancelled'', snd (add_event ts jid ''cancel'' actor src []
                 (set_job jid (\<lambda>j. touched actor (j\<lparr>j_status := JCancelled,
                    j_finished := norm_iso ts, j_outcome := ''cancelled'', j_delivery := ''cancelled''\<rparr>))
                   (cancel_deliveries ts jid c))))
          | _ \<Rightarrow> (''not_cancellable'', c))"

definition opt_entry :: "string \<Rightarrow> string option \<Rightarrow> edit" where
  "opt_entry k v = (case v of None \<Rightarrow> [] | Some x \<Rightarrow> [(k, x)])"

text \<open>The columns an edit names.\<close>

definition edit_change ::
  "string option \<Rightarrow> string option \<Rightarrow> string option \<Rightarrow> string option \<Rightarrow> edit" where
  "edit_change timing prompt next_run series_start =
     (let n = (case next_run of None \<Rightarrow> [] | Some t \<Rightarrow> norm_iso_text t) in
      opt_entry ''timing'' timing @ opt_entry ''prompt'' prompt
      @ opt_entry ''next_run'' (if n = [] then None else Some n)
      @ opt_entry ''series_start'' series_start)"

definition edited :: "edit \<Rightarrow> string \<Rightarrow> string \<Rightarrow> string" where
  "edited ed k old = (case map_of ed k of None \<Rightarrow> old | Some v \<Rightarrow> v)"

definition set_columns :: "edit \<Rightarrow> job \<Rightarrow> job" where
  "set_columns ed j = j\<lparr>j_timing := edited ed ''timing'' (j_timing j),
     j_prompt := edited ed ''prompt'' (j_prompt j),
     j_next := (case map_of ed ''next_run'' of None \<Rightarrow> j_next j | Some v \<Rightarrow> Some v),
     j_series := edited ed ''series_start'' (j_series j)\<rparr>"

definition update_job ::
  "real \<Rightarrow> string \<Rightarrow> string option \<Rightarrow> string option \<Rightarrow> string option \<Rightarrow> string option \<Rightarrow> string
     \<Rightarrow> int option \<Rightarrow> string \<Rightarrow> string \<Rightarrow> cron \<Rightarrow> string \<times> cron" where
  "update_job ts jid timing prompt next_run series_start tenant expected actor src c =
     (if timing = None \<and> prompt = None then (''unchanged'', c)
      else case job_row c jid tenant of
        None \<Rightarrow> (''not_found'', c)
      | Some j \<Rightarrow>
          if stale_version expected j then (''conflict'', c)
          else
            let change = edit_change timing prompt next_run series_start;
                detail = [(''timing'', case timing of None \<Rightarrow> PNone | Some t \<Rightarrow> PStr t),
                          (''prompt_changed'', PBool (prompt \<noteq> None))]
            in case j_status j of
              JPending \<Rightarrow>
                (''rescheduled'', snd (add_event ts jid ''edit'' actor src detail
                   (set_job jid (\<lambda>j. touched actor (set_columns change j)) c)))
            | JRunning \<Rightarrow>
                (''edit_pending'', snd (add_event ts jid ''edit_recorded'' actor src detail
                   (set_job jid (\<lambda>j. touched actor
                      (j\<lparr>j_edit := foldl (\<lambda>m (k, v). AList.update k v m) (j_edit j) change\<rparr>)) c)))
            | _ \<Rightarrow> (''not_editable'', c))"

definition restore_job ::
  "real \<Rightarrow> string \<Rightarrow> string \<Rightarrow> string \<Rightarrow> string \<Rightarrow> string \<Rightarrow> int option \<Rightarrow> string \<Rightarrow> string \<Rightarrow> cron
     \<Rightarrow> string \<times> cron" where
  "restore_job ts jid timing next_run series_start tenant expected actor src c =
     (case job_row c jid tenant of
        None \<Rightarrow> (''not_found'', c)
      | Some j \<Rightarrow>
          if stale_version expected j then (''conflict'', c)
          else if j_status j \<notin> set TERMINAL_STATUSES then (''not_finished'', c)
          else (''restored'', snd (add_event ts jid ''restored'' actor src [(''timing'', PStr timing)]
            (set_job jid (\<lambda>j. touched actor (j\<lparr>j_status := JPending, j_timing := timing,
               j_next := Some (norm_iso_text next_run), j_series := series_start, j_failures := 0,
               j_finished := [], j_edit := [], j_cancel := False\<rparr>)) c))))"

subsection \<open>The fire record\<close>

definition claim_job :: "real \<Rightarrow> string \<Rightarrow> string \<Rightarrow> real \<Rightarrow> int option \<Rightarrow> cron \<Rightarrow> bool \<times> cron" where
  "claim_job ts jid owner lease expected c =
     (if list_ex (\<lambda>j. j_id j = jid \<and> j_status j = JPending \<and> \<not> stale_version expected j) (jobs c)
      then (True, snd (add_event ts jid ''fire_claimed'' [] ''scheduler'' [(''owner'', PStr owner)]
        (set_job jid (\<lambda>j. j\<lparr>j_status := JRunning, j_owner := owner, j_lease := ts + max 1 lease,
           j_attempt := (if Some (j_due j) = j_next j then j_attempt j + 1 else 1),
           j_due := (case j_next j of None \<Rightarrow> [] | Some n \<Rightarrow> n)\<rparr>) c)))
      else (False, c))"

definition release_fire :: "real \<Rightarrow> string \<Rightarrow> string \<Rightarrow> string \<Rightarrow> cron \<Rightarrow> bool \<times> cron" where
  "release_fire ts jid owner reason c =
     (if list_ex (\<lambda>j. j_id j = jid \<and> j_status j = JRunning \<and> j_owner j = owner) (jobs c)
      then (True, snd (add_event ts jid ''fire_interrupted_retry'' [] ''scheduler''
        [(''reason'', PStr reason)]
        (set_job jid (\<lambda>j. j\<lparr>j_status := JPending, j_owner := [], j_lease := 0,
           j_next := (if j_due j \<noteq> [] then Some (j_due j) else j_next j)\<rparr>) c)))
      else (False, c))"

record fire_end =
  n_status :: job_status
  n_delivery :: "nat option"
  n_failures :: nat
  n_exhausted :: bool
  n_next :: string
  n_due :: string
  n_cancelled :: bool

definition or_else :: "string \<Rightarrow> string \<Rightarrow> string" where
  "or_else a b = (if a = [] then b else a)"

type_synonym advance = "string \<Rightarrow> real \<Rightarrow> string \<Rightarrow> real option"

text \<open>
  Where a fire's end leaves its job: the status, whether it finished, the next instant, and whether
  a failure budget ran out.
\<close>

record fate =
  x_status :: job_status
  x_finished :: bool
  x_next :: "real option"
  x_exhausted :: bool

definition fire_fate ::
  "fire_result \<Rightarrow> bool \<Rightarrow> edit \<Rightarrow> string \<Rightarrow> real option \<Rightarrow> nat \<Rightarrow> nat option \<Rightarrow> fate" where
  "fire_fate r cancel ed timing recurring_next failures did =
     (let to = (\<lambda>st fin nxt. \<lparr>x_status = st, x_finished = fin, x_next = nxt, x_exhausted = False\<rparr>) in
      if cancel then to JCancelled True None
      else case map_of ed ''next_run'' of
        Some n \<Rightarrow> to JPending False (parse_instant n)
      | None \<Rightarrow>
          if recurring_next \<noteq> None \<or> looks_recurring timing then
            if \<not> f_success r \<and> max 1 (f_budget r) \<le> int failures
            then (to JFailed True None)\<lparr>x_exhausted := True\<rparr>
            else if recurring_next = None then to JDone True None
            else to JPending False recurring_next
          else if f_success r then
            if did \<noteq> None then to JDelivering False None else to JDone True None
          else to JFailed True None)"

definition opt_id :: "nat option \<Rightarrow> pyval" where
  "opt_id i = (case i of None \<Rightarrow> PNone | Some n \<Rightarrow> PInt (int n))"

definition opt_text :: "string option \<Rightarrow> string" where
  "opt_text v = (case v of None \<Rightarrow> [] | Some t \<Rightarrow> t)"

definition fire_key :: "string \<Rightarrow> string \<Rightarrow> string \<Rightarrow> string" where
  "fire_key jid due purpose = jid @ '':'' @ due @ '':'' @ purpose"

definition due_text :: "job \<Rightarrow> string" where
  "due_text j = or_else (j_due j) (opt_text (j_next j))"

text \<open>The message of a fire, unless its cancellation was recorded.\<close>

definition fire_message :: "real \<Rightarrow> job \<Rightarrow> fire_result \<Rightarrow> cron \<Rightarrow> nat option \<times> cron" where
  "fire_message ts j r c =
     (if f_body r \<noteq> [] \<and> \<not> j_cancel j
      then queue_delivery ts (j_id j) (j_tenant j) (fire_key (j_id j) (due_text j) (f_purpose r))
             (f_purpose r) (f_target r) (take 4000 (f_body r)) (due_text j) c
      else (None, c))"

text \<open>The timing, prompt and series start after the recorded edit.\<close>

definition merged :: "string \<Rightarrow> string \<Rightarrow> job \<Rightarrow> string" where
  "merged k old j = or_else (edited (j_edit j) k []) old"

definition fire_failures :: "fire_result \<Rightarrow> job \<Rightarrow> nat" where
  "fire_failures r j = (if f_success r then 0 else j_failures j + 1)"

definition fate_of :: "fire_result \<Rightarrow> advance \<Rightarrow> real \<Rightarrow> nat option \<Rightarrow> job \<Rightarrow> fate" where
  "fate_of r advance now did j =
     (let timing = merged ''timing'' (j_timing j) j;
          due_dt = (case parse_instant (due_text j) of None \<Rightarrow> now | Some d \<Rightarrow> d)
      in fire_fate r (j_cancel j) (j_edit j) timing
           (advance timing (max now due_dt) (merged ''series_start'' (j_series j) j))
           (fire_failures r j) did)"

definition fired_job :: "fire_result \<Rightarrow> advance \<Rightarrow> real \<Rightarrow> nat option \<Rightarrow> job \<Rightarrow> job" where
  "fired_job r advance now did j =
     (let fate = fate_of r advance now did j in
      j\<lparr>j_status := x_status fate,
        j_next := (case x_next fate of Some n \<Rightarrow> Some (norm_iso n) | None \<Rightarrow> j_next j),
        j_timing := merged ''timing'' (j_timing j) j, j_prompt := merged ''prompt'' (j_prompt j) j,
        j_series := merged ''series_start'' (j_series j) j,
        j_edit := [], j_cancel := False, j_owner := [], j_lease := 0, j_due := [],
        j_last_result := Some (take 5000 (f_text r)), j_outcome := f_outcome r,
        j_last_fire := norm_iso now, j_failures := fire_failures r j,
        j_finished := (if x_finished fate then norm_iso now else []),
        j_delivery := (if did \<noteq> None then ''pending''
                       else if f_success r then [] else j_delivery j),
        j_derror := []\<rparr>)"

definition fire_detail :: "fire_result \<Rightarrow> job_status \<Rightarrow> string \<Rightarrow> nat option \<Rightarrow> nat \<Rightarrow> pydict" where
  "fire_detail r st due did failures =
     [(''outcome'', PStr (f_outcome r)), (''status'', PStr (status_value st)), (''due'', PStr due),
      (''delivery_id'', opt_id did), (''failures'', PInt (int failures)),
      (''lateness_s'', PFloat (round_tenth (max 0 (f_lateness r))))]"

definition finish_fire ::
  "real \<Rightarrow> string \<Rightarrow> string \<Rightarrow> fire_result \<Rightarrow> advance \<Rightarrow> real \<Rightarrow> cron \<Rightarrow> fire_end option \<times> cron" where
  "finish_fire ts jid owner r advance now c =
     (case job_row c jid [] of
        None \<Rightarrow> (None, c)
      | Some j \<Rightarrow>
          if j_status j \<noteq> JRunning \<or> j_owner j \<noteq> owner then (None, c)
          else
            let q = fire_message ts j r c; did = fst q;
                fate = fate_of r advance now did j; failures = fire_failures r j;
                c2 = set_job jid (fired_job r advance now did) (snd q);
                ev = add_event ts jid ''fire_finished'' [] ''scheduler''
                       (fire_detail r (x_status fate) (due_text j) did failures) c2;
                c4 = (case fire_alert jid r (j_timing j) failures (x_status fate) (x_exhausted fate) of
                        None \<Rightarrow> snd ev
                      | Some text \<Rightarrow> enqueue_alert ts (''fire:'' @ nat_str (fst ev)) jid text None (snd ev))
            in (Some \<lparr>n_status = x_status fate, n_delivery = did, n_failures = failures,
                      n_exhausted = x_exhausted fate,
                      n_next = (case x_next fate of None \<Rightarrow> [] | Some n \<Rightarrow> norm_iso n),
                      n_due = due_text j, n_cancelled = j_cancel j\<rparr>, c4))"

record missed_end =
  m_status :: job_status
  m_delivery :: "nat option"
  m_due :: string
  m_next :: string

text \<open>\<open>str(row["next_run"])\<close>.\<close>

definition next_text :: "job \<Rightarrow> string" where
  "next_text j = (case j_next j of None \<Rightarrow> ''None'' | Some n \<Rightarrow> n)"

definition missed_job :: "real option \<Rightarrow> real \<Rightarrow> job \<Rightarrow> job" where
  "missed_job nxt now j =
     (case nxt of
        Some n \<Rightarrow> j\<lparr>j_next := Some (norm_iso n), j_outcome := ''missed'', j_last_fire := norm_iso now\<rparr>
      | None \<Rightarrow> j\<lparr>j_status := JMissed, j_outcome := ''missed'', j_finished := norm_iso now,
          j_last_result := Some (''Missed: due '' @ next_text j @ '' while Kazma was not running.'')\<rparr>)"

definition mark_missed ::
  "real \<Rightarrow> string \<Rightarrow> string \<Rightarrow> string \<Rightarrow> string \<Rightarrow> advance \<Rightarrow> real \<Rightarrow> cron \<Rightarrow> missed_end option \<times> cron" where
  "mark_missed ts jid expected_next notice target advance now c =
     (case job_row c jid [] of
        None \<Rightarrow> (None, c)
      | Some j \<Rightarrow>
          if j_status j \<noteq> JPending \<or> next_text j \<noteq> expected_next then (None, c)
          else
            let due = next_text j;
                q = queue_delivery ts jid (j_tenant j) (fire_key jid due ''missed'') ''missed''
                      target (take 4000 notice) due c;
                nxt = advance (j_timing j) now (j_series j);
                status = (if nxt = None then JMissed else JPending);
                c2 = set_job jid (missed_job nxt now) (snd q);
                c3 = snd (add_event ts jid ''missed'' [] ''scheduler''
                  [(''due'', PStr due), (''delivery_id'', opt_id (fst q)),
                   (''status'', PStr (status_value status))] c2)
            in (Some \<lparr>m_status = status, m_delivery = fst q, m_due = due,
                      m_next = (case nxt of None \<Rightarrow> [] | Some n \<Rightarrow> norm_iso n)\<rparr>, c3))"

subsection \<open>The delivery outbox\<close>

definition claim_delivery :: "real \<Rightarrow> string \<Rightarrow> nat option \<Rightarrow> cron \<Rightarrow> delivery option \<times> cron" where
  "claim_delivery ts owner did c =
     (case find (\<lambda>d. (case did of None \<Rightarrow> True | Some i \<Rightarrow> d_id d = i)
              \<and> d_state d = DPending \<and> d_next d \<le> ts) (deliveries c) of
        None \<Rightarrow> (None, c)
      | Some d \<Rightarrow>
          (Some (d\<lparr>d_attempts := d_attempts d + 1, d_state := DSending\<rparr>),
           set_delivery (d_id d) (\<lambda>d. d\<lparr>d_state := DSending, d_owner := owner,
             d_lease := ts + DELIVERY_LEASE_S, d_attempts := d_attempts d + 1\<rparr>) c))"

definition end_delivering :: "real \<Rightarrow> job_status \<Rightarrow> job \<Rightarrow> job" where
  "end_delivering ts st j = (if j_status j = JDelivering
     then j\<lparr>j_status := st, j_finished := norm_iso ts\<rparr> else j)"

definition refused_for_good :: "real \<Rightarrow> delivery \<Rightarrow> bool" where
  "refused_for_good ts d \<longleftrightarrow> d_target d = [] \<or> DELIVERY_MAX_ATTEMPTS \<le> d_attempts d
     \<or> DELIVERY_DEADLINE_S \<le> ts - d_created d"

definition send_state :: "real \<Rightarrow> bool \<Rightarrow> delivery \<Rightarrow> delivery_state" where
  "send_state ts delivered d = (if delivered then DDelivered
     else if refused_for_good ts d then DUndeliverable else DPending)"

definition answered_row :: "real \<Rightarrow> bool \<Rightarrow> string \<Rightarrow> delivery \<Rightarrow> delivery" where
  "answered_row ts delivered error d =
     (let st = send_state ts delivered d in
      if delivered then d\<lparr>d_state := st, d_finished := Some ts, d_owner := [], d_lease := 0, d_error := []\<rparr>
      else d\<lparr>d_state := st, d_next := ts + delivery_backoff (d_attempts d),
             d_finished := (if st = DUndeliverable then Some ts else None), d_owner := [],
             d_lease := 0, d_error := take 500 error\<rparr>)"

text \<open>What the job records of its message.\<close>

definition answered_job :: "real \<Rightarrow> delivery_state \<Rightarrow> string \<Rightarrow> string \<Rightarrow> job \<Rightarrow> job" where
  "answered_job ts st purpose error j =
     (if st = DDelivered then
        if purpose = ''result'' then
          (end_delivering ts JDone j)\<lparr>j_delivery := ''delivered'', j_derror := [],
             j_outcome := (if j_outcome j \<in> {''delivering'', ''delivered''} then ''delivered''
                           else j_outcome j)\<rparr>
        else j\<lparr>j_delivery := ''delivered''\<rparr>
      else if st = DUndeliverable then
        (end_delivering ts JUndeliverable j)\<lparr>j_delivery := ''undeliverable'',
           j_derror := take 500 error, j_outcome := ''undeliverable''\<rparr>
      else j\<lparr>j_delivery := ''retrying'', j_derror := take 500 error\<rparr>)"

definition finish_delivery ::
  "real \<Rightarrow> nat \<Rightarrow> string \<Rightarrow> bool \<Rightarrow> string \<Rightarrow> cron \<Rightarrow> delivery option \<times> cron" where
  "finish_delivery ts i owner delivered error c =
     (case find (\<lambda>d. d_id d = i \<and> d_state d = DSending \<and> d_owner d = owner) (deliveries c) of
        None \<Rightarrow> (None, c)
      | Some d \<Rightarrow>
          let jid = d_job d; st = send_state ts delivered d;
              c1 = set_delivery i (answered_row ts delivered error) c;
              c2 = set_job jid (answered_job ts st (d_purpose d) error) c1;
              c3 = (if st = DUndeliverable then
                      enqueue_alert ts (delivery_dedupe i) jid
                        (delivery_alert jid DUndeliverable (d_purpose d) (take 500 error)) (Some i) c2
                    else c2);
              c4 = snd (add_event ts jid (''delivery_'' @ delivery_value st) [] ''scheduler''
                [(''delivery_id'', PInt (int i)), (''attempt'', PInt (int (d_attempts d))),
                 (''purpose'', PStr (d_purpose d)), (''error'', PStr (take 200 error))] c3)
          in (Some (d\<lparr>d_state := st\<rparr>), c4))"

text \<open>
  Sends a dead sender claimed. \<open>live\<close> are the ids the owner is sending now. The rows are read
  first, then each is ended.
\<close>

definition abandoned :: "string \<Rightarrow> real \<Rightarrow> nat list \<Rightarrow> delivery \<Rightarrow> bool" where
  "abandoned owner ts live d \<longleftrightarrow> d_state d = DSending \<and> (d_owner d \<noteq> owner \<or> d_lease d < ts)
     \<and> \<not> (d_owner d = owner \<and> d_id d \<in> set live)"

definition unknown_row :: "real \<Rightarrow> delivery \<Rightarrow> delivery" where
  "unknown_row ts d = (if d_state d = DSending
     then d\<lparr>d_state := DUnknown, d_finished := Some ts, d_owner := [],
            d_error := ''Kazma stopped while sending; the message may or may not have arrived.''\<rparr>
     else d)"

definition unknown_job :: "real \<Rightarrow> job \<Rightarrow> job" where
  "unknown_job ts j = (end_delivering ts JDeliveryUnknown j)\<lparr>j_delivery := ''unknown'',
     j_outcome := ''delivery_unknown'', j_derror := ''Kazma stopped while sending; check the chat.''\<rparr>"

definition end_unknown :: "real \<Rightarrow> delivery \<Rightarrow> cron \<Rightarrow> cron" where
  "end_unknown ts d c =
     (let i = d_id d; jid = d_job d;
          c1 = set_delivery i (unknown_row ts) c;
          c2 = set_job jid (unknown_job ts) c1;
          c3 = snd (add_event ts jid ''delivery_unknown'' [] ''scheduler''
             [(''delivery_id'', PInt (int i))] c2)
      in enqueue_alert ts (delivery_dedupe i) jid (delivery_alert jid DUnknown (d_purpose d) []) (Some i) c3)"

definition recover_deliveries :: "real \<Rightarrow> string \<Rightarrow> nat list \<Rightarrow> cron \<Rightarrow> delivery list \<times> cron" where
  "recover_deliveries ts owner live c =
     (let rows = filter (abandoned owner ts live) (deliveries c)
      in (rows, foldl (\<lambda>c d. end_unknown ts d c) c rows))"

definition deliveries_for :: "string \<Rightarrow> nat \<Rightarrow> cron \<Rightarrow> delivery list" where
  "deliveries_for jid limit c = take limit (rev (filter (\<lambda>d. d_job d = jid) (deliveries c)))"

definition pending_delivery_count :: "cron \<Rightarrow> nat" where
  "pending_delivery_count c = length (filter (\<lambda>d. d_state d \<in> {DPending, DSending}) (deliveries c))"

subsection \<open>The alert outbox\<close>

definition pending_alerts :: "real \<Rightarrow> nat \<Rightarrow> cron \<Rightarrow> cron_alert list" where
  "pending_alerts ts limit c = take limit (filter (\<lambda>a. a_sent a = None \<and> a_next a \<le> ts) (alerts c))"

definition mark_alert_sent :: "real \<Rightarrow> nat \<Rightarrow> cron \<Rightarrow> bool \<times> cron" where
  "mark_alert_sent ts i c =
     (list_ex (\<lambda>a. a_id a = i \<and> a_sent a = None) (alerts c),
      c\<lparr>alerts := map (\<lambda>a. if a_id a = i \<and> a_sent a = None then a\<lparr>a_sent := Some ts\<rparr> else a) (alerts c)\<rparr>)"

definition alert_failed :: "real \<Rightarrow> nat \<Rightarrow> string \<Rightarrow> cron \<Rightarrow> cron" where
  "alert_failed ts i error c =
     (case find (\<lambda>a. a_id a = i \<and> a_sent a = None) (alerts c) of
        None \<Rightarrow> c
      | Some a \<Rightarrow> let n = a_attempts a + 1 in
          c\<lparr>alerts := map (\<lambda>a. if a_id a = i then a\<lparr>a_attempts := n, a_error := take 500 error,
             a_next := ts + delivery_backoff n\<rparr> else a) (alerts c)\<rparr>)"

definition pending_alert_count :: "cron \<Rightarrow> nat" where
  "pending_alert_count c = length (filter (\<lambda>a. a_sent a = None) (alerts c))"

subsection \<open>Start, history and retention\<close>

text \<open>\<open>init\<close> on the rows an older build left: texts of instants, finish times, unqueued alerts.\<close>

definition normal_job :: "real \<Rightarrow> job \<Rightarrow> job" where
  "normal_job ts j =
     (let j1 = j\<lparr>j_next := map_option norm_iso_text (j_next j)\<rparr> in
      if j_status j \<in> set TERMINAL_STATUSES \<and> j_finished j = [] then j1\<lparr>j_finished := norm_iso ts\<rparr>
      else j1)"

definition normalize_next_runs :: "real \<Rightarrow> cron \<Rightarrow> cron" where
  "normalize_next_runs ts c = c\<lparr>jobs := map (normal_job ts) (jobs c)\<rparr>"

definition queue_its_alert :: "real \<Rightarrow> delivery \<Rightarrow> cron \<Rightarrow> cron" where
  "queue_its_alert ts d c = enqueue_alert ts (delivery_dedupe (d_id d)) (d_job d)
     (delivery_alert (d_job d) (d_state d) (d_purpose d) (d_error d)) (Some (d_id d)) c"

definition queue_unalerted_deliveries :: "real \<Rightarrow> cron \<Rightarrow> cron" where
  "queue_unalerted_deliveries ts c = foldl (\<lambda>c d. queue_its_alert ts d c) c
     (filter (\<lambda>d. d_state d \<in> {DUndeliverable, DUnknown} \<and> \<not> d_alerted d) (deliveries c))"

definition list_events :: "string \<Rightarrow> nat \<Rightarrow> cron \<Rightarrow> cron_event list" where
  "list_events jid limit c = take limit (rev (filter (\<lambda>v. v_job v = jid) (cron_events c)))"

definition lateness :: "real \<Rightarrow> nat \<Rightarrow> cron \<Rightarrow> real list" where
  "lateness since limit c = rev (List.map_filter (\<lambda>v. py_float (dget (v_detail v) ''lateness_s''))
     (take limit (rev (filter (\<lambda>v. v_event v = ''fire_finished'' \<and> since \<le> v_at v) (cron_events c)))))"

text \<open>\<open>COALESCE(NULLIF(finished_at, ''), NULLIF(last_fire_at, ''), created_at)\<close>.\<close>

definition finish_text :: "job \<Rightarrow> string" where
  "finish_text j = or_else (j_finished j) (or_else (j_last_fire j) (j_created j))"

definition doomed_jobs :: "string \<Rightarrow> nat \<Rightarrow> cron \<Rightarrow> string list" where
  "doomed_jobs cutoff keep_last c =
     (let ended = filter (\<lambda>j. j_status j \<in> set TERMINAL_STATUSES) (jobs c);
          old = map j_id (filter (\<lambda>j. finish_text j < cutoff) ended);
          over = map j_id (drop keep_last (sort_desc finish_text ended))
      in old @ filter (\<lambda>i. i \<notin> set old) over)"

definition purge_terminal_jobs :: "real \<Rightarrow> nat \<Rightarrow> nat \<Rightarrow> cron \<Rightarrow> nat \<times> cron" where
  "purge_terminal_jobs ts older_than_days keep_last c =
     (let cutoff = ts - real older_than_days * 86400;
          doomed = doomed_jobs (norm_iso cutoff) keep_last c;
          gone = (\<lambda>jid. jid \<in> set doomed)
      in (length doomed,
          c\<lparr>jobs := filter (\<lambda>j. \<not> gone (j_id j)) (jobs c),
            cron_events := filter (\<lambda>v. \<not> gone (v_job v)) (cron_events c),
            deliveries := filter (\<lambda>d. \<not> gone (d_job d)
              \<and> \<not> (d_state d \<in> {DDelivered, DCancelled}
                   \<and> (case d_finished d of None \<Rightarrow> False | Some t \<Rightarrow> t < cutoff))) (deliveries c),
            alerts := filter (\<lambda>a. \<not> (gone (a_job a) \<and> a_sent a \<noteq> None)
              \<and> \<not> (case a_sent a of None \<Rightarrow> False | Some t \<Rightarrow> t < cutoff)) (alerts c)\<rparr>))"

end
