(* ===== verification/CronRuns.thy ===== *)
theory CronRuns
  imports CronStore
begin

text \<open>
  Runs of the scheduler's store: every operation as a step of one machine, the life of a message in
  the outbox, the life of a job, and what holds of every run.
\<close>

subsection \<open>The machine\<close>

datatype cron_op =
    OInsert real job
  | OTarget string string
  | OCancel real string string "int option" string string
  | OUpdate real string "string option" "string option" "string option" "string option" string
      "int option" string string
  | ORestore real string string string string string "int option" string string
  | OClaim real string string real "int option"
  | ORelease real string string string
  | OFinish real string string fire_result advance real
  | OMissed real string string string string advance real
  | OClaimDelivery real string "nat option"
  | OFinishDelivery real nat string bool string
  | ORecover real string "nat list"
  | OAlertSent real nat
  | OAlertFailed real nat string
  | OInit real
  | OPurge real nat nat

fun cron_step :: "cron \<Rightarrow> cron_op \<Rightarrow> cron" where
  "cron_step c (OInsert ts j) = (case insert_job ts j c of None \<Rightarrow> c | Some c' \<Rightarrow> c')"
| "cron_step c (OTarget jid t) = update_delivery_target jid t c"
| "cron_step c (OCancel ts jid tn v a s) = snd (cancel_job ts jid tn v a s c)"
| "cron_step c (OUpdate ts jid tm p n ser tn v a s) = snd (update_job ts jid tm p n ser tn v a s c)"
| "cron_step c (ORestore ts jid tm n ser tn v a s) = snd (restore_job ts jid tm n ser tn v a s c)"
| "cron_step c (OClaim ts jid ow l v) = snd (claim_job ts jid ow l v c)"
| "cron_step c (ORelease ts jid ow r) = snd (release_fire ts jid ow r c)"
| "cron_step c (OFinish ts jid ow r adv now) = snd (finish_fire ts jid ow r adv now c)"
| "cron_step c (OMissed ts jid e n t adv now) = snd (mark_missed ts jid e n t adv now c)"
| "cron_step c (OClaimDelivery ts ow i) = snd (claim_delivery ts ow i c)"
| "cron_step c (OFinishDelivery ts i ow ok err) = snd (finish_delivery ts i ow ok err c)"
| "cron_step c (ORecover ts ow live) = snd (recover_deliveries ts ow live c)"
| "cron_step c (OAlertSent ts i) = snd (mark_alert_sent ts i c)"
| "cron_step c (OAlertFailed ts i err) = alert_failed ts i err c"
| "cron_step c (OInit ts) = queue_unalerted_deliveries ts (normalize_next_runs ts c)"
| "cron_step c (OPurge ts days keep) = snd (purge_terminal_jobs ts days keep c)"

subsection \<open>What each helper leaves alone\<close>

lemma set_job_frame [simp]:
  "deliveries (set_job jid f c) = deliveries c" "alerts (set_job jid f c) = alerts c"
  "delivery_seq (set_job jid f c) = delivery_seq c" "alert_seq (set_job jid f c) = alert_seq c"
  "jobs (set_job jid f c) = map (\<lambda>j. if j_id j = jid then f j else j) (jobs c)"
  by (simp_all add: set_job_def)

lemma set_delivery_frame [simp]:
  "jobs (set_delivery i f c) = jobs c" "alerts (set_delivery i f c) = alerts c"
  "delivery_seq (set_delivery i f c) = delivery_seq c" "alert_seq (set_delivery i f c) = alert_seq c"
  "deliveries (set_delivery i f c) = map (\<lambda>d. if d_id d = i then f d else d) (deliveries c)"
  by (simp_all add: set_delivery_def)

lemma add_event_frame [simp]:
  "jobs (snd (add_event ts jid e a s dt c)) = jobs c"
  "deliveries (snd (add_event ts jid e a s dt c)) = deliveries c"
  "alerts (snd (add_event ts jid e a s dt c)) = alerts c"
  "delivery_seq (snd (add_event ts jid e a s dt c)) = delivery_seq c"
  "alert_seq (snd (add_event ts jid e a s dt c)) = alert_seq c"
  by (simp_all add: add_event_def Let_def)

lemma cancel_deliveries_frame [simp]:
  "jobs (cancel_deliveries ts jid c) = jobs c" "alerts (cancel_deliveries ts jid c) = alerts c"
  "delivery_seq (cancel_deliveries ts jid c) = delivery_seq c"
  by (simp_all add: cancel_deliveries_def)

lemma queue_delivery_frame [simp]:
  "jobs (snd (queue_delivery ts jid tn k p t b due c)) = jobs c"
  "alerts (snd (queue_delivery ts jid tn k p t b due c)) = alerts c"
  by (simp_all add: queue_delivery_def Let_def)

definition note_alert :: "nat option \<Rightarrow> delivery \<Rightarrow> delivery" where
  "note_alert did d = (if did = Some (d_id d) then d\<lparr>d_alerted := True\<rparr> else d)"

lemma enqueue_alert_frame [simp]:
  "jobs (enqueue_alert ts dd jid t did c) = jobs c"
  "delivery_seq (enqueue_alert ts dd jid t did c) = delivery_seq c"
  "deliveries (enqueue_alert ts dd jid t did c) = map (note_alert did) (deliveries c)"
  by (auto simp: enqueue_alert_def Let_def note_alert_def split: option.splits intro!: map_idI[symmetric])

lemma enqueue_alert_alerts:
  "\<exists>new. alerts (enqueue_alert ts dd jid t did c) = alerts c @ new
     \<and> (\<forall>a \<in> set new. a_dedupe a = dd \<and> a_sent a = None \<and> a_job a = jid)"
  "dd \<in> a_dedupe ` set (alerts (enqueue_alert ts dd jid t did c))"
  by (auto simp: enqueue_alert_def Let_def split: option.splits)

subsection \<open>The life of a message\<close>

definition same_message :: "delivery \<Rightarrow> delivery \<Rightarrow> bool" where
  "same_message d d' \<longleftrightarrow> d_id d' = d_id d \<and> d_job d' = d_job d \<and> d_key d' = d_key d
     \<and> d_purpose d' = d_purpose d \<and> d_target d' = d_target d \<and> d_body d' = d_body d
     \<and> d_created d' = d_created d \<and> (d_alerted d \<longrightarrow> d_alerted d')"

text \<open>
  What may happen to one row: it is claimed for a send, which counts an attempt; a send ends
  delivered, given up, unknown, or waiting for the next attempt while attempts are left; a waiting
  message is stopped. Nothing leaves an ended row.
\<close>

inductive delivery_move :: "delivery \<Rightarrow> delivery \<Rightarrow> bool" where
  move_stay: "same_message d d' \<Longrightarrow> d_state d' = d_state d \<Longrightarrow> d_attempts d' = d_attempts d
     \<Longrightarrow> delivery_move d d'"
| move_claim: "same_message d d' \<Longrightarrow> d_state d = DPending \<Longrightarrow> d_state d' = DSending
     \<Longrightarrow> d_attempts d' = d_attempts d + 1 \<Longrightarrow> delivery_move d d'"
| move_end: "same_message d d' \<Longrightarrow> d_state d = DSending
     \<Longrightarrow> d_state d' \<in> {DDelivered, DUndeliverable, DUnknown} \<Longrightarrow> d_attempts d' = d_attempts d
     \<Longrightarrow> delivery_move d d'"
| move_retry: "same_message d d' \<Longrightarrow> d_state d = DSending \<Longrightarrow> d_state d' = DPending
     \<Longrightarrow> d_attempts d' = d_attempts d \<Longrightarrow> d_attempts d < DELIVERY_MAX_ATTEMPTS
     \<Longrightarrow> delivery_move d d'"
| move_stop: "same_message d d' \<Longrightarrow> d_state d = DPending \<Longrightarrow> d_state d' = DCancelled
     \<Longrightarrow> d_attempts d' = d_attempts d \<Longrightarrow> delivery_move d d'"

inductive_cases delivery_moveE: "delivery_move d d'"

lemma same_message_refl [simp]: "same_message d d"
  by (simp add: same_message_def)

lemma same_message_note_alert [simp]: "same_message d (note_alert did d)"
  by (simp add: same_message_def note_alert_def)

lemma note_alert_fields [simp]:
  "d_id (note_alert did d) = d_id d" "d_state (note_alert did d) = d_state d"
  "d_attempts (note_alert did d) = d_attempts d" "d_key (note_alert did d) = d_key d"
  by (simp_all add: note_alert_def)

lemma delivery_move_refl [simp]: "delivery_move d d"
  by (rule move_stay) simp_all

definition ended :: "delivery \<Rightarrow> bool" where
  "ended d \<longleftrightarrow> d_state d \<in> {DDelivered, DUndeliverable, DUnknown, DCancelled}"

text \<open>How a table of messages becomes another: rows move or go, and at most one new one comes.\<close>

definition fresh_row :: "cron \<Rightarrow> delivery \<Rightarrow> bool" where
  "fresh_row c d \<longleftrightarrow> d_id d = delivery_seq c + 1 \<and> d_state d = DPending \<and> d_attempts d = 0
     \<and> d_key d \<notin> d_key ` set (deliveries c)"

definition outbox_step :: "cron \<Rightarrow> cron \<Rightarrow> bool" where
  "outbox_step c c' \<longleftrightarrow> (\<exists>f keep new.
     deliveries c' = map f (filter keep (deliveries c)) @ new
     \<and> (\<forall>d \<in> set (deliveries c). delivery_move d (f d))
     \<and> (new = [] \<and> delivery_seq c' = delivery_seq c
        \<or> (\<exists>d. new = [d] \<and> fresh_row c d \<and> delivery_seq c' = delivery_seq c + 1)))"

lemma outbox_step_map:
  assumes "deliveries c' = map f (deliveries c)" "delivery_seq c' = delivery_seq c"
    and "\<And>d. d \<in> set (deliveries c) \<Longrightarrow> delivery_move d (f d)"
  shows "outbox_step c c'"
  unfolding outbox_step_def
  by (rule exI[of _ f], rule exI[of _ "\<lambda>_. True"], rule exI[of _ "[]"]) (use assms in simp)

lemma outbox_step_same:
  "deliveries c' = deliveries c \<Longrightarrow> delivery_seq c' = delivery_seq c \<Longrightarrow> outbox_step c c'"
  by (rule outbox_step_map[where f = id]) simp_all

lemma outbox_step_queue:
  "outbox_step c (snd (queue_delivery ts jid tn k p t b due c))"
proof (cases "k \<in> d_key ` set (deliveries c)")
  case True
  then show ?thesis by (intro outbox_step_same) (simp_all add: queue_delivery_def)
next
  case False
  then show ?thesis
    unfolding outbox_step_def
    by (intro exI[of _ id] exI[of _ "\<lambda>_. True"]) (simp add: queue_delivery_def fresh_row_def Let_def)
qed

lemma outbox_step_then_same:
  assumes "outbox_step c c1" "deliveries c2 = deliveries c1" "delivery_seq c2 = delivery_seq c1"
  shows "outbox_step c c2"
  using assms unfolding outbox_step_def by simp

text \<open>The tables' keys: ids never reused, one row for one fire key, at most six attempts.\<close>

definition attempts_ok :: "delivery \<Rightarrow> bool" where
  "attempts_ok d \<longleftrightarrow> d_attempts d \<le> DELIVERY_MAX_ATTEMPTS
     \<and> (d_state d = DPending \<longrightarrow> d_attempts d < DELIVERY_MAX_ATTEMPTS)"

definition outbox_ok :: "cron \<Rightarrow> bool" where
  "outbox_ok c \<longleftrightarrow> distinct (map d_id (deliveries c)) \<and> distinct (map d_key (deliveries c))
     \<and> (\<forall>d \<in> set (deliveries c). d_id d \<le> delivery_seq c \<and> attempts_ok d)"

lemma delivery_move_same: "delivery_move d d' \<Longrightarrow> same_message d d'"
  by (auto elim: delivery_moveE)

lemma delivery_move_attempts: "delivery_move d d' \<Longrightarrow> attempts_ok d \<Longrightarrow> attempts_ok d'"
  by (auto elim!: delivery_moveE simp: attempts_ok_def)

lemma outbox_step_ok:
  assumes "outbox_step c c'" "outbox_ok c"
  shows "outbox_ok c'"
proof -
  from assms(1) obtain f keep new where
    ds: "deliveries c' = map f (filter keep (deliveries c)) @ new"
    and mv: "\<And>d. d \<in> set (deliveries c) \<Longrightarrow> delivery_move d (f d)"
    and new: "new = [] \<and> delivery_seq c' = delivery_seq c
        \<or> (\<exists>d. new = [d] \<and> fresh_row c d \<and> delivery_seq c' = delivery_seq c + 1)"
    unfolding outbox_step_def by blast
  have id: "d_id (f d) = d_id d \<and> d_key (f d) = d_key d" if "d \<in> set (deliveries c)" for d
    using delivery_move_same[OF mv[OF that]] by (simp add: same_message_def)
  have ids: "map d_id (deliveries c') = map d_id (filter keep (deliveries c)) @ map d_id new"
    "map d_key (deliveries c') = map d_key (filter keep (deliveries c)) @ map d_key new"
    unfolding ds using id by auto
  have d0: "distinct (map d_id (filter keep (deliveries c)))" "distinct (map d_key (filter keep (deliveries c)))"
    using assms(2) by (auto simp: outbox_ok_def intro: distinct_map_filter)
  have old: "d_id (f d) \<le> delivery_seq c \<and> attempts_ok (f d)" if "d \<in> set (deliveries c)" for d
    using assms(2) id[OF that] that delivery_move_attempts[OF mv[OF that]] by (simp add: outbox_ok_def)
  have seq: "delivery_seq c \<le> delivery_seq c'" using new by auto
  have new': "distinct (map d_id new) \<and> distinct (map d_key new)
      \<and> (\<forall>d \<in> set new. attempts_ok d \<and> d_id d = delivery_seq c'
          \<and> d_id d \<notin> d_id ` set (deliveries c) \<and> d_key d \<notin> d_key ` set (deliveries c))"
    using new
  proof
    assume "\<exists>d. new = [d] \<and> fresh_row c d \<and> delivery_seq c' = delivery_seq c + 1"
    then obtain d where n: "new = [d]" "fresh_row c d" "delivery_seq c' = delivery_seq c + 1" by blast
    have "d_id d \<notin> d_id ` set (deliveries c)"
      using n(2) assms(2) unfolding fresh_row_def outbox_ok_def by fastforce
    then show ?thesis
      using n by (simp add: fresh_row_def attempts_ok_def DELIVERY_MAX_ATTEMPTS_def)
  qed simp
  show ?thesis
    unfolding outbox_ok_def ids
  proof (intro conjI ballI)
    show "distinct (map d_id (filter keep (deliveries c)) @ map d_id new)"
      "distinct (map d_key (filter keep (deliveries c)) @ map d_key new)"
      using d0 new' by (auto, metis imageI, metis imageI)
    fix d assume "d \<in> set (deliveries c')"
    then consider e where "e \<in> set (deliveries c)" "d = f e" | "d \<in> set new" unfolding ds by auto
    then show "d_id d \<le> delivery_seq c'" "attempts_ok d"
      using old new' seq by (cases; fastforce)+
  qed
qed


lemma map_note_None [simp]: "map (note_alert None) ds = ds"
  by (simp add: note_alert_def map_idI)

lemma find_delivery_id:
  assumes "outbox_ok c" "find P (deliveries c) = Some d" "e \<in> set (deliveries c)" "d_id e = d_id d"
  shows "e = d"
proof -
  have "d \<in> set (deliveries c)" using assms(2) by (auto simp: find_Some_iff)
  then show ?thesis
    using assms unfolding outbox_ok_def distinct_map by (meson inj_onD)
qed

text \<open>Jobs, events and alerts are no part of the outbox.\<close>

lemma frame_outbox:
  "outbox_step c c' \<Longrightarrow> outbox_step c (set_job jid f c')"
  "outbox_step c c' \<Longrightarrow> outbox_step c (snd (add_event ts jid e a s dt c'))"
  "outbox_step c c' \<Longrightarrow> outbox_step c (enqueue_alert ts dd jid t None c')"
  by (auto elim!: outbox_step_then_same)

lemma outbox_refl [simp]: "outbox_step c c"
  by (rule outbox_step_same) simp_all

lemma insert_outbox: "insert_job ts j c = Some c' \<Longrightarrow> outbox_step c c'"
  by (auto simp: insert_job_def Let_def split: if_splits intro!: outbox_step_same)

lemma cancel_outbox: "outbox_step c (snd (cancel_job ts jid tn v a s c))"
proof -
  have "outbox_step c (cancel_deliveries ts jid c)"
    by (rule outbox_step_map[where f = "\<lambda>d. if d_job d = jid \<and> d_state d = DPending
          then d\<lparr>d_state := DCancelled, d_finished := Some ts\<rparr> else d"])
       (auto simp: cancel_deliveries_def same_message_def intro: move_stop)
  then show ?thesis
    unfolding cancel_job_def
    by (auto split: option.split job_status.split intro!: frame_outbox)
qed

lemma update_outbox: "outbox_step c (snd (update_job ts jid tm p n ser tn v a s c))"
  unfolding update_job_def Let_def
  by (auto split: option.split job_status.split intro!: frame_outbox)

lemma restore_outbox: "outbox_step c (snd (restore_job ts jid tm n ser tn v a s c))"
  unfolding restore_job_def by (auto split: option.split intro!: frame_outbox)

lemma claim_outbox: "outbox_step c (snd (claim_job ts jid ow l v c))"
  unfolding claim_job_def by (auto intro!: frame_outbox)

lemma release_outbox: "outbox_step c (snd (release_fire ts jid ow r c))"
  unfolding release_fire_def by (auto intro!: frame_outbox)

lemma fire_message_outbox: "outbox_step c (snd (fire_message ts j r c))"
  unfolding fire_message_def by (auto intro: outbox_step_queue)

lemma fire_message_frame [simp]:
  "jobs (snd (fire_message ts j r c)) = jobs c" "alerts (snd (fire_message ts j r c)) = alerts c"
  unfolding fire_message_def by simp_all

lemma finish_outbox: "outbox_step c (snd (finish_fire ts jid ow r adv now c))"
  unfolding finish_fire_def Let_def
  by (auto split: option.split intro!: frame_outbox fire_message_outbox)

lemma missed_outbox: "outbox_step c (snd (mark_missed ts jid e n t adv now c))"
  unfolding mark_missed_def Let_def
  by (auto split: option.split intro!: frame_outbox outbox_step_queue)

lemma claim_delivery_outbox:
  assumes "outbox_ok c"
  shows "outbox_step c (snd (claim_delivery ts ow did c))"
proof (cases "find (\<lambda>d. (case did of None \<Rightarrow> True | Some i \<Rightarrow> d_id d = i) \<and> d_state d = DPending \<and> d_next d \<le> ts)
    (deliveries c)")
  case None
  then show ?thesis by (simp add: claim_delivery_def)
next
  case (Some d)
  let ?f = "\<lambda>e. if d_id e = d_id d then e\<lparr>d_state := DSending, d_owner := ow,
             d_lease := ts + DELIVERY_LEASE_S, d_attempts := d_attempts e + 1\<rparr> else e"
  have "delivery_move e (?f e)" if "e \<in> set (deliveries c)" for e
    using find_delivery_id[OF assms Some that] find_SomeD[OF Some]
    by (auto simp: same_message_def intro: move_claim)
  then show ?thesis
    by (intro outbox_step_map[where f = ?f]) (simp_all add: claim_delivery_def Some)
qed

lemma note_alert_move: "delivery_move d e \<Longrightarrow> delivery_move d (note_alert did e)"
  by (elim delivery_moveE)
     (auto simp: same_message_def note_alert_def intro: delivery_move.intros)

lemma answered_row_move:
  "d_state d = DSending \<Longrightarrow> delivery_move d (answered_row ts ok err d)"
  by (cases "refused_for_good ts d")
     (auto simp: answered_row_def send_state_def same_message_def refused_for_good_def Let_def
        intro: move_end move_retry)

lemma finish_delivery_outbox:
  assumes "outbox_ok c"
  shows "outbox_step c (snd (finish_delivery ts i ow ok err c))"
proof (cases "find (\<lambda>d. d_id d = i \<and> d_state d = DSending \<and> d_owner d = ow) (deliveries c)")
  case None
  then show ?thesis by (simp add: finish_delivery_def)
next
  case (Some d)
  have d: "d_id d = i" "d_state d = DSending" using find_SomeD[OF Some] by auto
  have eq: "e = d" if "e \<in> set (deliveries c)" "d_id e = i" for e
    using find_delivery_id[OF assms Some that(1)] that d by simp
  let ?g = "if send_state ts ok d = DUndeliverable then note_alert (Some i) else id"
  let ?f = "\<lambda>e. ?g (if d_id e = i then answered_row ts ok err e else e)"
  have mv: "delivery_move e (?f e)" if e: "e \<in> set (deliveries c)" for e
  proof (cases "d_id e = i")
    case True
    then have "e = d" using eq[OF e] by simp
    then show ?thesis
      using d True answered_row_move[of d ts ok err] by (auto simp: note_alert_move)
  qed (simp add: note_alert_move)
  have "deliveries (snd (finish_delivery ts i ow ok err c)) = map ?f (deliveries c)"
    by (simp add: finish_delivery_def Some Let_def comp_def)
  moreover have "delivery_seq (snd (finish_delivery ts i ow ok err c)) = delivery_seq c"
    by (simp add: finish_delivery_def Some Let_def)
  ultimately show ?thesis using mv by (intro outbox_step_map)
qed


definition lost_row :: "real \<Rightarrow> delivery \<Rightarrow> delivery" where
  "lost_row ts d = note_alert (Some (d_id d)) (unknown_row ts d)"

lemma unknown_row_fields [simp]:
  "d_id (unknown_row ts d) = d_id d" "d_key (unknown_row ts d) = d_key d"
  by (simp_all add: unknown_row_def)

lemma lost_row_id [simp]: "d_id (lost_row ts d) = d_id d"
  by (simp add: lost_row_def)

lemma lost_row_twice [simp]: "lost_row ts (lost_row ts d) = lost_row ts d"
  by (simp add: lost_row_def unknown_row_def note_alert_def)

lemma lost_row_move: "delivery_move d (lost_row ts d)"
  by (cases "d_state d = DSending")
     (auto simp: lost_row_def unknown_row_def note_alert_def same_message_def intro: move_end move_stay)

lemma end_unknown_frame [simp]:
  "deliveries (end_unknown ts d c) = map (\<lambda>e. if d_id e = d_id d then lost_row ts e else e) (deliveries c)"
  "delivery_seq (end_unknown ts d c) = delivery_seq c"
  "jobs (end_unknown ts d c) = map (\<lambda>j. if j_id j = d_job d then unknown_job ts j else j) (jobs c)"
  by (auto simp: end_unknown_def Let_def lost_row_def note_alert_def)

lemma end_unknowns_frame:
  "deliveries (foldl (\<lambda>c d. end_unknown ts d c) c rows)
     = map (\<lambda>e. if d_id e \<in> d_id ` set rows then lost_row ts e else e) (deliveries c)"
  "delivery_seq (foldl (\<lambda>c d. end_unknown ts d c) c rows) = delivery_seq c"
  by (induction rows arbitrary: c) auto

lemma recover_outbox: "outbox_step c (snd (recover_deliveries ts ow live c))"
  by (rule outbox_step_map[where f = "\<lambda>e. if d_id e \<in> d_id ` set (filter (abandoned ow ts live) (deliveries c))
          then lost_row ts e else e"])
     (simp_all add: recover_deliveries_def Let_def end_unknowns_frame lost_row_move)

lemma mark_sent_outbox: "outbox_step c (snd (mark_alert_sent ts i c))"
  by (rule outbox_step_same) (simp_all add: mark_alert_sent_def)

lemma alert_failed_outbox: "outbox_step c (alert_failed ts i err c)"
  by (rule outbox_step_same) (simp_all add: alert_failed_def Let_def split: option.split)

lemma queue_its_alert_frame [simp]:
  "deliveries (queue_its_alert ts d c) = map (note_alert (Some (d_id d))) (deliveries c)"
  "delivery_seq (queue_its_alert ts d c) = delivery_seq c" "jobs (queue_its_alert ts d c) = jobs c"
  by (simp_all add: queue_its_alert_def)

lemma queue_alerts_frame:
  "deliveries (foldl (\<lambda>c d. queue_its_alert ts d c) c rows)
     = map (\<lambda>d. if d_id d \<in> d_id ` set rows then note_alert (Some (d_id d)) d else d) (deliveries c)"
  "delivery_seq (foldl (\<lambda>c d. queue_its_alert ts d c) c rows) = delivery_seq c"
  "jobs (foldl (\<lambda>c d. queue_its_alert ts d c) c rows) = jobs c"
  by (induction rows arbitrary: c) (auto simp: note_alert_def)

lemma init_outbox: "outbox_step c (queue_unalerted_deliveries ts (normalize_next_runs ts c))"
proof -
  have d: "deliveries (normalize_next_runs ts c) = deliveries c"
    "delivery_seq (normalize_next_runs ts c) = delivery_seq c"
    by (simp_all add: normalize_next_runs_def)
  show ?thesis
    by (rule outbox_step_map, unfold queue_unalerted_deliveries_def queue_alerts_frame d, rule refl, rule refl)
       (auto simp: note_alert_move)
qed

lemma purge_outbox: "outbox_step c (snd (purge_terminal_jobs ts days keep c))"
  unfolding outbox_step_def purge_terminal_jobs_def Let_def
  by (rule exI[of _ id]) auto

text \<open>Every operation is such a step of the outbox.\<close>

lemma cron_step_outbox: "outbox_ok c \<Longrightarrow> outbox_step c (cron_step c op)"
  by (cases op)
     (auto split: option.split simp: update_delivery_target_def
       intro: insert_outbox cancel_outbox update_outbox restore_outbox claim_outbox release_outbox
         finish_outbox missed_outbox claim_delivery_outbox finish_delivery_outbox recover_outbox
         mark_sent_outbox alert_failed_outbox init_outbox purge_outbox outbox_step_same)

lemma cron_step_ok: "outbox_ok c \<Longrightarrow> outbox_ok (cron_step c op)"
  by (rule outbox_step_ok[OF cron_step_outbox])

interpretation outbox: invariant_machine cron_step outbox_ok
  by unfold_locales (rule cron_step_ok)

lemma empty_outbox_ok [simp]: "outbox_ok empty_cron"
  by (simp add: outbox_ok_def empty_cron_def)



subsection \<open>How often a message is handed to a sender\<close>

fun claims_it :: "nat \<Rightarrow> cron \<Rightarrow> cron_op \<Rightarrow> bool" where
  "claims_it i c (OClaimDelivery ts ow did) =
     (case fst (claim_delivery ts ow did c) of None \<Rightarrow> False | Some d \<Rightarrow> d_id d = i)"
| "claims_it i c _ = False"

fun claims_of :: "nat \<Rightarrow> cron \<Rightarrow> cron_op list \<Rightarrow> nat" where
  "claims_of i c [] = 0"
| "claims_of i c (op # ops) = (if claims_it i c op then 1 else 0) + claims_of i (cron_step c op) ops"

definition row_left :: "delivery \<Rightarrow> nat" where
  "row_left d = (if ended d then 0 else DELIVERY_MAX_ATTEMPTS - d_attempts d)"

text \<open>How many claims a message can still see, whether it is there, gone, or yet to come.\<close>

definition claims_left :: "nat \<Rightarrow> cron \<Rightarrow> nat" where
  "claims_left i c = (if delivery_seq c < i then DELIVERY_MAX_ATTEMPTS
     else case find (\<lambda>d. d_id d = i) (deliveries c) of None \<Rightarrow> 0 | Some d \<Rightarrow> row_left d)"

lemma row_left_le: "row_left d \<le> DELIVERY_MAX_ATTEMPTS"
  by (simp add: row_left_def)

lemma claims_left_le: "claims_left i c \<le> DELIVERY_MAX_ATTEMPTS"
  by (simp add: claims_left_def row_left_le split: option.split)

lemma delivery_move_left: "delivery_move d d' \<Longrightarrow> row_left d' \<le> row_left d"
  by (elim delivery_moveE) (auto simp: row_left_def ended_def)

lemma claims_left_row:
  assumes "outbox_ok c" "d \<in> set (deliveries c)"
  shows "claims_left (d_id d) c = row_left d"
proof -
  have "distinct (map d_id (deliveries c))" "d_id d \<le> delivery_seq c"
    using assms unfolding outbox_ok_def by auto
  moreover have "find (\<lambda>e. d_id e = d_id d) ds = Some d"
    if "distinct (map d_id ds)" "d \<in> set ds" for ds
    using that by (induction ds) (auto dest: rev_image_eqI)
  ultimately show ?thesis using assms(2) by (simp add: claims_left_def)
qed

lemma claims_left_step:
  assumes "outbox_step c c'" "outbox_ok c"
  shows "claims_left i c' \<le> claims_left i c"
proof -
  from assms(1) obtain f keep new where
    ds: "deliveries c' = map f (filter keep (deliveries c)) @ new"
    and mv: "\<And>d. d \<in> set (deliveries c) \<Longrightarrow> delivery_move d (f d)"
    and new: "new = [] \<and> delivery_seq c' = delivery_seq c
        \<or> (\<exists>d. new = [d] \<and> fresh_row c d \<and> delivery_seq c' = delivery_seq c + 1)"
    unfolding outbox_step_def by blast
  show ?thesis
  proof (cases "delivery_seq c < i")
    case True
    then show ?thesis using claims_left_le[of i c'] by (simp add: claims_left_def[of i c])
  next
    case False
    then have i: "\<not> delivery_seq c' < i" using new by auto
    show ?thesis
    proof (cases "find (\<lambda>d. d_id d = i) (deliveries c')")
      case None
      then show ?thesis using i by (simp add: claims_left_def)
    next
      case (Some d')
      then have d': "d' \<in> set (deliveries c')" "d_id d' = i" by (auto dest: find_SomeD)
      then have "d' \<notin> set new" using new False by (auto simp: fresh_row_def)
      then obtain d where d: "d \<in> set (deliveries c)" "d' = f d" using d' ds by auto
      have "d_id d = i" using delivery_move_same[OF mv[OF d(1)]] d d' by (simp add: same_message_def)
      then have "claims_left i c = row_left d" using claims_left_row[OF assms(2) d(1)] by simp
      moreover have "claims_left i c' = row_left d'" using Some i by (simp add: claims_left_def)
      ultimately show ?thesis using delivery_move_left[OF mv[OF d(1)]] d by simp
    qed
  qed
qed

lemma claim_spends:
  assumes "outbox_ok c" "claims_it i c op"
  shows "claims_left i (cron_step c op) < claims_left i c"
proof -
  from assms(2) obtain ts ow did d where op: "op = OClaimDelivery ts ow did"
    "fst (claim_delivery ts ow did c) = Some d" "d_id d = i"
    by (cases op) (auto split: option.splits)
  then obtain e where e: "find (\<lambda>d. (case did of None \<Rightarrow> True | Some i \<Rightarrow> d_id d = i)
        \<and> d_state d = DPending \<and> d_next d \<le> ts) (deliveries c) = Some e" "d_id e = i"
    unfolding claim_delivery_def by (auto split: option.splits)
  let ?e = "e\<lparr>d_state := DSending, d_owner := ow, d_lease := ts + DELIVERY_LEASE_S,
     d_attempts := d_attempts e + 1\<rparr>"
  have in_c: "e \<in> set (deliveries c)" "d_state e = DPending" using find_SomeD[OF e(1)] by auto
  have "?e \<in> set (deliveries (cron_step c op))"
    using in_c e op(1) by (auto simp: claim_delivery_def image_iff intro!: bexI[of _ e])
  then have "claims_left i (cron_step c op) = row_left ?e"
    using claims_left_row[OF cron_step_ok[OF assms(1)]] e(2) by fastforce
  moreover have "claims_left i c = row_left e" using claims_left_row[OF assms(1) in_c(1)] e(2) by simp
  moreover have "d_attempts e < DELIVERY_MAX_ATTEMPTS"
    using assms(1) in_c unfolding outbox_ok_def attempts_ok_def by auto
  ultimately show ?thesis using in_c(2) by (simp add: row_left_def ended_def)
qed

lemma claims_of_left: "outbox_ok c \<Longrightarrow> claims_of i c ops \<le> claims_left i c"
proof (induction ops arbitrary: c)
  case (Cons op ops)
  have "claims_of i (cron_step c op) ops \<le> claims_left i (cron_step c op)"
    by (rule Cons.IH[OF cron_step_ok[OF Cons.prems]])
  moreover have "claims_left i (cron_step c op) + (if claims_it i c op then 1 else 0) \<le> claims_left i c"
    using claim_spends[OF Cons.prems, of i op]
      claims_left_step[OF cron_step_outbox[OF Cons.prems, of op] Cons.prems, of i] by auto
  ultimately show ?case by simp
qed simp

text \<open>Whatever happens to the store - crashes, recoveries, several schedulers, restored jobs -
  one message is handed to a sender at most six times.\<close>

theorem message_sent_at_most_six_times:
  "claims_of i (foldl cron_step empty_cron before) ops \<le> DELIVERY_MAX_ATTEMPTS"
  using claims_of_left[OF outbox.run_inv[OF empty_outbox_ok]] claims_left_le order_trans by blast

text \<open>A message that was delivered, given up, cancelled, or whose outcome is unknown is never
  handed to a sender again.\<close>

theorem ended_message_never_resent:
  assumes "c = foldl cron_step empty_cron before" and "d \<in> set (deliveries c)" and "ended d"
  shows "claims_of (d_id d) c ops = 0"
proof -
  have "outbox_ok c" unfolding assms(1) by (rule outbox.run_inv[OF empty_outbox_ok])
  then have "claims_of (d_id d) c ops \<le> row_left d"
    using claims_of_left claims_left_row[OF _ assms(2)] by metis
  then show ?thesis using assms(3) by (simp add: row_left_def)
qed


subsection \<open>A message that is always refused\<close>

definition refusals :: "nat \<Rightarrow> string \<Rightarrow> string \<Rightarrow> real list \<Rightarrow> cron_op list" where
  "refusals i ow err ts =
     concat (map (\<lambda>t. [OClaimDelivery t ow (Some i), OFinishDelivery t i ow False err]) ts)"

lemma refusals_simps [simp]:
  "refusals i ow err [] = []"
  "refusals i ow err (t # ts) = OClaimDelivery t ow (Some i) # OFinishDelivery t i ow False err
     # refusals i ow err ts"
  by (simp_all add: refusals_def)

lemma delivery_backoff_le: "delivery_backoff n \<le> 900"
  by (simp add: delivery_backoff_def)

lemma claim_row:
  assumes "outbox_ok c" "d \<in> set (deliveries c)" "d_state d = DPending" "d_next d \<le> t"
  shows "\<exists>d'. d' \<in> set (deliveries (cron_step c (OClaimDelivery t ow (Some (d_id d)))))
    \<and> d_id d' = d_id d \<and> d_state d' = DSending \<and> d_owner d' = ow \<and> d_attempts d' = d_attempts d + 1"
proof -
  have "find (\<lambda>e. d_id e = d_id d \<and> d_state e = DPending \<and> d_next e \<le> t) (deliveries c) = Some d"
    using assms by (intro find_by_key) (auto simp: outbox_ok_def)
  then show ?thesis
    using assms(2) by (auto simp: claim_delivery_def image_iff intro!: bexI[of _ d])
qed

lemma refuse_row:
  assumes "outbox_ok c" "d \<in> set (deliveries c)" "d_state d = DSending" "d_owner d = ow"
  shows "\<exists>d'. d' \<in> set (deliveries (cron_step c (OFinishDelivery t (d_id d) ow False err)))
    \<and> d_id d' = d_id d \<and> d_attempts d' = d_attempts d
    \<and> (d_state d' = DUndeliverable \<or> d_state d' = DPending \<and> d_next d' \<le> t + 900)"
proof -
  let ?i = "d_id d" and ?st = "send_state t False d"
  let ?g = "if ?st = DUndeliverable then note_alert (Some ?i) else id"
  have "find (\<lambda>e. d_id e = ?i \<and> d_state e = DSending \<and> d_owner e = ow) (deliveries c) = Some d"
    using assms by (intro find_by_key) (auto simp: outbox_ok_def)
  then have "deliveries (cron_step c (OFinishDelivery t ?i ow False err))
     = map (\<lambda>e. ?g (if d_id e = ?i then answered_row t False err e else e)) (deliveries c)"
    by (simp add: finish_delivery_def Let_def comp_def)
  then have "?g (answered_row t False err d) \<in> set (deliveries (cron_step c (OFinishDelivery t ?i ow False err)))"
    using assms(2) by (auto simp: image_iff intro!: bexI[of _ d])
  then show ?thesis
    using delivery_backoff_le[of "d_attempts d"]
    by (intro exI[of _ "?g (answered_row t False err d)"])
       (auto simp: answered_row_def send_state_def note_alert_def Let_def)
qed

lemma ended_row_stays:
  assumes "outbox_ok c" "d \<in> set (deliveries c)" "ended d"
  shows "foldl cron_step c (refusals (d_id d) ow err ts) = c"
proof (induction ts)
  case (Cons t ts)
  have dist: "distinct (map d_id (deliveries c))" using assms(1) by (simp add: outbox_ok_def)
  have "find (\<lambda>e. d_id e = d_id d \<and> d_state e = DPending \<and> d_next e \<le> t) (deliveries c) = None"
    by (rule find_only_key[OF dist assms(2)]) (use assms(3) in \<open>auto simp: ended_def\<close>)
  moreover have "find (\<lambda>e. d_id e = d_id d \<and> d_state e = DSending \<and> d_owner e = ow) (deliveries c) = None"
    by (rule find_only_key[OF dist assms(2)]) (use assms(3) in \<open>auto simp: ended_def\<close>)
  ultimately show ?case using Cons by (simp add: claim_delivery_def finish_delivery_def)
qed simp

lemma refused_until_ended:
  assumes "outbox_ok c" "d \<in> set (deliveries c)" "d_state d = DPending"
    and "sorted_wrt (\<lambda>a b. a + 900 \<le> b) ts" "\<And>t. t \<in> set ts \<Longrightarrow> d_next d \<le> t"
    and "DELIVERY_MAX_ATTEMPTS \<le> d_attempts d + length ts"
  shows "\<exists>d' \<in> set (deliveries (foldl cron_step c (refusals (d_id d) ow err ts))).
    d_id d' = d_id d \<and> d_state d' = DUndeliverable"
  using assms
proof (induction ts arbitrary: c d)
  case Nil
  then have "attempts_ok d" by (simp add: outbox_ok_def)
  with Nil show ?case by (simp add: attempts_ok_def)
next
  case (Cons t ts)
  let ?c1 = "cron_step c (OClaimDelivery t ow (Some (d_id d)))"
  let ?c2 = "cron_step ?c1 (OFinishDelivery t (d_id d) ow False err)"
  obtain d1 where d1: "d1 \<in> set (deliveries ?c1)" "d_id d1 = d_id d" "d_state d1 = DSending"
    "d_owner d1 = ow" "d_attempts d1 = d_attempts d + 1"
    using claim_row[OF Cons.prems(1,2,3), of t ow] Cons.prems(5) by auto
  have ok1: "outbox_ok ?c1" by (rule cron_step_ok[OF Cons.prems(1)])
  obtain d2 where d2: "d2 \<in> set (deliveries ?c2)" "d_id d2 = d_id d" "d_attempts d2 = d_attempts d + 1"
    "d_state d2 = DUndeliverable \<or> d_state d2 = DPending \<and> d_next d2 \<le> t + 900"
    using refuse_row[OF ok1 d1(1,3,4), of t err] d1 by auto
  have ok2: "outbox_ok ?c2" by (rule cron_step_ok[OF ok1])
  show ?case
  proof (cases "d_state d2 = DUndeliverable")
    case True
    then have "foldl cron_step ?c2 (refusals (d_id d2) ow err ts) = ?c2"
      by (intro ended_row_stays[OF ok2 d2(1)]) (simp add: ended_def)
    then show ?thesis using True d2 by (auto simp del: cron_step.simps)
  next
    case False
    then have p: "d_state d2 = DPending" "d_next d2 \<le> t + 900" using d2(4) by auto
    have "\<exists>d' \<in> set (deliveries (foldl cron_step ?c2 (refusals (d_id d2) ow err ts))).
        d_id d' = d_id d2 \<and> d_state d' = DUndeliverable"
    proof (rule Cons.IH[OF ok2 d2(1) p(1)])
      show "\<And>t'. t' \<in> set ts \<Longrightarrow> d_next d2 \<le> t'" using Cons.prems(4) p(2) by fastforce
    qed (use Cons.prems d2 in auto)
    then show ?thesis using d2(2) by (simp del: cron_step.simps)
  qed
qed




subsection \<open>A concrete history\<close>

text \<open>
  A one-off that came due while the process was down: it is missed, and its notice waits in the
  outbox.
\<close>

definition demo_job :: job where
  "demo_job = scheduled_job ''j1'' ''x'' ''hello'' ''telegram'' ''t1'' []"

definition no_advance :: advance where
  "no_advance = (\<lambda>_ _ _. None)"

definition missed_ops :: "cron_op list" where
  "missed_ops = [OInsert 0 demo_job, OMissed 0 ''j1'' ''None'' ''late'' [] no_advance 0]"

lemmas demo_eval = demo_job_def scheduled_job_def no_advance_def insert_job_def add_event_def
  job_row_def set_job_def mark_missed_def missed_job_def next_text_def queue_delivery_def
  fire_key_def empty_cron_def Let_def TERMINAL_STATUSES_def

lemma missed_state:
  "deliveries (foldl cron_step empty_cron missed_ops) =
     [\<lparr>d_id = 1, d_job = ''j1'', d_tenant = ''default'', d_key = ''j1:None:missed'', d_purpose = ''missed'',
       d_target = [], d_body = ''late'', d_due = ''None'', d_state = DPending, d_attempts = 0,
       d_next = 0, d_owner = [], d_lease = 0, d_error = [], d_created = 0,
       d_finished = None, d_alerted = False\<rparr>]"
  "map j_status (jobs (foldl cron_step empty_cron missed_ops)) = [JMissed]"
  "map j_id (jobs (foldl cron_step empty_cron missed_ops)) = [''j1'']"
  by (simp_all add: missed_ops_def demo_eval)




end
