(* ===== verification/CronJobs.thy ===== *)
theory CronJobs
  imports CronRuns
begin

text \<open>
  The life of a job in the scheduler's store: which operation takes it from which status to which,
  who may end a fire, and what the outbox says of the jobs.
\<close>

subsection \<open>The life of a job\<close>

text \<open>Which operation may take a job, with its id and the owner of its fire, from a status to another.\<close>

fun status_move :: "cron_op \<Rightarrow> string \<Rightarrow> string \<Rightarrow> job_status \<Rightarrow> job_status \<Rightarrow> bool" where
  "status_move (OClaim ts i ow l v) jid held s s' = (i = jid \<and> s = JPending \<and> s' = JRunning)"
| "status_move (ORelease ts i ow r) jid held s s' =
     (i = jid \<and> ow = held \<and> s = JRunning \<and> s' = JPending)"
| "status_move (OFinish ts i ow r adv now) jid held s s' =
     (i = jid \<and> ow = held \<and> s = JRunning \<and> s' \<in> {JPending, JDelivering, JDone, JFailed, JCancelled})"
| "status_move (OMissed ts i e n t adv now) jid held s s' = (i = jid \<and> s = JPending \<and> s' = JMissed)"
| "status_move (OCancel ts i tn v a sr) jid held s s' =
     (i = jid \<and> s \<in> {JPending, JDelivering} \<and> s' = JCancelled)"
| "status_move (ORestore ts i tm n ser tn v a sr) jid held s s' =
     (i = jid \<and> s \<in> set TERMINAL_STATUSES \<and> s' = JPending)"
| "status_move (OFinishDelivery ts i ow ok err) jid held s s' =
     (s = JDelivering \<and> s' \<in> {JDone, JUndeliverable})"
| "status_move (ORecover ts ow live) jid held s s' = (s = JDelivering \<and> s' = JDeliveryUnknown)"
| "status_move _ jid held s s' = False"

definition job_life :: "cron_op \<Rightarrow> job \<Rightarrow> job \<Rightarrow> bool" where
  "job_life op j j' \<longleftrightarrow> j_id j' = j_id j \<and>
     (j_status j' = j_status j \<and> (j_status j = JRunning \<longrightarrow> j_owner j' = j_owner j \<and> j_due j' = j_due j
          \<and> (j_cancel j \<longrightarrow> j_cancel j'))
      \<or> status_move op (j_id j) (j_owner j) (j_status j) (j_status j'))"

definition jobs_ok :: "cron \<Rightarrow> bool" where
  "jobs_ok c \<longleftrightarrow> distinct (map j_id (jobs c))"

definition jobs_step :: "cron_op \<Rightarrow> cron \<Rightarrow> cron \<Rightarrow> bool" where
  "jobs_step op c c' \<longleftrightarrow> (\<exists>g keep new.
     jobs c' = map g (filter keep (jobs c)) @ new
     \<and> (\<forall>j \<in> set (jobs c). job_life op j (g j))
     \<and> (\<forall>j \<in> set (jobs c). keep j \<or> j_status j \<in> set TERMINAL_STATUSES)
     \<and> (new = [] \<or> (\<exists>ts j j'. op = OInsert ts j \<and> new = [j'] \<and> j_id j' = j_id j
                       \<and> j_id j \<notin> j_id ` set (jobs c))))"

lemma job_life_refl [simp]: "job_life op j j"
  by (simp add: job_life_def)

lemma jobs_step_same: "jobs c' = jobs c \<Longrightarrow> jobs_step op c c'"
  unfolding jobs_step_def by (intro exI[of _ id] exI[of _ "\<lambda>_. True"] exI[of _ "[]"]) simp

lemma jobs_step_map:
  assumes "jobs c' = map g (jobs c)" "\<And>j. j \<in> set (jobs c) \<Longrightarrow> job_life op j (g j)"
  shows "jobs_step op c c'"
  unfolding jobs_step_def
  by (intro exI[of _ g] exI[of _ "\<lambda>_. True"] exI[of _ "[]"]) (use assms in simp)

lemma jobs_step_set:
  assumes "jobs c' = map (\<lambda>j. if j_id j = jid then f j else j) (jobs c)"
    and "\<And>j. j \<in> set (jobs c) \<Longrightarrow> j_id j = jid \<Longrightarrow> job_life op j (f j)"
  shows "jobs_step op c c'"
  by (rule jobs_step_map[OF assms(1)]) (use assms(2) in simp)

lemma job_row_unique:
  assumes "jobs_ok c" "job_row c jid tn = Some j" "j' \<in> set (jobs c)" "j_id j' = jid"
  shows "j' = j"
proof -
  have "j \<in> set (jobs c)" "j_id j = jid" using assms(2) unfolding job_row_def by (auto dest: find_SomeD)
  then show ?thesis using assms unfolding jobs_ok_def distinct_map by (metis inj_onD)
qed

lemma in_terminal [simp]:
  "s \<in> set TERMINAL_STATUSES \<longleftrightarrow> s = JDone \<or> s = JFailed \<or> s = JCancelled \<or> s = JUndeliverable
     \<or> s = JMissed \<or> s = JDeliveryUnknown"
  by (auto simp: TERMINAL_STATUSES_def)

lemma insert_jobs:
  "insert_job ts j c = Some c' \<Longrightarrow> jobs_step (OInsert ts j) c c'"
  unfolding jobs_step_def insert_job_def Let_def
  by (intro exI[of _ id] exI[of _ "\<lambda>_. True"]) (auto split: if_splits)

lemma cancel_jobs:
  assumes "jobs_ok c"
  shows "jobs_step (OCancel ts jid tn v a s) c (snd (cancel_job ts jid tn v a s c))"
proof (cases "job_row c jid tn")
  case None
  then show ?thesis by (simp add: cancel_job_def jobs_step_same)
next
  case (Some j)
  note eq = job_row_unique[OF assms Some]
  show ?thesis
    by (cases "stale_version v j"; cases "j_status j")
       (auto simp: cancel_job_def Some jobs_step_same touched_def job_life_def dest!: eq
         intro!: jobs_step_set)
qed

lemma update_jobs:
  assumes "jobs_ok c"
  shows "jobs_step (OUpdate ts jid tm p n ser tn v a s) c (snd (update_job ts jid tm p n ser tn v a s c))"
proof (cases "job_row c jid tn")
  case None
  then show ?thesis by (simp add: update_job_def jobs_step_same)
next
  case (Some j)
  note eq = job_row_unique[OF assms Some]
  show ?thesis
    by (cases "stale_version v j"; cases "j_status j")
       (auto simp: update_job_def Some jobs_step_same touched_def set_columns_def job_life_def Let_def
         dest!: eq intro!: jobs_step_set)
qed

lemma restore_jobs:
  assumes "jobs_ok c"
  shows "jobs_step (ORestore ts jid tm n ser tn v a s) c (snd (restore_job ts jid tm n ser tn v a s c))"
proof (cases "job_row c jid tn")
  case None
  then show ?thesis by (simp add: restore_job_def jobs_step_same)
next
  case (Some j)
  note eq = job_row_unique[OF assms Some]
  show ?thesis
    by (auto simp: restore_job_def Some jobs_step_same touched_def job_life_def dest!: eq
         intro!: jobs_step_set)
qed

text \<open>The row an update of one statement changes is the one its WHERE clause found.\<close>

lemma found_row:
  assumes "jobs_ok c" "list_ex (\<lambda>j. j_id j = jid \<and> P j) (jobs c)" "e \<in> set (jobs c)" "j_id e = jid"
  shows "P e"
  using assms unfolding jobs_ok_def distinct_map list_ex_iff by (metis inj_onD)

lemma claim_jobs:
  assumes "jobs_ok c"
  shows "jobs_step (OClaim ts jid ow l v) c (snd (claim_job ts jid ow l v c))"
proof (cases "list_ex (\<lambda>j. j_id j = jid \<and> j_status j = JPending \<and> \<not> stale_version v j) (jobs c)")
  case True
  note found = found_row[OF assms True]
  let ?f = "\<lambda>j. j\<lparr>j_status := JRunning, j_owner := ow, j_lease := ts + max 1 l,
     j_attempt := (if Some (j_due j) = j_next j then j_attempt j + 1 else 1),
     j_due := (case j_next j of None \<Rightarrow> [] | Some n \<Rightarrow> n)\<rparr>"
  have "jobs (snd (claim_job ts jid ow l v c)) = map (\<lambda>j. if j_id j = jid then ?f j else j) (jobs c)"
    using True by (simp add: claim_job_def)
  then show ?thesis
    by (rule jobs_step_set) (use found in \<open>simp add: job_life_def\<close>)
qed (simp add: claim_job_def jobs_step_same)

lemma release_jobs:
  assumes "jobs_ok c"
  shows "jobs_step (ORelease ts jid ow r) c (snd (release_fire ts jid ow r c))"
proof (cases "list_ex (\<lambda>j. j_id j = jid \<and> j_status j = JRunning \<and> j_owner j = ow) (jobs c)")
  case True
  note found = found_row[OF assms True]
  let ?f = "\<lambda>j. j\<lparr>j_status := JPending, j_owner := [], j_lease := 0,
     j_next := (if j_due j \<noteq> [] then Some (j_due j) else j_next j)\<rparr>"
  have "jobs (snd (release_fire ts jid ow r c)) = map (\<lambda>j. if j_id j = jid then ?f j else j) (jobs c)"
    using True by (simp add: release_fire_def)
  then show ?thesis
    by (rule jobs_step_set) (use found in \<open>simp add: job_life_def\<close>)
qed (simp add: release_fire_def jobs_step_same)

lemma fire_fate_status:
  "x_status (fire_fate r cn ed tm nx fl did) \<in> {JPending, JDelivering, JDone, JFailed, JCancelled}"
  by (auto simp: fire_fate_def Let_def split: option.split)

lemma fired_job_fields [simp]:
  "j_id (fired_job r adv now did j) = j_id j"
  "j_status (fired_job r adv now did j) = x_status (fate_of r adv now did j)"
  by (simp_all add: fired_job_def Let_def)

lemma finish_fire_jobs:
  assumes "job_row c jid [] = Some j" "j_status j = JRunning" "j_owner j = ow"
  shows "jobs (snd (finish_fire ts jid ow r adv now c))
    = map (\<lambda>e. if j_id e = jid then fired_job r adv now (fst (fire_message ts j r c)) e else e) (jobs c)"
  using assms by (simp add: finish_fire_def Let_def split: option.split)

lemma finish_jobs:
  assumes "jobs_ok c"
  shows "jobs_step (OFinish ts jid ow r adv now) c (snd (finish_fire ts jid ow r adv now c))"
proof (cases "job_row c jid []")
  case None
  then show ?thesis by (simp add: finish_fire_def jobs_step_same)
next
  case (Some j)
  show ?thesis
  proof (cases "j_status j = JRunning \<and> j_owner j = ow")
    case True
    then have run: "j_status j = JRunning" "j_owner j = ow" by auto
    have eq: "e = j" if "e \<in> set (jobs c)" "j_id e = jid" for e
      by (rule job_row_unique[OF assms Some that])
    show ?thesis
    proof (rule jobs_step_set[OF finish_fire_jobs[OF Some run]])
      fix e assume "e \<in> set (jobs c)" "j_id e = jid"
      then have "e = j" by (rule eq)
      then show "job_life (OFinish ts jid ow r adv now) e
          (fired_job r adv now (fst (fire_message ts j r c)) e)"
        using run \<open>j_id e = jid\<close> fire_fate_status
        unfolding job_life_def fired_job_fields fate_of_def Let_def by simp
    qed
  next
    case False
    then show ?thesis by (simp add: finish_fire_def Some jobs_step_same)
  qed
qed

lemma missed_jobs:
  assumes "jobs_ok c"
  shows "jobs_step (OMissed ts jid e n t adv now) c (snd (mark_missed ts jid e n t adv now c))"
proof (cases "job_row c jid []")
  case None
  then show ?thesis by (simp add: mark_missed_def jobs_step_same)
next
  case (Some j)
  note eq = job_row_unique[OF assms Some]
  show ?thesis
    by (auto simp: mark_missed_def Some jobs_step_same missed_job_def job_life_def Let_def
         split: option.split dest!: eq intro!: jobs_step_set)
qed


lemma answered_job_life:
  "job_life (OFinishDelivery ts i ow ok err) j (answered_job ts st p err j)"
  by (auto simp: answered_job_def end_delivering_def job_life_def)

lemma finish_delivery_jobs:
  "jobs_step (OFinishDelivery ts i ow ok err) c (snd (finish_delivery ts i ow ok err c))"
proof (cases "find (\<lambda>d. d_id d = i \<and> d_state d = DSending \<and> d_owner d = ow) (deliveries c)")
  case None
  then show ?thesis by (simp add: finish_delivery_def jobs_step_same)
next
  case (Some d)
  show ?thesis
    by (rule jobs_step_set[where jid = "d_job d" and f = "answered_job ts (send_state ts ok d) (d_purpose d) err"])
       (simp_all add: finish_delivery_def Some Let_def answered_job_life)
qed

lemma unknown_job_twice [simp]: "unknown_job ts (unknown_job ts j) = unknown_job ts j"
  by (auto simp: unknown_job_def end_delivering_def)

lemma unknown_job_id [simp]: "j_id (unknown_job ts j) = j_id j"
  by (simp add: unknown_job_def end_delivering_def)

lemma end_unknowns_jobs:
  "jobs (foldl (\<lambda>c d. end_unknown ts d c) c rows)
     = map (\<lambda>j. if j_id j \<in> d_job ` set rows then unknown_job ts j else j) (jobs c)"
  by (induction rows arbitrary: c) auto

lemma recover_jobs: "jobs_step (ORecover ts ow live) c (snd (recover_deliveries ts ow live c))"
  by (rule jobs_step_map[where g = "\<lambda>j. if j_id j \<in> d_job ` set (filter (abandoned ow ts live) (deliveries c))
        then unknown_job ts j else j"])
     (simp_all add: recover_deliveries_def Let_def end_unknowns_jobs job_life_def unknown_job_def
       end_delivering_def)

lemma init_jobs: "jobs_step (OInit ts) c (queue_unalerted_deliveries ts (normalize_next_runs ts c))"
  by (rule jobs_step_map[where g = "normal_job ts"])
     (simp_all add: queue_unalerted_deliveries_def queue_alerts_frame normalize_next_runs_def
       normal_job_def Let_def job_life_def)

lemma purge_jobs:
  assumes "jobs_ok c"
  shows "jobs_step (OPurge ts days keep) c (snd (purge_terminal_jobs ts days keep c))"
proof -
  let ?gone = "doomed_jobs (norm_iso (ts - real days * 86400)) keep c"
  have "jobs (snd (purge_terminal_jobs ts days keep c)) = filter (\<lambda>j. j_id j \<notin> set ?gone) (jobs c)"
    by (simp add: purge_terminal_jobs_def Let_def)
  moreover have "j_status j \<in> set TERMINAL_STATUSES" if j: "j \<in> set (jobs c)" "j_id j \<in> set ?gone" for j
  proof -
    obtain e where e: "e \<in> set (jobs c)" "j_status e \<in> set TERMINAL_STATUSES" "j_id e = j_id j"
      using j(2) unfolding doomed_jobs_def Let_def sort_desc_def
      by (auto dest!: in_set_dropD simp del: in_terminal)
    have "e = j" using j(1) e assms unfolding jobs_ok_def distinct_map by (metis inj_onD)
    then show ?thesis using e by simp
  qed
  ultimately show ?thesis
    unfolding jobs_step_def
    by (intro exI[of _ id] exI[of _ "\<lambda>j. j_id j \<notin> set ?gone"] exI[of _ "[]"]) (auto simp del: in_terminal)
qed

lemma claim_delivery_frame: "jobs (snd (claim_delivery ts ow did c)) = jobs c"
  by (simp add: claim_delivery_def split: option.split)

lemma alert_ops_frame:
  "jobs (snd (mark_alert_sent ts i c)) = jobs c" "jobs (alert_failed ts i err c) = jobs c"
  by (simp_all add: mark_alert_sent_def alert_failed_def Let_def split: option.split)

lemma cron_step_jobs:
  assumes "jobs_ok c"
  shows "jobs_step op c (cron_step c op)"
proof (cases op)
  case (OInsert ts j)
  then show ?thesis by (auto split: option.split intro: insert_jobs jobs_step_same)
next
  case (OTarget jid t)
  then show ?thesis
    unfolding OTarget cron_step.simps update_delivery_target_def
    by (intro jobs_step_set[OF set_job_frame(5)]) (simp add: job_life_def)
qed (simp_all add: assms cancel_jobs update_jobs restore_jobs claim_jobs release_jobs finish_jobs
      missed_jobs finish_delivery_jobs recover_jobs init_jobs purge_jobs jobs_step_same
      claim_delivery_frame alert_ops_frame)

lemma jobs_step_ok:
  assumes "jobs_step op c c'" "jobs_ok c"
  shows "jobs_ok c'"
proof -
  from assms(1) obtain g keep new where
    js: "jobs c' = map g (filter keep (jobs c)) @ new"
    and life: "\<And>j. j \<in> set (jobs c) \<Longrightarrow> job_life op j (g j)"
    and new: "new = [] \<or> (\<exists>ts j j'. op = OInsert ts j \<and> new = [j'] \<and> j_id j' = j_id j
                       \<and> j_id j \<notin> j_id ` set (jobs c))"
    unfolding jobs_step_def by blast
  have ids: "map j_id (jobs c') = map j_id (filter keep (jobs c)) @ map j_id new"
    unfolding js using life by (auto simp: job_life_def)
  have "distinct (map j_id (filter keep (jobs c)))"
    using assms(2) by (auto simp: jobs_ok_def intro: distinct_map_filter)
  moreover have "set (map j_id (filter keep (jobs c))) \<subseteq> j_id ` set (jobs c)" by auto
  ultimately show ?thesis unfolding jobs_ok_def ids using new by (auto, metis image_eqI)
qed

interpretation cron_jobs: invariant_machine cron_step jobs_ok
  by unfold_locales (rule jobs_step_ok[OF cron_step_jobs])

lemma empty_jobs_ok [simp]: "jobs_ok empty_cron"
  by (simp add: jobs_ok_def empty_cron_def)


lemma jobs_step_row:
  assumes "jobs_step op c c'" "j' \<in> set (jobs c')"
  obtains j where "j \<in> set (jobs c)" "job_life op j j'"
    | ts j where "op = OInsert ts j" "j_id j' = j_id j"
  using assms unfolding jobs_step_def by (auto simp del: in_terminal)

lemma jobs_step_kept:
  assumes "jobs_step op c c'" "j \<in> set (jobs c)" "j_status j \<notin> set TERMINAL_STATUSES"
  obtains j' where "j' \<in> set (jobs c')" "job_life op j j'"
proof -
  from assms(1) obtain g keep new where
    "jobs c' = map g (filter keep (jobs c)) @ new" "\<forall>j \<in> set (jobs c). job_life op j (g j)"
    "\<forall>j \<in> set (jobs c). keep j \<or> j_status j \<in> set TERMINAL_STATUSES"
    unfolding jobs_step_def by blast
  then show ?thesis using assms(2,3) by (intro that[of "g j"]) auto
qed

lemma job_row_SomeD: "job_row c jid [] = Some j \<Longrightarrow> j \<in> set (jobs c) \<and> j_id j = jid"
  unfolding job_row_def by (auto dest: find_SomeD)

lemma job_row_in:
  assumes "jobs_ok c" "j \<in> set (jobs c)"
  shows "job_row c (j_id j) [] = Some j"
  using find_by_key[of j_id "jobs c" j "\<lambda>_. True"] assms by (simp add: job_row_def jobs_ok_def)

subsection \<open>An ended job stays ended\<close>

text \<open>The two operations that book a job: "Run again", and a new booking under the id.\<close>

fun books :: "string \<Rightarrow> cron_op \<Rightarrow> bool" where
  "books jid (ORestore ts i tm n ser tn v a s) = (i = jid)"
| "books jid (OInsert ts j) = (j_id j = jid)"
| "books jid _ = False"

lemma ended_job_step:
  assumes "jobs_ok c" "\<forall>j \<in> set (jobs c). j_id j = jid \<longrightarrow> j_status j = st"
    and "st \<in> set TERMINAL_STATUSES" "\<not> books jid op"
  shows "\<forall>j \<in> set (jobs (cron_step c op)). j_id j = jid \<longrightarrow> j_status j = st"
proof (intro ballI impI)
  fix j' assume j': "j' \<in> set (jobs (cron_step c op))" "j_id j' = jid"
  show "j_status j' = st"
  proof (rule jobs_step_row[OF cron_step_jobs[OF assms(1)] j'(1)])
    fix j assume j: "j \<in> set (jobs c)" "job_life op j j'"
    then have "j_id j = jid" "j_status j = st" using j' assms(2) by (auto simp: job_life_def)
    then show ?thesis using j(2) assms(3,4) by (cases op) (auto simp: job_life_def)
  qed (use assms(4) j' in auto)
qed


subsection \<open>A fire is its owner's\<close>

fun ends_fire :: "string \<Rightarrow> string \<Rightarrow> cron_op \<Rightarrow> bool" where
  "ends_fire jid held (ORelease ts i ow r) = (i = jid \<and> ow = held)"
| "ends_fire jid held (OFinish ts i ow r adv now) = (i = jid \<and> ow = held)"
| "ends_fire jid held _ = False"

definition fire_held :: "cron \<Rightarrow> string \<Rightarrow> string \<Rightarrow> string \<Rightarrow> bool" where
  "fire_held c jid ow due \<longleftrightarrow> (\<exists>j \<in> set (jobs c). j_id j = jid \<and> j_status j = JRunning
     \<and> j_owner j = ow \<and> j_due j = due)"

lemma fire_held_step:
  assumes "jobs_ok c" "fire_held c jid ow due" "\<not> ends_fire jid ow op"
  shows "fire_held (cron_step c op) jid ow due"
proof -
  obtain j where j: "j \<in> set (jobs c)" "j_id j = jid" "j_status j = JRunning" "j_owner j = ow" "j_due j = due"
    using assms(2) unfolding fire_held_def by auto
  obtain j' where j': "j' \<in> set (jobs (cron_step c op))" "job_life op j j'"
    by (rule jobs_step_kept[OF cron_step_jobs[OF assms(1)] j(1)]) (use j in auto)
  have "j_id j' = jid \<and> j_status j' = JRunning \<and> j_owner j' = ow \<and> j_due j' = due"
    using j'(2) j assms(3) by (cases op) (auto simp: job_life_def)
  then show ?thesis using j'(1) unfolding fire_held_def by auto
qed

text \<open>A cancellation recorded during the fire is kept with it.\<close>

definition cancel_held :: "cron \<Rightarrow> string \<Rightarrow> string \<Rightarrow> bool" where
  "cancel_held c jid ow \<longleftrightarrow> (\<exists>j \<in> set (jobs c). j_id j = jid \<and> j_status j = JRunning
     \<and> j_owner j = ow \<and> j_cancel j)"

lemma cancel_held_run:
  "jobs_ok c \<Longrightarrow> cancel_held c jid ow \<Longrightarrow> \<not> list_ex (ends_fire jid ow) ops
    \<Longrightarrow> cancel_held (foldl cron_step c ops) jid ow"
proof (induction ops arbitrary: c)
  case (Cons op ops)
  obtain j where j: "j \<in> set (jobs c)" "j_id j = jid" "j_status j = JRunning" "j_owner j = ow" "j_cancel j"
    using Cons.prems(2) unfolding cancel_held_def by auto
  obtain j' where j': "j' \<in> set (jobs (cron_step c op))" "job_life op j j'"
    by (rule jobs_step_kept[OF cron_step_jobs[OF Cons.prems(1)] j(1)]) (use j in auto)
  have "j_id j' = jid \<and> j_status j' = JRunning \<and> j_owner j' = ow \<and> j_cancel j'"
    using j'(2) j Cons.prems(3) by (cases op) (auto simp: job_life_def)
  then have "cancel_held (cron_step c op) jid ow" using j'(1) unfolding cancel_held_def by auto
  then show ?case
    using Cons jobs_step_ok[OF cron_step_jobs[OF Cons.prems(1)], of op] by simp
qed simp

lemma fire_held_run:
  "jobs_ok c \<Longrightarrow> fire_held c jid ow due \<Longrightarrow> \<not> list_ex (ends_fire jid ow) ops
    \<Longrightarrow> fire_held (foldl cron_step c ops) jid ow due"
proof (induction ops arbitrary: c)
  case (Cons op ops)
  then show ?case
    using fire_held_step[of c jid ow due op] jobs_step_ok[OF cron_step_jobs[OF Cons.prems(1)], of op] by simp
qed simp

lemma fire_held_refuses:
  assumes "jobs_ok c" "fire_held c jid ow due"
  shows "\<not> fst (claim_job ts jid other l v c)"
    and "other \<noteq> ow \<Longrightarrow> fst (finish_fire ts jid other r adv now c) = None"
    and "other \<noteq> ow \<Longrightarrow> \<not> fst (release_fire ts jid other why c)"
proof -
  obtain j where j: "j \<in> set (jobs c)" "j_id j = jid" "j_status j = JRunning" "j_owner j = ow"
    using assms(2) unfolding fire_held_def by auto
  have eq: "e = j" if "e \<in> set (jobs c)" "j_id e = jid" for e
    using that j assms(1) unfolding jobs_ok_def distinct_map by (metis inj_onD)
  show "\<not> fst (claim_job ts jid other l v c)"
    using eq j(3) by (auto simp: claim_job_def list_ex_iff)
  show "\<not> fst (release_fire ts jid other why c)" if "other \<noteq> ow"
    using eq j(3,4) that by (auto simp: release_fire_def list_ex_iff)
  show "fst (finish_fire ts jid other r adv now c) = None" if "other \<noteq> ow"
    using job_row_in[OF assms(1) j(1)] j that by (simp add: finish_fire_def)
qed

lemma fire_is_its_owners_parts:
  assumes "c = foldl cron_step empty_cron before" and "fst (claim_job ts jid ow lease v c)"
    and "\<not> list_ex (ends_fire jid ow) ops"
    and "c' = foldl cron_step c (OClaim ts jid ow lease v # ops)"
  shows "\<not> fst (claim_job ts' jid other lease' v' c')"
    and "other \<noteq> ow \<longrightarrow> fst (finish_fire ts' jid other r adv now c') = None
         \<and> \<not> fst (release_fire ts' jid other why c')"
proof -
  have ok: "jobs_ok c" unfolding assms(1) by (rule cron_jobs.run_inv[OF empty_jobs_ok])
  have ok1: "jobs_ok (cron_step c (OClaim ts jid ow lease v))"
    by (rule jobs_step_ok[OF cron_step_jobs[OF ok] ok])
  obtain j where j: "j \<in> set (jobs c)" "j_id j = jid" "j_status j = JPending" "\<not> stale_version v j"
    using assms(2) unfolding claim_job_def by (auto simp: list_ex_iff split: if_splits)
  have "\<exists>due. fire_held (cron_step c (OClaim ts jid ow lease v)) jid ow due"
    using assms(2) unfolding fire_held_def
    by (intro exI bexI[of _ "j\<lparr>j_status := JRunning, j_owner := ow, j_lease := ts + max 1 lease,
           j_attempt := (if Some (j_due j) = j_next j then j_attempt j + 1 else 1),
           j_due := (case j_next j of None \<Rightarrow> [] | Some n \<Rightarrow> n)\<rparr>"])
       (use j in \<open>auto simp: claim_job_def image_iff split: if_splits intro!: bexI[of _ j]\<close>)
  then obtain due where held: "fire_held c' jid ow due"
    unfolding assms(4) using fire_held_run[OF ok1 _ assms(3)] by auto
  have "jobs_ok c'" unfolding assms(4) by (rule cron_jobs.run_inv[OF ok])
  from fire_held_refuses[OF this held]
  show "\<not> fst (claim_job ts' jid other lease' v' c')"
    and "other \<noteq> ow \<longrightarrow> fst (finish_fire ts' jid other r adv now c') = None
         \<and> \<not> fst (release_fire ts' jid other why c')"
    by blast+
qed


text \<open>C28: A claimed fire stays with the scheduler that claimed it: until that owner ends or
  releases it, whatever else runs on the store, nobody claims the job again, and nobody else can
  end or release its fire.\<close>

theorem fire_is_its_owners:
  assumes "c = foldl cron_step empty_cron before" and "fst (claim_job ts jid ow lease v c)"
    and "\<not> list_ex (ends_fire jid ow) ops"
    and "c' = foldl cron_step c (OClaim ts jid ow lease v # ops)"
  shows "(\<not> fst (claim_job ts' jid other lease' v' c'))
    \<and> (other \<noteq> ow \<longrightarrow> fst (finish_fire ts' jid other r adv now c') = None
         \<and> \<not> fst (release_fire ts' jid other why c'))"
  by (intro conjI fire_is_its_owners_parts[OF assms])


theorem fire_is_its_owners_witness:
  "\<not> fst (claim_job 9 ''j1'' ''other'' 300 None (foldl cron_step (foldl cron_step empty_cron [OInsert 0 demo_job])
      [OClaim 1 ''j1'' ''me'' 300 None, OCancel 2 ''j1'' [] None ''a'' ''page'']))"
  by (rule fire_is_its_owners[OF refl, where before = "[OInsert 0 demo_job]" and ow = "''me''" and ts = 1 and lease = 300 and v = None
        and ops = "[OCancel 2 ''j1'' [] None ''a'' ''page'']", THEN conjunct1])
     (simp_all add: claim_job_def stale_version_def demo_eval)

end
