(* ===== verification/CronOutcomes.thy ===== *)
theory CronOutcomes
  imports CronJobs
begin

text \<open>
  What the scheduler's store tells about its jobs: the ops alerts of lost messages, what a fire's
  end records, what is due, and where a recorded cancellation or edit goes wrong.
\<close>

subsection \<open>Every lost message has its alert\<close>

definition lost :: "delivery \<Rightarrow> bool" where
  "lost d \<longleftrightarrow> d_state d \<in> {DUndeliverable, DUnknown}"

definition told :: "cron_alert list \<Rightarrow> delivery \<Rightarrow> bool" where
  "told as d \<longleftrightarrow> (lost d \<longrightarrow> d_alerted d \<and> delivery_dedupe (d_id d) \<in> a_dedupe ` set as)"

definition all_told :: "cron \<Rightarrow> bool" where
  "all_told c \<longleftrightarrow> (\<forall>d \<in> set (deliveries c). told (alerts c) d)"

lemma told_mono: "told as d \<Longrightarrow> a_dedupe ` set as \<subseteq> a_dedupe ` set as' \<Longrightarrow> told as' d"
  by (auto simp: told_def)

lemma told_note_alert [simp]: "told as d \<Longrightarrow> told as (note_alert did d)"
  by (auto simp: told_def note_alert_def lost_def)

lemma alerts_grow: "a_dedupe ` set (alerts c) \<subseteq> a_dedupe ` set (alerts (enqueue_alert ts dd jid t did c))"
  using enqueue_alert_alerts(1)[of ts dd jid t did c] by auto

lemma all_told_same:
  "deliveries c' = deliveries c \<Longrightarrow> a_dedupe ` set (alerts c) \<subseteq> a_dedupe ` set (alerts c')
    \<Longrightarrow> all_told c \<Longrightarrow> all_told c'"
  by (auto simp: all_told_def intro: told_mono)

lemma frame_told [simp]:
  "all_told (set_job jid f c) = all_told c"
  "all_told (snd (add_event ts jid e a s dt c)) = all_told c"
  by (simp_all add: all_told_def)

lemma enqueue_told:
  assumes "\<And>d. d \<in> set (deliveries c) \<Longrightarrow> did = Some (d_id d) \<and> dd = delivery_dedupe (d_id d) \<or> told (alerts c) d"
  shows "all_told (enqueue_alert ts dd jid t did c)"
proof -
  have "told (alerts (enqueue_alert ts dd jid t did c)) (note_alert did d)" if "d \<in> set (deliveries c)" for d
    using assms[OF that]
  proof
    assume "told (alerts c) d"
    then show ?thesis using told_mono[OF _ alerts_grow] by (intro told_note_alert) blast
  next
    assume "did = Some (d_id d) \<and> dd = delivery_dedupe (d_id d)"
    then show ?thesis
      using enqueue_alert_alerts(2)[of dd ts jid t did c] by (simp add: told_def note_alert_def)
  qed
  then show ?thesis by (auto simp: all_told_def)
qed

lemma queue_told: "all_told c \<Longrightarrow> all_told (snd (queue_delivery ts jid tn k p t b due c))"
  by (auto simp: queue_delivery_def all_told_def told_def lost_def Let_def)

lemma fire_message_told: "all_told c \<Longrightarrow> all_told (snd (fire_message ts j r c))"
  by (simp add: fire_message_def queue_told)

lemma enqueue_other_told: "all_told c \<Longrightarrow> all_told (enqueue_alert ts dd jid t None c)"
  by (rule enqueue_told) (simp add: all_told_def)

lemma cancel_told: "all_told c \<Longrightarrow> all_told (snd (cancel_job ts jid tn v a s c))"
proof -
  assume "all_told c"
  moreover have "all_told c \<Longrightarrow> all_told (cancel_deliveries ts jid c)"
    by (auto simp: all_told_def cancel_deliveries_def told_def lost_def)
  ultimately show ?thesis
    by (auto simp: cancel_job_def split: option.split job_status.split)
qed

lemma finish_told: "all_told c \<Longrightarrow> all_told (snd (finish_fire ts jid ow r adv now c))"
  by (auto simp: finish_fire_def Let_def split: option.split intro!: enqueue_other_told fire_message_told)

lemma missed_told: "all_told c \<Longrightarrow> all_told (snd (mark_missed ts jid e n t adv now c))"
  by (auto simp: mark_missed_def Let_def split: option.split intro!: queue_told)

lemma claim_delivery_told: "all_told c \<Longrightarrow> all_told (snd (claim_delivery ts ow did c))"
  by (auto simp: claim_delivery_def all_told_def told_def lost_def split: option.split)

lemma finish_delivery_told:
  assumes "outbox_ok c" "all_told c"
  shows "all_told (snd (finish_delivery ts i ow ok err c))"
proof (cases "find (\<lambda>d. d_id d = i \<and> d_state d = DSending \<and> d_owner d = ow) (deliveries c)")
  case None
  then show ?thesis using assms by (simp add: finish_delivery_def)
next
  case (Some d)
  then have d: "d_id d = i" by (auto dest: find_SomeD)
  let ?c1 = "set_delivery i (answered_row ts ok err) c"
  have row: "e \<in> set (deliveries ?c1) \<Longrightarrow>
      d_id e = i \<and> d_state e = send_state ts ok d \<or> told (alerts c) e" for e
  proof -
    assume "e \<in> set (deliveries ?c1)"
    then obtain e0 where e0: "e0 \<in> set (deliveries c)"
      "e = (if d_id e0 = i then answered_row ts ok err e0 else e0)" by auto
    show ?thesis
    proof (cases "d_id e0 = i")
      case True
      then have "e0 = d" using find_delivery_id[OF assms(1) Some e0(1)] d by simp
      then show ?thesis using e0(2) d by (simp add: answered_row_def Let_def)
    qed (use e0 assms(2) in \<open>simp add: all_told_def\<close>)
  qed
  show ?thesis
  proof (cases "send_state ts ok d = DUndeliverable")
    case True
    have "all_told (enqueue_alert ts (delivery_dedupe i) jid t (Some i) (set_job jid f ?c1))" for jid t f
    proof (rule enqueue_told)
      fix e assume "e \<in> set (deliveries (set_job jid f ?c1))"
      then show "Some i = Some (d_id e) \<and> delivery_dedupe i = delivery_dedupe (d_id e)
          \<or> told (alerts (set_job jid f ?c1)) e"
        using row[of e] by (simp only: set_job_frame set_delivery_frame) auto
    qed
    then show ?thesis using True by (simp add: finish_delivery_def Some Let_def)
  next
    case False
    then have "\<not> lost e" if "d_state e = send_state ts ok d" for e
      using that by (auto simp: lost_def send_state_def split: if_splits)
    then have "all_told ?c1" using row by (auto simp: all_told_def told_def)
    then show ?thesis using False by (simp add: finish_delivery_def Some Let_def)
  qed
qed

lemma end_unknown_told: "all_told c \<Longrightarrow> all_told (end_unknown ts d c)"
  unfolding end_unknown_def Let_def
  by (rule enqueue_told) (auto simp: all_told_def unknown_row_def)

lemma recover_told: "all_told c \<Longrightarrow> all_told (snd (recover_deliveries ts ow live c))"
proof -
  have "all_told c \<Longrightarrow> all_told (foldl (\<lambda>c d. end_unknown ts d c) c rows)" for rows
    by (induction rows arbitrary: c) (simp_all add: end_unknown_told)
  then show "all_told c \<Longrightarrow> ?thesis" by (simp add: recover_deliveries_def Let_def)
qed

lemma init_told: "all_told c \<Longrightarrow> all_told (queue_unalerted_deliveries ts (normalize_next_runs ts c))"
proof -
  have "all_told c \<Longrightarrow> all_told (queue_its_alert ts d c)" for c d
    unfolding queue_its_alert_def by (rule enqueue_told) (simp add: all_told_def)
  then have "all_told c \<Longrightarrow> all_told (foldl (\<lambda>c d. queue_its_alert ts d c) c rows)" for c rows
    by (induction rows arbitrary: c) simp_all
  moreover assume "all_told c"
  then have "all_told (normalize_next_runs ts c)" by (simp add: normalize_next_runs_def all_told_def)
  ultimately show ?thesis by (simp add: queue_unalerted_deliveries_def)
qed

lemma alert_ops_deliveries:
  "deliveries (snd (mark_alert_sent ts i c)) = deliveries c"
  "deliveries (alert_failed ts i err c) = deliveries c"
  "a_dedupe ` set (alerts (snd (mark_alert_sent ts i c))) = a_dedupe ` set (alerts c)"
  "a_dedupe ` set (alerts (alert_failed ts i err c)) = a_dedupe ` set (alerts c)"
proof -
  have img: "a_dedupe ` set (map f as) = a_dedupe ` set as" if "\<And>a. a_dedupe (f a) = a_dedupe a" for f as
    using that by (simp add: image_image)
  show "a_dedupe ` set (alerts (snd (mark_alert_sent ts i c))) = a_dedupe ` set (alerts c)"
    by (simp add: mark_alert_sent_def img del: set_map)
  show "a_dedupe ` set (alerts (alert_failed ts i err c)) = a_dedupe ` set (alerts c)"
    unfolding alert_failed_def Let_def by (simp add: img split: option.split del: set_map)
qed (simp_all add: mark_alert_sent_def alert_failed_def Let_def split: option.split)

lemma alert_ops_told:
  "all_told c \<Longrightarrow> all_told (snd (mark_alert_sent ts i c))"
  "all_told c \<Longrightarrow> all_told (alert_failed ts i err c)"
  by (erule all_told_same[rotated 2], simp only: alert_ops_deliveries, simp only: alert_ops_deliveries subset_refl)+

lemma all_told_insert: "insert_job ts j c = Some c' \<Longrightarrow> all_told c \<Longrightarrow> all_told c'"
  by (auto simp: insert_job_def Let_def all_told_def split: if_splits)

text \<open>Only the purge drops alerts, those already raised.\<close>

fun purges :: "cron_op \<Rightarrow> bool" where
  "purges (OPurge ts days keep) = True"
| "purges _ = False"

lemma job_ops_told:
  "all_told (snd (update_job ts jid tm p n ser tn v a s c)) = all_told c"
  "all_told (snd (restore_job ts jid tm2 n2 ser2 tn v a s c)) = all_told c"
  "all_told (snd (claim_job ts jid ow l v c)) = all_told c"
  "all_told (snd (release_fire ts jid ow r c)) = all_told c"
  "all_told (update_delivery_target jid t c) = all_told c"
  by (simp_all add: update_job_def restore_job_def claim_job_def release_fire_def
      update_delivery_target_def Let_def split: option.split job_status.split)

lemma cron_step_told:
  assumes "outbox_ok c" "all_told c" "\<not> purges op"
  shows "all_told (cron_step c op)"
proof (cases op)
  case (OInsert ts j)
  then show ?thesis using assms(2) by (auto split: option.split intro: all_told_insert)
qed (use assms in \<open>simp_all add: job_ops_told cancel_told finish_told missed_told claim_delivery_told
      finish_delivery_told recover_told init_told alert_ops_told\<close>)


subsection \<open>No alert is lost\<close>

definition waiting :: "cron \<Rightarrow> nat \<Rightarrow> string \<Rightarrow> bool" where
  "waiting c i title \<longleftrightarrow> (\<exists>a \<in> set (alerts c). a_id a = i \<and> a_title a = title \<and> a_sent a = None)"

lemma waiting_enqueue [simp]:
  "waiting c i title \<Longrightarrow> waiting (enqueue_alert ts dd jid t did c) i title"
  using enqueue_alert_alerts(1)[of ts dd jid t did c] by (auto simp: waiting_def)

lemma waiting_frame [simp]:
  "waiting (set_job jid f c) i title = waiting c i title"
  "waiting (set_delivery k g c) i title = waiting c i title"
  "waiting (snd (add_event ts jid e a s dt c)) i title = waiting c i title"
  "waiting (cancel_deliveries ts jid c) i title = waiting c i title"
  "waiting (snd (queue_delivery ts jid tn k' p tg b due c)) i title = waiting c i title"
  "waiting (snd (fire_message ts j r c)) i title = waiting c i title"
  "waiting (normalize_next_runs ts c) i title = waiting c i title"
  by (simp_all add: waiting_def normalize_next_runs_def)

lemma waiting_folds:
  "waiting c i title \<Longrightarrow> waiting (foldl (\<lambda>c d. end_unknown ts d c) c rows) i title"
  "waiting c i title \<Longrightarrow> waiting (foldl (\<lambda>c d. queue_its_alert ts d c) c rows) i title"
  by (induction rows arbitrary: c) (simp_all add: end_unknown_def queue_its_alert_def Let_def)

lemma waiting_map:
  assumes "waiting c i title" "alerts c' = map f (alerts c)"
    and "\<And>a. a_id (f a) = a_id a \<and> a_title (f a) = a_title a"
    and "\<And>a. a_id a = i \<Longrightarrow> a_sent a = None \<Longrightarrow> a_sent (f a) = None"
  shows "waiting c' i title"
proof -
  obtain a where "a \<in> set (alerts c)" "a_id a = i" "a_title a = title" "a_sent a = None"
    using assms(1) by (auto simp: waiting_def)
  then show ?thesis unfolding waiting_def assms(2) using assms(3,4)[of a] by (intro bexI[of _ "f a"]) auto
qed

fun marks_sent :: "nat \<Rightarrow> cron_op \<Rightarrow> bool" where
  "marks_sent i (OAlertSent ts k) = (k = i)"
| "marks_sent i _ = False"

lemma waiting_step:
  assumes "waiting c i title" "\<not> marks_sent i op"
  shows "waiting (cron_step c op) i title"
proof (cases op)
  case (OInsert ts j)
  then show ?thesis
    using assms(1) by (auto simp: insert_job_def Let_def waiting_def split: option.split)
next
  case (OCancel ts jid tn v a s)
  then show ?thesis
    using assms(1) by (auto simp: cancel_job_def split: option.split job_status.split)
next
  case (OFinish ts jid ow r adv now)
  then show ?thesis
    using assms(1) by (auto simp: finish_fire_def Let_def split: option.split)
next
  case (OMissed ts jid e n t adv now)
  then show ?thesis
    using assms(1) by (auto simp: mark_missed_def Let_def split: option.split)
next
  case (OFinishDelivery ts k ow ok err)
  then show ?thesis
    using assms(1) by (auto simp: finish_delivery_def Let_def split: option.split)
next
  case (OAlertSent ts k)
  then show ?thesis
    using assms
    by (intro waiting_map[OF assms(1),
          where f = "\<lambda>a. if a_id a = k \<and> a_sent a = None then a\<lparr>a_sent := Some ts\<rparr> else a"])
       (auto simp: mark_alert_sent_def)
next
  case (OAlertFailed ts k err)
  show ?thesis
  proof (cases "find (\<lambda>a. a_id a = k \<and> a_sent a = None) (alerts c)")
    case None
    then show ?thesis using assms(1) OAlertFailed by (simp add: alert_failed_def)
  next
    case (Some b)
    then show ?thesis
      unfolding OAlertFailed
      by (intro waiting_map[OF assms(1), where f = "\<lambda>a. if a_id a = k then a\<lparr>a_attempts := a_attempts b + 1,
             a_error := take 500 err, a_next := ts + delivery_backoff (a_attempts b + 1)\<rparr> else a"])
         (simp_all add: alert_failed_def Let_def)
  qed
next
  case (OPurge ts days keep)
  then show ?thesis
    using assms(1) by (auto simp: purge_terminal_jobs_def waiting_def Let_def)
qed (use assms(1) in \<open>simp_all add: update_delivery_target_def update_job_def restore_job_def claim_job_def
      release_fire_def claim_delivery_def recover_deliveries_def queue_unalerted_deliveries_def
      waiting_folds Let_def split: option.split job_status.split\<close>)

text \<open>An alert that was queued waits in the outbox, through crashes, restarts and purges of any age,
  until it is marked as raised.\<close>

theorem queued_alert_waits_until_raised:
  assumes "a \<in> set (alerts c)" "a_sent a = None" and "\<not> list_ex (marks_sent (a_id a)) ops"
  shows "\<exists>a' \<in> set (alerts (foldl cron_step c ops)).
    a_id a' = a_id a \<and> a_title a' = a_title a \<and> a_sent a' = None"
proof -
  have "waiting c (a_id a) (a_title a)" using assms(1,2) by (auto simp: waiting_def)
  then have "waiting (foldl cron_step c ops) (a_id a) (a_title a)"
    using assms(3) by (induction ops arbitrary: c) (simp_all add: waiting_step)
  then show ?thesis by (simp add: waiting_def)
qed


subsection \<open>What a fire's end records\<close>

lemma in_jobs_map:
  "j \<in> set (jobs c) \<Longrightarrow> jobs c' = map (\<lambda>e. if j_id e = jid then f e else e) (jobs c)
    \<Longrightarrow> j_id j = jid \<Longrightarrow> f j \<in> set (jobs c')"
  by (auto simp: image_iff intro!: bexI[of _ j])

lemma finish_fire_ok:
  assumes "jobs_ok c" "j \<in> set (jobs c)" "j_status j = JRunning" "j_owner j = ow"
  shows "fired_job r adv now (fst (fire_message ts j r c)) j \<in> set (jobs (cron_step c (OFinish ts (j_id j) ow r adv now)))"
    and "deliveries (cron_step c (OFinish ts (j_id j) ow r adv now)) = deliveries (snd (fire_message ts j r c))"
    and "\<exists>e. fst (finish_fire ts (j_id j) ow r adv now c) = Some e
       \<and> n_delivery e = fst (fire_message ts j r c) \<and> n_status e = x_status (fate_of r adv now (fst (fire_message ts j r c)) j)
       \<and> n_failures e = fire_failures r j \<and> n_due e = due_text j \<and> n_cancelled e = j_cancel j"
proof -
  note row = job_row_in[OF assms(1,2)]
  show "fired_job r adv now (fst (fire_message ts j r c)) j \<in> set (jobs (cron_step c (OFinish ts (j_id j) ow r adv now)))"
    unfolding cron_step.simps
    by (rule in_jobs_map[OF assms(2) finish_fire_jobs[OF row assms(3,4)]]) simp
  show "deliveries (cron_step c (OFinish ts (j_id j) ow r adv now)) = deliveries (snd (fire_message ts j r c))"
    using row assms(3,4) by (simp add: finish_fire_def Let_def split: option.split)
  show "\<exists>e. fst (finish_fire ts (j_id j) ow r adv now c) = Some e
       \<and> n_delivery e = fst (fire_message ts j r c) \<and> n_status e = x_status (fate_of r adv now (fst (fire_message ts j r c)) j)
       \<and> n_failures e = fire_failures r j \<and> n_due e = due_text j \<and> n_cancelled e = j_cancel j"
    using row assms(3,4) by (simp add: finish_fire_def Let_def)
qed

lemma running_row:
  assumes "jobs_ok c" "job_row c jid [] = Some j" "cancel_held c jid ow"
  shows "j_status j = JRunning \<and> j_owner j = ow \<and> j_cancel j"
  using assms job_row_unique[OF assms(1,2)] unfolding cancel_held_def by auto

lemma recorded_cancel_wins_parts:
  assumes "c = foldl cron_step empty_cron before" and "job_row c jid [] = Some j"
    and "j_status j = JRunning" "j_owner j = ow"
    and "fst (cancel_job ts jid tn v a s c) = ''cancel_pending''"
    and "\<not> list_ex (ends_fire jid ow) ops"
    and "c' = foldl cron_step c (OCancel ts jid tn v a s # ops)"
  shows "map j_status (filter (\<lambda>e. j_id e = jid) (jobs (cron_step c' (OFinish ts' jid ow r adv now)))) = [JCancelled]"
    and "deliveries (cron_step c' (OFinish ts' jid ow r adv now)) = deliveries c'"
proof -
  have ok: "jobs_ok c" unfolding assms(1) by (rule cron_jobs.run_inv[OF empty_jobs_ok])
  have ok1: "jobs_ok (cron_step c (OCancel ts jid tn v a s))"
    by (rule jobs_step_ok[OF cron_step_jobs[OF ok] ok])
  note j = job_row_SomeD[OF assms(2)]
  obtain k where k: "job_row c jid tn = Some k" using assms(5) unfolding cancel_job_def
    by (auto split: option.splits)
  have "j = k" using job_row_unique[OF ok k] j by blast
  then have "jobs (cron_step c (OCancel ts jid tn v a s))
      = map (\<lambda>e. if j_id e = jid then touched a (e\<lparr>j_cancel := True\<rparr>) else e) (jobs c)"
    using assms(3,5) k by (auto simp: cancel_job_def split: if_splits)
  from in_jobs_map[OF conjunct1[OF j] this conjunct2[OF j]]
  have "cancel_held (cron_step c (OCancel ts jid tn v a s)) jid ow"
    unfolding cancel_held_def using j assms(3,4) by (intro bexI) (auto simp: touched_def)
  then have held: "cancel_held c' jid ow"
    unfolding assms(7) using cancel_held_run[OF ok1 _ assms(6)] by simp
  have ok': "jobs_ok c'" unfolding assms(7) by (rule cron_jobs.run_inv[OF ok])
  obtain k' where k': "k' \<in> set (jobs c')" "j_id k' = jid" "j_status k' = JRunning" "j_owner k' = ow" "j_cancel k'"
    using held unfolding cancel_held_def by auto
  let ?finish = "OFinish ts' jid ow r adv now"
  have msg: "fire_message ts' k' r c' = (None, c')" using k' by (simp add: fire_message_def)
  note fin = finish_fire_ok[OF ok' k'(1,3,4), where r = r and adv = adv and now = now and ts = ts',
      unfolded k'(2) msg fst_conv snd_conv]
  show "deliveries (cron_step c' ?finish) = deliveries c'" by (rule fin(2))
  have "j_status (fired_job r adv now None k') = JCancelled"
    using k'(5) by (simp add: fate_of_def fire_fate_def Let_def)
  moreover have "filter (\<lambda>e. j_id e = jid) (jobs (cron_step c' ?finish)) = [fired_job r adv now None k']"
  proof -
    have "distinct (map j_id (jobs (cron_step c' ?finish)))"
      using jobs_step_ok[OF cron_step_jobs[OF ok'] ok', of ?finish] by (simp only: jobs_ok_def)
    then show ?thesis using filter_by_key fin(1) k'(2) by fastforce
  qed
  ultimately show "map j_status (filter (\<lambda>e. j_id e = jid) (jobs (cron_step c' ?finish))) = [JCancelled]"
    by simp
qed


text \<open>A cancellation recorded while a job fires wins over the fire: whatever else happens to the
  store until the fire's owner ends it, that end leaves the job cancelled and queues no message.\<close>

theorem recorded_cancel_wins:
  assumes "c = foldl cron_step empty_cron before" and "job_row c jid [] = Some j"
    and "j_status j = JRunning" "j_owner j = ow"
    and "fst (cancel_job ts jid tn v a s c) = ''cancel_pending''"
    and "\<not> list_ex (ends_fire jid ow) ops"
    and "c' = foldl cron_step c (OCancel ts jid tn v a s # ops)"
  shows "(map j_status (filter (\<lambda>e. j_id e = jid) (jobs (cron_step c' (OFinish ts' jid ow r adv now)))) = [JCancelled])
    \<and> (deliveries (cron_step c' (OFinish ts' jid ow r adv now)) = deliveries c')"
  by (intro conjI recorded_cancel_wins_parts[OF assms])

lemma one_row:
  assumes "jobs_ok c" "j \<in> set (jobs c)"
  shows "filter (\<lambda>e. j_id e = j_id j) (jobs c) = [j]"
  using filter_by_key[of j_id "jobs c" j] assms by (simp add: jobs_ok_def)

text \<open>
  A fire whose job is running for its owner and whose cancellation was not recorded: the state
  after its end, the row of its job there, and its message.
\<close>

lemma fire_end_row:
  assumes "jobs_ok c" "job_row c jid [] = Some j" "j_status j = JRunning" "j_owner j = ow"
  shows "filter (\<lambda>e. j_id e = jid) (jobs (cron_step c (OFinish ts jid ow r adv now)))
    = [fired_job r adv now (fst (fire_message ts j r c)) j]"
proof -
  note j = job_row_SomeD[OF assms(2)]
  have ok': "jobs_ok (cron_step c (OFinish ts jid ow r adv now))"
    by (rule jobs_step_ok[OF cron_step_jobs[OF assms(1)] assms(1)])
  have "fired_job r adv now (fst (fire_message ts j r c)) j
      \<in> set (jobs (cron_step c (OFinish ts (j_id j) ow r adv now)))"
    using j assms by (intro finish_fire_ok(1)) auto
  from one_row[OF ok' this[unfolded conjunct2[OF j]]] j show ?thesis by simp
qed

text \<open>The end of a one-off's fire is one whole: the message of a success is in the outbox, waiting
  for its first send, and the job is delivering, not done; a second end of the same fire changes
  nothing.\<close>

theorem one_off_waits_for_its_message:
  assumes "c = foldl cron_step empty_cron before" and "job_row c jid [] = Some j"
    and "j_status j = JRunning" "j_owner j = ow" "j_edit j = []" "\<not> j_cancel j"
    and "f_success r" "f_body r \<noteq> []"
    and "fire_key jid (due_text j) (f_purpose r) \<notin> d_key ` set (deliveries c)"
    and "\<And>after ser. adv (j_timing j) after ser = None" "\<not> looks_recurring (j_timing j)"
    and "c' = cron_step c (OFinish ts jid ow r adv now)"
  shows "map j_status (filter (\<lambda>e. j_id e = jid) (jobs c')) = [JDelivering]"
    and "\<exists>d \<in> set (deliveries c'). d_id d = delivery_seq c + 1 \<and> d_job d = jid \<and> d_state d = DPending
           \<and> d_attempts d = 0 \<and> d_body d = take 4000 (f_body r) \<and> d_target d = f_target r"
    and "cron_step c' (OFinish ts' jid ow r' adv' now') = c'"
proof -
  have ok: "jobs_ok c" unfolding assms(1) by (rule cron_jobs.run_inv[OF empty_jobs_ok])
  note j = job_row_SomeD[OF assms(2)]
  have msg: "fst (fire_message ts j r c) = Some (delivery_seq c + 1)"
    using assms(6,8,9) j by (simp add: fire_message_def queue_delivery_def Let_def)
  have timing: "merged k old j = old" for k old
    using assms(5) by (simp add: merged_def edited_def or_else_def)
  have delivering: "j_status (fired_job r adv now (fst (fire_message ts j r c)) j) = JDelivering"
    using assms(5,6,7,10,11) by (simp add: msg timing fate_of_def fire_fate_def Let_def)
  note row = fire_end_row[OF ok assms(2-4), of ts r adv now, folded assms(12)]
  show status: "map j_status (filter (\<lambda>e. j_id e = jid) (jobs c')) = [JDelivering]"
    using row delivering by simp
  have dels: "deliveries c' = deliveries (snd (fire_message ts j r c))"
    unfolding assms(12) using finish_fire_ok(2)[OF ok conjunct1[OF j] assms(3,4)] j by simp
  show "\<exists>d \<in> set (deliveries c'). d_id d = delivery_seq c + 1 \<and> d_job d = jid \<and> d_state d = DPending
           \<and> d_attempts d = 0 \<and> d_body d = take 4000 (f_body r) \<and> d_target d = f_target r"
    using assms(6,8,9) j by (simp add: dels fire_message_def queue_delivery_def Let_def)
  have "job_row c' jid [] = Some (fired_job r adv now (fst (fire_message ts j r c)) j)"
    using find_of_filter[OF row] by (simp add: job_row_def)
  then show "cron_step c' (OFinish ts' jid ow r' adv' now') = c'"
    using delivering by (simp add: finish_fire_def)
qed

lemma fire_message_events: "event_seq (snd (fire_message ts j r c)) = event_seq c"
  by (simp add: fire_message_def queue_delivery_def Let_def)

text \<open>A recurring job's fire books its next occurrence, whether the fire succeeded or failed
  within its failure budget, unless an edit or a cancellation was recorded; the failure that
  exhausts the budget ends the job failed and queues an ops alert with that end.\<close>

theorem recurring_fire_books_the_next:
  assumes "c = foldl cron_step empty_cron before" and "job_row c jid [] = Some j"
    and "j_status j = JRunning" "j_owner j = ow" "j_edit j = []" "\<not> j_cancel j"
    and "\<And>after. adv (j_timing j) after (j_series j) = Some (nxt after)"
    and "c' = cron_step c (OFinish ts jid ow r adv now)"
  shows "if \<not> f_success r \<and> max 1 (f_budget r) \<le> int (j_failures j) + 1
    then map j_status (filter (\<lambda>e. j_id e = jid) (jobs c')) = [JFailed]
         \<and> ''fire:'' @ nat_str (event_seq c + 1) \<in> a_dedupe ` set (alerts c')
    else map (\<lambda>e. (j_status e, j_next e)) (filter (\<lambda>e. j_id e = jid) (jobs c'))
         = [(JPending, Some (norm_iso (nxt (max now
              (case parse_instant (due_text j) of None \<Rightarrow> now | Some d \<Rightarrow> d)))))]"
proof -
  have ok: "jobs_ok c" unfolding assms(1) by (rule cron_jobs.run_inv[OF empty_jobs_ok])
  note j = job_row_SomeD[OF assms(2)]
  have merge: "merged k old j = old" for k old
    using assms(5) by (simp add: merged_def edited_def or_else_def)
  note row = fire_end_row[OF ok assms(2-4), of ts r adv now, folded assms(8)]
  let ?did = "fst (fire_message ts j r c)"
  let ?fate = "fate_of r adv now ?did j"
  have adv: "adv (j_timing j) after (j_series j) = Some (nxt after)" for after by (rule assms(7))
  show ?thesis
  proof (cases "\<not> f_success r \<and> max 1 (f_budget r) \<le> int (j_failures j) + 1")
    case True
    then have fate: "x_status ?fate = JFailed" "x_exhausted ?fate"
      using assms(5,6) by (simp_all add: fate_of_def fire_fate_def merge adv fire_failures_def Let_def)
    obtain tx where "fire_alert jid r (j_timing j) (fire_failures r j) (x_status ?fate) (x_exhausted ?fate) = Some tx"
      using True fate by (auto simp: fire_alert_def Let_def)
    then have "''fire:'' @ nat_str (event_seq c + 1) \<in> a_dedupe ` set (alerts c')"
      using assms(2-4) enqueue_alert_alerts(2)
      by (simp add: assms(8) finish_fire_def Let_def add_event_def set_job_def fire_message_events)
    then show ?thesis using True row fate by simp
  next
    case False
    then have "x_status ?fate = JPending" "x_next ?fate = Some (nxt (max now
              (case parse_instant (due_text j) of None \<Rightarrow> now | Some d \<Rightarrow> d)))"
      using assms(5,6) by (auto simp: fate_of_def fire_fate_def merge adv fire_failures_def Let_def)
    then show ?thesis using False row by (simp add: fired_job_def Let_def)
  qed
qed


text \<open>The answer to a send reaches the job in the same step: an acknowledged result ends a
  delivering job done, a refusal for good ends it undeliverable, any other refusal leaves it
  delivering; the scheduler that lost the lease records nothing.\<close>

theorem send_outcome_reaches_the_job:
  assumes "c = foldl cron_step empty_cron before" and "job_row c (d_job d) [] = Some j"
    and "j_status j = JDelivering" "d \<in> set (deliveries c)" "d_state d = DSending"
    and "d_purpose d = ''result''"
    and "c' = cron_step c (OFinishDelivery ts (d_id d) (d_owner d) ok err)"
  shows "map j_status (filter (\<lambda>e. j_id e = d_job d) (jobs c')) =
      [if ok then JDone else if refused_for_good ts d then JUndeliverable else JDelivering]"
    and "map d_state (filter (\<lambda>e. d_id e = d_id d) (deliveries c')) =
      [if ok then DDelivered else if refused_for_good ts d then DUndeliverable else DPending]"
    and "ow \<noteq> d_owner d \<longrightarrow> finish_delivery ts (d_id d) ow ok err c = (None, c)"
proof -
  have ok: "jobs_ok c" "outbox_ok c" unfolding assms(1)
    by (rule cron_jobs.run_inv[OF empty_jobs_ok], rule outbox.run_inv[OF empty_outbox_ok])
  have ok': "jobs_ok c'" "outbox_ok c'" unfolding assms(7)
    by (rule jobs_step_ok[OF cron_step_jobs[OF ok(1)] ok(1)], rule cron_step_ok[OF ok(2)])
  note j = job_row_SomeD[OF assms(2)]
  have dist: "distinct (map d_id (deliveries c))" "distinct (map d_id (deliveries c'))"
    using ok(2) ok'(2) by (simp_all add: outbox_ok_def)
  let ?st = "send_state ts ok d"
  have fd: "find (\<lambda>e. d_id e = d_id d \<and> d_state e = DSending \<and> d_owner e = d_owner d) (deliveries c) = Some d"
    using assms(5) by (intro find_by_key[OF dist(1) assms(4)]) simp
  have "jobs c' = map (\<lambda>e. if j_id e = d_job d then answered_job ts ?st (d_purpose d) err e else e) (jobs c)"
    using fd by (simp add: assms(7) finish_delivery_def Let_def)
  from in_jobs_map[OF conjunct1[OF j] this conjunct2[OF j]]
  have row: "filter (\<lambda>e. j_id e = d_job d) (jobs c') = [answered_job ts ?st (d_purpose d) err j]"
    using one_row[OF ok'(1)] j by (fastforce simp: answered_job_def end_delivering_def)
  then show "map j_status (filter (\<lambda>e. j_id e = d_job d) (jobs c')) =
      [if ok then JDone else if refused_for_good ts d then JUndeliverable else JDelivering]"
    using assms(3,6) by (simp add: answered_job_def end_delivering_def send_state_def)
  let ?g = "if ?st = DUndeliverable then note_alert (Some (d_id d)) else id"
  have "deliveries c' = map (\<lambda>e. ?g (if d_id e = d_id d then answered_row ts ok err e else e)) (deliveries c)"
    using fd by (simp add: assms(7) finish_delivery_def Let_def comp_def)
  then have "?g (answered_row ts ok err d) \<in> set (deliveries c')"
    using assms(4) by (auto simp: image_iff intro!: bexI[of _ d])
  from filter_by_key[OF dist(2) this]
  have "filter (\<lambda>e. d_id e = d_id d) (deliveries c') = [?g (answered_row ts ok err d)]"
    by (simp add: answered_row_def Let_def split: if_splits)
  then show "map d_state (filter (\<lambda>e. d_id e = d_id d) (deliveries c')) =
      [if ok then DDelivered else if refused_for_good ts d then DUndeliverable else DPending]"
    by (simp add: answered_row_def send_state_def Let_def)
  have "find (\<lambda>e. d_id e = d_id d \<and> d_state e = DSending \<and> d_owner e = ow) (deliveries c) = None"
    if "ow \<noteq> d_owner d"
    by (rule find_only_key[OF dist(1) assms(4)]) (use that in simp)
  then show "ow \<noteq> d_owner d \<longrightarrow> finish_delivery ts (d_id d) ow ok err c = (None, c)"
    by (simp add: finish_delivery_def)
qed


subsection \<open>Where a recorded change goes wrong\<close>

lemma release_row:
  assumes "j \<in> set (jobs c)" "j_status j = JRunning"
  obtains k where "k \<in> set (jobs (cron_step c (ORelease ts (j_id j) (j_owner j) why)))"
    "j_id k = j_id j" "j_status k = JPending" "j_edit k = j_edit j" "j_cancel k = j_cancel j"
    "j_version k = j_version j"
proof -
  let ?f = "\<lambda>j. j\<lparr>j_status := JPending, j_owner := [], j_lease := 0,
     j_next := (if j_due j \<noteq> [] then Some (j_due j) else j_next j)\<rparr>"
  have "jobs (cron_step c (ORelease ts (j_id j) (j_owner j) why))
      = map (\<lambda>e. if j_id e = j_id j then ?f e else e) (jobs c)"
    using assms by (auto simp: release_fire_def list_ex_iff)
  from in_jobs_map[OF assms(1) this refl] show ?thesis by (rule that) simp_all
qed

lemma claim_job_row:
  assumes "j \<in> set (jobs c)" "j_status j = JPending"
  obtains k where "k \<in> set (jobs (cron_step c (OClaim ts (j_id j) ow lease None)))"
    "j_id k = j_id j" "j_status k = JRunning" "j_owner k = ow" "j_edit k = j_edit j"
    "j_cancel k = j_cancel j" "fst (claim_job ts (j_id j) ow lease None c)"
proof -
  have ex: "list_ex (\<lambda>e. j_id e = j_id j \<and> j_status e = JPending \<and> \<not> stale_version None e) (jobs c)"
    using assms by (auto simp: list_ex_iff stale_version_def)
  let ?f = "\<lambda>j. j\<lparr>j_status := JRunning, j_owner := ow, j_lease := ts + max 1 lease,
     j_attempt := (if Some (j_due j) = j_next j then j_attempt j + 1 else 1),
     j_due := (case j_next j of None \<Rightarrow> [] | Some n \<Rightarrow> n)\<rparr>"
  have "jobs (cron_step c (OClaim ts (j_id j) ow lease None))
      = map (\<lambda>e. if j_id e = j_id j then ?f e else e) (jobs c)"
    using ex by (simp add: claim_job_def)
  from in_jobs_map[OF assms(1) this refl] show ?thesis
    by (rule that) (use ex in \<open>simp_all add: claim_job_def\<close>)
qed

lemma update_pending_row:
  assumes "jobs_ok c" "j \<in> set (jobs c)" "j_status j = JPending"
  obtains k where "k \<in> set (jobs (cron_step c (OUpdate ts (j_id j) (Some new) p n ser [] None a s)))"
    "j_id k = j_id j" "j_status k = JPending" "j_timing k = new" "j_edit k = j_edit j"
    "fst (update_job ts (j_id j) (Some new) p n ser [] None a s c) = ''rescheduled''"
proof -
  note row = job_row_in[OF assms(1,2)]
  let ?f = "\<lambda>j. touched a (set_columns (edit_change (Some new) p n ser) j)"
  have "jobs (cron_step c (OUpdate ts (j_id j) (Some new) p n ser [] None a s))
      = map (\<lambda>e. if j_id e = j_id j then ?f e else e) (jobs c)"
    using assms(3) row by (simp add: update_job_def stale_version_def Let_def)
  from in_jobs_map[OF assms(2) this refl] show ?thesis
    by (rule that) (use assms(3) row in \<open>simp_all add: update_job_def stale_version_def Let_def
      touched_def set_columns_def edit_change_def edited_def opt_entry_def\<close>)
qed

text \<open>An edit recorded while a job fires outlives the interruption of that fire and overrides a
  newer edit: after the fire is released, the operator's new timing is accepted as rescheduled, but
  the end of the next fire puts the old recorded timing back.\<close>

theorem stale_edit_overrides_newer:
  assumes "c = foldl cron_step empty_cron before" and "job_row c jid [] = Some j"
    and "j_status j = JRunning" "j_owner j = ow"
    and "map_of (j_edit j) ''timing'' = Some old" "old \<noteq> []"
    and "c1 = cron_step c (ORelease t1 jid ow why)"
    and "c2 = cron_step c1 (OUpdate t2 jid (Some new) p n ser [] None a s)"
    and "c3 = foldl cron_step c2 [OClaim t3 jid ow' lease None, OFinish t4 jid ow' r adv now]"
  shows "fst (update_job t2 jid (Some new) p n ser [] None a s c1) = ''rescheduled''"
    and "map j_timing (filter (\<lambda>e. j_id e = jid) (jobs c2)) = [new]"
    and "map j_timing (filter (\<lambda>e. j_id e = jid) (jobs c3)) = [old]"
proof -
  have ok: "jobs_ok c" unfolding assms(1) by (rule cron_jobs.run_inv[OF empty_jobs_ok])
  have okstep: "jobs_ok d \<Longrightarrow> jobs_ok (cron_step d op)" for d op
    using jobs_step_ok[OF cron_step_jobs] by blast
  note j = job_row_SomeD[OF assms(2)]
  obtain k1 where k1: "k1 \<in> set (jobs c1)" "j_id k1 = jid" "j_status k1 = JPending" "j_edit k1 = j_edit j"
    using release_row[OF conjunct1[OF j] assms(3), of t1 why] j assms(4,7) by metis
  have ok1: "jobs_ok c1" unfolding assms(7) by (rule okstep[OF ok])
  obtain k2 where k2: "k2 \<in> set (jobs c2)" "j_id k2 = jid" "j_status k2 = JPending" "j_timing k2 = new"
    "j_edit k2 = j_edit j"
    and upd: "fst (update_job t2 jid (Some new) p n ser [] None a s c1) = ''rescheduled''"
    using update_pending_row[OF ok1 k1(1,3), of t2 new p n ser a s] k1 assms(8) by metis
  have ok2: "jobs_ok c2" unfolding assms(8) by (rule okstep[OF ok1])
  let ?c = "cron_step c2 (OClaim t3 jid ow' lease None)"
  obtain k3 where k3: "k3 \<in> set (jobs ?c)" "j_id k3 = jid" "j_status k3 = JRunning" "j_owner k3 = ow'"
    "j_edit k3 = j_edit j"
    using claim_job_row[OF k2(1,3), of t3 ow' lease] k2 by metis
  have okc: "jobs_ok ?c" by (rule okstep[OF ok2])
  show "fst (update_job t2 jid (Some new) p n ser [] None a s c1) = ''rescheduled''" by (rule upd)
  show "map j_timing (filter (\<lambda>e. j_id e = jid) (jobs c2)) = [new]"
    using one_row[OF ok2 k2(1)] k2 by simp
  have "j_timing (fired_job r adv now did k3) = old" for did
    using k3(5) assms(5,6) by (simp add: fired_job_def merged_def edited_def or_else_def Let_def)
  then show "map j_timing (filter (\<lambda>e. j_id e = jid) (jobs c3)) = [old]"
    using fire_end_row[OF okc job_row_in[OF okc k3(1)] k3(3,4), where ts = t4 and r = r and adv = adv and now = now]
    unfolding assms(9) k3(2) by simp
qed

text \<open>A cancellation recorded while a job fires does not survive an interruption as a
  cancellation: once the fire is released, the cancelled job is pending again and is claimed for
  another fire.\<close>

theorem interrupted_cancel_fires_again:
  assumes "c = foldl cron_step empty_cron before" and "job_row c jid [] = Some j"
    and "j_status j = JRunning" "j_owner j = ow" "j_cancel j"
    and "c1 = cron_step c (ORelease ts jid ow why)"
  shows "fst (claim_job ts' jid ow' lease None c1)"
    and "map j_status (filter (\<lambda>e. j_id e = jid) (jobs (cron_step c1 (OClaim ts' jid ow' lease None)))) = [JRunning]"
proof -
  have ok: "jobs_ok c" unfolding assms(1) by (rule cron_jobs.run_inv[OF empty_jobs_ok])
  have okstep: "jobs_ok d \<Longrightarrow> jobs_ok (cron_step d op)" for d op
    using jobs_step_ok[OF cron_step_jobs] by blast
  note j = job_row_SomeD[OF assms(2)]
  obtain k1 where k1: "k1 \<in> set (jobs c1)" "j_id k1 = jid" "j_status k1 = JPending"
    using release_row[OF conjunct1[OF j] assms(3), of ts why] j assms(4,6) by metis
  obtain k2 where k2: "k2 \<in> set (jobs (cron_step c1 (OClaim ts' jid ow' lease None)))" "j_id k2 = jid"
    "j_status k2 = JRunning" and claimed: "fst (claim_job ts' jid ow' lease None c1)"
    using claim_job_row[OF k1(1,3), of ts' ow' lease] k1 by metis
  have ok2: "jobs_ok (cron_step c1 (OClaim ts' jid ow' lease None))"
    unfolding assms(6) by (intro okstep ok)
  show "fst (claim_job ts' jid ow' lease None c1)" by (rule claimed)
  show "map j_status (filter (\<lambda>e. j_id e = jid) (jobs (cron_step c1 (OClaim ts' jid ow' lease None)))) = [JRunning]"
    using one_row[OF ok2 k2(1)] k2 by simp
qed

text \<open>A refused notice of an earlier missed occurrence ends a delivering job undeliverable although
  the result it is delivering still waits in the outbox for its send.\<close>

theorem missed_notice_ends_delivering_job:
  assumes "c = foldl cron_step empty_cron before" and "job_row c (d_job d) [] = Some j"
    and "j_status j = JDelivering" "d \<in> set (deliveries c)" "d_state d = DSending"
    and "d_purpose d = ''missed''" "refused_for_good ts d"
    and "e \<in> set (deliveries c)" "d_job e = d_job d" "d_purpose e = ''result''" "d_state e = DPending"
    and "c' = cron_step c (OFinishDelivery ts (d_id d) (d_owner d) False err)"
  shows "map j_status (filter (\<lambda>k. j_id k = d_job d) (jobs c')) = [JUndeliverable]"
    and "e \<in> set (deliveries c')"
proof -
  have ok: "jobs_ok c" "outbox_ok c" unfolding assms(1)
    by (rule cron_jobs.run_inv[OF empty_jobs_ok], rule outbox.run_inv[OF empty_outbox_ok])
  have ok': "jobs_ok c'" unfolding assms(12) by (rule jobs_step_ok[OF cron_step_jobs[OF ok(1)] ok(1)])
  note j = job_row_SomeD[OF assms(2)]
  have dist: "distinct (map d_id (deliveries c))" using ok(2) by (simp add: outbox_ok_def)
  have fd: "find (\<lambda>e. d_id e = d_id d \<and> d_state e = DSending \<and> d_owner e = d_owner d) (deliveries c) = Some d"
    using assms(5) by (intro find_by_key[OF dist assms(4)]) simp
  have st: "send_state ts False d = DUndeliverable" using assms(7) by (simp add: send_state_def)
  have "jobs c' = map (\<lambda>k. if j_id k = d_job d then answered_job ts DUndeliverable (d_purpose d) err k else k) (jobs c)"
    using fd st by (simp add: assms(12) finish_delivery_def Let_def)
  from in_jobs_map[OF conjunct1[OF j] this conjunct2[OF j]]
  have "filter (\<lambda>k. j_id k = d_job d) (jobs c') = [answered_job ts DUndeliverable (d_purpose d) err j]"
    using one_row[OF ok'] j by (fastforce simp: answered_job_def end_delivering_def)
  then show "map j_status (filter (\<lambda>k. j_id k = d_job d) (jobs c')) = [JUndeliverable]"
    using assms(3) by (simp add: answered_job_def end_delivering_def)
  have "d_id e \<noteq> d_id d"
    using dist assms(4,5,8,11) unfolding distinct_map by (metis delivery_state.distinct(1) inj_onD)
  moreover have "deliveries c' = map (\<lambda>k. note_alert (Some (d_id d))
      (if d_id k = d_id d then answered_row ts False err k else k)) (deliveries c)"
    using fd st by (simp add: assms(12) finish_delivery_def Let_def comp_def)
  ultimately show "e \<in> set (deliveries c')"
    using assms(8) by (auto simp: image_iff note_alert_def intro!: bexI[of _ e])
qed


subsection \<open>What is due, and what is shown\<close>

lemma utc_text_le: "in_years t \<Longrightarrow> in_years t' \<Longrightarrow> utc_text t \<le> utc_text t' \<longleftrightarrow> t \<le> t'"
  using utc_text_sorts[of t t'] utc_text_sorts[of t' t] by (metis linorder_not_less)

lemma due_jobs_have_come_parts:
  assumes "\<And>j. j \<in> set (jobs c) \<Longrightarrow> j_status j = JPending \<Longrightarrow>
      j_next j = Some (norm_iso (at_of j)) \<and> in_years \<lfloor>at_of j\<rfloor>"
    and "in_years \<lfloor>now\<rfloor>"
  shows "set (due_jobs now (length (jobs c)) c)
      = {j \<in> set (jobs c). j_status j = JPending \<and> \<lfloor>at_of j\<rfloor> \<le> \<lfloor>now\<rfloor>}"
    and "sorted (map (\<lambda>j. \<lfloor>at_of j\<rfloor>) (due_jobs now n c))"
proof -
  define due where "due j \<longleftrightarrow> j_status j = JPending
          \<and> (case j_next j of None \<Rightarrow> False | Some n \<Rightarrow> n \<noteq> [] \<and> n \<le> norm_iso now)" for j :: job
  have due: "due j \<longleftrightarrow> j_status j = JPending \<and> \<lfloor>at_of j\<rfloor> \<le> \<lfloor>now\<rfloor>" if "j \<in> set (jobs c)" for j
    using assms(1)[OF that] assms(2) utc_text_le by (auto simp: due_def norm_iso_def)
  have def: "due_jobs now k c = take k (sort_key (\<lambda>j. the (j_next j)) (filter due (jobs c)))" for k
    unfolding due_jobs_def due_def ..
  have "length (filter due (jobs c)) \<le> length (jobs c)" by (rule length_filter_le)
  then show "set (due_jobs now (length (jobs c)) c)
      = {j \<in> set (jobs c). j_status j = JPending \<and> \<lfloor>at_of j\<rfloor> \<le> \<lfloor>now\<rfloor>}"
    unfolding def using due by auto
  have "sorted (map (\<lambda>j. the (j_next j)) (due_jobs now n c))"
    unfolding def by (simp add: take_map[symmetric] sorted_wrt_take)
  then have "sorted_wrt (\<lambda>i j. the (j_next i) \<le> the (j_next j)) (due_jobs now n c)"
    by (simp add: sorted_wrt_map)
  then have "sorted_wrt (\<lambda>i j. \<lfloor>at_of i\<rfloor> \<le> \<lfloor>at_of j\<rfloor>) (due_jobs now n c)"
  proof (rule sorted_wrt_mono_rel[rotated])
    fix i j assume "i \<in> set (due_jobs now n c)" "j \<in> set (due_jobs now n c)"
      and le: "the (j_next i) \<le> the (j_next j)"
    then have "i \<in> set (jobs c)" "j \<in> set (jobs c)" "j_status i = JPending" "j_status j = JPending"
      unfolding def by (auto dest!: in_set_takeD simp: due_def)
    then show "\<lfloor>at_of i\<rfloor> \<le> \<lfloor>at_of j\<rfloor>"
      using assms(1) le utc_text_le by (metis norm_iso_def option.sel)
  qed
  then show "sorted (map (\<lambda>j. \<lfloor>at_of j\<rfloor>) (due_jobs now n c))" by (simp add: sorted_wrt_map)
qed

text \<open>Comparing texts finds what is due: when every pending job's next instant is stored in the
  store's form, a poll gets exactly the pending jobs whose instant has come, the soonest first.\<close>

theorem due_jobs_have_come:
  assumes "\<And>j. j \<in> set (jobs c) \<Longrightarrow> j_status j = JPending \<Longrightarrow>
      j_next j = Some (norm_iso (at_of j)) \<and> in_years \<lfloor>at_of j\<rfloor>"
    and "in_years \<lfloor>now\<rfloor>"
  shows "(set (due_jobs now (length (jobs c)) c)
      = {j \<in> set (jobs c). j_status j = JPending \<and> \<lfloor>at_of j\<rfloor> \<le> \<lfloor>now\<rfloor>})
    \<and> (sorted (map (\<lambda>j. \<lfloor>at_of j\<rfloor>) (due_jobs now n c)))"
  by (intro conjI due_jobs_have_come_parts[OF assms])

lemma strip_label:
  assumes "CHR '':'' \<notin> set p"
  shows "CHR '':'' \<in> set (py_strip (p @ CHR '':'' # a))"
    and "takeWhile (\<lambda>c. c \<noteq> CHR '':'') (py_strip (p @ CHR '':'' # a)) = dropWhile is_blank p"
proof -
  have colon: "\<not> is_blank (CHR '':'')" by (simp add: is_blank_def)
  let ?l = "dropWhile is_blank p" and ?r = "rev (dropWhile is_blank (rev a))"
  have "dropWhile is_blank (p @ CHR '':'' # a) = ?l @ CHR '':'' # a"
    using colon by (induction p) auto
  moreover have "dropWhile is_blank (rev (?l @ CHR '':'' # a)) = rev (?l @ CHR '':'' # ?r)"
    using colon by (simp add: dropWhile_append)
  ultimately have strip: "py_strip (p @ CHR '':'' # a) = ?l @ CHR '':'' # ?r"
    by (simp add: py_strip_def)
  show "CHR '':'' \<in> set (py_strip (p @ CHR '':'' # a))" by (simp add: strip)
  have "CHR '':'' \<notin> set ?l" using assms set_dropWhileD by metis
  then show "takeWhile (\<lambda>c. c \<noteq> CHR '':'') (py_strip (p @ CHR '':'' # a)) = dropWhile is_blank p"
    unfolding strip by (simp add: takeWhile_append)
qed

text \<open>What lists, tools and the page show of a job does not depend on its delivery address: two
  jobs that differ only in the address after the platform are shown alike.\<close>

theorem job_view_hides_address:
  assumes "CHR '':'' \<notin> set platform"
  shows "job_to_dict (j\<lparr>j_target := platform @ '':'' @ address\<rparr>)
    = job_to_dict (j\<lparr>j_target := platform @ '':'' @ address'\<rparr>)"
  using strip_label[OF assms, of address] strip_label[OF assms, of address']
  by (simp add: job_to_dict_def destination_label_def Let_def)


subsection \<open>Concrete histories\<close>


definition demo_fire :: fire_result where
  "demo_fire = \<lparr>f_success = True, f_outcome = ''delivering'', f_text = ''Reminder sent as booked.'',
     f_body = ''hello'', f_target = ''telegram:7'', f_purpose = ''result'', f_budget = 3, f_lateness = 0\<rparr>"

definition running_ops :: "cron_op list" where
  "running_ops = [OInsert 0 demo_job, OClaim 1 ''j1'' ''me'' 300 None]"

lemma running_state:
  obtains j where "job_row (foldl cron_step empty_cron running_ops) ''j1'' [] = Some j" "j_status j = JRunning"
    "j_owner j = ''me''" "j_edit j = []" "\<not> j_cancel j" "j_timing j = ''x''" "j_id j = ''j1''"
    "j_due j = []" "j_next j = None" "j_version j = 1"
  by (simp add: running_ops_def claim_job_def stale_version_def demo_eval)

lemma running_outbox: "deliveries (foldl cron_step empty_cron running_ops) = []"
  "delivery_seq (foldl cron_step empty_cron running_ops) = 0"
  by (simp_all add: running_ops_def claim_job_def stale_version_def demo_eval)

lemma x_not_recurring: "\<not> looks_recurring ''x''"
  by code_simp

theorem one_off_waits_for_its_message_witness:
  "map j_status (filter (\<lambda>e. j_id e = ''j1'') (jobs (cron_step (foldl cron_step empty_cron running_ops)
      (OFinish 3 ''j1'' ''me'' demo_fire no_advance 3)))) = [JDelivering]"
proof -
  obtain j where j: "job_row (foldl cron_step empty_cron running_ops) ''j1'' [] = Some j" "j_status j = JRunning"
    "j_owner j = ''me''" "j_edit j = []" "\<not> j_cancel j" "j_timing j = ''x''"
    by (rule running_state)
  show ?thesis
    by (rule one_off_waits_for_its_message(1)[OF refl j(1-5)])
       (simp_all add: demo_fire_def running_outbox j(6) no_advance_def x_not_recurring)
qed

definition sending_ops :: "cron_op list" where
  "sending_ops = running_ops @ [OFinish 3 ''j1'' ''me'' demo_fire no_advance 3, OClaimDelivery 4 ''w'' None]"

theorem send_outcome_reaches_the_job_witness:
  "map j_status (filter (\<lambda>e. j_id e = ''j1'') (jobs (cron_step (foldl cron_step empty_cron sending_ops)
      (OFinishDelivery 5 1 ''w'' True [])))) = [JDone]"
proof -
  let ?c1 = "foldl cron_step empty_cron running_ops"
  let ?c = "foldl cron_step empty_cron sending_ops"
  let ?f = "OFinish 3 ''j1'' ''me'' demo_fire no_advance 3"
  obtain j0 where j: "job_row ?c1 ''j1'' [] = Some j0" "j_status j0 = JRunning"
    "j_owner j0 = ''me''" "j_edit j0 = []" "\<not> j_cancel j0" "j_timing j0 = ''x''" "j_id j0 = ''j1''"
    by (rule running_state)
  have ok: "jobs_ok ?c1" by (rule cron_jobs.run_inv[OF empty_jobs_ok])
  have merge: "merged k old j0 = old" for k old by (simp add: merged_def j edited_def or_else_def)
  have fresh: "fire_message 3 j0 demo_fire ?c1 = queue_delivery 3 ''j1'' (j_tenant j0) (fire_key ''j1'' (due_text j0) ''result'')
      ''result'' ''telegram:7'' ''hello'' (due_text j0) ?c1"
    by (simp add: fire_message_def demo_fire_def j)
  have did: "fst (fire_message 3 j0 demo_fire ?c1) = Some 1"
    by (simp add: fresh queue_delivery_def running_outbox Let_def)
  let ?j = "fired_job demo_fire no_advance 3 (Some 1) j0"
  have st: "j_status ?j = JDelivering"
    by (simp add: fate_of_def fire_fate_def j merge no_advance_def x_not_recurring demo_fire_def Let_def)
  have "job_row (cron_step ?c1 ?f) ''j1'' [] = Some ?j"
    using find_of_filter[OF fire_end_row[OF ok j(1-3), of 3 demo_fire no_advance 3]] did by (simp add: job_row_def)
  then have row: "job_row ?c ''j1'' [] = Some ?j"
    by (simp add: sending_ops_def job_row_def claim_delivery_frame del: cron_step.simps(8))
  obtain d where d: "d \<in> set (deliveries ?c)" "d_id d = 1" "d_job d = ''j1''" "d_state d = DSending"
    "d_purpose d = ''result''" "d_owner d = ''w''"
  proof -
    have "deliveries (cron_step ?c1 ?f) = deliveries (snd (fire_message 3 j0 demo_fire ?c1))"
      using finish_fire_ok(2)[OF ok conjunct1[OF job_row_SomeD[OF j(1)]] j(2,3), of 3 demo_fire no_advance 3] j(7) by simp
    then show ?thesis
      using that by (simp add: sending_ops_def claim_delivery_def fresh queue_delivery_def running_outbox Let_def
          del: cron_step.simps(8))
  qed
  show ?thesis
    using send_outcome_reaches_the_job(1)[OF refl _ st d(1,4,5) refl, of 5 True "[]"] row
    unfolding d(2,3,6) if_True by blast
qed

end
