(* ===== verification/Timing.thy ===== *)
theory Timing
  imports Recurrence
begin

text \<open>
  Reading a timing text (kazma_core/cron/timing.py): friendly recurrences, the RRULE subset,
  relative times and ISO times, the canonical text of a recurrence, and the horizon every booking
  is held to.
\<close>

type_synonym 'a timing = "timing_error + 'a"

text \<open>\<open>" ".join(s.strip().split())\<close>.\<close>

definition squeeze :: "string \<Rightarrow> string" where
  "squeeze s = join_with '' '' (words s)"

subsection \<open>Fields\<close>

text \<open>
  \<open>_CLOCK_RE\<close>: one or two digits, optional minutes, optional am or pm. The groups are the hour, the
  minute and the suffix.
\<close>

definition CLOCK_RE :: cre where
  "CLOCK_RE = cseqs [
     CGrp ''h'' (CSeq (CCls is_digit) (COpt (CCls is_digit))),
     COpt (CSeq (CLit '':'') (CGrp ''m'' (CTimes 2 (CCls is_digit)))),
     COpt (CPlus (CCls is_blank)),
     COpt (CGrp ''ampm'' (CAlt (CLit ''am'') (CAlt (CLit ''pm'') (CAlt (CLit ''a.m.'') (CLit ''p.m.''))))),
     CEnd]"

definition clock_of :: "string \<Rightarrow> (int \<times> int) timing" where
  "clock_of text =
     (case re_groups CLOCK_RE (py_strip text) of
        None \<Rightarrow> Inl BadClock
      | Some g \<Rightarrow>
          let hour = (case map_of g ''h'' of None \<Rightarrow> 0 | Some h \<Rightarrow> int (digits_nat h));
              minute = (case map_of g ''m'' of None \<Rightarrow> 0 | Some m \<Rightarrow> int (digits_nat m));
              ampm = py_lower (filter (\<lambda>c. c \<noteq> CHR ''.'') (case map_of g ''ampm'' of None \<Rightarrow> [] | Some a \<Rightarrow> a))
          in if 59 < minute then Inl MinuteRange
             else if ampm \<noteq> [] then
               (if \<not> (1 \<le> hour \<and> hour \<le> 12) then Inl HourRange
                else Inr (hour mod 12 + (if ampm = ''pm'' then 12 else 0), minute))
             else if map_of g ''m'' = None then Inl SayAmPm
             else if \<not> (0 \<le> hour \<and> hour \<le> 23) then Inl HourRange
             else Inr (hour, minute))"

definition WEEKDAYS :: "string list" where
  "WEEKDAYS = [''mon'', ''tue'', ''wed'', ''thu'', ''fri'', ''sat'', ''sun'']"

definition RRULE_DAYS :: "string list" where
  "RRULE_DAYS = [''MO'', ''TU'', ''WE'', ''TH'', ''FR'', ''SA'', ''SU'']"

fun index_of :: "string list \<Rightarrow> string \<Rightarrow> nat option" where
  "index_of [] x = None"
| "index_of (y # ys) x = (if x = y then Some 0 else map_option Suc (index_of ys x))"

text \<open>
  \<open>re.split(r"[\s,/]+|\band\b", text)\<close>: the pieces between runs of separators and between words
  "and". The first argument is the character before, the last the piece so far.
\<close>

definition is_day_sep :: "char \<Rightarrow> bool" where
  "is_day_sep c \<longleftrightarrow> is_blank c \<or> c = CHR '','' \<or> c = CHR ''/''"

fun split_days :: "char option \<Rightarrow> string \<Rightarrow> string \<Rightarrow> string list" where
  "split_days b [] cur = [cur]"
| "split_days b (c # cs) cur =
     (if is_day_sep c then cur # split_days (Some c) cs []
      else if starts_with ''and'' (c # cs) \<and> \<not> word_before (b, c # cs)
              \<and> \<not> word_after (Some CHR ''d'', drop 2 cs)
      then cur # split_days (Some CHR ''d'') (drop 2 cs) []
      else split_days (Some c) cs (cur @ [c]))"

definition sorted_days :: "nat list \<Rightarrow> nat list" where
  "sorted_days ds = filter (\<lambda>d. d \<in> set ds) [0..<7]"

fun day_numbers :: "string list \<Rightarrow> nat list timing" where
  "day_numbers [] = Inr []"
| "day_numbers (p # ps) =
     (if py_strip p = [] then day_numbers ps
      else case index_of WEEKDAYS (take 3 (py_strip p)) of
        None \<Rightarrow> Inl BadWeekday
      | Some d \<Rightarrow> (case day_numbers ps of Inl e \<Rightarrow> Inl e | Inr ds \<Rightarrow> Inr (d # ds)))"

definition days_of :: "string \<Rightarrow> nat list timing" where
  "days_of text =
     (case day_numbers (split_days None (py_lower (py_strip text)) []) of
        Inl e \<Rightarrow> Inl e
      | Inr ds \<Rightarrow> if ds = [] then Inl NoWeekday else Inr (sorted_days ds))"

text \<open>\<open>_until\<close>: the end date, \<open>YYYYMMDD\<close> with an optional time in RRULE form, or \<open>YYYY-MM-DD\<close>.\<close>

definition is_rrule_date :: "string \<Rightarrow> bool" where
  "is_rrule_date s \<longleftrightarrow> length (take 8 s) = 8 \<and> list_all is_digit (take 8 s)
     \<and> (drop 8 s = [] \<or>
        take 1 (drop 8 s) = ''T'' \<and> length (take 6 (drop 9 s)) = 6 \<and> list_all is_digit (take 6 (drop 9 s))
        \<and> drop 15 s \<in> {[], ''Z''})"

definition until_of :: "string \<Rightarrow> int timing" where
  "until_of text =
     (let raw = py_strip text in
      if is_rrule_date raw then
        (let y = int (digits_nat (take 4 raw)); m = int (digits_nat (take 2 (drop 4 raw)));
             d = int (digits_nat (take 2 (drop 6 raw)))
         in if 1 \<le> y \<and> valid_date y m d then Inr (ymd2ord y m d) else Inl BadEndDate)
      else case read_date (take 10 raw) of
        Some (day, []) \<Rightarrow> Inr day
      | _ \<Rightarrow> Inl BadEndDate)"

definition MAX_COUNT :: int where "MAX_COUNT = 1000"

definition count_of :: "string \<Rightarrow> int timing" where
  "count_of text =
     (case parse_int text of
        None \<Rightarrow> Inl BadCount
      | Some n \<Rightarrow> if \<not> (1 \<le> n \<and> n \<le> MAX_COUNT) then Inl CountRange else Inr n)"

text \<open>An optional field: absent, or read; the first error wins.\<close>

definition opt_field :: "('a \<Rightarrow> 'b timing) \<Rightarrow> 'a option \<Rightarrow> 'b option timing" where
  "opt_field f v = (case v of None \<Rightarrow> Inr None | Some x \<Rightarrow>
     (case f x of Inl e \<Rightarrow> Inl e | Inr y \<Rightarrow> Inr (Some y)))"

definition nonblank :: "string option \<Rightarrow> string option" where
  "nonblank v = (case v of None \<Rightarrow> None | Some s \<Rightarrow> if s = [] then None else Some s)"

text \<open>The last steps of both readers: the zone is known, then the end date, then the count.\<close>

definition make_recurrence ::
  "tzdata \<Rightarrow> freq \<Rightarrow> nat list \<Rightarrow> int \<times> int \<Rightarrow> string option \<Rightarrow> string option \<Rightarrow> string option
     \<Rightarrow> recurrence timing" where
  "make_recurrence tz fr days clock until count tzid =
     (case opt_field (zone_named tz) tzid of Inl e \<Rightarrow> Inl e | Inr _ \<Rightarrow>
      case opt_field until_of until of Inl e \<Rightarrow> Inl e | Inr u \<Rightarrow>
      case opt_field count_of count of Inl e \<Rightarrow> Inl e | Inr n \<Rightarrow>
      Inr \<lparr>r_freq = fr, r_hour = fst clock, r_minute = snd clock, r_weekdays = days, r_until = u,
           r_count = n, r_tzid = tzid\<rparr>)"

subsection \<open>The RRULE subset\<close>

definition split_once :: "char \<Rightarrow> string \<Rightarrow> string \<times> string" where
  "split_once c s = (takeWhile (\<lambda>x. x \<noteq> c) s, tl (dropWhile (\<lambda>x. x \<noteq> c) s))"

fun rrule_parts :: "string list \<Rightarrow> (string \<times> string) list \<Rightarrow> (string \<times> string) list timing" where
  "rrule_parts [] d = Inr d"
| "rrule_parts (item # items) d =
     (if py_strip item = [] then rrule_parts items d
      else if CHR ''='' \<notin> set item then Inl BadRRulePart
      else (let (k, v) = split_once (CHR ''='') item in
            rrule_parts items ((py_upper (py_strip k), py_strip v) # d)))"

definition RRULE_ALLOWED :: "string list" where
  "RRULE_ALLOWED = [''FREQ'', ''BYHOUR'', ''BYMINUTE'', ''BYDAY'', ''UNTIL'', ''COUNT'', ''TZID'', ''INTERVAL'']"

definition get_or :: "(string \<times> string) list \<Rightarrow> string \<Rightarrow> string \<Rightarrow> string" where
  "get_or d k v = (case map_of d k of None \<Rightarrow> v | Some x \<Rightarrow> x)"

fun rrule_days :: "string list \<Rightarrow> nat list option" where
  "rrule_days [] = Some []"
| "rrule_days (d # ds) = (case (index_of RRULE_DAYS (py_upper (py_strip d)), rrule_days ds) of
     (Some n, Some ns) \<Rightarrow> Some (n # ns) | _ \<Rightarrow> None)"

definition seven_days :: "nat list" where "seven_days = [0, 1, 2, 3, 4, 5, 6]"

definition rrule_weekdays :: "(string \<times> string) list \<Rightarrow> nat list option" where
  "rrule_weekdays p =
     (if get_or p ''BYDAY'' [] = [] then Some []
      else map_option sorted_days (rrule_days (split_char (CHR '','') (get_or p ''BYDAY'' []))))"

definition rrule_at :: "tzdata \<Rightarrow> (string \<times> string) list \<Rightarrow> string \<Rightarrow> int \<Rightarrow> int \<Rightarrow> recurrence timing" where
  "rrule_at tz p freq hour minute =
     (if \<not> (0 \<le> hour \<and> hour \<le> 23 \<and> 0 \<le> minute \<and> minute \<le> 59) then Inl HourRange
      else case rrule_weekdays p of
        None \<Rightarrow> Inl BadByDay
      | Some days \<Rightarrow>
          if freq = ''WEEKLY'' \<and> days = [] then Inl NeedsByDay
          else if map_of p ''UNTIL'' \<noteq> None \<and> map_of p ''COUNT'' \<noteq> None then Inl UntilAndCount
          else let weekly = (days \<noteq> [] \<and> days \<noteq> seven_days) in
            make_recurrence tz (if weekly then Weekly else Daily) (if weekly then days else [])
              (hour, minute) (map_of p ''UNTIL'') (map_of p ''COUNT'') (nonblank (map_of p ''TZID'')))"

definition rrule_of_parts :: "tzdata \<Rightarrow> (string \<times> string) list \<Rightarrow> recurrence timing" where
  "rrule_of_parts tz p =
     (if \<not> set (map fst p) \<subseteq> set RRULE_ALLOWED then Inl UnsupportedPart
      else if get_or p ''INTERVAL'' ''1'' \<noteq> ''1'' then Inl BadInterval
      else let freq = py_upper (get_or p ''FREQ'' []) in
      if freq \<noteq> ''DAILY'' \<and> freq \<noteq> ''WEEKLY'' then Inl BadFreq
      else case (parse_int (get_or p ''BYHOUR'' []), parse_int (get_or p ''BYMINUTE'' ''0'')) of
        (Some hour, Some minute) \<Rightarrow> rrule_at tz p freq hour minute
      | _ \<Rightarrow> Inl BadByHour)"

definition parse_rrule :: "tzdata \<Rightarrow> string \<Rightarrow> recurrence timing" where
  "parse_rrule tz raw =
     (let body = (if starts_with ''RRULE:'' (py_upper raw) then snd (split_once (CHR '':'') raw) else raw) in
      case rrule_parts (split_char (CHR '';'') body) [] of Inl e \<Rightarrow> Inl e | Inr p \<Rightarrow> rrule_of_parts tz p)"

subsection \<open>Friendly forms\<close>

definition is_letter :: "char \<Rightarrow> bool" where
  "is_letter c \<longleftrightarrow> (let n = of_char (lower_char c) :: nat in 97 \<le> n \<and> n \<le> 122)"

abbreviation blanks :: cre where "blanks \<equiv> CPlus (CCls is_blank)"

definition is_days_char :: "char \<Rightarrow> bool" where
  "is_days_char c \<longleftrightarrow> is_letter c \<or> c = CHR '' '' \<or> c = CHR '','' \<or> c = CHR ''/''"

definition is_clock_char :: "char \<Rightarrow> bool" where
  "is_clock_char c \<longleftrightarrow> is_digit c \<or> c = CHR '':'' \<or> c = CHR ''.'' \<or> c = CHR '' ''
     \<or> lower_char c \<in> {CHR ''a'', CHR ''p'', CHR ''m''}"

definition is_date_char :: "char \<Rightarrow> bool" where
  "is_date_char c \<longleftrightarrow> is_digit c \<or> c = CHR ''-''"

definition is_tz_char :: "char \<Rightarrow> bool" where
  "is_tz_char c \<longleftrightarrow> is_letter c \<or> is_digit c \<or> c \<in> {CHR ''_'', CHR ''+'', CHR ''/'', CHR ''-''}"

definition WHEN_RE :: cre where
  "WHEN_RE = CAlt
     (CGrp ''daily'' (CAlt (CLit ''daily'') (cseqs [CLit ''every'', blanks, CLit ''day''])))
     (CAlt (CGrp ''weekdays'' (CAlt (CLit ''weekdays'') (cseqs [CLit ''every'', blanks, CLit ''weekday''])))
       (cseqs [CAlt (cseqs [CLit ''weekly'', blanks, CLit ''on'']) (CLit ''every''), blanks,
               CGrp ''days'' (CLazy (CCls is_days_char))]))"

definition TAIL_RE :: cre where
  "TAIL_RE = cseqs [
     COpt (cseqs [blanks, CLit ''until'', blanks, CGrp ''until'' (CTimes 10 (CCls is_date_char))]),
     COpt (cseqs [blanks, CAlt (CLit ''count'') (CLit ''for''), blanks, CGrp ''count'' (CPlus (CCls is_digit)),
                  COpt (CSeq blanks (CLit ''times''))]),
     COpt (cseqs [blanks, CLit ''tz'', blanks, CGrp ''tz'' (CPlus (CCls is_tz_char))]),
     CEnd]"

definition FRIENDLY_RE :: cre where
  "FRIENDLY_RE = cseqs [WHEN_RE, blanks, CLit ''at'', blanks, CGrp ''clock'' (CLazy (CCls is_clock_char)), TAIL_RE]"

definition friendly_days :: "(string \<times> string) list \<Rightarrow> (freq \<times> nat list) timing" where
  "friendly_days g =
     (if nonblank (map_of g ''daily'') \<noteq> None then Inr (Daily, [])
      else if nonblank (map_of g ''weekdays'') \<noteq> None then Inr (Weekly, [0, 1, 2, 3, 4])
      else case days_of (get_or g ''days'' []) of
        Inl e \<Rightarrow> Inl e
      | Inr ds \<Rightarrow> Inr (if ds = seven_days then (Daily, []) else (Weekly, ds)))"

text \<open>\<open>parse_recurrence\<close>: None when the text names no recurrence.\<close>

definition parse_recurrence :: "tzdata \<Rightarrow> string \<Rightarrow> recurrence option timing" where
  "parse_recurrence tz text =
     (let raw = squeeze text; some = (\<lambda>r. case r of Inl e \<Rightarrow> Inl e | Inr x \<Rightarrow> Inr (Some x)) in
      if raw = [] then Inr None
      else if starts_with ''RRULE:'' (py_upper raw) \<or> starts_with ''FREQ='' (py_upper raw)
      then some (parse_rrule tz raw)
      else case re_groups FRIENDLY_RE raw of
        None \<Rightarrow> if looks_recurring raw then Inl BadRecurrence else Inr None
      | Some g \<Rightarrow>
          (case clock_of (get_or g ''clock'' []) of Inl e \<Rightarrow> Inl e | Inr clock \<Rightarrow>
           case friendly_days g of Inl e \<Rightarrow> Inl e | Inr (fr, days) \<Rightarrow>
           some (make_recurrence tz fr days clock (nonblank (map_of g ''until''))
             (nonblank (map_of g ''count'')) (nonblank (map_of g ''tz'')))))"

text \<open>\<open>describe\<close>: the canonical text.\<close>

definition describe :: "recurrence \<Rightarrow> string" where
  "describe rec =
     (let clk = pad2 (r_hour rec) @ '':'' @ pad2 (r_minute rec) in
      (if r_freq rec = Daily then ''daily at '' @ clk
       else if r_weekdays rec = [0, 1, 2, 3, 4] then ''weekdays at '' @ clk
       else ''weekly on '' @ join_with '','' (map (\<lambda>d. WEEKDAYS ! d) (r_weekdays rec)) @ '' at '' @ clk)
      @ (case r_until rec of None \<Rightarrow> [] | Some day \<Rightarrow> '' until '' @ date_text day)
      @ (case r_count rec of None \<Rightarrow> [] | Some n \<Rightarrow> '' count '' @ int_str n)
      @ (case nonblank (r_tzid rec) of None \<Rightarrow> [] | Some t \<Rightarrow> '' tz '' @ t))"

subsection \<open>One-off times\<close>

definition MAX_HORIZON_DAYS :: int where "MAX_HORIZON_DAYS = 730"

definition MAX_TIMING_CHARS :: nat where "MAX_TIMING_CHARS = 100"

text \<open>An instant as a datetime of some zone: refused outside the years 1 to 9999.\<close>

definition shifted :: "real \<Rightarrow> int \<Rightarrow> real timing" where
  "shifted t off = (if in_years \<lfloor>t + of_int off\<rfloor> then Inr (t + of_int off) else Inl Overflow)"

text \<open>
  \<open>_local_wall_time_problem\<close>: the instants that read as the wall time, one try for each fold. A fold
  whose instant leaves the calendar raises.
\<close>

definition wall_try :: "zone \<Rightarrow> real \<Rightarrow> bool \<Rightarrow> real option timing" where
  "wall_try z wall fd =
     (case shifted wall (- z_wall z fd \<lfloor>wall\<rfloor>) of
        Inl e \<Rightarrow> Inl e
      | Inr u \<Rightarrow>
          (case shifted u (z_at z \<lfloor>u\<rfloor>) of
             Inl e \<Rightarrow> Inl e
           | Inr back \<Rightarrow> Inr (if back = wall then Some u else None)))"

definition wall_time_problem :: "zone \<Rightarrow> real \<Rightarrow> timing_error option timing" where
  "wall_time_problem z wall =
     (case wall_try z wall False of Inl e \<Rightarrow> Inl e | Inr a \<Rightarrow>
      case wall_try z wall True of Inl e \<Rightarrow> Inl e | Inr b \<Rightarrow>
      Inr (case (a, b) of
             (None, None) \<Rightarrow> Some NotAWallTime
           | (Some x, Some y) \<Rightarrow> if x \<noteq> y then Some WallTimeTwice else None
           | _ \<Rightarrow> None))"

text \<open>\<open>_RELATIVE_RE\<close>: digits, blanks, a unit; the value and the seconds of its unit.\<close>

definition MINUTE_UNITS :: "string list" where
  "MINUTE_UNITS = [''m'', ''min'', ''mins'', ''minute'', ''minutes'']"

definition HOUR_UNITS :: "string list" where
  "HOUR_UNITS = [''h'', ''hr'', ''hrs'', ''hour'', ''hours'']"

definition DAY_UNITS :: "string list" where
  "DAY_UNITS = [''d'', ''day'', ''days'']"

definition relative_of :: "string \<Rightarrow> (int \<times> int) option" where
  "relative_of raw =
     (let ds = takeWhile is_digit raw; u = py_lower (dropWhile is_blank (dropWhile is_digit raw)) in
      if ds = [] then None
      else if u \<in> set MINUTE_UNITS then Some (int (digits_nat ds), 60)
      else if u \<in> set HOUR_UNITS then Some (int (digits_nat ds), 3600)
      else if u \<in> set DAY_UNITS then Some (int (digits_nat ds), 86400)
      else None)"

text \<open>\<open>_parse_iso\<close>: a trailing Z as an offset, one blank between date and time as T.\<close>

definition parse_iso :: "string \<Rightarrow> civil option" where
  "parse_iso raw =
     (let cand = py_strip raw;
          cand = (if cand \<noteq> [] \<and> last cand \<in> {CHR ''z'', CHR ''Z''} then butlast cand @ ''+00:00'' else cand)
      in fromisoformat cand)"

datatype timing_kind = Relative | Absolute | Recurring

record resolved =
  s_first :: real
  s_recurrence :: "recurrence option"
  s_zone :: string
  s_kind :: timing_kind

definition zone_label :: "zone \<Rightarrow> string \<Rightarrow> string" where
  "zone_label z name = (if name = [] then z_name z else name)"

definition end_of_day :: "int \<Rightarrow> real" where
  "end_of_day day = of_int (day_start day + 86399)"

definition resolve_absolute :: "zone \<Rightarrow> string \<Rightarrow> real \<Rightarrow> bool \<Rightarrow> civil \<Rightarrow> real timing" where
  "resolve_absolute z label now allow_past c =
     (let wall = of_int (day_start (c_day c)) + c_secs c in
      case (case c_off c of
              Some off \<Rightarrow> Inr (wall - off)
            | None \<Rightarrow>
                (case wall_time_problem z wall of
                   Inl e \<Rightarrow> Inl e
                 | Inr (Some e) \<Rightarrow> Inl e
                 | Inr None \<Rightarrow> Inr (wall - of_int (z_wall z False \<lfloor>wall\<rfloor>)))) of
        Inl e \<Rightarrow> Inl e
      | Inr first \<Rightarrow>
          if allow_past then Inr first
          else if first \<le> now then
            (case shifted first (z_at z \<lfloor>first\<rfloor>) of Inl e \<Rightarrow> Inl e | Inr _ \<Rightarrow> Inl InThePast)
          else if of_int (MAX_HORIZON_DAYS * 86400) < first - now then Inl HorizonExceeded
          else Inr first)"

definition resolve_timing ::
  "tzdata \<Rightarrow> string \<Rightarrow> zone \<Rightarrow> string \<Rightarrow> real \<Rightarrow> bool \<Rightarrow> resolved timing" where
  "resolve_timing tz text z zname now allow_past =
     (let raw = squeeze text; label = zone_label z zname in
      if raw = [] then Inl TimeRequired
      else if MAX_TIMING_CHARS < length raw then Inl TooLong
      else case parse_recurrence tz raw of
        Inl e \<Rightarrow> Inl e
      | Inr (Some rec) \<Rightarrow>
          if (case r_until rec of None \<Rightarrow> False
                | Some u \<Rightarrow> of_int (MAX_HORIZON_DAYS * 86400) < end_of_day u - now) then Inl HorizonExceeded
          else (case next_occurrence tz rec z now None of
                  Inl e \<Rightarrow> Inl e
                | Inr None \<Rightarrow> Inl NoOccurrence
                | Inr (Some first) \<Rightarrow> Inr \<lparr>s_first = first, s_recurrence = Some rec,
                    s_zone = (case nonblank (r_tzid rec) of None \<Rightarrow> label | Some t \<Rightarrow> t),
                    s_kind = Recurring\<rparr>)
      | Inr None \<Rightarrow>
          (case relative_of raw of
             Some (n, unit) \<Rightarrow>
               if n < 1 then Inl TooSoon
               else if MAX_HORIZON_DAYS * 86400 < n * unit then Inl HorizonExceeded
               else Inr \<lparr>s_first = now + of_int (n * unit), s_recurrence = None, s_zone = label,
                         s_kind = Relative\<rparr>
           | None \<Rightarrow>
               (case parse_iso raw of
                  None \<Rightarrow> Inl BadTime
                | Some c \<Rightarrow>
                    (case resolve_absolute z label now allow_past c of
                       Inl e \<Rightarrow> Inl e
                     | Inr first \<Rightarrow> Inr \<lparr>s_first = first, s_recurrence = None, s_zone = label,
                                        s_kind = Absolute\<rparr>))))"

text \<open>\<open>_advancer\<close> of the scheduler: the next occurrence the store's operations apply.\<close>

definition advancer :: "tzdata \<Rightarrow> zone \<Rightarrow> string \<Rightarrow> real \<Rightarrow> string \<Rightarrow> real option timing" where
  "advancer tz z timing after series_start =
     (case parse_recurrence tz timing of
        Inl e \<Rightarrow> Inr None
      | Inr None \<Rightarrow> Inr None
      | Inr (Some rec) \<Rightarrow> next_occurrence tz rec z after (parse_instant series_start))"

subsection \<open>What a booking may be\<close>

lemma resolve_absolute_bounds:
  assumes "resolve_absolute z label now False c = Inr first"
  shows "now < first" "first - now \<le> of_int (MAX_HORIZON_DAYS * 86400)"
  using assms unfolding resolve_absolute_def Let_def
  by (auto split: sum.splits option.splits if_splits)

text \<open>Every timing text that is booked is later than now, and a one-off at most 730 days later; a
  text that is empty, too long or names no such time is refused with its reason.\<close>

theorem bookings_are_future_and_finite:
  assumes "resolve_timing tz text z zname now False = Inr s"
  shows "now < s_first s
    \<and> (s_recurrence s = None \<longrightarrow> s_first s - now \<le> of_int (MAX_HORIZON_DAYS * 86400))
    \<and> length (squeeze text) \<le> MAX_TIMING_CHARS"
proof -
  have nonempty: "squeeze text \<noteq> []" and short: "length (squeeze text) \<le> MAX_TIMING_CHARS"
    using assms by (auto simp: resolve_timing_def Let_def split: if_splits)
  consider (rec) rec where "parse_recurrence tz (squeeze text) = Inr (Some rec)"
    | (one_off) "parse_recurrence tz (squeeze text) = Inr None"
    using assms nonempty short by (auto simp: resolve_timing_def Let_def split: sum.splits option.splits)
  then have "now < s_first s
      \<and> (s_recurrence s = None \<longrightarrow> s_first s - now \<le> of_int (MAX_HORIZON_DAYS * 86400))"
  proof cases
    case rec
    then obtain first where f: "next_occurrence tz rec z now None = Inr (Some first)"
      "s_first s = first" "s_recurrence s = Some rec"
      using assms nonempty short
      by (auto simp: resolve_timing_def Let_def split: sum.splits option.splits if_splits)
    then have "now < first"
      using rec_series.nxt_later unfolding next_occurrence_def
      by (auto split: option.splits if_splits sum.splits)
    then show ?thesis using f by simp
  next
    case one_off
    show ?thesis
    proof (cases "relative_of (squeeze text)")
      case (Some p)
      obtain n unit where p: "p = (n, unit)" by (cases p)
      then have "unit \<in> {60, 3600, 86400}" using Some
        by (auto simp: relative_of_def Let_def split: if_splits)
      moreover have "1 \<le> n" "n * unit \<le> MAX_HORIZON_DAYS * 86400" "s_first s = now + of_int (n * unit)"
        using assms nonempty short one_off Some p
        by (auto simp: resolve_timing_def Let_def split: if_splits)
      moreover have "0 < n * unit" using calculation by auto
      ultimately show ?thesis by (simp del: of_int_mult)
    next
      case None
      then show ?thesis
        using assms nonempty short one_off resolve_absolute_bounds
        by (auto simp: resolve_timing_def Let_def split: option.splits sum.splits)
    qed
  qed
  then show ?thesis using short by simp
qed


end
