(* ===== verification/TimingText.thy ===== *)
theory TimingText
  imports Timing
begin

text \<open>
  Timing texts read and written (kazma_core/cron/timing.py): the readers only build well-formed
  recurrences, and the canonical text of a recurrence is read back as that recurrence. The proof follows the
  pattern field by field, with the first-match rules of Regex; the last section shows a time at the edge of
  the calendar that is not refused with a reason.
\<close>

subsection \<open>Fields read back\<close>

text \<open>A well-formed recurrence; both readers build no other.\<close>

definition recurrence_ok :: "tzdata \<Rightarrow> recurrence \<Rightarrow> bool" where
  "recurrence_ok tz rec \<longleftrightarrow> clock_ok rec
     \<and> (if r_freq rec = Daily then r_weekdays rec = []
        else r_weekdays rec \<noteq> [] \<and> r_weekdays rec \<noteq> seven_days \<and> r_weekdays rec \<in> set (subseqs [0..<7]))
     \<and> (case r_until rec of None \<Rightarrow> True | Some day \<Rightarrow> days_before_year 1 < day \<and> day \<le> days_before_year 10000)
     \<and> (case r_count rec of None \<Rightarrow> True | Some n \<Rightarrow> 1 \<le> n \<and> n \<le> MAX_COUNT)
     \<and> (case r_tzid rec of None \<Rightarrow> True
        | Some t \<Rightarrow> t \<noteq> [] \<and> list_all is_tz_char t \<and> (\<exists>z. zone_named tz t = Inr z))"

lemma digit_facts:
  assumes "0 \<le> k" "k \<le> 9"
  shows "is_digit (digit k)" "\<not> is_blank (digit k)" "lower_char (digit k) = digit k" "is_clock_char (digit k)"
    "is_date_char (digit k)"
proof -
  show d: "is_digit (digit k)" using assms by simp
  have n: "of_char (digit k) = (48 + nat k :: nat)" using assms by (rule of_char_digit)
  have ne: "of_char c \<noteq> (48 + nat k :: nat) \<Longrightarrow> digit k \<noteq> c" for c using n by auto
  show "\<not> is_blank (digit k)"
    unfolding is_blank_def by (intro conjI notI; elim disjE; drule arg_cong[where f = "of_char :: char \<Rightarrow> nat"])
      (simp_all add: n)
  show "lower_char (digit k) = digit k" using n assms nat_le_iff[of k 9] by (simp add: lower_char_def Let_def)
  show "is_clock_char (digit k)" "is_date_char (digit k)" using d by (simp_all add: is_clock_char_def is_date_char_def)
qed

lemma clock_of_text:
  assumes "0 \<le> h" "h \<le> 23" "0 \<le> m" "m \<le> 59"
  shows "clock_of (pad2 h @ '':'' @ pad2 m) = Inr (h, m)"
proof -
  have r: "0 \<le> h div 10" "h div 10 \<le> 9" "0 \<le> h mod 10" "h mod 10 \<le> 9"
    "0 \<le> m div 10" "m div 10 \<le> 9" "0 \<le> m mod 10" "m mod 10 \<le> 9"
    using pad2_digits[of h] pad2_digits[of m] assms by auto
  let ?t = "pad2 h @ '':'' @ pad2 m"
  have strip: "py_strip ?t = ?t"
    unfolding py_strip_def pad2_def by (simp add: digit_facts(2)[OF r(1,2)] digit_facts(2)[OF r(7,8)])
  have g: "re_groups CLOCK_RE ?t = Some [(''m'', pad2 m), (''h'', pad2 h)]"
    unfolding CLOCK_RE_def re_groups_def pad2_def
    using digit_facts[OF r(1,2)] digit_facts[OF r(3,4)] digit_facts[OF r(5,6)] digit_facts[OF r(7,8)]
    by (simp add: eval_nat_numeral)
  have hm: "int (digits_nat (pad2 h)) = h" "int (digits_nat (pad2 m)) = m"
    using two_pad2[of h "[]"] two_pad2[of m "[]"] assms by (simp_all add: pad2_def split: if_splits)
  show ?thesis
    unfolding clock_of_def strip g using assms hm by (simp add: py_lower_def)
qed

lemma strip_nonblank: "list_all (\<lambda>c. \<not> is_blank c) s \<Longrightarrow> py_strip s = s"
proof -
  assume "list_all (\<lambda>c. \<not> is_blank c) s"
  then have n: "\<And>c. c \<in> set s \<Longrightarrow> \<not> is_blank c" by (simp add: list_all_iff)
  have "s = [] \<or> \<not> is_blank (last s)" "s = [] \<or> \<not> is_blank (hd s)" using n by auto
  then have "dropWhile is_blank s = s" "dropWhile is_blank (rev s) = rev s"
    by (simp_all add: dropWhile_eq_self_iff hd_rev)
  then show ?thesis by (simp add: py_strip_def)
qed

definition day_name :: "nat \<Rightarrow> string" where
  "day_name d = WEEKDAYS ! d"

lemma less_seven: "d < 7 \<Longrightarrow> d = 0 \<or> d = 1 \<or> d = 2 \<or> d = 3 \<or> d = 4 \<or> d = 5 \<or> d = (6 :: nat)"
  by arith

lemma day_name_eval:
  "day_name 0 = ''mon''" "day_name 1 = ''tue''" "day_name 2 = ''wed''" "day_name 3 = ''thu''"
  "day_name 4 = ''fri''" "day_name 5 = ''sat''" "day_name 6 = ''sun''"
  by (simp_all add: day_name_def WEEKDAYS_def)

lemma day_name_cases:
  "d < 7 \<Longrightarrow> P ''mon'' 0 \<Longrightarrow> P ''tue'' 1 \<Longrightarrow> P ''wed'' 2 \<Longrightarrow> P ''thu'' 3 \<Longrightarrow> P ''fri'' 4
     \<Longrightarrow> P ''sat'' 5 \<Longrightarrow> P ''sun'' 6 \<Longrightarrow> P (day_name d) d"
  using less_seven[of d] day_name_eval by (auto simp del: One_nat_def simp: One_nat_def[symmetric])

lemma day_name_letters:
  assumes "d < 7"
  shows "list_all (\<lambda>c. is_days_char c \<and> \<not> is_blank c \<and> lower_char c = c \<and> \<not> is_day_sep c) (day_name d)"
  by (rule day_name_cases[OF assms])
    (simp_all add: is_days_char_def is_letter_def is_blank_def lower_char_def is_day_sep_def)

lemma three_letters:
  assumes "\<not> is_day_sep a" "\<not> is_day_sep b" "\<not> is_day_sep c"
    and "a \<noteq> CHR ''a''" "c \<noteq> CHR ''a''" "b \<noteq> CHR ''a'' \<or> c \<noteq> CHR ''n''"
  shows "split_days p ([a, b, c] @ CHR '','' # s) [] = [a, b, c] # split_days (Some (CHR '','')) s []
     \<and> split_days p [a, b, c] [] = [[a, b, c]]"
  using assms by (auto simp: is_day_sep_def)

lemma day_name_split:
  assumes "d < 7"
  shows "split_days p (day_name d @ CHR '','' # s) [] = day_name d # split_days (Some (CHR '','')) s []
     \<and> split_days p (day_name d) [] = [day_name d]"
  by (rule day_name_cases[OF assms]; rule three_letters) (simp_all add: is_day_sep_def is_blank_def)

lemma day_name_facts:
  assumes "d < 7"
  shows "index_of WEEKDAYS (take 3 (py_strip (day_name d))) = Some d" "py_strip (day_name d) \<noteq> []"
    and "list_all (\<lambda>c. is_days_char c \<and> \<not> is_blank c \<and> lower_char c = c) (day_name d)"
proof -
  show l: "list_all (\<lambda>c. is_days_char c \<and> \<not> is_blank c \<and> lower_char c = c) (day_name d)"
    using day_name_letters[OF assms] by (simp add: list_all_iff)
  then have s: "py_strip (day_name d) = day_name d" by (simp add: strip_nonblank list_all_iff)
  show "index_of WEEKDAYS (take 3 (py_strip (day_name d))) = Some d"
    unfolding s by (rule day_name_cases[OF assms]) (simp_all add: WEEKDAYS_def eval_nat_numeral)
  show "py_strip (day_name d) \<noteq> []" unfolding s by (rule day_name_cases[OF assms]) simp_all
qed

definition day_list :: "nat list \<Rightarrow> string" where
  "day_list ds = join_with '','' (map day_name ds)"

lemma split_day_list:
  "\<forall>d \<in> set ds. d < 7 \<Longrightarrow> ds \<noteq> [] \<Longrightarrow> split_days b (day_list ds) [] = map day_name ds"
proof (induction ds arbitrary: b)
  case (Cons d ds)
  then show ?case
    by (cases ds) (simp_all add: day_list_def day_name_split)
qed simp

lemma day_numbers_names: "\<forall>d \<in> set ds. d < 7 \<Longrightarrow> day_numbers (map day_name ds) = Inr ds"
  by (induction ds) (simp_all add: day_name_facts)

lemma day_list_chars:
  "\<forall>d \<in> set ds. d < 7 \<Longrightarrow> list_all (\<lambda>c. is_days_char c \<and> \<not> is_blank c \<and> lower_char c = c) (day_list ds)"
proof (induction ds)
  case (Cons d ds)
  have "is_days_char (CHR '','') \<and> \<not> is_blank (CHR '','') \<and> lower_char (CHR '','') = CHR '',''"
    by (simp add: is_days_char_def is_blank_def lower_char_def)
  then show ?case using Cons day_name_facts(3)[of d] by (cases ds) (simp_all add: day_list_def)
qed (simp add: day_list_def)

lemma sorted_days_subseq: "\<forall>ds \<in> set (subseqs [0..<7]). sorted_days ds = ds \<and> (\<forall>d \<in> set ds. d < 7)"
  by code_simp

lemma days_of_names:
  assumes "ds \<in> set (subseqs [0..<7])" "ds \<noteq> []"
  shows "days_of (day_list ds) = Inr ds"
proof -
  have ds: "\<forall>d \<in> set ds. d < 7" "sorted_days ds = ds" using sorted_days_subseq assms(1) by blast+
  have ch: "list_all (\<lambda>c. \<not> is_blank c) (day_list ds)" "map lower_char (day_list ds) = day_list ds"
    using day_list_chars[OF ds(1)] by (auto simp: list_all_iff map_idI)
  show ?thesis
    unfolding days_of_def strip_nonblank[OF ch(1)] py_lower_def ch(2) split_day_list[OF ds(1) assms(2)]
      day_numbers_names[OF ds(1)] using assms(2) ds(2) by simp
qed

lemma until_of_text:
  assumes "days_before_year 1 < day" "day \<le> days_before_year 10000"
  shows "until_of (date_text day) = Inr day"
    and "length (date_text day) = 10" "list_all is_date_char (date_text day)" "list_all (\<lambda>c. \<not> is_blank c) (date_text day)"
proof -
  obtain y m d where o: "ord2ymd day = (y, m, d)" by (cases "ord2ymd day")
  have "in_years ((day - epoch_day) * 86400)" using assms by (simp add: in_years_def)
  then have y: "1 \<le> y" "y \<le> 9999" and v: "valid_date y m d"
    using in_years_ymd[of "(day - epoch_day) * 86400" y m d] o by simp_all
  have r: "0 \<le> m" "m \<le> 99" "0 \<le> d" "d \<le> 99" "0 \<le> y div 100" "y div 100 \<le> 99" "0 \<le> y mod 100" "y mod 100 \<le> 99"
    using v y unfolding valid_date_def days_in_month_def by (auto split: if_splits)
  have pad: "list_all is_date_char (pad2 n) \<and> list_all (\<lambda>c. \<not> is_blank c) (pad2 n)" if "0 \<le> n" "n \<le> 99" for n
    using pad2_digits[OF that] by (simp add: pad2_def digit_facts)
  have tx: "date_text day = pad2 (y div 100) @ pad2 (y mod 100) @ ''-'' @ pad2 m @ ''-'' @ pad2 d"
    by (simp add: date_text_def o pad4_def)
  show len: "length (date_text day) = 10" by (simp add: tx)
  show "list_all is_date_char (date_text day)"
    using pad[OF r(1,2)] pad[OF r(3,4)] pad[OF r(5,6)] pad[OF r(7,8)] by (simp add: tx is_date_char_def)
  show nb: "list_all (\<lambda>c. \<not> is_blank c) (date_text day)"
    using pad[OF r(1,2)] pad[OF r(3,4)] pad[OF r(5,6)] pad[OF r(7,8)] by (simp add: tx is_blank_def)
  have "\<not> is_rrule_date (date_text day)"
    by (simp add: is_rrule_date_def tx pad2_def is_digit_def)
  moreover have "read_date (take 10 (date_text day)) = Some (day, [])"
    using read_date_text[OF o y, of "[]"] len by simp
  ultimately show "until_of (date_text day) = Inr day"
    by (simp add: until_of_def strip_nonblank[OF nb])
qed

subsection \<open>Numbers read back\<close>

lemma digits_nat_snoc: "digits_nat (s @ [c]) = 10 * digits_nat s + (of_char c - 48)"
  by (simp add: digits_nat_def)

lemma nat_str_digits: "list_all is_digit (nat_str n) \<and> nat_str n \<noteq> [] \<and> digits_nat (nat_str n) = n"
proof (induction n rule: nat_str.induct)
  case (1 n)
  have d: "is_digit (char_of (48 + k :: nat))" "of_char (char_of (48 + k :: nat) :: char) = 48 + k" if "k < 10" for k
    using that by (simp_all add: is_digit_def)
  show ?case
  proof (cases "n < 10")
    case True
    then show ?thesis using d[of n] by (subst (1 2 3) nat_str.simps) (simp add: digits_nat_def)
  next
    case False
    then show ?thesis using 1 d[of "n mod 10"]
      by (subst (1 2 3) nat_str.simps) (simp add: digits_nat_snoc)
  qed
qed

lemma digit_not_blank: "is_digit c \<Longrightarrow> \<not> is_blank c"
  by (auto simp: is_digit_def is_blank_def)

lemma parse_nat_str: "parse_int (nat_str n) = Some (int n)"
proof -
  have d: "list_all is_digit (nat_str n)" "nat_str n \<noteq> []" "digits_nat (nat_str n) = n"
    using nat_str_digits by blast+
  then have "list_all (\<lambda>c. \<not> is_blank c) (nat_str n)"
    by (auto simp: list_all_iff digit_not_blank)
  then have strip: "py_strip (nat_str n) = nat_str n" by (rule strip_nonblank)
  obtain c cs where s: "nat_str n = c # cs" using d(2) by (cases "nat_str n") auto
  then have "is_digit c" using d(1) by simp
  then have "c \<noteq> CHR ''-''" "c \<noteq> CHR ''+''" by (auto simp: is_digit_def)
  then show ?thesis
    using d strip unfolding s by (simp add: parse_int_def py_isdigit_def)
qed

lemma count_of_text: "1 \<le> n \<Longrightarrow> n \<le> MAX_COUNT \<Longrightarrow> count_of (int_str n) = Inr n"
  by (simp add: count_of_def int_str_def parse_nat_str)


subsection \<open>Words\<close>

lemma squeeze_join: "list_all is_word_text ws \<Longrightarrow> squeeze (join_with '' '' ws) = join_with '' '' ws"
  by (simp add: squeeze_def words_join)

subsection \<open>The friendly pattern on a canonical text\<close>

lemma first_blank: "s = [] \<or> \<not> is_blank (hd s) \<Longrightarrow> first_is blanks (CHR '' '' # s, e) (s, e)"
  using first_plus[where P = is_blank and w = "'' ''" and s = s and e = e] by (simp add: is_blank_def)

lemma first_assoc: "first_is (CSeq a (CSeq b c)) p q \<Longrightarrow> first_is (CSeq (CSeq a b) c) p q"
  by (simp add: first_is_def run_seq_assoc del: run_cre.simps)

lemma first_seq_alt2: "run_cre a p = [] \<Longrightarrow> first_is (CSeq b c) p q \<Longrightarrow> first_is (CSeq (CAlt a b) c) p q"
  by (simp add: first_is_def run_seq_alt2 del: run_cre.simps)

text \<open>A blank is not the start of a text that begins with another character.\<close>

lemma no_blank_start: "\<not> is_blank c \<Longrightarrow> run_cre (CSeq blanks r) (c # s, e) = []"
  by simp

lemma blanks_end: "run_cre (CSeq blanks r) ([], e) = []"
  by simp

lemma blank_then:
  "\<not> is_blank c \<Longrightarrow> run_cre r (c # s, e) = [] \<Longrightarrow> run_cre r (CHR '' '' # c # s, e) = []
     \<Longrightarrow> run_cre (CSeq blanks r) (CHR '' '' # c # s, e) = []"
  by (simp add: is_blank_def)

lemma tail_fails:
  assumes "\<not> is_blank c"
  shows "run_cre TAIL_RE (c # s, e) = []"
proof -
  have "c \<noteq> CHR 0x0A" using assms by (auto simp: is_blank_def)
  then show ?thesis using assms by (simp add: TAIL_RE_def)
qed

definition until_text :: "int option \<Rightarrow> string" where
  "until_text u = (case u of None \<Rightarrow> [] | Some day \<Rightarrow> '' until '' @ date_text day)"

definition count_text :: "int option \<Rightarrow> string" where
  "count_text n = (case n of None \<Rightarrow> [] | Some n \<Rightarrow> '' count '' @ int_str n)"

definition zone_text :: "string option \<Rightarrow> string" where
  "zone_text t = (case t of None \<Rightarrow> [] | Some t \<Rightarrow> '' tz '' @ t)"

definition group_of :: "string \<Rightarrow> ('a \<Rightarrow> string) \<Rightarrow> 'a option \<Rightarrow> (string \<times> string) list" where
  "group_of g f v = (case v of None \<Rightarrow> [] | Some x \<Rightarrow> [(g, f x)])"

lemma run_prefix_self: "run_prefix p (p @ s) = Some s"
  by (induction p) simp_all

text \<open>A field of the tail: a blank, its word, a blank and its value.\<close>

lemma first_field:
  assumes "first_is k (key @ CHR '' '' # v, e) (CHR '' '' # v, e)" "key \<noteq> []" "\<not> is_blank (hd key)"
    and "v = [] \<or> \<not> is_blank (hd v)" "first_is r (v, e) q"
  shows "first_is (CSeq blanks (CSeq k (CSeq blanks r))) (CHR '' '' # key @ CHR '' '' # v, e) q"
  by (rule first_seq[OF first_blank first_seq[OF assms(1) first_seq[OF first_blank assms(5)]]]) (use assms in auto)

lemma first_key: "first_is (CLit key) (key @ s, e) (s, e)"
  by (rule first_lit) (rule run_prefix_self)

lemma no_field:
  "run_cre (CSeq blanks (CSeq k r)) ([], e) = []"
  "\<not> is_blank c \<Longrightarrow> run_cre k (c # s, e) = [] \<Longrightarrow> run_cre k (CHR '' '' # c # s, e) = []
     \<Longrightarrow> run_cre (CSeq blanks (CSeq k r)) (CHR '' '' # c # s, e) = []"
  by (auto simp: is_blank_def)

lemma tz_char_nonblank: "is_tz_char c \<Longrightarrow> \<not> is_blank c"
  by (auto simp: is_tz_char_def is_blank_def is_letter_def lower_char_def is_digit_def)

lemma first_zone:
  assumes "\<And>z. t = Some z \<Longrightarrow> z \<noteq> [] \<and> list_all is_tz_char z"
  shows "first_is (COpt (cseqs [blanks, CLit ''tz'', blanks, CGrp ''tz'' (CPlus (CCls is_tz_char))]))
    (zone_text t, e) ([], group_of ''tz'' id t @ e)"
proof (cases t)
  case None
  then show ?thesis by (auto simp: zone_text_def group_of_def intro!: first_opt2)
next
  case (Some z)
  then have z: "z \<noteq> []" "list_all is_tz_char z" using assms by auto
  then have nb: "\<not> is_blank (hd z)" by (cases z) (auto simp: tz_char_nonblank)
  have "first_is (CGrp ''tz'' (CPlus (CCls is_tz_char))) (z @ [], e) ([], (''tz'', z) # e)"
    by (rule first_group, rule first_plus) (use z in auto)
  then have "first_is (cseqs [blanks, CLit ''tz'', blanks, CGrp ''tz'' (CPlus (CCls is_tz_char))])
      (CHR '' '' # ''tz'' @ CHR '' '' # z, e) ([], (''tz'', z) # e)"
    unfolding cseqs.simps by (intro first_field first_key) (use nb in \<open>simp_all add: is_blank_def\<close>)
  then show ?thesis using Some by (auto simp: zone_text_def group_of_def intro!: first_opt1)
qed

lemma tail_starts:
  "zone_text t = [] \<or> (\<exists>s. zone_text t = '' tz'' @ s)"
  "count_text n = [] \<or> (\<exists>s. count_text n = '' count'' @ s)"
  by (auto simp: zone_text_def count_text_def split: option.split)

lemma first_count:
  assumes "\<And>k. n = Some k \<Longrightarrow> 1 \<le> k"
  shows "first_is (COpt (cseqs [blanks, CAlt (CLit ''count'') (CLit ''for''), blanks, CGrp ''count'' (CPlus (CCls is_digit)),
                  COpt (CSeq blanks (CLit ''times''))]))
    (count_text n @ zone_text t, e) (zone_text t, group_of ''count'' int_str n @ e)"
proof (cases n)
  case None
  have "run_cre (cseqs [blanks, CAlt (CLit ''count'') (CLit ''for''), blanks, CGrp ''count'' (CPlus (CCls is_digit)),
                  COpt (CSeq blanks (CLit ''times''))]) (zone_text t, e) = []"
    unfolding cseqs.simps using tail_starts(1)[of t]
    by (elim disjE exE; simp add: no_field is_blank_def lower_char_def del: run_cre.simps(3))
  then show ?thesis using None by (auto simp: count_text_def group_of_def simp del: cseqs.simps intro!: first_opt2)
next
  case (Some k)
  then have "int_str k = nat_str (nat k)" using assms by (auto simp: int_str_def)
  then have d: "int_str k \<noteq> []" "list_all is_digit (int_str k)" using nat_str_digits by simp_all
  then have nb: "\<not> is_blank (hd (int_str k))" by (cases "int_str k") (auto simp: digit_not_blank)
  have z: "zone_text t = [] \<or> \<not> is_digit (hd (zone_text t))" using tail_starts(1)[of t] by (auto simp: is_digit_def)
  have grp: "first_is (CGrp ''count'' (CPlus (CCls is_digit))) (int_str k @ zone_text t, e)
      (zone_text t, (''count'', int_str k) # e)"
    by (rule first_group, rule first_plus) (use d z in auto)
  have no: "run_cre (CSeq blanks (CLit ''times'')) (zone_text t, e') = []" for e'
    using tail_starts(1)[of t] by (auto simp: is_blank_def lower_char_def)
  have "first_is (cseqs [blanks, CAlt (CLit ''count'') (CLit ''for''), blanks, CGrp ''count'' (CPlus (CCls is_digit)),
                  COpt (CSeq blanks (CLit ''times''))])
      (CHR '' '' # ''count'' @ CHR '' '' # int_str k @ zone_text t, e) (zone_text t, (''count'', int_str k) # e)"
    unfolding cseqs.simps
    by (intro first_field first_alt1 first_key first_seq[OF grp] first_opt2 no)
      (use d(1) nb in \<open>simp_all add: is_blank_def\<close>)
  then show ?thesis using Some
    by (auto simp: count_text_def group_of_def simp del: cseqs.simps intro!: first_opt1)
qed

lemma first_until:
  assumes "\<And>day. u = Some day \<Longrightarrow> days_before_year 1 < day \<and> day \<le> days_before_year 10000"
  shows "first_is (COpt (cseqs [blanks, CLit ''until'', blanks, CGrp ''until'' (CTimes 10 (CCls is_date_char))]))
    (until_text u @ count_text n @ zone_text t, e)
    (count_text n @ zone_text t, group_of ''until'' date_text u @ e)"
proof (cases u)
  case None
  have "run_cre (cseqs [blanks, CLit ''until'', blanks, CGrp ''until'' (CTimes 10 (CCls is_date_char))])
      (count_text n @ zone_text t, e) = []"
    unfolding cseqs.simps using tail_starts(1)[of t] tail_starts(2)[of n]
    by (elim disjE exE; simp add: no_field is_blank_def lower_char_def del: run_cre.simps(3))
  then show ?thesis using None by (auto simp: until_text_def group_of_def simp del: cseqs.simps intro!: first_opt2)
next
  case (Some day)
  then have d: "length (date_text day) = 10" "list_all is_date_char (date_text day)"
    "list_all (\<lambda>c. \<not> is_blank c) (date_text day)" using until_of_text assms by blast+
  then have nb: "date_text day \<noteq> [] \<and> \<not> is_blank (hd (date_text day))" by (cases "date_text day") auto
  have grp: "first_is (CGrp ''until'' (CTimes 10 (CCls is_date_char))) (date_text day @ s, e)
      (s, (''until'', date_text day) # e)" for s
    by (rule first_group, rule first_times) (use d in auto)
  have "first_is (cseqs [blanks, CLit ''until'', blanks, CGrp ''until'' (CTimes 10 (CCls is_date_char))])
      (CHR '' '' # ''until'' @ CHR '' '' # date_text day @ s, e) (s, (''until'', date_text day) # e)" for s
    unfolding cseqs.simps by (intro first_field first_key grp) (use nb in \<open>simp_all add: is_blank_def\<close>)
  then show ?thesis using Some
    by (auto simp: until_text_def group_of_def simp del: cseqs.simps intro!: first_opt1)
qed


definition tail_groups :: "recurrence \<Rightarrow> (string \<times> string) list" where
  "tail_groups rec = group_of ''tz'' id (r_tzid rec) @ group_of ''count'' int_str (r_count rec)
     @ group_of ''until'' date_text (r_until rec)"

definition tail_text :: "recurrence \<Rightarrow> string" where
  "tail_text rec = until_text (r_until rec) @ count_text (r_count rec) @ zone_text (r_tzid rec)"

lemma first_tail:
  assumes "recurrence_ok tz rec"
  shows "first_is TAIL_RE (tail_text rec, e) ([], tail_groups rec @ e)"
proof -
  have u: "\<And>day. r_until rec = Some day \<Longrightarrow> days_before_year 1 < day \<and> day \<le> days_before_year 10000"
    and n: "\<And>k. r_count rec = Some k \<Longrightarrow> 1 \<le> k"
    and t: "\<And>z. r_tzid rec = Some z \<Longrightarrow> z \<noteq> [] \<and> list_all is_tz_char z"
    using assms by (auto simp: recurrence_ok_def)
  show ?thesis
    unfolding TAIL_RE_def tail_text_def tail_groups_def append_assoc
    by (subst cseqs.simps(3), rule first_seq[OF first_until[OF u]], assumption,
        subst cseqs.simps(3), rule first_seq[OF first_count[OF n]], assumption,
        subst cseqs.simps(3), rule first_seq[OF first_zone[OF t]], assumption, subst cseqs.simps(2), rule first_end)
qed

definition clock_at :: "recurrence \<Rightarrow> string" where
  "clock_at rec = pad2 (r_hour rec) @ '':'' @ pad2 (r_minute rec)"

lemma clock_at_chars:
  assumes "clock_ok rec"
  shows "list_all is_clock_char (clock_at rec)" "list_all (\<lambda>c. \<not> is_blank c) (clock_at rec)" "clock_at rec \<noteq> []"
proof -
  have r: "list_all is_clock_char (pad2 n) \<and> list_all (\<lambda>c. \<not> is_blank c) (pad2 n)" if "0 \<le> n" "n \<le> 59" for n
    using pad2_digits[of n] that by (simp add: pad2_def digit_facts)
  then show "list_all is_clock_char (clock_at rec)" "list_all (\<lambda>c. \<not> is_blank c) (clock_at rec)"
    using assms by (simp_all add: clock_at_def clock_ok_def is_clock_char_def is_blank_def)
  show "clock_at rec \<noteq> []" by (simp add: clock_at_def)
qed

lemma hd_nonblank: "list_all (\<lambda>c. \<not> is_blank c) w \<Longrightarrow> w \<noteq> [] \<Longrightarrow> \<not> is_blank (hd (w @ s))"
  by (cases w) simp_all

text \<open>The pattern after the part that names the days.\<close>

definition AT_RE :: cre where
  "AT_RE = CSeq blanks (CSeq (CLit ''at'') (CSeq blanks (CSeq (CGrp ''clock'' (CLazy (CCls is_clock_char))) TAIL_RE)))"

lemma first_at:
  assumes "recurrence_ok tz rec"
  shows "first_is AT_RE ('' at '' @ clock_at rec @ tail_text rec, e) ([], tail_groups rec @ (''clock'', clock_at rec) # e)"
proof -
  have c: "clock_ok rec" using assms by (simp add: recurrence_ok_def)
  note ch = clock_at_chars[OF c]
  have "first_is (CSeq (CGrp ''clock'' (CLazy (CCls is_clock_char))) TAIL_RE) (clock_at rec @ tail_text rec, e)
      ([], tail_groups rec @ (''clock'', clock_at rec) # e)"
  proof (rule first_lazy[OF ch(1,3) _ first_tail[OF assms]])
    fix u v e' assume "clock_at rec = u @ v" "v \<noteq> []"
    then show "run_cre TAIL_RE (v @ tail_text rec, e') = []"
      using ch(2) by (cases v) (auto simp: tail_fails)
  qed
  then have "first_is AT_RE (CHR '' '' # ''at'' @ CHR '' '' # clock_at rec @ tail_text rec, e)
      ([], tail_groups rec @ (''clock'', clock_at rec) # e)"
    unfolding AT_RE_def
    by (intro first_field first_key disjI2 hd_nonblank ch) (simp_all add: is_blank_def)
  then show ?thesis by simp
qed

lemma friendly_re: "FRIENDLY_RE = CSeq WHEN_RE AT_RE"
  by (simp add: FRIENDLY_RE_def AT_RE_def)

text \<open>The text before "at", and the group it fills.\<close>

definition when_text :: "recurrence \<Rightarrow> string" where
  "when_text rec =
     (if r_freq rec = Daily then ''daily''
      else if r_weekdays rec = [0, 1, 2, 3, 4] then ''weekdays''
      else ''weekly on '' @ day_list (r_weekdays rec))"

definition when_group :: "recurrence \<Rightarrow> string \<times> string" where
  "when_group rec =
     (if r_freq rec = Daily then (''daily'', ''daily'')
      else if r_weekdays rec = [0, 1, 2, 3, 4] then (''weekdays'', ''weekdays'')
      else (''days'', day_list (r_weekdays rec)))"

lemma day_list_facts:
  assumes "recurrence_ok tz rec" "r_freq rec \<noteq> Daily"
  shows "list_all is_days_char (day_list (r_weekdays rec))" "list_all (\<lambda>c. \<not> is_blank c) (day_list (r_weekdays rec))"
    "day_list (r_weekdays rec) \<noteq> []"
proof -
  have w: "r_weekdays rec \<in> set (subseqs [0..<7])" "r_weekdays rec \<noteq> []" using assms by (simp_all add: recurrence_ok_def)
  then have lt: "\<forall>d \<in> set (r_weekdays rec). d < 7" using sorted_days_subseq by blast
  show "list_all is_days_char (day_list (r_weekdays rec))" "list_all (\<lambda>c. \<not> is_blank c) (day_list (r_weekdays rec))"
    using day_list_chars[OF lt] by (simp_all add: list_all_iff)
  have "day_name d \<noteq> []" if "d < 7" for d by (rule day_name_cases[OF that]) simp_all
  then show "day_list (r_weekdays rec) \<noteq> []"
    using w(2) lt by (cases "r_weekdays rec" rule: remdups_adj.cases) (auto simp: day_list_def)
qed

lemma first_friendly:
  assumes "recurrence_ok tz rec"
  shows "first_is FRIENDLY_RE (when_text rec @ '' at '' @ clock_at rec @ tail_text rec, [])
    ([], tail_groups rec @ [(''clock'', clock_at rec), when_group rec])"
proof -
  let ?s = "'' at '' @ clock_at rec @ tail_text rec"
  note at_part = first_at[OF assms]
  have grp: "first_is (CGrp g (CAlt (CLit w) r)) (w @ s, e) (s, (g, w) # e)" for g w r s e
    by (intro first_group first_alt1 first_key)
  consider (daily) "r_freq rec = Daily" | (workdays) "r_freq rec \<noteq> Daily" "r_weekdays rec = [0, 1, 2, 3, 4]"
    | (weekly) "r_freq rec \<noteq> Daily" "r_weekdays rec \<noteq> [0, 1, 2, 3, 4]" by blast
  then show ?thesis
  proof cases
    case daily
    have "first_is (CSeq WHEN_RE AT_RE) (''daily'' @ ?s, []) ([], tail_groups rec @ [(''clock'', clock_at rec), (''daily'', ''daily'')])"
      unfolding WHEN_RE_def cseqs.simps by (rule first_seq[OF first_alt1[OF grp] at_part])
    then show ?thesis using daily by (simp add: friendly_re when_text_def when_group_def)
  next
    case workdays
    have no: "run_cre (CGrp g (CAlt (CLit ''daily'') (CSeq (CLit ''every'') r))) (''weekdays'' @ s, e) = []" for g r s e
      by (simp add: lower_char_def)
    have "first_is (CSeq WHEN_RE AT_RE) (''weekdays'' @ ?s, [])
        ([], tail_groups rec @ [(''clock'', clock_at rec), (''weekdays'', ''weekdays'')])"
      unfolding WHEN_RE_def cseqs.simps by (rule first_seq[OF first_alt2[OF no first_alt1[OF grp]] at_part])
    then show ?thesis using workdays by (simp add: friendly_re when_text_def when_group_def)
  next
    case weekly
    note d = day_list_facts[OF assms weekly(1)]
    let ?l = "day_list (r_weekdays rec)"
    have no: "run_cre (CGrp g (CAlt (CLit ''daily'') (CSeq (CLit ''every'') r))) (''weekly on '' @ s, e) = []"
      "run_cre (CGrp g (CAlt (CLit ''weekdays'') (CSeq (CLit ''every'') r))) (''weekly on '' @ s, e) = []" for g r s e
      by (simp_all add: lower_char_def)
    have "first_is (CSeq (CLit ''weekly'') (CSeq blanks (CLit ''on''))) (''weekly'' @ CHR '' '' # ''on'' @ CHR '' '' # s, e)
        (CHR '' '' # s, e)" for s e
      by (rule first_seq[OF first_key first_seq[OF first_blank first_key]]) (simp add: is_blank_def)
    then have on: "first_is (CSeq (CLit ''weekly'') (CSeq blanks (CLit ''on''))) (''weekly on '' @ s, e) (CHR '' '' # s, e)"
      for s e by simp
    have days: "first_is (CSeq (CGrp ''days'' (CLazy (CCls is_days_char))) AT_RE) (?l @ ?s, e)
        ([], tail_groups rec @ (''clock'', clock_at rec) # (''days'', ?l) # e)" for e
    proof (rule first_lazy[OF d(1,3) _ at_part])
      fix u v e' assume "?l = u @ v" "v \<noteq> []"
      then show "run_cre AT_RE (v @ ?s, e') = []"
        using d(2) by (cases v) (auto simp: AT_RE_def)
    qed
    have "first_is (CSeq blanks (CSeq (CGrp ''days'' (CLazy (CCls is_days_char))) AT_RE)) (CHR '' '' # ?l @ ?s, e)
        ([], tail_groups rec @ (''clock'', clock_at rec) # (''days'', ?l) # e)" for e
      by (rule first_seq[OF first_blank days]) (use d(2,3) in \<open>cases ?l; auto\<close>)
    then have "first_is (CSeq (CSeq (CAlt (CSeq (CLit ''weekly'') (CSeq blanks (CLit ''on''))) (CLit ''every''))
          (CSeq blanks (CGrp ''days'' (CLazy (CCls is_days_char))))) AT_RE) (''weekly on '' @ ?l @ ?s, [])
        ([], tail_groups rec @ [(''clock'', clock_at rec), (''days'', ?l)])"
      by (intro first_assoc first_seq[OF first_alt1[OF on]])
    then have "first_is (CSeq WHEN_RE AT_RE) (''weekly on '' @ ?l @ ?s, [])
        ([], tail_groups rec @ [(''clock'', clock_at rec), (''days'', ?l)])"
      unfolding WHEN_RE_def cseqs.simps by (intro first_seq_alt2 no)
    then show ?thesis using weekly by (simp add: friendly_re when_text_def when_group_def)
  qed
qed


subsection \<open>The round trip\<close>

lemma describe_text:
  assumes "recurrence_ok tz rec"
  shows "describe rec = when_text rec @ '' at '' @ clock_at rec @ tail_text rec"
proof -
  have "nonblank (r_tzid rec) = r_tzid rec"
    using assms by (cases "r_tzid rec") (auto simp: recurrence_ok_def nonblank_def)
  then show ?thesis
    by (simp add: describe_def when_text_def clock_at_def tail_text_def until_text_def count_text_def zone_text_def
        day_list_def day_name_def[abs_def] Let_def)
qed

definition describe_words :: "recurrence \<Rightarrow> string list" where
  "describe_words rec =
     (if r_freq rec = Daily then [''daily''] else if r_weekdays rec = [0, 1, 2, 3, 4] then [''weekdays'']
      else [''weekly'', ''on'', day_list (r_weekdays rec)])
     @ [''at'', clock_at rec]
     @ (case r_until rec of None \<Rightarrow> [] | Some day \<Rightarrow> [''until'', date_text day])
     @ (case r_count rec of None \<Rightarrow> [] | Some n \<Rightarrow> [''count'', int_str n])
     @ (case r_tzid rec of None \<Rightarrow> [] | Some t \<Rightarrow> [''tz'', t])"

lemma join_with_append:
  "xs \<noteq> [] \<Longrightarrow> ys \<noteq> [] \<Longrightarrow> join_with sep (xs @ ys) = join_with sep xs @ sep @ join_with sep ys"
proof (induction xs)
  case (Cons x xs)
  then show ?case by (cases xs; cases ys) auto
qed simp

lemma describe_squeezed:
  assumes "recurrence_ok tz rec"
  shows "squeeze (describe rec) = describe rec"
proof -
  have join: "describe rec = join_with '' '' (describe_words rec)"
    unfolding describe_text[OF assms] describe_words_def when_text_def tail_text_def until_text_def count_text_def
      zone_text_def
    by (auto split: option.split)
  have until: "is_word_text (date_text day)" if "r_until rec = Some day" for day
  proof -
    have "days_before_year 1 < day" "day \<le> days_before_year 10000" using assms that by (auto simp: recurrence_ok_def)
    then show ?thesis using until_of_text(2,4) by (fastforce simp: is_word_text_def)
  qed
  have count: "is_word_text (int_str n)" if "r_count rec = Some n" for n
  proof -
    have "int_str n = nat_str (nat n)" using assms that by (auto simp: int_str_def recurrence_ok_def)
    then show ?thesis using nat_str_digits[of "nat n"] by (auto simp: is_word_text_def list_all_iff digit_not_blank)
  qed
  have zone: "is_word_text t" if "r_tzid rec = Some t" for t
    using assms that by (auto simp: recurrence_ok_def is_word_text_def list_all_iff tz_char_nonblank)
  have clock: "is_word_text (clock_at rec)"
    using clock_at_chars assms by (simp add: is_word_text_def recurrence_ok_def)
  have days: "is_word_text (day_list (r_weekdays rec))" if "r_freq rec \<noteq> Daily"
    using day_list_facts[OF assms that] by (simp add: is_word_text_def)
  have lits: "list_all is_word_text [''daily'', ''weekdays'', ''weekly'', ''on'', ''at'', ''until'', ''count'', ''tz'']"
    by (simp add: is_word_text_def is_blank_def)
  have "list_all is_word_text (describe_words rec)"
    using until count zone clock days lits by (auto simp: describe_words_def split: option.split)
  then show ?thesis unfolding join by (rule squeeze_join)
qed

lemma group_lookup:
  "map_of (group_of g f v @ e) k = (if k = g then (case v of None \<Rightarrow> map_of e k | Some x \<Rightarrow> Some (f x)) else map_of e k)"
  by (auto simp: group_of_def split: option.split)

lemma nonblank_Some: "s \<noteq> [] \<Longrightarrow> nonblank (Some s) = Some s" "nonblank None = None"
  by (simp_all add: nonblank_def)

lemma tail_lookup:
  "k \<notin> {''tz'', ''count'', ''until''} \<Longrightarrow> map_of (tail_groups rec @ e) k = map_of e k"
  by (simp add: tail_groups_def group_lookup del: map_of_append)

lemma friendly_days_back:
  assumes "recurrence_ok tz rec"
  shows "friendly_days (tail_groups rec @ [(''clock'', clock_at rec), when_group rec]) = Inr (r_freq rec, r_weekdays rec)"
proof -
  let ?g = "tail_groups rec @ [(''clock'', clock_at rec), when_group rec]"
  have g: "map_of ?g ''daily'' = (if r_freq rec = Daily then Some ''daily'' else None)"
    "r_freq rec \<noteq> Daily \<Longrightarrow> map_of ?g ''weekdays'' = (if r_weekdays rec = [0, 1, 2, 3, 4] then Some ''weekdays'' else None)"
    "r_freq rec \<noteq> Daily \<Longrightarrow> r_weekdays rec \<noteq> [0, 1, 2, 3, 4] \<Longrightarrow> map_of ?g ''days'' = Some (day_list (r_weekdays rec))"
    by (simp_all add: tail_lookup when_group_def del: map_of_append)
  show ?thesis
  proof (cases "r_freq rec = Daily")
    case True
    then show ?thesis using assms by (simp add: friendly_days_def g nonblank_Some recurrence_ok_def del: map_of_append)
  next
    case False
    then have w: "r_weekdays rec \<in> set (subseqs [0..<7])" "r_weekdays rec \<noteq> []" "r_weekdays rec \<noteq> seven_days" "r_freq rec = Weekly"
      using assms by (simp_all add: recurrence_ok_def) (cases "r_freq rec"; simp)
    show ?thesis
    proof (cases "r_weekdays rec = [0, 1, 2, 3, 4]")
      case True
      then show ?thesis using False w(4) by (simp add: friendly_days_def g nonblank_Some del: map_of_append)
    next
      case days: False
      have "days_of (day_list (r_weekdays rec)) = Inr (r_weekdays rec)" by (rule days_of_names[OF w(1,2)])
      then show ?thesis using days False w(3,4)
        by (simp add: friendly_days_def g nonblank_Some get_or_def del: map_of_append)
    qed
  qed
qed

lemma make_recurrence_back:
  assumes "recurrence_ok tz rec"
  shows "make_recurrence tz (r_freq rec) (r_weekdays rec) (r_hour rec, r_minute rec) (map_option date_text (r_until rec))
      (map_option int_str (r_count rec)) (r_tzid rec) = Inr rec"
proof -
  have "opt_field (zone_named tz) (r_tzid rec) = Inr (map_option (\<lambda>t. projr (zone_named tz t)) (r_tzid rec))"
    using assms by (cases "r_tzid rec") (auto simp: recurrence_ok_def opt_field_def)
  moreover have "opt_field until_of (map_option date_text (r_until rec)) = Inr (r_until rec)"
    using assms by (cases "r_until rec") (auto simp: recurrence_ok_def opt_field_def until_of_text(1))
  moreover have "opt_field count_of (map_option int_str (r_count rec)) = Inr (r_count rec)"
    using assms by (cases "r_count rec") (auto simp: recurrence_ok_def opt_field_def count_of_text)
  ultimately show ?thesis by (simp add: make_recurrence_def)
qed

lemma describe_start:
  assumes "recurrence_ok tz rec"
  shows "describe rec \<noteq> []" "\<not> starts_with ''RRULE:'' (py_upper (describe rec))"
    "\<not> starts_with ''FREQ='' (py_upper (describe rec))"
proof -
  have "\<exists>s. describe rec = CHR ''d'' # s \<or> describe rec = CHR ''w'' # s"
    by (simp add: describe_text[OF assms] when_text_def)
  moreover have "char_of (68 :: nat) = CHR ''D''" "char_of (87 :: nat) = CHR ''W''"
    by (simp_all add: char_of_eq_iff take_bit_eq_mod)
  ultimately show "describe rec \<noteq> []" "\<not> starts_with ''RRULE:'' (py_upper (describe rec))"
    "\<not> starts_with ''FREQ='' (py_upper (describe rec))"
    by (auto simp: py_upper_def)
qed

lemma canonical_reads_back:
  assumes ok: "recurrence_ok tz rec"
  shows "parse_recurrence tz (describe rec) = Inr (Some rec)"
proof -
  let ?g = "tail_groups rec @ [(''clock'', clock_at rec), when_group rec]"
  have g: "re_groups FRIENDLY_RE (describe rec) = Some ?g"
    using re_groups_first[OF first_friendly[OF ok]] by (simp add: describe_text[OF ok])
  note start = describe_start[OF ok]
  have clk: "clock_ok rec" using ok by (simp add: recurrence_ok_def)
  have "get_or ?g ''clock'' [] = clock_at rec" by (simp add: get_or_def tail_lookup del: map_of_append)
  moreover have "clock_of (clock_at rec) = Inr (r_hour rec, r_minute rec)"
    using clock_of_text[of "r_hour rec" "r_minute rec"] clk by (simp add: clock_at_def clock_ok_def)
  moreover have "nonblank (map_of ?g ''until'') = map_option date_text (r_until rec)"
  proof -
    have "date_text day \<noteq> []" for day by (cases "ord2ymd day") (simp add: date_text_def)
    then show ?thesis
      by (auto simp: tail_groups_def when_group_def group_lookup nonblank_Some simp del: map_of_append split: option.split)
  qed
  moreover have "nonblank (map_of ?g ''count'') = map_option int_str (r_count rec)"
  proof -
    have "int_str n \<noteq> []" for n using nat_str_digits by (simp add: int_str_def)
    then show ?thesis
      by (auto simp: tail_groups_def when_group_def group_lookup nonblank_Some simp del: map_of_append split: option.split)
  qed
  moreover have "nonblank (map_of ?g ''tz'') = r_tzid rec"
    using ok by (auto simp: tail_groups_def when_group_def group_lookup nonblank_Some recurrence_ok_def simp del: map_of_append
        split: option.splits)
  ultimately show ?thesis
    unfolding parse_recurrence_def Let_def describe_squeezed[OF ok] g
    using start friendly_days_back[OF ok] make_recurrence_back[OF ok] by (simp del: map_of_append)
qed


subsection \<open>What the readers build\<close>

lemma clock_of_range:
  assumes "clock_of s = Inr (h, m)"
  shows "0 \<le> h \<and> h \<le> 23 \<and> 0 \<le> m \<and> m \<le> 59"
proof -
  obtain g where g: "re_groups CLOCK_RE (py_strip s) = Some g"
    using assms by (auto simp: clock_of_def split: option.splits)
  let ?m = "case map_of g ''m'' of None \<Rightarrow> 0 | Some m \<Rightarrow> int (digits_nat m)"
  let ?h = "case map_of g ''h'' of None \<Rightarrow> 0 | Some h \<Rightarrow> int (digits_nat h)"
  have pos: "0 \<le> ?m" "0 \<le> ?h" by (simp_all split: option.split)
  have "m = ?m" "?m \<le> 59" "h = ?h \<and> h \<le> 23 \<or> h = ?h mod 12 \<or> h = ?h mod 12 + 12"
    using assms g by (auto simp: clock_of_def Let_def split: if_splits option.splits)
  moreover have "0 \<le> ?h mod 12" "?h mod 12 < 12" by simp_all
  ultimately show ?thesis using pos by linarith
qed

lemma filter_in_subseqs: "filter P xs \<in> set (subseqs xs)"
  by (induction xs) (simp_all add: Let_def)

lemma sorted_days_facts:
  "sorted_days ds \<in> set (subseqs [0..<7])" "sorted_days ds = [] \<longleftrightarrow> (\<forall>d \<in> set ds. 7 \<le> d)"
  unfolding sorted_days_def by (rule filter_in_subseqs) (auto simp: filter_empty_conv)

lemma index_of_less: "index_of xs x = Some n \<Longrightarrow> n < length xs"
  by (induction xs arbitrary: n) (auto split: if_splits)

lemma day_numbers_less: "day_numbers ps = Inr ds \<Longrightarrow> \<forall>d \<in> set ds. d < 7"
  by (induction ps arbitrary: ds)
    (auto split: if_splits option.splits sum.splits dest!: index_of_less simp: WEEKDAYS_def)

lemma days_of_ok: "days_of s = Inr ds \<Longrightarrow> ds \<noteq> [] \<and> ds \<in> set (subseqs [0..<7])"
proof -
  assume a: "days_of s = Inr ds"
  then obtain es where e: "day_numbers (split_days None (py_lower (py_strip s)) []) = Inr es" "es \<noteq> []" "ds = sorted_days es"
    by (auto simp: days_of_def split: sum.splits if_splits)
  then have "\<exists>d \<in> set es. \<not> 7 \<le> d" using day_numbers_less[OF e(1)] by (cases es) (auto simp: not_le)
  then show ?thesis using e(3) sorted_days_facts by auto
qed

lemma day_in_calendar:
  assumes "valid_date y m d" "1 \<le> y" "y \<le> 9999"
  shows "days_before_year 1 < ymd2ord y m d \<and> ymd2ord y m d \<le> days_before_year 10000"
  using day_in_year[OF assms(1)] year_starts_mono[of 1 y] year_starts_mono[of "y + 1" 10000] assms by linarith

lemma digit_value: "is_digit c \<Longrightarrow> of_char c - 48 \<le> (9 :: nat)"
  unfolding is_digit_def Let_def by linarith

lemma digits_small: "is_digit a \<Longrightarrow> is_digit b \<Longrightarrow> digits_nat [a, b] \<le> 99"
  using digit_value[of a] digit_value[of b] by (simp add: digits_nat_def)

lemma two_bound: "two s = Some (n, t) \<Longrightarrow> 0 \<le> n \<and> n \<le> 99"
  using digits_small by (induction s rule: two.induct) (auto split: if_splits)

lemma read_date_in_calendar:
  "read_date s = Some (day, t) \<Longrightarrow> days_before_year 1 < day \<and> day \<le> days_before_year 10000"
  by (auto simp: read_date_def split: option.splits if_splits dest!: two_bound
      intro!: day_in_calendar[THEN conjunct1] day_in_calendar[THEN conjunct2])

lemma four_digits:
  assumes "list_all is_digit s" "length s = 4"
  shows "digits_nat s \<le> 9999"
proof -
  obtain a b c d where s: "s = [a, b, c, d]" using assms(2) by (auto simp: length_Suc_conv eval_nat_numeral)
  show ?thesis
    using assms(1) digit_value[of a] digit_value[of b] digit_value[of c] digit_value[of d]
    by (simp add: s digits_nat_def)
qed

lemma until_of_range: "until_of s = Inr day \<Longrightarrow> days_before_year 1 < day \<and> day \<le> days_before_year 10000"
proof -
  assume a: "until_of s = Inr day"
  show ?thesis
  proof (cases "is_rrule_date (py_strip s)")
    case True
    let ?r = "py_strip s"
    let ?y = "int (digits_nat (take 4 ?r))"
    have "list_all is_digit (take 4 (take 8 ?r))" "length (take 4 (take 8 ?r)) = 4"
      using True by (auto simp: is_rrule_date_def list_all_iff dest: in_set_takeD simp del: take_take)
    then have "digits_nat (take 4 ?r) \<le> 9999" by (intro four_digits) simp_all
    then have "?y \<le> 9999" by simp
    then show ?thesis using a True
      by (auto simp: until_of_def Let_def split: if_splits
          intro!: day_in_calendar[THEN conjunct1] day_in_calendar[THEN conjunct2])
  next
    case False
    then show ?thesis using a
      by (auto simp: until_of_def Let_def split: option.splits list.splits dest: read_date_in_calendar)
  qed
qed

text \<open>Names the time zone database knows are made of letters, digits and the four marks.\<close>

definition zone_names_ok :: "tzdata \<Rightarrow> bool" where
  "zone_names_ok tz \<longleftrightarrow> (\<forall>n. tz n \<noteq> None \<longrightarrow> list_all is_tz_char n)"

lemma make_recurrence_ok:
  assumes "make_recurrence tz fr days clock until count tzid = Inr rec"
    and "0 \<le> fst clock \<and> fst clock \<le> 23 \<and> 0 \<le> snd clock \<and> snd clock \<le> 59"
    and "if fr = Daily then days = [] else days \<noteq> [] \<and> days \<noteq> seven_days \<and> days \<in> set (subseqs [0..<7])"
    and "\<And>t z. tzid = Some t \<Longrightarrow> zone_named tz t = Inr z \<Longrightarrow> t \<noteq> [] \<and> list_all is_tz_char t"
  shows "recurrence_ok tz rec"
proof -
  obtain u n z where f: "opt_field until_of until = Inr u" "opt_field count_of count = Inr n"
    "rec = \<lparr>r_freq = fr, r_hour = fst clock, r_minute = snd clock, r_weekdays = days, r_until = u, r_count = n, r_tzid = tzid\<rparr>"
    "opt_field (zone_named tz) tzid = Inr z"
    using assms(1) by (auto simp: make_recurrence_def split: sum.splits)
  have "case u of None \<Rightarrow> True | Some day \<Rightarrow> days_before_year 1 < day \<and> day \<le> days_before_year 10000"
    using f(1) by (auto simp: opt_field_def split: option.splits sum.splits dest: until_of_range)
  moreover have "case n of None \<Rightarrow> True | Some n \<Rightarrow> 1 \<le> n \<and> n \<le> MAX_COUNT"
    using f(2) by (auto simp: opt_field_def count_of_def split: option.splits sum.splits if_splits)
  moreover have "case tzid of None \<Rightarrow> True | Some t \<Rightarrow> t \<noteq> [] \<and> list_all is_tz_char t \<and> (\<exists>z. zone_named tz t = Inr z)"
    using f(4) assms(4) by (auto simp: opt_field_def split: option.splits sum.splits)
  ultimately show ?thesis using assms(2,3) f(3) by (simp add: recurrence_ok_def clock_ok_def)
qed

lemma strip_ends: "py_strip s = [] \<or> \<not> is_blank (hd (py_strip s)) \<and> \<not> is_blank (last (py_strip s))"
proof -
  let ?t = "dropWhile is_blank s" and ?u = "dropWhile is_blank (rev (dropWhile is_blank s))"
  obtain w where w: "?t = rev ?u @ w" by (metis rev_append rev_rev_ident takeWhile_dropWhile_id)
  have "?t \<noteq> [] \<Longrightarrow> \<not> is_blank (hd ?t)" "?u \<noteq> [] \<Longrightarrow> \<not> is_blank (hd ?u)" by (rule hd_dropWhile; simp)+
  moreover have "?u \<noteq> [] \<Longrightarrow> hd (rev ?u) = hd ?t \<and> ?t \<noteq> []" using w by (metis append_is_Nil_conv hd_append2 rev_is_Nil_conv)
  ultimately show ?thesis unfolding py_strip_def by (simp add: last_rev) metis
qed

lemma strip_strip: "py_strip (py_strip s) = py_strip s"
proof -
  have "py_strip t = t" if "t = [] \<or> \<not> is_blank (hd t) \<and> \<not> is_blank (last t)" for t
  proof -
    have "dropWhile is_blank t = t" "dropWhile is_blank (rev t) = rev t"
      using that by (auto simp: dropWhile_eq_self_iff hd_rev)
    then show ?thesis by (simp add: py_strip_def)
  qed
  then show ?thesis using strip_ends by blast
qed

lemma upper_letter:
  assumes "(let n = of_char c :: nat in if 97 \<le> n \<and> n \<le> 122 then char_of (n - 32) else c) = d" "is_letter d"
  shows "is_letter c"
  using assms by (auto simp: is_letter_def lower_char_def Let_def split: if_splits)

lemma zone_named_chars:
  assumes "zone_named tz t = Inr z" "zone_names_ok tz" "py_strip t = t" "t \<noteq> []"
  shows "list_all is_tz_char t"
proof (cases "py_upper t = ''UTC''")
  case True
  then obtain a b c where t: "t = [a, b, c]" by (auto simp: py_upper_def map_eq_Cons_conv)
  have "is_letter (CHR ''U'')" "is_letter (CHR ''T'')" "is_letter (CHR ''C'')"
    by (simp_all add: is_letter_def lower_char_def)
  then have "is_letter a" "is_letter b" "is_letter c"
    using True unfolding t py_upper_def by (auto intro: upper_letter)
  then show ?thesis by (simp add: t is_tz_char_def)
next
  case False
  then show ?thesis using assms by (auto simp: zone_named_def zone_names_ok_def split: option.splits)
qed

lemma rrule_parts_stripped:
  "rrule_parts items d = Inr p \<Longrightarrow> list_all (\<lambda>v. py_strip v = v) (map snd d) \<Longrightarrow> list_all (\<lambda>v. py_strip v = v) (map snd p)"
proof (induction items arbitrary: d)
  case (Cons item items)
  obtain k v where kv: "split_once (CHR ''='') item = (k, v)" by (cases "split_once (CHR ''='') item")
  have "list_all (\<lambda>v. py_strip v = v) (map snd ((py_upper (py_strip k), py_strip v) # d))"
    using Cons.prems(2) strip_strip[of v] by simp
  then show ?case
    using Cons.IH Cons.prems kv by (cases "py_strip item = []") (simp_all split: if_split_asm)
qed simp

lemma rrule_weekdays_ok: "rrule_weekdays p = Some days \<Longrightarrow> days \<noteq> [] \<Longrightarrow> days \<in> set (subseqs [0..<7])"
proof -
  assume a: "rrule_weekdays p = Some days" "days \<noteq> []"
  then obtain ds where "days = sorted_days ds" unfolding rrule_weekdays_def by (auto split: if_split_asm)
  then show ?thesis using sorted_days_facts(1) by blast
qed

lemma rrule_at_ok:
  assumes "rrule_at tz p freq hour minute = Inr rec" "zone_names_ok tz" "list_all (\<lambda>v. py_strip v = v) (map snd p)"
  shows "recurrence_ok tz rec"
proof -
  obtain days where days: "rrule_weekdays p = Some days"
    using assms(1) by (cases "rrule_weekdays p") (simp_all add: rrule_at_def split: if_split_asm)
  let ?w = "days \<noteq> [] \<and> days \<noteq> seven_days"
  have clk: "0 \<le> hour \<and> hour \<le> 23 \<and> 0 \<le> minute \<and> minute \<le> 59"
    by (rule ccontr) (use assms(1) in \<open>simp add: rrule_at_def\<close>)
  have rec: "make_recurrence tz (if ?w then Weekly else Daily) (if ?w then days else []) (hour, minute)
      (map_of p ''UNTIL'') (map_of p ''COUNT'') (nonblank (map_of p ''TZID'')) = Inr rec"
    using assms(1) unfolding rrule_at_def Let_def days option.case
    by (rule contrapos_pp) (simp only: clk simp_thms if_False sum.distinct split: if_split)
  have d: "days \<noteq> [] \<Longrightarrow> days \<in> set (subseqs [0..<7])"
    by (rule rrule_weekdays_ok[OF days])
  have tz: "t \<noteq> [] \<and> list_all is_tz_char t" if "nonblank (map_of p ''TZID'') = Some t" "zone_named tz t = Inr z" for t z
  proof -
    have t: "map_of p ''TZID'' = Some t" "t \<noteq> []" using that(1) by (auto simp: nonblank_def split: option.splits if_splits)
    then have "t \<in> snd ` set p" using map_of_SomeD by force
    then have "py_strip t = t" using assms(3) by (auto simp: list_all_iff)
    then show ?thesis using zone_named_chars that(2) assms(2) t(2) by blast
  qed
  show ?thesis
    by (rule make_recurrence_ok[OF rec]) (use clk d tz in auto)
qed

lemma parse_rrule_ok:
  assumes "parse_rrule tz raw = Inr rec" "zone_names_ok tz"
  shows "recurrence_ok tz rec"
proof -
  obtain items p where p: "rrule_parts items [] = Inr p" "rrule_of_parts tz p = Inr rec"
    using assms(1) unfolding parse_rrule_def Let_def by (auto split: sum.split_asm)
  have "list_all (\<lambda>v. py_strip v = v) (map snd p)" by (rule rrule_parts_stripped[OF p(1)]) simp
  moreover obtain freq hour minute where "rrule_at tz p freq hour minute = Inr rec"
    using p(2) unfolding rrule_of_parts_def Let_def by (simp split: if_split_asm option.split_asm)
  ultimately show ?thesis using rrule_at_ok assms(2) by blast
qed

lemma friendly_days_ok:
  "friendly_days g = Inr (fr, days)
   \<Longrightarrow> if fr = Daily then days = [] else days \<noteq> [] \<and> days \<noteq> seven_days \<and> days \<in> set (subseqs [0..<7])"
proof -
  assume a: "friendly_days g = Inr (fr, days)"
  have "[0, 1, 2, 3, 4] \<in> set (subseqs [0..<7])" "[0, 1, 2, 3, 4] \<noteq> seven_days" by code_simp+
  then show ?thesis using a days_of_ok[of "get_or g ''days'' []"]
    by (auto simp: friendly_days_def split: if_splits sum.splits)
qed

lemma parsed_recurrence_ok:
  assumes "parse_recurrence tz s = Inr (Some rec)" "zone_names_ok tz"
  shows "recurrence_ok tz rec"
proof (cases "parse_rrule tz (squeeze s) = Inr rec")
  case True
  then show ?thesis using assms(2) by (rule parse_rrule_ok)
next
  case False
  then obtain g clock fr days where g: "re_groups FRIENDLY_RE (squeeze s) = Some g"
    and clk: "clock_of (get_or g ''clock'' []) = Inr clock" and days: "friendly_days g = Inr (fr, days)"
    and rec: "make_recurrence tz fr days clock (nonblank (map_of g ''until'')) (nonblank (map_of g ''count''))
        (nonblank (map_of g ''tz'')) = Inr rec"
    using assms(1) unfolding parse_recurrence_def Let_def
    by (auto split: sum.splits option.splits if_splits)
  have only: "group_only ''tz'' is_tz_char FRIENDLY_RE"
    by (simp add: FRIENDLY_RE_def WHEN_RE_def TAIL_RE_def)
  show ?thesis
  proof (rule make_recurrence_ok[OF rec _ friendly_days_ok[OF days]])
    show "0 \<le> fst clock \<and> fst clock \<le> 23 \<and> 0 \<le> snd clock \<and> snd clock \<le> 59"
      using clock_of_range[of _ "fst clock" "snd clock"] clk by simp
    show "t \<noteq> [] \<and> list_all is_tz_char t" if "nonblank (map_of g ''tz'') = Some t" for t z
    proof -
      have "map_of g ''tz'' = Some t" "t \<noteq> []" using that by (auto simp: nonblank_def split: option.splits if_splits)
      then show ?thesis using group_chars[OF g only] by simp
    qed
  qed
qed

text \<open>C34: Every recurrence the readers build, from the friendly form or from an RRULE, is well
  formed: a time of the day, no weekdays on a daily one, a proper set of weekdays in order on a weekly one, an end
  date inside the calendar, a count from 1 to 1000, a zone the database knows.\<close>

theorem parsed_recurrence_well_formed:
  assumes "parse_recurrence tz s = Inr (Some rec)" "zone_names_ok tz"
  shows "recurrence_ok tz rec \<and> clock_ok rec \<and> weekdays_ok rec"
proof -
  have ok: "recurrence_ok tz rec" using assms by (rule parsed_recurrence_ok)
  moreover have "weekdays_ok rec"
  proof (cases "r_freq rec = Daily")
    case False
    then have "r_weekdays rec \<in> set (subseqs [0..<7])" "r_weekdays rec \<noteq> []" using ok by (simp_all add: recurrence_ok_def)
    then show ?thesis using sorted_days_subseq by (auto simp: weekdays_ok_def)
  qed (simp add: weekdays_ok_def)
  ultimately show ?thesis by (simp add: recurrence_ok_def)
qed

text \<open>C25: The canonical text of a recurrence reads back as that recurrence, whatever text it was read from.\<close>

theorem describe_reads_back:
  assumes "parse_recurrence tz s = Inr (Some rec)" "zone_names_ok tz"
  shows "parse_recurrence tz (describe rec) = Inr (Some rec)"
  by (rule canonical_reads_back) (rule parsed_recurrence_ok[OF assms])


lemma every_day_at_7am:
  "parse_recurrence (\<lambda>_. None) ''every day at 7am'' = Inr (Some \<lparr>r_freq = Daily, r_hour = 7, r_minute = 0,
     r_weekdays = [], r_until = None, r_count = None, r_tzid = None\<rparr>)"
  by code_simp

lemma parsed_recurrence_well_formed_witness:
  "recurrence_ok (\<lambda>_. None) \<lparr>r_freq = Daily, r_hour = 7, r_minute = 0, r_weekdays = [], r_until = None,
     r_count = None, r_tzid = None\<rparr>"
  using parsed_recurrence_well_formed[OF every_day_at_7am] by (simp add: zone_names_ok_def)

lemma describe_reads_back_witness:
  "parse_recurrence (\<lambda>_. None) ''daily at 07:00'' = parse_recurrence (\<lambda>_. None) ''every day at 7am''"
proof -
  let ?r = "\<lparr>r_freq = Daily, r_hour = 7, r_minute = 0, r_weekdays = [], r_until = None, r_count = None, r_tzid = None\<rparr>"
  have "describe ?r = ''daily at 07:00''" by code_simp
  then show ?thesis using describe_reads_back[OF every_day_at_7am] every_day_at_7am by (simp add: zone_names_ok_def)
qed

subsection \<open>At the edge of the calendar\<close>

definition kuwait :: zone where
  "kuwait = \<lparr>z_name = ''Asia/Kuwait'', z_at = (\<lambda>_. 10800), z_wall = (\<lambda>_ _. 10800)\<rparr>"

text \<open>The first day of the calendar, read east of Greenwich, is refused neither as past nor with a
  reason: shifting it to UTC leaves the calendar and raises an error that is no timing error.\<close>

theorem edge_of_calendar_raises:
  "resolve_timing (\<lambda>_. None) ''0001-01-01'' kuwait [] now ap = Inl Overflow"
proof -
  have "parse_recurrence (\<lambda>_. None) ''0001-01-01'' = Inr None" by code_simp
  moreover have "squeeze ''0001-01-01'' = ''0001-01-01''" by code_simp
  moreover have "relative_of ''0001-01-01'' = None" by code_simp
  moreover have "parse_iso ''0001-01-01'' = Some \<lparr>c_day = 1, c_secs = 0, c_off = None\<rparr>" by code_simp
  moreover have "resolve_absolute kuwait l now ap \<lparr>c_day = 1, c_secs = 0, c_off = None\<rparr> = Inl Overflow" for l
  proof -
    have "day_start 1 = - 62135596800" by code_simp
    moreover have "\<not> in_years (- 62135607600)" by code_simp
    ultimately have "wall_try kuwait (of_int (day_start 1)) False = Inl Overflow"
      by (simp add: wall_try_def shifted_def kuwait_def)
    then show ?thesis by (simp add: resolve_absolute_def wall_time_problem_def)
  qed
  ultimately show ?thesis by (simp add: resolve_timing_def MAX_TIMING_CHARS_def Let_def)
qed

end
