(* ===== verification/Json.thy ===== *)
theory Json
  imports Prelude "HOL-Library.Char_ord" "HOL-Library.List_Lexorder" "HOL-Library.Multiset"
begin

text \<open>
  What several components write of a Python value: \<open>json.dumps\<close> with and without \<open>sort_keys\<close>, and
  \<open>str(x or "")\<close>. The text of a float (\<open>fl\<close>) and \<open>str\<close> of a value that is no string (\<open>str_of\<close>) are
  parameters.
\<close>

subsection \<open>Texts of values\<close>

text \<open>\<open>str(v)\<close> and \<open>str(v or "")\<close>.\<close>

definition py_text :: "(pyval \<Rightarrow> string) \<Rightarrow> pyval \<Rightarrow> string" where
  "py_text str_of v = (case v of PStr s \<Rightarrow> s | _ \<Rightarrow> str_of v)"

definition text_or :: "(pyval \<Rightarrow> string) \<Rightarrow> pyval \<Rightarrow> string" where
  "text_or str_of v = (if truthy v then py_text str_of v else [])"

lemma py_text_str [simp, py_simps]: "py_text str_of (PStr s) = s"
  by (simp add: py_text_def)

lemma text_or_simps [simp, py_simps]: "text_or str_of PNone = []" "text_or str_of (PStr s) = s"
  by (simp_all add: text_or_def py_text_def)

subsection \<open>JSON\<close>

definition hex_digit :: "nat \<Rightarrow> char" where
  "hex_digit k = (if k < 10 then char_of (48 + k) else char_of (87 + k))"

text \<open>\<open>json.dumps\<close> keeps the characters from blank to tilde except quote and backslash, and escapes the rest.\<close>

definition json_char :: "char \<Rightarrow> string" where
  "json_char c =
     (let n = of_char c :: nat in
      if c = CHR 0x22 then [CHR 0x5C, CHR 0x22]
      else if c = CHR 0x5C then [CHR 0x5C, CHR 0x5C]
      else if 32 \<le> n \<and> n \<le> 126 then [c]
      else if c = CHR 0x0A then [CHR 0x5C, CHR ''n'']
      else if c = CHR 0x0D then [CHR 0x5C, CHR ''r'']
      else if c = CHR 0x09 then [CHR 0x5C, CHR ''t'']
      else if c = CHR 0x08 then [CHR 0x5C, CHR ''b'']
      else if c = CHR 0x0C then [CHR 0x5C, CHR ''f'']
      else [CHR 0x5C, CHR ''u'', CHR ''0'', CHR ''0'', hex_digit (n div 16), hex_digit (n mod 16)])"

definition json_str :: "string \<Rightarrow> string" where
  "json_str s = CHR 0x22 # concat (map json_char s) @ [CHR 0x22]"

text \<open>The first argument is \<open>sort_keys\<close>. The members of an object are written first, then sorted by key.\<close>

fun json_dumps :: "bool \<Rightarrow> (real \<Rightarrow> string) \<Rightarrow> pyval \<Rightarrow> string" where
  "json_dumps sk fl PNone = ''null''"
| "json_dumps sk fl (PBool b) = (if b then ''true'' else ''false'')"
| "json_dumps sk fl (PInt i) = int_str i"
| "json_dumps sk fl (PFloat r) = fl r"
| "json_dumps sk fl (PStr s) = json_str s"
| "json_dumps sk fl (PList xs) = ''['' @ join_with '', '' (map (json_dumps sk fl) xs) @ '']''"
| "json_dumps sk fl (PDict d) =
     (let ms = map (\<lambda>(k, v). (k, json_dumps sk fl v)) d
      in ''{'' @ join_with '', '' (map (\<lambda>(k, s). json_str k @ '': '' @ s) (if sk then sort_key fst ms else ms)) @ ''}'')"

text \<open>Two values with the same content: objects may list their members in another order.\<close>

inductive same_json :: "pyval \<Rightarrow> pyval \<Rightarrow> bool" where
  same: "same_json v v"
| lists: "list_all2 same_json xs ys \<Longrightarrow> same_json (PList xs) (PList ys)"
| dicts: "list_all2 (\<lambda>m m'. fst m = fst m' \<and> same_json (snd m) (snd m')) d e \<Longrightarrow> mset e = mset e'
    \<Longrightarrow> distinct (map fst e') \<Longrightarrow> same_json (PDict d) (PDict e')"

lemma sort_key_unique:
  assumes "mset xs = mset ys" "distinct (map fst xs)"
  shows "sort_key fst xs = sort_key fst ys"
proof (rule properties_for_sort_key)
  show "mset (sort_key fst ys) = mset xs" using assms(1) by simp
  show "sorted (map fst (sort_key fst ys))" by simp
  fix k assume "k \<in> set (sort_key fst ys)"
  have d: "distinct (map fst ys)" using assms mset_eq_imp_distinct_iff[of "map fst xs" "map fst ys"] by simp
  have k: "k \<in> set xs" "k \<in> set ys" using \<open>k \<in> _\<close> mset_eq_setD[OF assms(1)] by simp_all
  have "filter (\<lambda>x. fst k = fst x) zs = [k]" if "distinct (map fst zs)" "k \<in> set zs" for zs :: "('a \<times> 'b) list"
    using filter_by_key[OF that] by (simp add: eq_commute)
  then show "filter (\<lambda>x. fst k = fst x) (sort_key fst ys) = filter (\<lambda>x. fst k = fst x) xs"
    using d assms(2) k by (simp add: distinct_map)
qed

text \<open>Values with the same content are written alike when keys are sorted.\<close>

lemma same_json_dumps: "same_json v w \<Longrightarrow> json_dumps True fl v = json_dumps True fl w"
proof (induction rule: same_json.induct)
  case (lists xs ys)
  then have "map (json_dumps True fl) xs = map (json_dumps True fl) ys"
    by (auto simp: list_all2_conv_all_nth intro: nth_equalityI)
  then show ?case by simp
next
  case (dicts d e e')
  let ?w = "\<lambda>(k, v). (k :: string, json_dumps True fl v)"
  have "length d = length e" using dicts.IH by (rule list_all2_lengthD)
  moreover have "?w (d ! i) = ?w (e ! i)" if "i < length d" for i
  proof -
    have "fst (d ! i) = fst (e ! i) \<and> json_dumps True fl (snd (d ! i)) = json_dumps True fl (snd (e ! i))"
      using list_all2_nthD[OF dicts.IH that] by blast
    then show ?thesis by (simp add: case_prod_beta)
  qed
  ultimately have "map ?w d = map ?w e" by (intro nth_equalityI) simp_all
  moreover have "sort_key fst (map ?w e') = sort_key fst (map ?w e)"
  proof (rule sort_key_unique)
    show "mset (map ?w e') = mset (map ?w e)" using dicts.hyps(1) by simp
    have "fst \<circ> ?w = fst" by (auto simp: case_prod_beta)
    then show "distinct (map fst (map ?w e'))" using dicts.hyps(2) by simp
  qed
  ultimately have "sort_key fst (map ?w d) = sort_key fst (map ?w e')" by simp
  then show ?case by (simp add: Let_def)
qed simp

end
