(* ===== verification/ToolLoop.thy ===== *)
theory ToolLoop
  imports Json Regex
begin

text \<open>
  What ends a turn that calls tools without getting on (kazma_core/agent/tool_loop_breaker.py and the
  round of the tool worker in kazma_core/agent/graph_tool_worker.py): the outcome of each result, the
  counters of hard failures and refusals, repeated calls, and searches for the assistant's own
  earlier output.

  A result is the dictionary the worker keeps. The digest behind a call's signature (\<open>sha1\<close>), the text of a
  float (\<open>fl\<close>) and \<open>str\<close> of a value that is no string (\<open>str_of\<close>) are parameters.
\<close>

subsection \<open>Outcomes\<close>

datatype tool_outcome = OOk | OEmpty | OPolicy | OUserDeny | OTransient | OHard | OTerminal | ORefused

fun outcome_value :: "tool_outcome \<Rightarrow> string" where
  "outcome_value OOk = ''ok''"
| "outcome_value OEmpty = ''empty''"
| "outcome_value OPolicy = ''policy''"
| "outcome_value OUserDeny = ''user_deny''"
| "outcome_value OTransient = ''transient''"
| "outcome_value OHard = ''hard''"
| "outcome_value OTerminal = ''terminal''"
| "outcome_value ORefused = ''refused''"

definition outcome_named :: "string \<Rightarrow> tool_outcome option" where
  "outcome_named s = map_of (map (\<lambda>oc. (outcome_value oc, oc))
     [OOk, OEmpty, OPolicy, OUserDeny, OTransient, OHard, OTerminal, ORefused]) s"

definition USER_DENY_PATTERNS :: re where
  "USER_DENY_PATTERNS = alts [
     seqs [Lit ''denied'', spaces, Lit ''by'', spaces, Lit ''user''],
     seqs [Lit ''denied'', spaces, Lit ''by'', spaces, Lit ''hitl''],
     seqs [Lit ''hitl'', spaces, Lit ''approval'', spaces, Lit ''gate''],
     seqs [Lit ''user'', spaces, Lit ''denied''],
     seqs [Lit ''approval'', spaces, Lit ''denied''],
     seqs [Lit ''not'', spaces, Lit ''approved'']]"

definition POLICY_PATTERNS :: re where
  "POLICY_PATTERNS = alts [
     seqs [Lit ''outside'', spaces, Opt (seqs [Lit ''the'', spaces]), alts [Lit ''allowed'', Lit ''workspace'']],
     seqs [Lit ''access'', spaces, Lit ''denied''],
     seqs [Lit ''permission'', spaces, Lit ''denied''],
     seqs [Lit ''not'', spaces, Lit ''allowed''],
     seqs [Lit ''Safety:'', Cls is_blank],
     seqs [Lit ''path'', spaces, Lit ''traversal''],
     seqs [Lit ''read'', Opt (Lit ''s''), spaces, Lit ''outside''],
     seqs [Lit ''write'', Opt (Lit ''s''), spaces, Lit ''outside''],
     Lit ''EACCES'',
     Lit ''ENOENT'',
     seqs [Lit ''no'', spaces, Lit ''such'', spaces, Lit ''file''],
     seqs [Lit ''does'', spaces, Lit ''not'', spaces, Lit ''exist''],
     seqs [Lit ''invalid'', spaces, Lit ''path''],
     seqs [Lit ''is'', spaces, Lit ''not'', spaces, Lit ''in'', spaces, Lit ''the'', spaces, Lit ''allowed'']]"

definition EMPTY_PATTERNS :: re where
  "EMPTY_PATTERNS = alts [
     seqs [Bol, Star (Cls is_blank), Lit ''[]'', Star (Cls is_blank), Eol],
     seqs [Lit ''no'', spaces, Lit ''results''],
     seqs [Lit ''no'', spaces, Lit ''matches''],
     seqs [Lit ''not'', spaces, Lit ''found'', Star (Cls is_blank), Eol],
     Lit ''empty'']"

definition SILENT_DEATH :: re where
  "SILENT_DEATH = alts [
     Lit ''NotImplementedError'',
     Lit ''Future exception was never retrieved'',
     seqs [Lit ''event loop '', alts [Lit ''does not'', Lit ''cannot''], Lit '' implement''],
     Lit ''SelectorEventLoop'']"

definition classify_mcp_error :: "string \<Rightarrow> bool \<Rightarrow> tool_outcome" where
  "classify_mcp_error content is_error =
     (let body = py_strip content in
      if \<not> is_error then (if body = [] \<or> re_search EMPTY_PATTERNS body then OEmpty else OOk)
      else if re_search USER_DENY_PATTERNS body then OUserDeny
      else if re_search POLICY_PATTERNS body then OPolicy
      else OHard)"

text \<open>\<open>result.get("outcome") or result.get("tool_outcome")\<close>, when it names an outcome.\<close>

definition explicit_outcome :: "(pyval \<Rightarrow> string) \<Rightarrow> pydict \<Rightarrow> tool_outcome option" where
  "explicit_outcome str_of r =
     (let v = (if truthy (dget r ''outcome'') then dget r ''outcome'' else dget r ''tool_outcome'')
      in if truthy v then outcome_named (py_text str_of v) else None)"

definition result_name :: "(pyval \<Rightarrow> string) \<Rightarrow> pydict \<Rightarrow> string" where
  "result_name str_of r =
     (if truthy (dget r ''name'') then py_text str_of (dget r ''name'') else text_or str_of (dget r ''tool_name''))"

text \<open>A browser tool that ends at once with nothing to say never ran.\<close>

definition browser_no_op :: "(pyval \<Rightarrow> string) \<Rightarrow> pydict \<Rightarrow> bool" where
  "browser_no_op str_of r \<longleftrightarrow>
     (let body = py_strip (text_or str_of (dget r ''content'')) in
      starts_with ''browser_'' (result_name str_of r)
      \<and> (case py_float (dget r ''duration_ms'') of None \<Rightarrow> False | Some ms \<Rightarrow> ms < 1)
      \<and> (truthy (dget r ''is_error'') \<or> body = [] \<or> py_lower body \<in> {''none'', ''ok'', ''null''}))"

definition inferred_outcome :: "(pyval \<Rightarrow> string) \<Rightarrow> pydict \<Rightarrow> tool_outcome" where
  "inferred_outcome str_of r =
     (let content = text_or str_of (dget r ''content''); is_error = truthy (dget r ''is_error'') in
      if re_search USER_DENY_PATTERNS content \<or> contains ''denied by user'' (py_lower content) then OUserDeny
      else if re_search SILENT_DEATH content then OHard
      else if truthy (dget r ''refused'') \<and> \<not> truthy (dget r ''effect_uncertain'') then
        (let inferred = (if is_error then classify_mcp_error content True else OHard)
         in if inferred \<in> {OHard, OTransient} then ORefused else inferred)
      else if browser_no_op str_of r then OHard
      else if is_error then classify_mcp_error content True
      else if starts_with ''Safety:'' content \<or> re_search POLICY_PATTERNS content then OPolicy
      else if py_strip content \<in> {[], ''[]''} then OEmpty
      else OOk)"

definition classify_tool_result :: "(pyval \<Rightarrow> string) \<Rightarrow> pydict \<Rightarrow> tool_outcome" where
  "classify_tool_result str_of r =
     (case explicit_outcome str_of r of Some oc \<Rightarrow> oc | None \<Rightarrow> inferred_outcome str_of r)"

subsection \<open>Repeated calls\<close>

definition last_n :: "nat \<Rightarrow> 'a list \<Rightarrow> 'a list" where
  "last_n n xs = drop (length xs - n) xs"

text \<open>The signature of a call: equal for arguments with the same content.\<close>

definition tool_signature :: "(string \<Rightarrow> string) \<Rightarrow> (real \<Rightarrow> string) \<Rightarrow> string \<Rightarrow> pyval \<Rightarrow> string" where
  "tool_signature sha1 fl name arguments =
     take 16 (sha1 (name @ '':'' @ json_dumps True fl (if truthy arguments then arguments else PDict [])))"

definition STAGNATION_WINDOW :: nat where "STAGNATION_WINDOW = 8"

definition STAGNATION_REPEAT_THRESHOLD :: nat where "STAGNATION_REPEAT_THRESHOLD = 3"

text \<open>The loop of \<open>detect_stagnation\<close>; the second argument holds the signatures counted so far.\<close>

fun first_repeated :: "nat \<Rightarrow> string list \<Rightarrow> string list \<Rightarrow> string option" where
  "first_repeated threshold seen [] = None"
| "first_repeated threshold seen (s # ss) =
     (if threshold \<le> count_list (seen @ [s]) s then Some s else first_repeated threshold (seen @ [s]) ss)"

definition detect_stagnation :: "nat \<Rightarrow> nat \<Rightarrow> string list \<Rightarrow> string option" where
  "detect_stagnation window threshold sigs =
     (if length sigs < threshold then None
      else first_repeated threshold [] (if window = 0 then sigs else last_n window sigs))"

subsection \<open>The breaker\<close>

definition HARD_FAILURE_THRESHOLD :: int where "HARD_FAILURE_THRESHOLD = 3"

definition REFUSAL_ALLOWANCE :: int where "REFUSAL_ALLOWANCE = 6"

definition REFUSED_SIGNATURES_KEPT :: nat where "REFUSED_SIGNATURES_KEPT = 48"

datatype tripped_by = NotTripped | TripHard | TripRepeated | TripRefusals

record breaker_state =
  b_hard_rounds :: int
  b_last_hard :: bool
  b_refusals :: int
  b_refused :: "string list"
  b_trip :: tripped_by

definition stamp :: "(pyval \<Rightarrow> string) \<Rightarrow> pydict \<Rightarrow> pydict" where
  "stamp str_of r = dset r ''outcome'' (PStr (outcome_value (classify_tool_result str_of r)))"

definition result_id :: "(pyval \<Rightarrow> string) \<Rightarrow> pydict \<Rightarrow> string" where
  "result_id str_of r = text_or str_of (dget r ''tool_call_id'')"

definition hard_rounds :: "int \<Rightarrow> tool_outcome list \<Rightarrow> int" where
  "hard_rounds previous ocs =
     (if OOk \<in> set ocs then 0
      else if OHard \<in> set ocs then previous + 1
      else if ORefused \<in> set ocs then previous
      else 0)"

definition refusal_rounds :: "int \<Rightarrow> tool_outcome list \<Rightarrow> int" where
  "refusal_rounds previous ocs =
     (if OOk \<in> set ocs then 0 else previous + (if ORefused \<in> set ocs then 1 else 0))"

text \<open>The refused calls of the round: the signatures known afterwards and the names of the repeated ones.\<close>

fun note_refusals ::
  "(pyval \<Rightarrow> string) \<Rightarrow> (string \<Rightarrow> string option) \<Rightarrow> pydict list \<Rightarrow> string list \<times> string list \<Rightarrow> string list \<times> string list"
where
  "note_refusals str_of sigs [] kr = kr"
| "note_refusals str_of sigs (r # rs) kr =
     note_refusals str_of sigs rs
       (if classify_tool_result str_of r \<noteq> ORefused then kr
        else case sigs (result_id str_of r) of
          None \<Rightarrow> kr
        | Some g \<Rightarrow>
            if g = [] then kr
            else if g \<in> set (fst kr)
            then (fst kr, snd kr @ [if truthy (dget r ''name'') then py_text str_of (dget r ''name'') else ''a tool''])
            else (fst kr @ [g], snd kr))"

definition trip_of :: "int \<Rightarrow> int \<Rightarrow> int \<Rightarrow> int \<Rightarrow> string list \<Rightarrow> tripped_by" where
  "trip_of threshold allowance hard refusals repeated =
     (if threshold \<le> hard then TripHard
      else if repeated \<noteq> [] then TripRepeated
      else if allowance \<le> refusals then TripRefusals
      else NotTripped)"

definition REFUSAL_STOP :: "string \<Rightarrow> string" where
  "REFUSAL_STOP why = ''SYSTEM OVERRIDE: '' @ why @ '' STOP calling tools. Answer the user now with what you have: ''
     @ ''say which step could not be done and why, in one or two sentences, and ask them for what is missing ''
     @ ''(the right path, name or value).''"

definition stop_reason :: "tripped_by \<Rightarrow> int \<Rightarrow> string list \<Rightarrow> string" where
  "stop_reason t refusals repeated =
     (if t = TripRepeated
      then ''You repeated a call that was already refused ('' @ join_with '', '' (sort (remdups repeated))
             @ '') with the same arguments.''
      else int_str refusals @ '' rounds of tool calls in a row were refused.'')"

definition py_rstrip :: "string \<Rightarrow> string" where
  "py_rstrip s = rev (dropWhile is_blank (rev s))"

text \<open>Stamped results as a tripped breaker hands them to the model.\<close>

definition refused_again :: "(pyval \<Rightarrow> string) \<Rightarrow> string \<Rightarrow> pydict \<Rightarrow> pydict" where
  "refused_again str_of why r =
     (if dget r ''outcome'' = PStr ''refused'' \<or> truthy (dget r ''is_error'') then
        (let before = py_rstrip (text_or str_of (dget r ''content''));
             stop = REFUSAL_STOP why
         in dset (dset r ''content'' (PStr (if before \<noteq> [] then before @ [CHR 0x0A, CHR 0x0A] @ stop else stop)))
              ''is_error'' (PBool True))
      else r)"

definition HARD_STOP :: string where
  "HARD_STOP = ''SYSTEM OVERRIDE: Tool blocked due to consecutive hard tool failures. Synthesize final answer now.''"

definition overridden :: "string \<Rightarrow> pydict \<Rightarrow> pydict" where
  "overridden msg r = dset (dset (dset r ''content'' (PStr msg)) ''is_error'' (PBool True)) ''outcome'' (PStr ''hard'')"

definition blocked_hard :: "(pyval \<Rightarrow> string) \<Rightarrow> pydict \<Rightarrow> pydict" where
  "blocked_hard str_of r =
     (if classify_tool_result str_of r = OHard \<or> truthy (dget r ''is_error'') then overridden HARD_STOP r else r)"

definition tripped_results :: "(pyval \<Rightarrow> string) \<Rightarrow> tripped_by \<Rightarrow> int \<Rightarrow> string list \<Rightarrow> pydict list \<Rightarrow> pydict list" where
  "tripped_results str_of t refusals repeated rs =
     (case t of
        NotTripped \<Rightarrow> rs
      | TripHard \<Rightarrow> map (blocked_hard str_of) rs
      | _ \<Rightarrow> map (refused_again str_of (stop_reason t refusals repeated)) rs)"

definition update_breaker ::
  "(pyval \<Rightarrow> string) \<Rightarrow> int \<Rightarrow> int \<Rightarrow> int \<Rightarrow> int \<Rightarrow> string list \<Rightarrow> (string \<Rightarrow> string option) \<Rightarrow> pydict list
     \<Rightarrow> breaker_state \<times> pydict list" where
  "update_breaker str_of threshold allowance previous previous_refusals previous_refused sigs results =
     (let ocs = map (classify_tool_result str_of) results;
          stamped = map (stamp str_of) results;
          hard = hard_rounds previous ocs;
          refusals = refusal_rounds previous_refusals ocs;
          kr = note_refusals str_of sigs results (previous_refused, []);
          t = trip_of threshold allowance hard refusals (snd kr)
      in (\<lparr>b_hard_rounds = hard, b_last_hard = (OOk \<notin> set ocs \<and> OHard \<in> set ocs), b_refusals = refusals,
           b_refused = last_n REFUSED_SIGNATURES_KEPT (fst kr), b_trip = t\<rparr>,
          tripped_results str_of t refusals (snd kr) stamped))"


subsection \<open>A round of the tool worker\<close>

record tool_call =
  c_id :: pyval
  c_name :: string
  c_args :: pyval

record loop_state =
  l_failures :: int
  l_refusals :: int
  l_refused :: "string list"
  l_signatures :: "string list"
  l_probes :: int
  l_tripped :: bool

definition new_turn :: loop_state where
  "new_turn = \<lparr>l_failures = 0, l_refusals = 0, l_refused = [], l_signatures = [], l_probes = 0, l_tripped = False\<rparr>"

text \<open>
  The two patterns of a search for earlier output. The Arabic words of the second one are left out:
  \<open>json.dumps\<close> escapes every character that is not ASCII, so they are not found in its text.
\<close>

definition any_char :: re where "any_char = Cls (\<lambda>c. c \<noteq> CHR 0x0A)"

definition RECOVERY_STORE_TOOL_RE :: re where
  "RECOVERY_STORE_TOOL_RE = alts [Lit ''session'', Lit ''checkpoint'', Lit ''snapshot'', Lit ''audit'', Lit ''journal'',
     Lit ''transcript'', Lit ''history'', Lit ''chat_log'', seqs [Lit ''message'', Opt (Lit ''s''), Lit ''_search''],
     Lit ''recall'', seqs [Lit ''time'', Opt any_char, Lit ''travel''], Lit ''replay'']"

definition RECOVERY_PURPOSE_RE :: re where
  "RECOVERY_PURPOSE_RE = alts [Lit ''proposal'', Lit ''draft'', Lit ''tweet'', Lit ''earlier'', Lit ''previous'', Lit ''prior'',
     Lit ''assistant'', Lit ''said'', Lit ''wrote'', Lit ''posted'',
     seqs [Lit ''last'', spaces, alts [Lit ''reply'', Lit ''answer'', Lit ''message'', Lit ''turn'']]]"

definition is_probe :: "(real \<Rightarrow> string) \<Rightarrow> tool_call \<Rightarrow> bool" where
  "is_probe fl c \<longleftrightarrow> re_search RECOVERY_STORE_TOOL_RE (c_name c)
     \<and> re_search RECOVERY_PURPOSE_RE (json_dumps False fl (if truthy (c_args c) then c_args c else PDict []))"

definition count_recovery_probes :: "(real \<Rightarrow> string) \<Rightarrow> tool_call list \<Rightarrow> int" where
  "count_recovery_probes fl calls = int (length (filter (is_probe fl) calls))"

definition RECOVERY_SPIRAL_THRESHOLD :: int where "RECOVERY_SPIRAL_THRESHOLD = 3"

definition call_signature :: "(string \<Rightarrow> string) \<Rightarrow> (real \<Rightarrow> string) \<Rightarrow> tool_call \<Rightarrow> string" where
  "call_signature sha1 fl c = tool_signature sha1 fl (c_name c) (c_args c)"

text \<open>The signatures of a round's calls that feed the window: a denial, an empty answer or a refusal does not.\<close>

definition UNCOUNTED :: "string list" where
  "UNCOUNTED = [''policy'', ''user_deny'', ''empty'', ''refused'']"

definition counted_calls :: "(pyval \<Rightarrow> string) \<Rightarrow> pydict list \<Rightarrow> tool_call list \<Rightarrow> tool_call list" where
  "counted_calls str_of rs calls =
     (let outs = map_of (rev (map (\<lambda>r. (py_text str_of (dget r ''tool_call_id''), py_text str_of (dget r ''outcome''))) rs))
      in filter (\<lambda>c. case outs (py_text str_of (c_id c)) of None \<Rightarrow> True | Some oc \<Rightarrow> oc \<notin> set UNCOUNTED) calls)"

text \<open>
  What the worker takes from outside: the digest, \<open>str\<close> of other values and of floats, and the wording of the
  two messages that have characters outside ASCII (\<open>recovery_honest_message\<close> of a number of searches, and the
  stop message of repeated calls, given the names it lists).
\<close>

record tool_env =
  e_sha1 :: "string \<Rightarrow> string"
  e_float :: "real \<Rightarrow> string"
  e_str :: "pyval \<Rightarrow> string"
  e_honest :: "int \<Rightarrow> string"
  e_repeated :: "string \<Rightarrow> string"

definition repeated_names :: "string list \<Rightarrow> string" where
  "repeated_names names =
     (if names = [] then ''identical calls'' else join_with '', '' (sort (remdups names)))"

definition breaker_round :: "tool_env \<Rightarrow> loop_state \<Rightarrow> tool_call list \<Rightarrow> pydict list \<Rightarrow> breaker_state \<times> pydict list" where
  "breaker_round en st calls results =
     update_breaker (e_str en) HARD_FAILURE_THRESHOLD REFUSAL_ALLOWANCE (l_failures st) (l_refusals st) (l_refused st)
       (map_of (rev (map (\<lambda>c. (text_or (e_str en) (c_id c), call_signature (e_sha1 en) (e_float en) c)) calls))) results"

definition window_after :: "tool_env \<Rightarrow> loop_state \<Rightarrow> tool_call list \<Rightarrow> pydict list \<Rightarrow> string list" where
  "window_after en st calls rs =
     last_n 24 (l_signatures st @ map (call_signature (e_sha1 en) (e_float en)) (counted_calls (e_str en) rs calls))"

definition stagnant_in :: "breaker_state \<Rightarrow> string list \<Rightarrow> string option" where
  "stagnant_in b sigs =
     (if b_trip b \<noteq> NotTripped then None
      else detect_stagnation STAGNATION_WINDOW STAGNATION_REPEAT_THRESHOLD sigs)"

definition round_results ::
  "tool_env \<Rightarrow> string option \<Rightarrow> bool \<Rightarrow> int \<Rightarrow> tool_call list \<Rightarrow> pydict list \<Rightarrow> pydict list" where
  "round_results en stagnant spiral probes calls rs =
     (case stagnant of
        Some g \<Rightarrow> map (overridden (e_repeated en (repeated_names (map c_name
                    (filter (\<lambda>c. call_signature (e_sha1 en) (e_float en) c = g) calls))))) rs
      | None \<Rightarrow> if spiral then map (overridden (e_honest en probes)) rs else rs)"

definition ends_turn :: "(pyval \<Rightarrow> string) \<Rightarrow> pydict \<Rightarrow> bool" where
  "ends_turn str_of r \<longleftrightarrow> py_text str_of (dget r ''outcome'') = ''terminal''"

definition tool_round ::
  "tool_env \<Rightarrow> loop_state \<Rightarrow> tool_call list \<Rightarrow> pydict list \<Rightarrow> loop_state \<times> pydict list \<times> bool" where
  "tool_round en st calls results =
     (let u = breaker_round en st calls results; b = fst u; rs = snd u;
          sigs = window_after en st calls rs;
          stagnant = stagnant_in b sigs;
          probes = l_probes st + count_recovery_probes (e_float en) calls;
          stopped = (b_trip b \<noteq> NotTripped \<or> stagnant \<noteq> None);
          spiral = (RECOVERY_SPIRAL_THRESHOLD \<le> probes \<and> \<not> stopped)
      in (\<lparr>l_failures = b_hard_rounds b, l_refusals = b_refusals b, l_refused = b_refused b, l_signatures = sigs,
           l_probes = (if spiral then 0 else probes), l_tripped = (stopped \<or> spiral)\<rparr>,
          round_results en stagnant spiral probes calls rs,
          stopped \<or> spiral \<or> 3 \<le> b_hard_rounds b \<or> list_ex (ends_turn (e_str en)) rs))"

text \<open>The worker: a tripped breaker runs nothing.\<close>

definition blocked_result :: "tool_call \<Rightarrow> pydict" where
  "blocked_result c = [(''tool_call_id'', c_id c), (''name'', PStr (c_name c)),
     (''content'', PStr ''SYSTEM OVERRIDE: Tool blocked due to consecutive failures. Synthesize final answer now.''),
     (''is_error'', PBool True), (''duration_ms'', PFloat 0)]"

definition tool_worker ::
  "tool_env \<Rightarrow> loop_state \<Rightarrow> tool_call list \<Rightarrow> pydict list \<Rightarrow> loop_state \<times> pydict list \<times> bool" where
  "tool_worker en st calls results =
     (if l_tripped st \<or> 3 \<le> l_failures st
      then (st\<lparr>l_tripped := True\<rparr>, map blocked_result calls, True)
      else tool_round en st calls results)"

text \<open>A turn: rounds until one says that the turn must answer. How many rounds run.\<close>

type_synonym turn_round = "tool_call list \<times> pydict list"

fun rounds_run :: "tool_env \<Rightarrow> loop_state \<Rightarrow> turn_round list \<Rightarrow> nat" where
  "rounds_run en st [] = 0"
| "rounds_run en st (r # rs) =
     (let u = tool_worker en st (fst r) (snd r)
      in if snd (snd u) then 1 else Suc (rounds_run en (fst u) rs))"

subsection \<open>Outcomes and signatures\<close>

lemma outcome_named_value [simp]: "outcome_named (outcome_value oc) = Some oc"
  by (cases oc) (simp_all add: outcome_named_def)

lemma outcome_value_not_Nil [simp]: "outcome_value oc \<noteq> []"
  by (cases oc) simp_all

lemma classify_stamped [simp]: "classify_tool_result str_of (stamp str_of r) = classify_tool_result str_of r"
proof -
  have "explicit_outcome str_of (stamp str_of r) = Some (classify_tool_result str_of r)"
    by (simp add: explicit_outcome_def stamp_def py_text_def)
  then show ?thesis by (simp add: classify_tool_result_def)
qed

text \<open>Stamping is final: a result that was given an outcome keeps it however often it is classified and
  stamped again.\<close>

theorem stamp_is_final:
  "classify_tool_result str_of (stamp str_of r) = classify_tool_result str_of r
     \<and> stamp str_of (stamp str_of r) = stamp str_of r"
proof -
  have "dset (dset r k v) k v = dset r k v" for k v and r :: pydict by (induction r) auto
  then show ?thesis by (simp add: stamp_def[of _ "stamp str_of r"]) (simp add: stamp_def)
qed

text \<open>The signature of a call does not depend on the order its arguments are written in, at any depth.\<close>

theorem signature_ignores_key_order:
  assumes "same_json a b" "truthy a"
  shows "tool_signature sha1 fl name a = tool_signature sha1 fl name b"
proof -
  have "truthy b" using assms by cases (auto dest: list_all2_lengthD)
  then show ?thesis using same_json_dumps[OF assms(1), of fl] assms(2) by (simp add: tool_signature_def)
qed


subsection \<open>Repeated signatures\<close>

lemma first_repeated_spec:
  assumes "0 < t" "\<forall>s. count_list seen s < t"
  shows "(first_repeated t seen ss = None \<longleftrightarrow> (\<forall>s. count_list (seen @ ss) s < t))
     \<and> (\<forall>s. first_repeated t seen ss = Some s \<longrightarrow> t \<le> count_list (seen @ ss) s)"
  using assms(2)
proof (induction ss arbitrary: seen)
  case Nil
  then show ?case by simp
next
  case (Cons s ss)
  show ?case
  proof (cases "t \<le> count_list (seen @ [s]) s")
    case True
    then have "t \<le> count_list (seen @ s # ss) s" by simp
    then show ?thesis using True by (auto simp: not_le[symmetric])
  next
    case False
    have "\<forall>x. count_list (seen @ [s]) x < t"
    proof
      fix x show "count_list (seen @ [s]) x < t" using False Cons.prems by (cases "x = s") auto
    qed
    then show ?thesis using Cons.IH[of "seen @ [s]"] False by simp
  qed
qed

definition window_of :: "nat \<Rightarrow> string list \<Rightarrow> string list" where
  "window_of window sigs = (if window = 0 then sigs else last_n window sigs)"

lemma count_list_last: "count_list (last_n n xs) x \<le> count_list xs x"
proof -
  have "count_list (take m xs @ drop m xs) x = count_list (take m xs) x + count_list (drop m xs) x" for m
    by (rule count_list_append)
  then show ?thesis unfolding last_n_def by (metis append_take_drop_id le_add2)
qed

text \<open>Stagnation is found exactly when some signature occurs that often among the last ones of the window, and
  the one it names is such a signature.\<close>

theorem stagnation_is_repetition:
  assumes "0 < t"
  shows "(detect_stagnation w t sigs = None \<longleftrightarrow> (\<forall>s. count_list (window_of w sigs) s < t))
     \<and> (\<forall>s. detect_stagnation w t sigs = Some s \<longrightarrow> t \<le> count_list (window_of w sigs) s)"
proof (cases "length sigs < t")
  case True
  have "count_list (window_of w sigs) s < t" for s
  proof -
    have "count_list (window_of w sigs) s \<le> count_list sigs s" by (simp add: window_of_def count_list_last)
    also have "\<dots> \<le> length sigs" by (rule count_le_length)
    finally show ?thesis using True by simp
  qed
  then show ?thesis using True by (simp add: detect_stagnation_def)
next
  case False
  then show ?thesis
    using first_repeated_spec[OF assms, of "[]" "window_of w sigs"] assms
    by (simp add: detect_stagnation_def window_of_def)
qed

subsection \<open>How long a failing turn runs\<close>

definition outcomes :: "tool_env \<Rightarrow> turn_round \<Rightarrow> tool_outcome list" where
  "outcomes en r = map (classify_tool_result (e_str en)) (snd r)"

definition failing :: "tool_env \<Rightarrow> turn_round \<Rightarrow> bool" where
  "failing en r \<longleftrightarrow> OOk \<notin> set (outcomes en r) \<and> (OHard \<in> set (outcomes en r) \<or> ORefused \<in> set (outcomes en r))"

lemma update_breaker_state:
  assumes "update_breaker str_of threshold allowance p pr pk sigs rs = (b, rs')"
  shows "b_hard_rounds b = hard_rounds p (map (classify_tool_result str_of) rs)"
    and "b_refusals b = refusal_rounds pr (map (classify_tool_result str_of) rs)"
    and "b_trip b = trip_of threshold allowance (b_hard_rounds b) (b_refusals b) (snd (note_refusals str_of sigs rs (pk, [])))"
    and "b_refused b = last_n REFUSED_SIGNATURES_KEPT (fst (note_refusals str_of sigs rs (pk, [])))"
    and "b_trip b = NotTripped \<Longrightarrow> rs' = map (stamp str_of) rs"
  using assms by (auto simp: update_breaker_def Let_def tripped_results_def)

text \<open>What a round leaves behind when the turn goes on.\<close>

lemma worker_goes_on:
  assumes "tool_worker en st calls results = (st', rs', False)"
  shows "l_failures st' = hard_rounds (l_failures st) (outcomes en (calls, results))"
    and "l_refusals st' = refusal_rounds (l_refusals st) (outcomes en (calls, results))"
    and "l_failures st' < 3" "l_refusals st' < 6" "\<not> l_tripped st'"
    and "l_signatures st' = window_after en st calls (map (stamp (e_str en)) results)"
    and "detect_stagnation STAGNATION_WINDOW STAGNATION_REPEAT_THRESHOLD (l_signatures st') = None"
    and "snd (note_refusals (e_str en) (map_of (rev (map (\<lambda>c. (text_or (e_str en) (c_id c),
           call_signature (e_sha1 en) (e_float en) c)) calls))) results (l_refused st, [])) = []"
    and "l_refused st' = last_n REFUSED_SIGNATURES_KEPT (fst (note_refusals (e_str en) (map_of (rev (map (\<lambda>c.
           (text_or (e_str en) (c_id c), call_signature (e_sha1 en) (e_float en) c)) calls))) results (l_refused st, [])))"
proof -
  obtain b rs where u: "breaker_round en st calls results = (b, rs)" by (cases "breaker_round en st calls results")
  have r: "tool_round en st calls results = (st', rs', False)"
    using assms by (auto simp: tool_worker_def split: if_splits)
  note s = update_breaker_state[OF u[unfolded breaker_round_def]]
  have go: "b_trip b = NotTripped" "b_hard_rounds b < 3" "\<not> l_tripped st'" "l_failures st' = b_hard_rounds b"
    "l_refusals st' = b_refusals b" "l_refused st' = b_refused b" "l_signatures st' = window_after en st calls rs"
    "stagnant_in b (l_signatures st') = None"
    using r unfolding tool_round_def u Let_def fst_conv snd_conv by auto
  show "l_failures st' = hard_rounds (l_failures st) (outcomes en (calls, results))"
    "l_refusals st' = refusal_rounds (l_refusals st) (outcomes en (calls, results))"
    using s(1,2) go(4,5) by (simp_all add: outcomes_def)
  show "l_failures st' < 3" "\<not> l_tripped st'" using go by simp_all
  show "l_refusals st' < 6" using s(3) go by (simp add: trip_of_def REFUSAL_ALLOWANCE_def split: if_splits)
  show "l_signatures st' = window_after en st calls (map (stamp (e_str en)) results)"
    using go(7) s(5)[OF go(1)] by simp
  show "detect_stagnation STAGNATION_WINDOW STAGNATION_REPEAT_THRESHOLD (l_signatures st') = None"
    using go(1,8) by (simp add: stagnant_in_def)
  show "snd (note_refusals (e_str en) (map_of (rev (map (\<lambda>c. (text_or (e_str en) (c_id c),
      call_signature (e_sha1 en) (e_float en) c)) calls))) results (l_refused st, [])) = []"
    using s(3) go(1) by (simp add: trip_of_def split: if_splits)
  show "l_refused st' = last_n REFUSED_SIGNATURES_KEPT (fst (note_refusals (e_str en) (map_of (rev (map (\<lambda>c.
      (text_or (e_str en) (c_id c), call_signature (e_sha1 en) (e_float en) c)) calls))) results (l_refused st, [])))"
    using s(4) go(6) by simp
qed

lemma failing_counts:
  assumes "failing en r"
  shows "hard_rounds h (outcomes en r) + refusal_rounds f (outcomes en r) \<ge> h + f + 1"
  using assms by (auto simp: failing_def hard_rounds_def refusal_rounds_def)

lemma failing_turn_bound:
  assumes "\<forall>r \<in> set rs. failing en r" "l_failures st \<le> 2" "l_refusals st \<le> 5"
  shows "int (rounds_run en st rs) \<le> 8 - (l_failures st + l_refusals st)"
  using assms
proof (induction rs arbitrary: st)
  case (Cons r rs)
  obtain st' rs' stop where w: "tool_worker en st (fst r) (snd r) = (st', rs', stop)" by (metis prod_cases3)
  show ?case
  proof (cases stop)
    case True
    then show ?thesis using Cons.prems(2,3) w by simp
  next
    case False
    then have w': "tool_worker en st (fst r) (snd r) = (st', rs', False)" using w by simp
    note go = worker_goes_on[OF w']
    have "l_failures st' + l_refusals st' \<ge> l_failures st + l_refusals st + 1"
      using failing_counts[of en r "l_failures st" "l_refusals st"] Cons.prems(1) go(1,2) by simp
    moreover have "int (rounds_run en st' rs) \<le> 8 - (l_failures st' + l_refusals st')"
      using Cons.IH[of st'] Cons.prems(1) go(3,4) by simp
    ultimately show ?thesis using w' by simp
  qed
qed simp



subsection \<open>A turn that repeats one call\<close>

text \<open>A round of one call whose result carries the call's id.\<close>

definition answers_call :: "tool_env \<Rightarrow> tool_call \<Rightarrow> pydict \<Rightarrow> bool" where
  "answers_call en c r \<longleftrightarrow> dget r ''tool_call_id'' = c_id c"

lemma uncounted_outcome: "outcome_value oc \<in> set UNCOUNTED \<longleftrightarrow> oc \<in> {OPolicy, OUserDeny, OEmpty, ORefused}"
  by (cases oc) (simp_all add: UNCOUNTED_def)

lemma counted_single:
  assumes "answers_call en c r"
  shows "counted_calls (e_str en) [stamp (e_str en) r] [c]
    = (if classify_tool_result (e_str en) r \<in> {OPolicy, OUserDeny, OEmpty, ORefused} then [] else [c])"
proof -
  have "dget (stamp (e_str en) r) ''tool_call_id'' = c_id c" "dget (stamp (e_str en) r) ''outcome''
      = PStr (outcome_value (classify_tool_result (e_str en) r))"
    using assms by (simp_all add: stamp_def answers_call_def)
  then show ?thesis unfolding uncounted_outcome[symmetric] by (simp add: counted_calls_def)
qed

text \<open>The state of a turn that has made the call of signature \<open>g\<close> again and again, \<open>m\<close> times.\<close>

definition repeating :: "string \<Rightarrow> nat \<Rightarrow> loop_state \<Rightarrow> bool" where
  "repeating g m st \<longleftrightarrow> (\<exists>k. k \<le> 2 \<and> l_signatures st = replicate k g
     \<and> (l_refused st = [] \<and> m = k \<or> l_refused st = [g] \<and> m = k + 1))"

lemma stagnant_replicate: "detect_stagnation STAGNATION_WINDOW STAGNATION_REPEAT_THRESHOLD (replicate 3 g) = Some g"
  by (simp add: detect_stagnation_def STAGNATION_WINDOW_def STAGNATION_REPEAT_THRESHOLD_def last_n_def eval_nat_numeral)

lemma repeating_step:
  assumes "tool_worker en st [c] [r] = (st', rs', False)" and "answers_call en c r"
    and "classify_tool_result (e_str en) r \<notin> {OPolicy, OUserDeny, OEmpty}"
    and "call_signature (e_sha1 en) (e_float en) c = g" "g \<noteq> []" "repeating g m st"
  shows "repeating g (Suc m) st'"
proof -
  let ?oc = "classify_tool_result (e_str en) r"
  obtain k where k: "k \<le> 2" "l_signatures st = replicate k g"
    "l_refused st = [] \<and> m = k \<or> l_refused st = [g] \<and> m = k + 1"
    using assms(6) by (auto simp: repeating_def)
  note go = worker_goes_on[OF assms(1)]
  have id: "result_id (e_str en) r = text_or (e_str en) (c_id c)"
    using assms(2) by (simp add: result_id_def answers_call_def)
  have small: "length xs \<le> 48 \<Longrightarrow> last_n REFUSED_SIGNATURES_KEPT xs = xs" for xs :: "string list"
    by (simp add: last_n_def REFUSED_SIGNATURES_KEPT_def)
  show ?thesis
  proof (cases "?oc = ORefused")
    case True
    then have "l_refused st = []" using go(8) k(3) id assms(4,5) by auto
    moreover have "l_signatures st' = l_signatures st"
      using go(6) counted_single[OF assms(2)] True k(1,2)
      by (simp add: window_after_def last_n_def)
    moreover have "l_refused st' = [g]" using go(9) True id assms(4,5) small calculation(1) by simp
    ultimately show ?thesis using k by (auto simp: repeating_def)
  next
    case False
    then have sig: "l_signatures st' = replicate (Suc k) g"
      using go(6) counted_single[OF assms(2)] assms(3,4) k(1,2)
      by (simp add: window_after_def last_n_def replicate_append_same)
    have "k \<noteq> 2"
    proof
      assume "k = 2"
      then have "l_signatures st' = replicate 3 g" using sig by (simp add: eval_nat_numeral)
      then show False using go(7) stagnant_replicate[of g] by simp
    qed
    moreover have "l_refused st' = l_refused st"
      using go(9) False small k(3) by (auto simp: REFUSED_SIGNATURES_KEPT_def last_n_def)
    ultimately show ?thesis using k sig unfolding repeating_def by (intro exI[of _ "Suc k"]) auto
  qed
qed

lemma repeating_bound:
  assumes "\<forall>r \<in> set rs. answers_call en c r \<and> classify_tool_result (e_str en) r \<notin> {OPolicy, OUserDeny, OEmpty}"
    and "call_signature (e_sha1 en) (e_float en) c = g" "g \<noteq> []" "repeating g m st"
  shows "rounds_run en st (map (\<lambda>r. ([c], [r])) rs) + m \<le> 4"
  using assms(1,4)
proof (induction rs arbitrary: st m)
  case Nil
  then show ?case by (auto simp: repeating_def)
next
  case (Cons r rs)
  obtain st' rs' stop where w: "tool_worker en st [c] [r] = (st', rs', stop)" by (metis prod_cases3)
  have m: "m \<le> 3" using Cons.prems(2) by (auto simp: repeating_def)
  show ?case
  proof (cases stop)
    case True
    then show ?thesis using w m by simp
  next
    case False
    then have w': "tool_worker en st [c] [r] = (st', rs', False)" using w by simp
    have "repeating g (Suc m) st'"
      using repeating_step[OF w' _ _ assms(2,3) Cons.prems(2)] Cons.prems(1) by simp
    then have "rounds_run en st' (map (\<lambda>r. ([c], [r])) rs) + Suc m \<le> 4"
      by (intro Cons.IH) (use Cons.prems(1) in simp)
    then show ?thesis using w' by simp
  qed
qed

text \<open>A turn that only makes one and the same call ends after at most four rounds, whether the call succeeds, dies
  or is refused - unless it is denied or finds nothing.\<close>

theorem same_call_ends:
  assumes "\<forall>r \<in> set rs. answers_call en c r \<and> classify_tool_result (e_str en) r \<notin> {OPolicy, OUserDeny, OEmpty}"
    and "call_signature (e_sha1 en) (e_float en) c \<noteq> []"
  shows "rounds_run en new_turn (map (\<lambda>r. ([c], [r])) rs) \<le> 4"
  using repeating_bound[OF assms(1) refl assms(2), of 0 new_turn] by (simp add: repeating_def new_turn_def)

text \<open>A call a policy denies is the exception: it can be made for ever, although the comment on stagnation names "the same
  policy-denied path" among the loops it catches. Nothing here ends such a turn.\<close>

theorem denied_call_never_ends:
  assumes "answers_call en c r" "classify_tool_result (e_str en) r = OPolicy" "\<not> is_probe (e_float en) c"
  shows "rounds_run en new_turn (replicate n ([c], [r])) = n"
proof -
  have "tool_worker en new_turn [c] [r] = (new_turn, [stamp (e_str en) r], False)"
  proof -
    have u: "breaker_round en new_turn [c] [r]
        = (\<lparr>b_hard_rounds = 0, b_last_hard = False, b_refusals = 0, b_refused = [], b_trip = NotTripped\<rparr>, [stamp (e_str en) r])"
      using assms(2) by (simp add: breaker_round_def update_breaker_def new_turn_def hard_rounds_def refusal_rounds_def
          trip_of_def HARD_FAILURE_THRESHOLD_def REFUSAL_ALLOWANCE_def last_n_def tripped_results_def)
    have w: "window_after en new_turn [c] [stamp (e_str en) r] = []"
      using counted_single[OF assms(1)] assms(2)
      by (simp add: window_after_def last_n_def new_turn_def)
    have "\<not> ends_turn (e_str en) (stamp (e_str en) r)"
      using assms(2) by (simp add: ends_turn_def stamp_def py_text_def)
    moreover have "stagnant_in \<lparr>b_hard_rounds = 0, b_last_hard = False, b_refusals = 0, b_refused = [], b_trip = NotTripped\<rparr> [] = None"
      by (simp add: stagnant_in_def detect_stagnation_def STAGNATION_REPEAT_THRESHOLD_def)
    ultimately show ?thesis
      unfolding tool_worker_def tool_round_def Let_def u fst_conv snd_conv w using assms(3)
      by (simp add: new_turn_def count_recovery_probes_def RECOVERY_SPIRAL_THRESHOLD_def round_results_def)
  qed
  then show ?thesis by (induction n) simp_all
qed

subsection \<open>Refusals\<close>

lemma refusal_repeated:
  assumes "r \<in> set rs" "classify_tool_result str_of r = ORefused" "sigs (result_id str_of r) = Some g" "g \<noteq> []"
    and "g \<in> set (fst kr)"
  shows "snd (note_refusals str_of sigs rs kr) \<noteq> []"
proof -
  have mono: "snd kr \<noteq> [] \<Longrightarrow> snd (note_refusals str_of sigs rs kr) \<noteq> []" for rs kr
    by (induction rs arbitrary: kr) (auto split: option.split)
  show ?thesis
    using assms(1,5)
  proof (induction rs arbitrary: kr)
    case (Cons a rs)
    show ?case
    proof (cases "a = r")
      case True
      then show ?thesis using assms(2-4) Cons.prems(2) mono by simp
    next
      case False
      have "g \<in> set (fst (if classify_tool_result str_of a \<noteq> ORefused then kr
          else case sigs (result_id str_of a) of None \<Rightarrow> kr
            | Some h \<Rightarrow> if h = [] then kr
                else if h \<in> set (fst kr)
                then (fst kr, snd kr @ [if truthy (dget a ''name'') then py_text str_of (dget a ''name'') else ''a tool''])
                else (fst kr @ [h], snd kr)))"
        using Cons.prems(2) by (auto split: option.split)
      moreover have "r \<in> set rs" using Cons.prems(1) False by simp
      ultimately show ?thesis using Cons.IH by simp
    qed
  qed simp
qed

text \<open>A call that was refused and is refused again with the same arguments stops the turn at once: the breaker
  trips in that round, for the repetition unless hard failures had come this far already.\<close>

theorem refused_again_stops:
  assumes "r \<in> set results" "classify_tool_result str_of r = ORefused"
    and "sigs (result_id str_of r) = Some g" "g \<noteq> []" "g \<in> set known"
    and "update_breaker str_of HARD_FAILURE_THRESHOLD REFUSAL_ALLOWANCE h f known sigs results = (b, rs')"
  shows "b_trip b \<noteq> NotTripped \<and> (h < 2 \<longrightarrow> b_trip b = TripRepeated)"
proof -
  have rep: "snd (note_refusals str_of sigs results (known, [])) \<noteq> []"
    by (rule refusal_repeated[where g = g]) (use assms(1-5) in simp_all)
  note s = update_breaker_state[OF assms(6)]
  have "h < 2 \<Longrightarrow> b_hard_rounds b < 3" unfolding s(1) by (auto simp: hard_rounds_def)
  then show ?thesis using s(3) rep by (auto simp: trip_of_def HARD_FAILURE_THRESHOLD_def)
qed

subsection \<open>Examples\<close>

definition plain_env :: tool_env where
  "plain_env = \<lparr>e_sha1 = id, e_float = (\<lambda>_. ''0.0''), e_str = (\<lambda>_. ''?''), e_honest = (\<lambda>_. []), e_repeated = id\<rparr>"

definition read_call :: tool_call where
  "read_call = \<lparr>c_id = PStr ''1'', c_name = ''file_read'', c_args = PDict [(''path'', PStr ''a.py'')]\<rparr>"

text \<open>A file that was read without an error, and whose text names one of the exceptions of a silent death, counts as a
  hard failure.\<close>

definition source_read :: pydict where
  "source_read = [(''tool_call_id'', PStr ''1''), (''name'', PStr ''file_read''),
     (''content'', PStr ''raise NotImplementedError(name)''), (''is_error'', PBool False)]"

theorem source_read_counts_as_dead:
  "classify_tool_result str_of source_read = OHard"
proof -
  have "re_search SILENT_DEATH ''raise NotImplementedError(name)''"
    "\<not> re_search USER_DENY_PATTERNS ''raise NotImplementedError(name)''"
    "\<not> contains ''denied by user'' (py_lower ''raise NotImplementedError(name)'')" by code_simp+
  then show ?thesis by (simp add: classify_tool_result_def explicit_outcome_def inferred_outcome_def source_read_def)
qed

definition file_refused :: pydict where
  "file_refused = [(''tool_call_id'', PStr ''1''), (''name'', PStr ''file_read''), (''outcome'', PStr ''refused'')]"

lemma file_refused_class: "classify_tool_result str_of file_refused = ORefused"
  by (simp add: classify_tool_result_def explicit_outcome_def file_refused_def py_text_def outcome_named_def)

lemma example_ids:
  "dget file_refused ''tool_call_id'' = PStr ''1''" "dget source_read ''tool_call_id'' = PStr ''1''" "c_id read_call = PStr ''1''"
  "result_id str_of file_refused = ''1''"
  by (simp_all add: file_refused_def source_read_def read_call_def result_id_def)


end
