(* ===== verification/LongTask.thy ===== *)
theory LongTask
  imports Yolo ToolLoop
begin

text \<open>
  Long tasks (kazma_core/agent/long_task.py): a record under \<open>long_task.<thread>\<close> in the settings store
  raises the number of tool rounds a chat's turns may take, for a number of turns or, when it was made by
  /unrestricted, on one clock with the thread's YOLO window; and the context a stopped turn leaves for
  the reply that continues it.

  As in Yolo, the environment is a map and each operation takes the clock reading it works with; the several
  readings of one call are one. A value that \<open>int\<close> refuses is the exception \<open>OtherError ''int''\<close>.
\<close>

subsection \<open>Bounds\<close>

definition PRESETS :: "(string \<times> int) list" where
  "PRESETS = [(''chat'', 15), (''deep'', 30), (''research'', 40)]"

definition DEFAULT_TTL :: int where "DEFAULT_TTL = 1800"
definition UNRESTRICTED_TTL :: int where "UNRESTRICTED_TTL = 3600"
definition MIN_ITER :: int where "MIN_ITER = 5"
definition MAX_ITER :: int where "MAX_ITER = 100"
definition MIN_RECURSION :: int where "MIN_RECURSION = 50"
definition MAX_RECURSION :: int where "MAX_RECURSION = 500"
definition MAX_MISSION_ITER :: int where "MAX_MISSION_ITER = 2000"
definition MAX_MISSION_RECURSION :: int where "MAX_MISSION_RECURSION = 5000"
definition DEFAULT_ITER :: int where "DEFAULT_ITER = 15"
definition DEFAULT_RECURSION :: int where "DEFAULT_RECURSION = 100"

lemmas bounds_defs = MIN_ITER_def MAX_ITER_def MIN_RECURSION_def MAX_RECURSION_def MAX_MISSION_ITER_def
  MAX_MISSION_RECURSION_def DEFAULT_ITER_def DEFAULT_RECURSION_def

definition clamp_iterations :: "int \<Rightarrow> pyval \<Rightarrow> int" where
  "clamp_iterations cap v = (case py_int v of None \<Rightarrow> DEFAULT_ITER | Some n \<Rightarrow> max MIN_ITER (min cap n))"

text \<open>An environment variable that holds digits.\<close>

definition env_digits :: "environ \<Rightarrow> string \<Rightarrow> int option" where
  "env_digits env name =
     (let raw = py_strip (env_or_empty env name) in if py_isdigit raw then Some (int (digits_nat raw)) else None)"

definition derive_recursion_limit :: "environ \<Rightarrow> int \<Rightarrow> int" where
  "derive_recursion_limit env max_iterations =
     (let raw = clamp_iterations MAX_ITER (PInt max_iterations) * 5 + 20;
          cap = (case env_digits env ''KAZMA_LONG_TASK_MAX_RECURSION'' of
                   None \<Rightarrow> MAX_RECURSION | Some n \<Rightarrow> max MIN_RECURSION (min MAX_RECURSION n))
      in min cap (max DEFAULT_RECURSION raw))"

definition long_ttl_seconds :: "environ \<Rightarrow> int" where
  "long_ttl_seconds env = ttl_from_env (env_or_empty env ''KAZMA_LONG_TASK_TTL_SECONDS'') DEFAULT_TTL"

definition unrestricted_ttl_seconds :: "environ \<Rightarrow> int" where
  "unrestricted_ttl_seconds env =
     (let raw = py_strip (env_or_empty env ''KAZMA_UNRESTRICTED_TTL_SECONDS'') in
      if py_isdigit raw then (if 0 < int (digits_nat raw) then max 60 (int (digits_nat raw)) else 0)
      else if raw \<in> {''0'', ''off'', ''none'', ''infinite''} then 0
      else UNRESTRICTED_TTL)"

definition env_max_iter_cap :: "environ \<Rightarrow> int" where
  "env_max_iter_cap env =
     (case env_digits env ''KAZMA_LONG_TASK_MAX_ITER'' of None \<Rightarrow> MAX_ITER | Some n \<Rightarrow> max MIN_ITER (min MAX_ITER n))"

definition baseline_iterations :: "cstore \<Rightarrow> int" where
  "baseline_iterations cs =
     (case cs_get cs ''agent.max_iterations'' of
        Inl _ \<Rightarrow> DEFAULT_ITER
      | Inr v \<Rightarrow> clamp_iterations MAX_ITER (if v = PNone then PInt DEFAULT_ITER else v))"

definition mission_hard_rounds :: "environ \<Rightarrow> int" where
  "mission_hard_rounds env =
     (case env_digits env ''KAZMA_MISSION_MAX_ROUNDS'' of None \<Rightarrow> 500 | Some n \<Rightarrow> max 40 (min MAX_MISSION_ITER n))"

definition mission_recursion_limit :: "environ \<Rightarrow> int" where
  "mission_recursion_limit env =
     (case env_digits env ''KAZMA_MISSION_RECURSION'' of
        Some n \<Rightarrow> max 500 (min MAX_MISSION_RECURSION n)
      | None \<Rightarrow> min MAX_MISSION_RECURSION (max 500 (mission_hard_rounds env * 5)))"

subsection \<open>Status\<close>

datatype long_mode = Budget | Mission

record long_info =
  li_mode :: long_mode
  li_preset :: pyval
  li_unified :: bool
  li_iterations :: int
  li_recursion :: int
  li_hard :: int
  li_actor :: pyval
  li_since :: pyval
  li_ttl :: pyval
  li_expires :: pyval
  li_remaining :: "int option"
  li_turns :: "int option"

text \<open>An inactive chat reports the baseline, with why it is inactive.\<close>

datatype long_off = NotEnabled | TtlOver | Paused pyval

datatype long_status = LOff long_off int int | LOn long_info

fun long_active :: "long_status \<Rightarrow> bool" where
  "long_active (LOn _) = True"
| "long_active (LOff _ _ _) = False"

definition long_key :: "string \<Rightarrow> string" where
  "long_key tid = ''long_task.'' @ tid"

definition off_status :: "environ \<Rightarrow> cstore \<Rightarrow> long_off \<Rightarrow> long_status" where
  "off_status env cs why = LOff why (baseline_iterations cs) (derive_recursion_limit env (baseline_iterations cs))"

definition int_of :: "pyval \<Rightarrow> exn + int" where
  "int_of v = (case py_int v of None \<Rightarrow> Inl (OtherError ''int'') | Some i \<Rightarrow> Inr i)"

text \<open>\<open>d.get(k, default)\<close>.\<close>

definition get_default :: "pydict \<Rightarrow> string \<Rightarrow> pyval \<Rightarrow> pyval" where
  "get_default d k v = (case map_of d k of None \<Rightarrow> v | Some x \<Rightarrow> x)"

definition stored_mode :: "pydict \<Rightarrow> long_mode" where
  "stored_mode d = (case dget d ''mode'' of PStr s \<Rightarrow> if py_lower s = ''mission'' then Mission else Budget | _ \<Rightarrow> Budget)"

text \<open>Rounds, graph steps and the hard wall of an active record.\<close>

definition mission_rounds :: "pydict \<Rightarrow> int \<Rightarrow> int" where
  "mission_rounds d hard =
     min MAX_MISSION_ITER (max (max (clamp_iterations MAX_MISSION_ITER (get_default d ''max_iterations'' (PInt hard))) hard) 40)"

definition mission_steps :: "environ \<Rightarrow> int \<Rightarrow> int \<Rightarrow> int" where
  "mission_steps env mi recursion =
     min MAX_MISSION_RECURSION (max 500
       (max (max recursion (mission_recursion_limit env)) (min MAX_MISSION_RECURSION (mi * 5))))"

definition mission_numbers :: "environ \<Rightarrow> pydict \<Rightarrow> exn + (int \<times> int \<times> int)" where
  "mission_numbers env d =
     (case int_of (if truthy (dget d ''mission_hard_rounds'') then dget d ''mission_hard_rounds''
                   else if truthy (dget d ''max_iterations'') then dget d ''max_iterations''
                   else PInt (mission_hard_rounds env)) of
        Inl e \<Rightarrow> Inl e
      | Inr h \<Rightarrow>
          (case int_of (if truthy (dget d ''recursion_limit'') then dget d ''recursion_limit''
                        else PInt (mission_recursion_limit env)) of
             Inl e \<Rightarrow> Inl e
           | Inr r \<Rightarrow>
               let hard = max 40 (min MAX_MISSION_ITER h); mi = mission_rounds d hard
               in Inr (mi, mission_steps env mi r, hard)))"

definition budget_numbers :: "environ \<Rightarrow> pydict \<Rightarrow> exn + (int \<times> int \<times> int)" where
  "budget_numbers env d =
     (let mi = clamp_iterations MAX_ITER (get_default d ''max_iterations'' (PInt 40)) in
      case int_of (if truthy (dget d ''recursion_limit'') then dget d ''recursion_limit''
                   else PInt (derive_recursion_limit env mi)) of
        Inl e \<Rightarrow> Inl e
      | Inr r \<Rightarrow> Inr (mi, min MAX_RECURSION (max MIN_RECURSION r), mi))"

definition long_info_of :: "environ \<Rightarrow> real \<Rightarrow> pydict \<Rightarrow> exn + long_info" where
  "long_info_of env now d =
     (let unified = truthy (dget d ''unified'') in
      case (if unified then Inr None else map_sum id Some (int_of (get_default d ''remaining_turns'' (PInt 1)))) of
        Inl e \<Rightarrow> Inl e
      | Inr turns \<Rightarrow>
          (case (if stored_mode d = Mission then mission_numbers env d else budget_numbers env d) of
             Inl e \<Rightarrow> Inl e
           | Inr (mi, rec, hard) \<Rightarrow>
               Inr \<lparr>li_mode = stored_mode d, li_preset = get_default d ''preset'' (PStr ''research''),
                    li_unified = unified, li_iterations = mi, li_recursion = rec, li_hard = hard,
                    li_actor = get_default d ''actor'' (PStr ''unknown''), li_since = dget d ''since'',
                    li_ttl = dget d ''ttl_seconds'', li_expires = dget d ''expires_at'',
                    li_remaining = map_option (\<lambda>e. max 0 (trunc (e - now))) (expiry d), li_turns = turns\<rparr>))"

definition long_task_status :: "environ \<Rightarrow> real \<Rightarrow> cstore \<Rightarrow> string \<Rightarrow> (exn + long_status) \<times> cstore" where
  "long_task_status env now cs tid =
     (case cs_get cs (long_key tid) of
        Inl e \<Rightarrow> (Inl e, cs)
      | Inr (PDict d) \<Rightarrow>
          if \<not> truthy (dget d ''enabled'') then (Inr (off_status env cs NotEnabled), cs)
          else if (case expiry d of None \<Rightarrow> False | Some e \<Rightarrow> e < now)
          then (case cs_delete cs (long_key tid) of
                  Inl e \<Rightarrow> (Inl e, cs)
                | Inr (_, cs') \<Rightarrow> (Inr (off_status env cs' TtlOver), cs'))
          else if truthy (dget d ''paused'') then (Inr (off_status env cs (Paused (dget d ''paused_reason''))), cs)
          else (map_sum id LOn (long_info_of env now d), cs)
      | Inr _ \<Rightarrow> (Inr (off_status env cs NotEnabled), cs))"

definition is_long_task_active :: "environ \<Rightarrow> real \<Rightarrow> cstore \<Rightarrow> string \<Rightarrow> (exn + bool) \<times> cstore" where
  "is_long_task_active env now cs tid =
     (if tid = [] then (Inr False, cs)
      else case long_task_status env now cs tid of (st, cs') \<Rightarrow> (map_sum id long_active st, cs'))"

fun status_mission :: "long_status \<Rightarrow> bool" where
  "status_mission (LOn i) = (li_mode i = Mission)"
| "status_mission (LOff _ _ _) = False"

definition is_mission_mode :: "environ \<Rightarrow> real \<Rightarrow> cstore \<Rightarrow> string \<Rightarrow> (exn + bool) \<times> cstore" where
  "is_mission_mode env now cs tid =
     (if tid = [] then (Inr False, cs)
      else case long_task_status env now cs tid of (st, cs') \<Rightarrow> (map_sum id status_mission st, cs'))"

subsection \<open>Enable, disable, pause\<close>

definition mission_words :: "string list" where
  "mission_words = [''mission'', ''unlimited'', ''unbounded'', ''auto'', ''full'']"

definition preset_of :: "string \<Rightarrow> string" where
  "preset_of preset = py_lower (py_strip (if preset = [] then ''research'' else preset))"

definition mode_of :: "string \<Rightarrow> string \<Rightarrow> long_mode" where
  "mode_of mode preset =
     (if py_lower (py_strip (if mode = [] then ''budget'' else mode)) \<in> set mission_words
        \<or> preset_of preset \<in> {''mission'', ''unlimited'', ''unbounded''} then Mission else Budget)"

text \<open>The preset name, the rounds, the graph steps and the hard wall of a new record.\<close>

definition mission_plan :: "environ \<Rightarrow> int option \<Rightarrow> string \<times> int \<times> int \<times> int" where
  "mission_plan env max_iterations =
     (let mi = (case max_iterations of
                  None \<Rightarrow> mission_hard_rounds env
                | Some n \<Rightarrow> max (clamp_iterations MAX_MISSION_ITER (PInt n)) 40)
      in (''mission'', mi, max (mission_recursion_limit env) (min MAX_MISSION_RECURSION (mi * 5)),
          max (mission_hard_rounds env) mi))"

definition budget_plan :: "environ \<Rightarrow> string \<Rightarrow> int option \<Rightarrow> string \<times> int \<times> int \<times> int" where
  "budget_plan env preset max_iterations =
     (let chosen = (case max_iterations of
                      Some n \<Rightarrow> (''custom'', clamp_iterations MAX_ITER (PInt n))
                    | None \<Rightarrow>
                        (case map_of PRESETS (preset_of preset) of
                           Some n \<Rightarrow> (preset_of preset, n)
                         | None \<Rightarrow>
                             if py_isdigit (preset_of preset)
                             then (''custom'', clamp_iterations MAX_ITER (PInt (int (digits_nat (preset_of preset)))))
                             else (''research'', 40)));
          mi = min (snd chosen) (env_max_iter_cap env)
      in (fst chosen, mi, derive_recursion_limit env mi, mi))"

definition turns_of :: "long_mode \<Rightarrow> int option \<Rightarrow> bool \<Rightarrow> int" where
  "turns_of mode remaining unified =
     (if unified then 100000
      else case remaining of None \<Rightarrow> (if mode = Mission then 3 else 1) | Some n \<Rightarrow> max 1 (min 20 n))"

definition mode_text :: "long_mode \<Rightarrow> string" where
  "mode_text m = (case m of Budget \<Rightarrow> ''budget'' | Mission \<Rightarrow> ''mission'')"

definition long_payload ::
  "environ \<Rightarrow> real \<Rightarrow> string \<Rightarrow> string \<Rightarrow> int option \<Rightarrow> string \<Rightarrow> int option \<Rightarrow> bool \<Rightarrow> pydict" where
  "long_payload env now actor preset max_iterations mode remaining unified =
     (let m = mode_of mode preset;
          plan = (if m = Mission then mission_plan env max_iterations else budget_plan env preset max_iterations);
          ttl = (if unified then unrestricted_ttl_seconds env else long_ttl_seconds env)
      in case plan of (name, mi, rec, hard) \<Rightarrow>
        [(''enabled'', PBool True), (''mode'', PStr (mode_text m)), (''preset'', PStr name),
         (''max_iterations'', PInt mi), (''recursion_limit'', PInt rec), (''mission_hard_rounds'', PInt hard),
         (''since'', PFloat now), (''actor'', PStr actor), (''ttl_seconds'', PInt ttl),
         (''expires_at'', expires_value now ttl), (''unified'', PBool unified),
         (''remaining_turns'', PInt (turns_of m remaining unified))])"

definition enable_long_task ::
  "environ \<Rightarrow> real \<Rightarrow> cstore \<Rightarrow> string \<Rightarrow> string \<Rightarrow> string \<Rightarrow> int option \<Rightarrow> string \<Rightarrow> int option \<Rightarrow> bool
     \<Rightarrow> (exn + long_status) \<times> cstore" where
  "enable_long_task env now cs tid actor preset max_iterations mode remaining unified =
     (case cs_set now cs (long_key tid)
             (PDict (long_payload env now actor preset max_iterations mode remaining unified)) ''agent'' of
        Inl e \<Rightarrow> (Inl e, cs)
      | Inr cs' \<Rightarrow> long_task_status env now cs' tid)"

definition disable_long_task :: "cstore \<Rightarrow> string \<Rightarrow> exn + cstore" where
  "disable_long_task cs tid = map_sum id snd (cs_delete cs (long_key tid))"

definition pause_long_task :: "real \<Rightarrow> cstore \<Rightarrow> string \<Rightarrow> string \<Rightarrow> exn + cstore" where
  "pause_long_task now cs tid reason =
     (if tid = [] then Inr cs
      else case cs_get cs (long_key tid) of
        Inl e \<Rightarrow> Inl e
      | Inr (PDict d) \<Rightarrow>
          if \<not> truthy (dget d ''enabled'') \<or> truthy (dget d ''paused'') then Inr cs
          else cs_set now cs (long_key tid)
                 (PDict (dset (dset (dset d ''paused'' (PBool True)) ''paused_reason'' (PStr reason)) ''paused_at'' (PFloat now)))
                 ''agent''
      | Inr _ \<Rightarrow> Inr cs)"

text \<open>An abort pauses the task and swallows a failure.\<close>

definition pause_long_task_for_abort :: "real \<Rightarrow> cstore \<Rightarrow> string \<Rightarrow> cstore" where
  "pause_long_task_for_abort now cs tid = (case pause_long_task now cs tid ''aborted'' of Inl _ \<Rightarrow> cs | Inr cs' \<Rightarrow> cs')"

subsection \<open>A user turn\<close>

text \<open>
  One user turn is charged to the record. The answer says whether the user is told that the record just
  expired. Every exception ends the call, and what was written before it stays.
\<close>

definition slide_clock :: "environ \<Rightarrow> real \<Rightarrow> cstore \<Rightarrow> string \<Rightarrow> pydict \<Rightarrow> cstore" where
  "slide_clock env now cs tid d =
     (case py_int (if truthy (dget d ''ttl_seconds'') then dget d ''ttl_seconds'' else PInt (unrestricted_ttl_seconds env)) of
        None \<Rightarrow> cs
      | Some ttl \<Rightarrow>
          if ttl \<le> 0 then cs
          else (case cs_set now cs (long_key tid) (PDict (dset d ''expires_at'' (PFloat (now + of_int ttl)))) ''agent'' of
                  Inl _ \<Rightarrow> cs
                | Inr cs' \<Rightarrow> slide_yolo_expiry now cs' tid (now + of_int ttl)))"

definition spend_turn :: "real \<Rightarrow> cstore \<Rightarrow> string \<Rightarrow> pydict \<Rightarrow> cstore" where
  "spend_turn now cs tid d =
     (case py_int (get_default d ''remaining_turns'' (PInt 1)) of
        None \<Rightarrow> cs
      | Some n \<Rightarrow>
          if n \<le> 0 then (case cs_delete cs (long_key tid) of Inl _ \<Rightarrow> cs | Inr (_, cs') \<Rightarrow> cs')
          else (case cs_set now cs (long_key tid) (PDict (dset d ''remaining_turns'' (PInt (n - 1)))) ''agent'' of
                  Inl _ \<Rightarrow> cs | Inr cs' \<Rightarrow> cs'))"

definition consume_long_task_turn :: "environ \<Rightarrow> real \<Rightarrow> cstore \<Rightarrow> string \<Rightarrow> bool \<times> cstore" where
  "consume_long_task_turn env now cs tid =
     (if tid = [] then (False, cs)
      else case cs_get cs (long_key tid) of
        Inr (PDict d) \<Rightarrow>
          if \<not> truthy (dget d ''enabled'') \<or> truthy (dget d ''paused'') then (False, cs)
          else if truthy (dget d ''unified'')
          then if (case expiry d of None \<Rightarrow> False | Some e \<Rightarrow> e < now)
               then (case cs_delete cs (long_key tid) of Inl _ \<Rightarrow> (False, cs) | Inr (_, cs') \<Rightarrow> (True, cs'))
               else (False, slide_clock env now cs tid d)
          else (False, spend_turn now cs tid d)
      | _ \<Rightarrow> (False, cs))"

record turn_budgets =
  tb_iterations :: int
  tb_recursion :: int
  tb_mode :: long_mode
  tb_hard :: int

text \<open>\<open>agent.long_task.default_enabled\<close>: chats without a record get a preset's rounds.\<close>

definition default_on :: "cstore \<Rightarrow> bool" where
  "default_on cs =
     (case cs_get cs ''agent.long_task.default_enabled'' of
        Inl _ \<Rightarrow> False
      | Inr v \<Rightarrow> eq_one v \<or> v \<in> {PStr ''1'', PStr ''true'', PStr ''yes'', PStr ''on''})"

definition default_rounds :: "cstore \<Rightarrow> int" where
  "default_rounds cs =
     (case cs_get cs ''agent.long_task.default_preset'' of
        Inl _ \<Rightarrow> baseline_iterations cs
      | Inr (PStr s) \<Rightarrow>
          (case map_of PRESETS (if s = [] then ''research'' else py_lower s) of None \<Rightarrow> baseline_iterations cs | Some n \<Rightarrow> n)
      | Inr v \<Rightarrow> if truthy v then baseline_iterations cs else 40)"

definition plain_budgets :: "environ \<Rightarrow> int \<Rightarrow> turn_budgets" where
  "plain_budgets env mi =
     \<lparr>tb_iterations = mi, tb_recursion = derive_recursion_limit env mi, tb_mode = Budget, tb_hard = mi\<rparr>"

definition default_budgets :: "environ \<Rightarrow> real \<Rightarrow> cstore \<Rightarrow> string \<Rightarrow> turn_budgets \<times> cstore" where
  "default_budgets env now cs tid =
     (let base = baseline_iterations cs in
      if \<not> default_on cs then (plain_budgets env base, cs)
      else if tid = [] then (plain_budgets env (default_rounds cs), cs)
      else case long_task_status env now cs tid of
        (Inr (LOff _ _ _), cs') \<Rightarrow> (plain_budgets env (default_rounds cs'), cs')
      | (_, cs') \<Rightarrow> (plain_budgets env base, cs'))"

text \<open>\<open>int(st["max_iterations"])\<close> and the like change nothing: the status holds integers.\<close>

definition resolve_turn_budgets :: "environ \<Rightarrow> real \<Rightarrow> cstore \<Rightarrow> string \<Rightarrow> (exn + turn_budgets) \<times> cstore" where
  "resolve_turn_budgets env now cs tid =
     (case (if tid = [] then (Inr (off_status env cs NotEnabled), cs) else long_task_status env now cs tid) of
        (Inl e, cs') \<Rightarrow> (Inl e, cs')
      | (Inr (LOn i), cs') \<Rightarrow>
          (Inr \<lparr>tb_iterations = li_iterations i, tb_recursion = li_recursion i, tb_mode = li_mode i,
                tb_hard = (if li_hard i \<noteq> 0 then li_hard i else li_iterations i)\<rparr>, cs')
      | (Inr (LOff _ _ _), cs') \<Rightarrow> (case default_budgets env now cs' tid of (b, cs'') \<Rightarrow> (Inr b, cs'')))"

subsection \<open>Continuing\<close>

text \<open>
  A reply of at most eight words that holds one of these reads as going on. The Arabic words of the pattern, and
  the vowel marks it is compared without, are outside the characters of the model: a text here is ASCII.
\<close>

definition CONTINUATION_RE :: re where
  "CONTINUATION_RE = seqs [WordB, alts [Lit ''proceed'', Lit ''continue'', Lit ''cont'',
     seqs [Lit ''go'', Star (Cls is_blank), Lit ''on''], seqs [Lit ''keep'', Star (Cls is_blank), Lit ''going''],
     seqs [Lit ''carry'', Star (Cls is_blank), Lit ''on''], Lit ''yes'', Lit ''yeah'', Lit ''yep'', Lit ''ok'', Lit ''okay'',
     Lit ''finish'', seqs [Lit ''wrap'', Star (Cls is_blank), Lit ''up''], Lit ''wrapup''], WordB]"

definition is_continuation_reply :: "string \<Rightarrow> bool" where
  "is_continuation_reply text =
     (let t = py_strip text in
      if t = [] then True else if 8 < length (words t) then False else re_search CONTINUATION_RE t)"

definition continue_key :: "string \<Rightarrow> string" where
  "continue_key tid = ''long_task.continue.'' @ tid"

definition store_continue_context :: "real \<Rightarrow> cstore \<Rightarrow> string \<Rightarrow> string \<Rightarrow> string \<Rightarrow> exn + cstore" where
  "store_continue_context now cs tid summary reason =
     (if tid = [] \<or> py_strip summary = [] then Inr cs
      else cs_set now cs (continue_key tid)
             (PDict [(''summary'', PStr (take 6000 (py_strip summary))), (''reason'', PStr reason), (''stored_at'', PFloat now)])
             ''agent'')"

text \<open>The summary that is handed on, when one is; the text around it is fixed.\<close>

definition consume_continue_context ::
  "(pyval \<Rightarrow> string) \<Rightarrow> cstore \<Rightarrow> string \<Rightarrow> string option \<Rightarrow> (exn + string option) \<times> cstore" where
  "consume_continue_context str_of cs tid user_text =
     (if tid = [] then (Inr None, cs)
      else case cs_get cs (continue_key tid) of
        Inl e \<Rightarrow> (Inl e, cs)
      | Inr (PDict d) \<Rightarrow>
          (let summary = py_strip (case dget d ''summary'' of PStr s \<Rightarrow> s | v \<Rightarrow> if truthy v then str_of v else []);
               cs' = (case cs_delete cs (continue_key tid) of Inl _ \<Rightarrow> cs | Inr (_, cs'') \<Rightarrow> cs'')
           in if summary = [] then (Inr None, cs')
              else case user_text of
                None \<Rightarrow> (Inr (Some summary), cs')
              | Some t \<Rightarrow> (Inr (if is_continuation_reply t then Some summary else None), cs'))
      | Inr _ \<Rightarrow> (Inr None, cs))"

subsection \<open>Paging loops\<close>

text \<open>
  Signatures that do not tell the pages of one query apart: runs of four digits or more become one mark. The text of the
  arguments (\<open>json.dumps\<close> with \<open>ensure_ascii=False\<close>) is an argument.
\<close>

function collapse_digits :: "string \<Rightarrow> string" where
  "collapse_digits s =
     (case s of [] \<Rightarrow> []
      | c # cs \<Rightarrow>
          if is_digit c
          then (let run = takeWhile is_digit s in
                (if 4 \<le> length run then ''#'' else run) @ collapse_digits (dropWhile is_digit s))
          else c # collapse_digits cs)"
  by auto
termination
  by (relation "measure length") (auto simp: le_imp_less_Suc length_dropWhile_le)

declare collapse_digits.simps [simp del]

definition normalized_tool_signature :: "string \<Rightarrow> string \<Rightarrow> string" where
  "normalized_tool_signature name blob = name @ '':'' @ take 140 (join_with '' '' (words (collapse_digits blob)))"

definition detect_tool_loop :: "nat \<Rightarrow> nat \<Rightarrow> string list \<Rightarrow> string option" where
  "detect_tool_loop window max_repeats sigs =
     (if sigs = [] then None
      else first_repeated max_repeats [] (if window = 0 then sigs else last_n window sigs))"


end
