(* ===== verification/LongTurns.thy ===== *)
theory LongTurns
  imports LongTask
begin

text \<open>
  What holds over the turns of a chat with a long task: the budgets of a turn stay in bounds whatever the store
  holds, a record covers exactly its turns, /unrestricted and its YOLO window end together, a paused task stays
  paused, and the context of a stopped turn is handed on once.
\<close>

subsection \<open>Bounds\<close>

lemma clamp_bounds: "15 \<le> cap \<Longrightarrow> 5 \<le> clamp_iterations cap v \<and> clamp_iterations cap v \<le> cap"
  by (auto simp: clamp_iterations_def bounds_defs split: option.split)

lemma derive_bounds: "50 \<le> derive_recursion_limit env n \<and> derive_recursion_limit env n \<le> 500"
  by (auto simp: derive_recursion_limit_def bounds_defs Let_def split: option.split)

lemma baseline_bounds: "5 \<le> baseline_iterations cs \<and> baseline_iterations cs \<le> 100"
  using clamp_bounds[of 100] by (auto simp: baseline_iterations_def bounds_defs split: sum.split)

lemma preset_bounds: "map_of PRESETS s = Some n \<Longrightarrow> 15 \<le> n \<and> n \<le> 40"
  by (auto simp: PRESETS_def split: if_splits)

lemma default_rounds_bounds: "5 \<le> default_rounds cs \<and> default_rounds cs \<le> 100"
  using baseline_bounds[of cs] preset_bounds
  by (fastforce simp: default_rounds_def split: sum.split pyval.split option.split)

definition in_bounds :: "turn_budgets \<Rightarrow> bool" where
  "in_bounds b \<longleftrightarrow>
     (if tb_mode b = Mission
      then 40 \<le> tb_iterations b \<and> tb_iterations b \<le> 2000 \<and> 500 \<le> tb_recursion b \<and> tb_recursion b \<le> 5000
           \<and> min 5000 (5 * tb_iterations b) \<le> tb_recursion b
      else 5 \<le> tb_iterations b \<and> tb_iterations b \<le> 100 \<and> 50 \<le> tb_recursion b \<and> tb_recursion b \<le> 500)"

lemma plain_in_bounds: "5 \<le> n \<Longrightarrow> n \<le> 100 \<Longrightarrow> in_bounds (plain_budgets env n)"
  using derive_bounds by (simp add: in_bounds_def plain_budgets_def)

lemma default_budgets_in_bounds: "in_bounds (fst (default_budgets env now cs tid))"
proof -
  have "in_bounds (plain_budgets env (baseline_iterations c))" "in_bounds (plain_budgets env (default_rounds c))" for c
    using baseline_bounds default_rounds_bounds by (auto intro: plain_in_bounds)
  then show ?thesis
    by (auto simp: default_budgets_def Let_def split: prod.split sum.split long_status.split)
qed

lemma mission_rounds_bounds: "40 \<le> mission_rounds d h \<and> mission_rounds d h \<le> 2000"
  by (simp add: mission_rounds_def MAX_MISSION_ITER_def le_max_iff_disj)

lemma mission_steps_bounds:
  "500 \<le> mission_steps env mi r \<and> mission_steps env mi r \<le> 5000 \<and> min 5000 (5 * mi) \<le> mission_steps env mi r"
  by (simp add: mission_steps_def MAX_MISSION_RECURSION_def le_max_iff_disj mult.commute)

lemma mission_numbers_bounds:
  assumes "mission_numbers env d = Inr (mi, rec, hard)"
  shows "40 \<le> mi \<and> mi \<le> 2000 \<and> 500 \<le> rec \<and> rec \<le> 5000 \<and> min 5000 (5 * mi) \<le> rec"
proof -
  obtain h r where "mi = mission_rounds d h" "rec = mission_steps env mi r"
    using assms by (auto simp: mission_numbers_def Let_def simp del: max.bounded_iff split: sum.splits)
  then show ?thesis using mission_rounds_bounds mission_steps_bounds by metis
qed

lemma budget_numbers_bounds:
  assumes "budget_numbers env d = Inr (mi, rec, hard)"
  shows "5 \<le> mi \<and> mi \<le> 100 \<and> 50 \<le> rec \<and> rec \<le> 500"
  using assms clamp_bounds[of 100 "get_default d ''max_iterations'' (PInt 40)"]
  by (auto simp: budget_numbers_def Let_def bounds_defs split: sum.splits)

lemma long_info_bounds:
  assumes "long_info_of env now d = Inr i"
  shows "in_bounds \<lparr>tb_iterations = li_iterations i, tb_recursion = li_recursion i, tb_mode = li_mode i, tb_hard = h\<rparr>"
proof (cases "stored_mode d")
  case Mission
  then show ?thesis using assms mission_numbers_bounds[of env d]
    by (auto simp: long_info_of_def in_bounds_def Let_def split: sum.splits if_splits)
next
  case Budget
  then show ?thesis using assms budget_numbers_bounds[of env d]
    by (auto simp: long_info_of_def in_bounds_def Let_def split: sum.splits if_splits)
qed

lemma status_on_bounds:
  assumes "fst (long_task_status env now cs tid) = Inr (LOn i)"
  shows "in_bounds \<lparr>tb_iterations = li_iterations i, tb_recursion = li_recursion i, tb_mode = li_mode i, tb_hard = h\<rparr>"
  using assms long_info_bounds
  by (auto simp: long_task_status_def off_status_def map_sum_def split: sum.splits pyval.splits if_splits)

text \<open>Whatever the settings store and the environment hold, a turn that gets budgets gets 5 to 100 tool rounds and
  50 to 500 graph steps, or on a mission 40 to 2000 rounds and 500 to 5000 steps, with five steps for each
  round up to that limit.\<close>

theorem turn_budgets_bounded:
  assumes "fst (resolve_turn_budgets env now cs tid) = Inr b"
  shows "in_bounds b"
proof -
  obtain st cs' where st: "(if tid = [] then (Inr (off_status env cs NotEnabled), cs) else long_task_status env now cs tid)
      = (st, cs')" by fastforce
  show ?thesis
  proof (cases "\<exists>i. st = Inr (LOn i)")
    case True
    then obtain i where i: "st = Inr (LOn i)" ..
    then have "fst (long_task_status env now cs tid) = Inr (LOn i)"
      using st by (auto simp: off_status_def split: if_splits)
    note status_on_bounds[OF this]
    moreover have "b = \<lparr>tb_iterations = li_iterations i, tb_recursion = li_recursion i, tb_mode = li_mode i,
        tb_hard = (if li_hard i \<noteq> 0 then li_hard i else li_iterations i)\<rparr>"
      using assms unfolding resolve_turn_budgets_def st i by simp
    ultimately show ?thesis by simp
  next
    case False
    then have "b = fst (default_budgets env now cs' tid)"
      using assms unfolding resolve_turn_budgets_def st
      by (cases st; cases "projr st") (auto split: prod.splits)
    then show ?thesis by (simp add: default_budgets_in_bounds)
  qed
qed

subsection \<open>Records and their turns\<close>

lemma map_of_dset [simp]: "map_of (dset d k v) k' = (if k' = k then Some v else map_of d k')"
  by (induction d k v rule: dset.induct) auto

lemma get_default_dset [simp]: "get_default (dset d k v) k' w = (if k' = k then v else get_default d k' w)"
  by (simp add: get_default_def)

lemma expiry_dset [simp]: "expiry (dset d k v) = (if k = ''expires_at'' then py_float v else expiry d)"
  by (simp add: expiry_def)

text \<open>The chat's record is \<open>d\<close>, in a store that answers and takes writes.\<close>

definition has_record :: "cstore \<Rightarrow> string \<Rightarrow> pydict \<Rightarrow> bool" where
  "has_record cs tid d \<longleftrightarrow> tid \<noteq> [] \<and> can_read cs \<and> can_write cs \<and> leaf_key cs (long_key tid)
     \<and> cs_get cs (long_key tid) = Inr (PDict d)"

definition no_record :: "cstore \<Rightarrow> string \<Rightarrow> bool" where
  "no_record cs tid \<longleftrightarrow> cs_get cs (long_key tid) = Inr PNone"

lemma has_record_put: "has_record cs tid d \<Longrightarrow> has_record (put_row now (long_key tid) (PDict d') c cs) tid d'"
  by (simp add: has_record_def leaf_key_put)

lemma no_record_drop: "has_record cs tid d \<Longrightarrow> no_record (drop_row (long_key tid) cs) tid"
  by (simp add: has_record_def no_record_def cs_get_drop_leaf)

lemma record_set: "has_record cs tid d \<Longrightarrow> cs_set now cs k (PDict d') c = Inr (put_row now k (PDict d') c cs)"
  by (simp add: has_record_def cs_set_def)

lemma no_record_consume: "no_record cs tid \<Longrightarrow> consume_long_task_turn env now cs tid = (False, cs)"
  by (simp add: no_record_def consume_long_task_turn_def)

lemma no_record_inactive: "no_record cs tid \<Longrightarrow> is_long_task_active env now cs tid = (Inr False, cs)"
  by (simp add: no_record_def is_long_task_active_def long_task_status_def off_status_def)

text \<open>The record can be read as an active one.\<close>

definition int_fields :: "pydict \<Rightarrow> bool" where
  "int_fields d \<longleftrightarrow> (\<forall>k \<in> {''max_iterations'', ''recursion_limit'', ''mission_hard_rounds'', ''remaining_turns''}.
     \<exists>n. map_of d k = Some (PInt n))"

lemma int_fields_info:
  assumes "int_fields d"
  shows "\<exists>i. long_info_of env now d = Inr i"
proof -
  obtain a b c n where "map_of d ''max_iterations'' = Some (PInt a)" "map_of d ''recursion_limit'' = Some (PInt b)"
    "map_of d ''mission_hard_rounds'' = Some (PInt c)" "map_of d ''remaining_turns'' = Some (PInt n)"
    using assms unfolding int_fields_def by (metis insertCI)
  then have "\<exists>x. mission_numbers env d = Inr x" "\<exists>x. budget_numbers env d = Inr x"
    "int_of (get_default d ''remaining_turns'' (PInt 1)) = Inr n"
    by (simp_all add: mission_numbers_def budget_numbers_def int_of_def dget_def get_default_def Let_def)
  then show ?thesis by (auto simp: long_info_of_def Let_def)
qed

text \<open>A record that is not over at a time answers yes then; enabled and not paused.\<close>

definition running :: "pydict \<Rightarrow> bool" where
  "running d \<longleftrightarrow> truthy (dget d ''enabled'') \<and> \<not> truthy (dget d ''paused'') \<and> int_fields d"

definition not_over :: "real \<Rightarrow> pydict \<Rightarrow> bool" where
  "not_over now d \<longleftrightarrow> (case expiry d of None \<Rightarrow> True | Some e \<Rightarrow> now \<le> e)"

lemma running_status:
  assumes "has_record cs tid d" "running d"
  shows "is_long_task_active env now cs tid
    = (Inr (not_over now d), if not_over now d then cs else drop_row (long_key tid) cs)"
proof -
  obtain i where "long_info_of env now d = Inr i" using assms(2) int_fields_info[of d env now] by (auto simp: running_def)
  then show ?thesis using assms
    by (auto simp: has_record_def running_def not_over_def is_long_task_active_def long_task_status_def cs_delete_eq
        off_status_def split: option.splits)
qed

text \<open>Turn after turn: the record is charged, then asked whether it raises this turn's budget.\<close>

fun turns_raised :: "environ \<Rightarrow> cstore \<Rightarrow> string \<Rightarrow> real list \<Rightarrow> bool list" where
  "turns_raised env cs tid [] = []"
| "turns_raised env cs tid (t # ts) =
     (case is_long_task_active env t (snd (consume_long_task_turn env t cs tid)) tid of
        (a, cs') \<Rightarrow> (a = Inr True) # turns_raised env cs' tid ts)"

lemma no_record_turns: "no_record cs tid \<Longrightarrow> turns_raised env cs tid ts = replicate (length ts) False"
  by (induction ts) (simp_all add: no_record_consume no_record_inactive)

lemma counted_turns:
  assumes "has_record cs tid d" "running d" "\<not> truthy (dget d ''unified'')"
    and "map_of d ''remaining_turns'' = Some (PInt (int n))" "\<forall>t \<in> set ts. not_over t d"
  shows "turns_raised env cs tid ts = replicate (min n (length ts)) True @ replicate (length ts - n) False"
  using assms
proof (induction ts arbitrary: cs d n)
  case (Cons t ts)
  have get: "cs_get cs (long_key tid) = Inr (PDict d)" and tid: "tid \<noteq> []" and w: "can_write cs"
    using Cons.prems(1) by (simp_all add: has_record_def)
  have charge: "consume_long_task_turn env t cs tid = (False, spend_turn t cs tid d)"
    using get tid Cons.prems(2,3) by (simp add: consume_long_task_turn_def running_def)
  show ?case
  proof (cases n)
    case 0
    then have "spend_turn t cs tid d = drop_row (long_key tid) cs"
      using Cons.prems(4) w by (simp add: spend_turn_def get_default_def cs_delete_eq)
    then show ?thesis using charge 0 no_record_drop[OF Cons.prems(1)]
      by (simp add: no_record_inactive no_record_turns)
  next
    case (Suc m)
    let ?d = "dset d ''remaining_turns'' (PInt (int m))"
    let ?cs = "put_row t (long_key tid) (PDict ?d) ''agent'' cs"
    have s: "spend_turn t cs tid d = ?cs"
      using Cons.prems(4) record_set[OF Cons.prems(1)] Suc by (simp add: spend_turn_def get_default_def)
    have r: "has_record ?cs tid ?d" using Cons.prems(1) by (rule has_record_put)
    have "int_fields ?d" using Cons.prems(2) by (auto simp: running_def int_fields_def)
    then have run: "running ?d" using Cons.prems(2) by (simp add: running_def)
    have alive: "\<forall>u \<in> set (t # ts). not_over u ?d" using Cons.prems(5) by (simp add: not_over_def)
    have "turns_raised env ?cs tid ts = replicate (min m (length ts)) True @ replicate (length ts - m) False"
      by (rule Cons.IH[OF r run]) (use Cons.prems(3) alive in simp_all)
    then show ?thesis using charge s alive running_status[OF r run, of env t] Suc by simp
  qed
qed simp

subsection \<open>What a new record covers\<close>

lemma plan_fields: "int_fields (long_payload env now actor preset mx mode rem u)"
  by (cases "if mode_of mode preset = Mission then mission_plan env mx else budget_plan env preset mx")
     (simp add: long_payload_def int_fields_def Let_def)

lemma payload_fields:
  "truthy (dget (long_payload env now actor preset mx mode rem u) ''enabled'')"
  "dget (long_payload env now actor preset mx mode rem u) ''paused'' = PNone"
  "dget (long_payload env now actor preset mx mode rem u) ''unified'' = PBool u"
  "dget (long_payload env now actor preset mx mode rem u) ''ttl_seconds''
     = PInt (if u then unrestricted_ttl_seconds env else long_ttl_seconds env)"
  "dget (long_payload env now actor preset mx mode rem u) ''expires_at''
     = expires_value now (if u then unrestricted_ttl_seconds env else long_ttl_seconds env)"
  "map_of (long_payload env now actor preset mx mode rem u) ''remaining_turns'' = Some (PInt (turns_of (mode_of mode preset) rem u))"
  by (cases "if mode_of mode preset = Mission then mission_plan env mx else budget_plan env preset mx";
      simp add: long_payload_def Let_def)+

lemma payload_running: "running (long_payload env now actor preset mx mode rem u)"
  by (simp add: running_def plan_fields payload_fields)

lemma payload_not_over:
  "not_over t (long_payload env now actor preset mx mode rem u)
     \<longleftrightarrow> (let ttl = (if u then unrestricted_ttl_seconds env else long_ttl_seconds env) in ttl \<le> 0 \<or> t \<le> now + of_int ttl)"
  by (auto simp: not_over_def expiry_def payload_fields expires_value_def Let_def)

lemma enabled_record:
  assumes "enable_long_task env now cs tid actor preset mx mode rem u = (Inr st, cs')"
    and "can_read cs" "tid \<noteq> []" "leaf_key cs (long_key tid)"
  shows "cs' = put_row now (long_key tid) (PDict (long_payload env now actor preset mx mode rem u)) ''agent'' cs"
    and "has_record cs' tid (long_payload env now actor preset mx mode rem u)"
proof -
  let ?d = "long_payload env now actor preset mx mode rem u"
  let ?cs = "put_row now (long_key tid) (PDict ?d) ''agent'' cs"
  have set: "can_write cs" "(Inr st, cs') = long_task_status env now ?cs tid"
    using assms(1) by (auto simp: enable_long_task_def cs_set_def split: if_splits)
  have rec: "has_record ?cs tid ?d" using assms(2-4) set(1) by (simp add: has_record_def leaf_key_put)
  have "0 < ttl \<Longrightarrow> now \<le> now + of_int ttl" for ttl :: int by simp
  then have "not_over now ?d" by (auto simp: payload_not_over Let_def not_le)
  then have "is_long_task_active env now ?cs tid = (Inr True, ?cs)"
    using running_status[OF rec payload_running] by simp
  then show "cs' = ?cs" using set(2) assms(3) by (auto simp: is_long_task_active_def split: prod.splits)
  then show "has_record cs' tid ?d" using rec by simp
qed

text \<open>A record of /long or /mission raises the budget of exactly as many user turns as it was made for - the
  requested number, between 1 and 20, or one for a budget and three for a mission - as long as its lifetime lasts, and
  of no turn after them.\<close>

theorem long_covers_its_turns:
  assumes "enable_long_task env t0 cs tid actor preset mx mode rem False = (Inr st, cs')"
    and "can_read cs" "tid \<noteq> []" "leaf_key cs (long_key tid)"
    and "\<forall>t \<in> set ts. long_ttl_seconds env \<le> 0 \<or> t \<le> t0 + of_int (long_ttl_seconds env)"
  shows "turns_raised env cs' tid ts =
    (let n = nat (turns_of (mode_of mode preset) rem False)
     in replicate (min n (length ts)) True @ replicate (length ts - n) False)"
proof -
  have "0 \<le> turns_of (mode_of mode preset) rem False" by (auto simp: turns_of_def split: option.split)
  then show ?thesis unfolding Let_def
    by (intro counted_turns[OF enabled_record(2)[OF assms(1-4)] payload_running])
       (use assms(5) in \<open>auto simp: payload_fields payload_not_over Let_def\<close>)
qed


subsection \<open>One clock\<close>

lemma other_keys:
  "long_key t \<noteq> yolo_key t'" "\<not> below (yolo_key t) (long_key t')" "\<not> below (long_key t) (yolo_key t')"
  by (simp_all add: long_key_def yolo_key_def below_def lower_char_def)

text \<open>The two records of /unrestricted, with the same end and the lifetime it moves by.\<close>

definition paired :: "cstore \<Rightarrow> string \<Rightarrow> int \<Rightarrow> real \<Rightarrow> bool" where
  "paired cs tid ttl e \<longleftrightarrow> (\<exists>d y. has_record cs tid d \<and> running d \<and> dget d ''unified'' = PBool True
     \<and> dget d ''ttl_seconds'' = PInt ttl \<and> expiry d = Some e
     \<and> cs_get cs (yolo_key tid) = Inr (PDict y) \<and> truthy (dget y ''enabled'') \<and> truthy (dget y ''unified'') \<and> expiry y = Some e)"

lemma paired_slides:
  assumes "paired cs tid ttl e" "0 < ttl" "now \<le> e"
  shows "paired (snd (consume_long_task_turn env now cs tid)) tid ttl (now + of_int ttl)"
proof -
  obtain d y where p: "has_record cs tid d" "running d" "dget d ''unified'' = PBool True"
    "dget d ''ttl_seconds'' = PInt ttl" "expiry d = Some e" "cs_get cs (yolo_key tid) = Inr (PDict y)"
    "truthy (dget y ''enabled'')" "truthy (dget y ''unified'')" "expiry y = Some e"
    using assms(1) unfolding paired_def by blast
  let ?d = "dset d ''expires_at'' (PFloat (now + of_int ttl))"
  let ?cs1 = "put_row now (long_key tid) (PDict ?d) ''agent'' cs"
  let ?y = "dset y ''expires_at'' (PFloat (now + of_int ttl))"
  let ?cs2 = "put_row now (yolo_key tid) (PDict ?y) ''safety'' ?cs1"
  have r1: "has_record ?cs1 tid ?d" using p(1) by (rule has_record_put)
  have y1: "cs_get ?cs1 (yolo_key tid) = Inr (PDict y)"
    using p(6) other_keys[of tid tid] cs_get_put_other[of "yolo_key tid" "long_key tid"] by simp
  have tid: "tid \<noteq> []" using p(1) by (simp add: has_record_def)
  have "slide_clock env now cs tid d = ?cs2"
    using p(4,7,8) assms(2) y1 tid record_set[OF p(1)] record_set[OF r1] by (simp add: slide_clock_def slide_yolo_expiry_def)
  then have "snd (consume_long_task_turn env now cs tid) = ?cs2"
    using p(1-3,5) assms(3) by (simp add: consume_long_task_turn_def has_record_def running_def)
  moreover have "has_record ?cs2 tid ?d"
    using r1 other_keys[of tid tid] cs_get_put_other[of "long_key tid" "yolo_key tid"] leaf_key_put[of "long_key tid" "yolo_key tid"]
    by (simp add: has_record_def)
  moreover have "running ?d" using p(2) by (auto simp: running_def int_fields_def)
  moreover have "cs_get ?cs2 (yolo_key tid) = Inr (PDict ?y)" using r1 by (simp add: has_record_def)
  ultimately show ?thesis unfolding paired_def using p(3,4,7,8)
    by (intro exI[of _ ?d] exI[of _ ?y]) simp
qed

text \<open>A chat that never rests longer than a number of seconds, and what its turns leave.\<close>

fun never_idle :: "real \<Rightarrow> real \<Rightarrow> real list \<Rightarrow> bool" where
  "never_idle ttl t0 [] = True"
| "never_idle ttl t0 (t # ts) = (t \<le> t0 + ttl \<and> never_idle ttl t ts)"

fun after_turns :: "environ \<Rightarrow> cstore \<Rightarrow> string \<Rightarrow> real list \<Rightarrow> cstore" where
  "after_turns env cs tid [] = cs"
| "after_turns env cs tid (t # ts) = after_turns env (snd (consume_long_task_turn env t cs tid)) tid ts"

lemma paired_turns:
  assumes "paired cs tid ttl (t0 + of_int ttl)" "0 < ttl" "never_idle (of_int ttl) t0 ts"
  shows "paired (after_turns env cs tid ts) tid ttl (last (t0 # ts) + of_int ttl)"
  using assms(1,3)
proof (induction ts arbitrary: cs t0)
  case (Cons t ts)
  have "paired (snd (consume_long_task_turn env t cs tid)) tid ttl (t + of_int ttl)"
    using paired_slides[OF Cons.prems(1) assms(2)] Cons.prems(2) by simp
  then show ?case using Cons.IH Cons.prems(2) by simp
qed simp

lemma paired_active:
  assumes "paired cs tid ttl e"
  shows "fst (is_long_task_active env now cs tid) = Inr (now \<le> e)"
    and "fst (is_yolo_active now cs (Some tid)) = Inr True \<longleftrightarrow> now \<le> e"
proof -
  show "fst (is_long_task_active env now cs tid) = Inr (now \<le> e)"
    using assms running_status unfolding paired_def not_over_def by fastforce
  show "fst (is_yolo_active now cs (Some tid)) = Inr True \<longleftrightarrow> now \<le> e"
    using assms unfolding is_yolo_active_iff yolo_live_def window_open_def paired_def has_record_def by auto
qed

lemma arming_pairs:
  assumes "enable_long_task env t0 cs tid actor preset mx mode rem True = (Inr st, cs1)"
    and "enable_yolo env t0 cs1 tid actor force (Some ttl) = (Inr yst, cs2)" "ttl = unrestricted_ttl_seconds env" "0 < ttl"
    and "can_read cs" "tid \<noteq> []" "leaf_key cs (long_key tid)"
  shows "paired cs2 tid ttl (t0 + of_int ttl)"
proof -
  let ?d = "long_payload env t0 actor preset mx mode rem True"
  let ?y = "yolo_payload t0 actor ttl True"
  have r: "has_record cs1 tid ?d" using enabled_record[OF assms(1,5-7)] by simp
  then have rd: "can_read cs1" by (simp add: has_record_def)
  let ?cs = "put_row t0 (yolo_key tid) (PDict ?y) ''safety'' cs1"
  from assms(2,4) have "(Inr yst, cs2) = yolo_status t0 ?cs tid"
    by (auto simp: enable_yolo_def cs_set_def Let_def split: if_splits)
  with yolo_status_payload[OF rd] have cs2: "cs2 = ?cs" by auto
  have "has_record cs2 tid ?d" unfolding cs2
    using r other_keys[of tid tid] cs_get_put_other[of "long_key tid" "yolo_key tid"] leaf_key_put[of "long_key tid" "yolo_key tid"]
    by (simp add: has_record_def)
  then show ?thesis unfolding paired_def using cs2 rd assms(3,4)
    by (intro exI[of _ ?d] exI[of _ ?y])
       (simp add: payload_running payload_fields expiry_def expires_value_def yolo_payload_def)
qed

text \<open>/unrestricted has one clock: after it armed the long task and the YOLO window, and the chat's turns never came
  further apart than its lifetime, both are active up to the same moment - one lifetime after the last turn -
  and neither is after it.\<close>

theorem unrestricted_one_clock:
  assumes "enable_long_task env t0 cs tid actor preset mx mode rem True = (Inr st, cs1)"
    and "enable_yolo env t0 cs1 tid actor force (Some ttl) = (Inr yst, cs2)" "ttl = unrestricted_ttl_seconds env" "0 < ttl"
    and "can_read cs" "tid \<noteq> []" "leaf_key cs (long_key tid)" "never_idle (of_int ttl) t0 ts"
  shows "(fst (is_long_task_active env now (after_turns env cs2 tid ts) tid) = Inr True
            \<longleftrightarrow> now \<le> last (t0 # ts) + of_int ttl)
       \<and> (fst (is_yolo_active now (after_turns env cs2 tid ts) (Some tid)) = Inr True
            \<longleftrightarrow> now \<le> last (t0 # ts) + of_int ttl)"
  using paired_active[OF paired_turns[OF arming_pairs[OF assms(1-7)] assms(4,8)]] by simp

subsection \<open>A paused task\<close>

text \<open>The record answers no at every later time and is not charged.\<close>

lemma resting_turns:
  assumes "tid \<noteq> []" "can_read cs" "leaf_key cs (long_key tid)" "cs_get cs (long_key tid) = Inr v"
    and "\<And>d. v = PDict d \<Longrightarrow> truthy (dget d ''enabled'') \<Longrightarrow> truthy (dget d ''paused'')"
  shows "turns_raised env cs tid ts = replicate (length ts) False"
proof -
  have charge: "consume_long_task_turn env t cs tid = (False, cs)" for t
    using assms(4,5) by (cases v) (auto simp: consume_long_task_turn_def)
  have ask: "fst (is_long_task_active env t cs tid) \<noteq> Inr True
      \<and> (snd (is_long_task_active env t cs tid) = cs \<or> snd (is_long_task_active env t cs tid) = drop_row (long_key tid) cs)" for t
    using assms(1,4,5)
    by (cases v) (auto simp: is_long_task_active_def long_task_status_def cs_delete_eq off_status_def split: option.splits)
  have gone: "no_record (drop_row (long_key tid) cs) tid" using assms(2,3) by (simp add: no_record_def cs_get_drop_leaf)
  show ?thesis
  proof (induction ts)
    case (Cons t ts)
    then show ?case using ask[of t] no_record_turns[OF gone] charge by (auto split: prod.split)
  qed simp
qed

text \<open>Once a task is paused, no later turn of the chat runs under its raised budget or is charged to it, until it is
  enabled again.\<close>

theorem paused_task_stays_paused:
  assumes "pause_long_task now cs tid reason = Inr cs'" "can_read cs" "tid \<noteq> []" "leaf_key cs (long_key tid)"
  shows "turns_raised env cs' tid ts = replicate (length ts) False"
proof -
  obtain v where v: "cs_get cs (long_key tid) = Inr v" using cs_get_flags[OF assms(2)] by auto
  show ?thesis
  proof (cases "\<exists>d. v = PDict d \<and> truthy (dget d ''enabled'') \<and> \<not> truthy (dget d ''paused'')")
    case True
    then obtain d where d: "v = PDict d" "truthy (dget d ''enabled'')" "\<not> truthy (dget d ''paused'')" by blast
    then have "cs' = put_row now (long_key tid) (PDict (dset (dset (dset d ''paused'' (PBool True)) ''paused_reason''
        (PStr reason)) ''paused_at'' (PFloat now))) ''agent'' cs"
      using assms(1,3) v by (auto simp: pause_long_task_def cs_set_def split: if_splits)
    then show ?thesis using assms(2-4) by (intro resting_turns) (auto simp: leaf_key_put)
  next
    case False
    then have "cs' = cs" using assms(1,3) v by (cases v) (auto simp: pause_long_task_def)
    then show ?thesis using assms(2-4) v False by (intro resting_turns) auto
  qed
qed


subsection \<open>The context of a stopped turn\<close>

lemma strip_Nil_iff: "py_strip s = [] \<longleftrightarrow> list_all is_blank s"
proof -
  have "dropWhile is_blank s \<noteq> [] \<Longrightarrow> \<exists>x \<in> set (dropWhile is_blank s). \<not> is_blank x"
    by (meson hd_dropWhile hd_in_set)
  then show ?thesis by (auto simp: py_strip_def dropWhile_eq_Nil_conv list_all_iff dest: set_dropWhileD)
qed

lemma strip_starts: "py_strip s \<noteq> [] \<Longrightarrow> \<not> is_blank (hd (py_strip s))"
proof -
  assume ne: "py_strip s \<noteq> []"
  let ?u = "dropWhile is_blank s"
  obtain xs where xs: "?u = py_strip s @ xs"
    unfolding py_strip_def by (metis rev_append rev_rev_ident takeWhile_dropWhile_id)
  then have "?u \<noteq> []" "hd ?u = hd (py_strip s)" using ne by simp_all
  then show "\<not> is_blank (hd (py_strip s))" using hd_dropWhile by metis
qed

lemma strip_take: "py_strip s \<noteq> [] \<Longrightarrow> 0 < n \<Longrightarrow> py_strip (take n (py_strip s)) \<noteq> []"
  using strip_starts[of s] by (cases "py_strip s"; cases n) (simp_all add: strip_Nil_iff)

text \<open>The context of a stopped turn is handed on once: the next message gets what was stored, cut to 6000 characters,
  exactly when it reads as going on, and after that message, whichever it was, nothing is left.\<close>

theorem stopped_turn_continued_once:
  assumes "store_continue_context now cs tid summary reason = Inr cs1" "tid \<noteq> []" "py_strip summary \<noteq> []"
    and "can_read cs" "leaf_key cs (continue_key tid)"
  shows "fst (consume_continue_context str_of cs1 tid (Some text))
      = Inr (if is_continuation_reply text then Some (py_strip (take 6000 (py_strip summary))) else None)
    \<and> fst (consume_continue_context str_of (snd (consume_continue_context str_of cs1 tid (Some text))) tid later) = Inr None"
proof -
  let ?s = "take 6000 (py_strip summary)"
  let ?d = "[(''summary'', PStr ?s), (''reason'', PStr reason), (''stored_at'', PFloat now)]"
  have w: "can_write cs" and cs1: "cs1 = put_row now (continue_key tid) (PDict ?d) ''agent'' cs"
    using assms(1-3) by (auto simp: store_continue_context_def cs_set_def split: if_splits)
  have "cs_get cs1 (continue_key tid) = Inr (PDict ?d)" "cs_delete cs1 (continue_key tid) = Inr (True, drop_row (continue_key tid) cs1)"
    using assms(4) w by (simp_all add: cs1 cs_delete_eq)
  then have "consume_continue_context str_of cs1 tid (Some text)
      = (Inr (if is_continuation_reply text then Some (py_strip ?s) else None), drop_row (continue_key tid) cs1)"
    using assms(2) strip_take[OF assms(3), of 6000] by (simp add: consume_continue_context_def)
  moreover have "cs_get (drop_row (continue_key tid) cs1) (continue_key tid) = Inr PNone"
    using assms(4,5) by (simp add: cs1 cs_get_drop_leaf leaf_key_put)
  ultimately show ?thesis by (simp add: consume_continue_context_def)
qed

subsection \<open>Paging\<close>

lemma takeWhile_run: "list_all P ds \<Longrightarrow> post = [] \<or> \<not> P (hd post) \<Longrightarrow> takeWhile P (ds @ post) = ds \<and> dropWhile P (ds @ post) = post"
  by (induction ds) (auto simp: takeWhile_eq_Nil_iff dropWhile_eq_self_iff)

lemma collapse_run:
  assumes "list_all is_digit ds" "4 \<le> length ds" "post = [] \<or> \<not> is_digit (hd post)" "pre = [] \<or> \<not> is_digit (last pre)"
  shows "collapse_digits (pre @ ds @ post) = collapse_digits pre @ ''#'' @ collapse_digits post"
  using assms(4)
proof (induction pre rule: collapse_digits.induct)
  case (1 s)
  show ?case
  proof (cases s)
    case Nil
    obtain c cs where ds: "ds = c # cs" "is_digit c" using assms(1,2) by (cases ds) auto
    have "collapse_digits (ds @ post) = ''#'' @ collapse_digits post"
      using takeWhile_run[OF assms(1,3)] assms(2) ds
      by (subst collapse_digits.simps) (simp add: Let_def)
    then show ?thesis using Nil by (simp add: collapse_digits.simps[of "[]"])
  next
    case (Cons c cs)
    show ?thesis
    proof (cases "is_digit c")
      case False
      then have "collapse_digits (cs @ ds @ post) = collapse_digits cs @ ''#'' @ collapse_digits post"
        using 1 Cons by (auto split: if_splits)
      then show ?thesis using Cons False by (simp add: collapse_digits.simps[of "c # _"])
    next
      case True
      let ?r = "takeWhile is_digit s" and ?t = "dropWhile is_digit s"
      have t: "?t \<noteq> []" "\<not> is_digit (last ?t)"
      proof -
        have nd: "\<not> is_digit (last s)" using 1(3) Cons by simp
        then show "?t \<noteq> []" using Cons by (metis dropWhile_eq_Nil_conv last_in_set list.distinct(1))
        then have "last s = last ?t" by (metis last_appendR takeWhile_dropWhile_id)
        then show "\<not> is_digit (last ?t)" using nd by simp
      qed
      have "list_all is_digit ?r" by (auto simp: list_all_iff dest: set_takeWhileD)
      moreover have "\<not> is_digit (hd (?t @ ds @ post))" using t(1) hd_dropWhile[of is_digit s] by simp
      ultimately have "takeWhile is_digit (?r @ ?t @ ds @ post) = ?r" "dropWhile is_digit (?r @ ?t @ ds @ post) = ?t @ ds @ post"
        using takeWhile_run[of is_digit ?r "?t @ ds @ post"] by auto
      moreover have "s @ ds @ post = ?r @ ?t @ ds @ post" by (metis append.assoc takeWhile_dropWhile_id)
      ultimately have run: "takeWhile is_digit (s @ ds @ post) = ?r" "dropWhile is_digit (s @ ds @ post) = ?t @ ds @ post"
        by metis+
      have "collapse_digits (?t @ ds @ post) = collapse_digits ?t @ ''#'' @ collapse_digits post"
        using 1(1)[of c cs] Cons True t by simp
      then show ?thesis using Cons True run
        by (simp add: collapse_digits.simps[of "c # _"] Let_def)
    qed
  qed
qed

lemma repeated_tail:
  assumes "0 < limit" "limit \<le> n" "limit \<le> window"
  shows "detect_tool_loop window limit (xs @ replicate n g) \<noteq> None"
proof -
  have tail: "xs @ replicate n g = (xs @ replicate (n - limit) g) @ replicate limit g"
    using assms(2) by (simp add: replicate_add[symmetric])
  obtain zs where zs: "last_n window (xs @ replicate n g) = zs @ replicate limit g"
    unfolding tail using assms(3) by (auto simp: last_n_def)
  have "count_list (replicate m g) g = m" for m by (induction m) simp_all
  then have "\<not> count_list (zs @ replicate limit g) g < limit" by simp
  then have "first_repeated limit [] (zs @ replicate limit g) \<noteq> None"
    using first_repeated_spec[OF assms(1), of "[]" "zs @ replicate limit g"] assms(1) by auto
  then show ?thesis using assms by (auto simp: detect_tool_loop_def zs)
qed

text \<open>A model that pages through one text - calls whose arguments differ in one number of four digits or more - is
  caught once the pages reach the repetition limit, however much was called before.\<close>

theorem paging_is_caught:
  assumes "\<forall>ds \<in> set pages. list_all is_digit ds \<and> 4 \<le> length ds"
    and "post = [] \<or> \<not> is_digit (hd post)" "pre = [] \<or> \<not> is_digit (last pre)"
    and "0 < limit" "limit \<le> length pages" "limit \<le> window"
  shows "detect_tool_loop window limit (before @ map (\<lambda>ds. normalized_tool_signature name (pre @ ds @ post)) pages) \<noteq> None"
proof -
  obtain g where g: "g = name @ '':'' @ take 140 (join_with '' '' (words (collapse_digits pre @ ''#'' @ collapse_digits post)))"
    by simp
  have "normalized_tool_signature name (pre @ ds @ post) = g" if "ds \<in> set pages" for ds
    using assms(1) that collapse_run[OF _ _ assms(2,3), of ds] by (simp add: normalized_tool_signature_def g)
  then have "map (\<lambda>ds. normalized_tool_signature name (pre @ ds @ post)) pages = replicate (length pages) g"
    unfolding map_replicate_const[symmetric] by (intro map_cong) simp_all
  then show ?thesis using repeated_tail[OF assms(4-6)] by simp
qed


subsection \<open>Examples\<close>

lemma enable_on_empty:
  "\<exists>st. enable_long_task env now empty_store ''t'' actor preset mx mode rem u
     = (Inr st, put_row now (long_key ''t'') (PDict (long_payload env now actor preset mx mode rem u)) ''agent'' empty_store)"
proof -
  let ?d = "long_payload env now actor preset mx mode rem u"
  let ?cs = "put_row now (long_key ''t'') (PDict ?d) ''agent'' empty_store"
  have "has_record ?cs ''t'' ?d" by (simp add: has_record_def leaf_key_put)
  moreover have "0 < ttl \<Longrightarrow> now \<le> now + of_int ttl" for ttl :: int by simp
  then have "not_over now ?d" by (auto simp: payload_not_over Let_def not_le)
  ultimately have "is_long_task_active env now ?cs ''t'' = (Inr True, ?cs)"
    using running_status[OF _ payload_running] by simp
  then have "\<exists>st. long_task_status env now ?cs ''t'' = (Inr st, ?cs)"
    by (auto simp: is_long_task_active_def map_sum_def split: prod.splits sum.splits)
  then show ?thesis by (simp add: enable_long_task_def cs_set_def)
qed

lemma no_env_ttl: "long_ttl_seconds (\<lambda>_. None) = 1800" "unrestricted_ttl_seconds (\<lambda>_. None) = 3600"
  by (simp_all add: long_ttl_seconds_def unrestricted_ttl_seconds_def ttl_from_env_def env_or_empty_def py_strip_def
      py_isdigit_def DEFAULT_TTL_def UNRESTRICTED_TTL_def)

end
