(* ===== verification/Capacity.thy ===== *)
theory Capacity
  imports LongTurns HitlGrants
begin

text \<open>
  The slash commands /long, /mission and /unrestricted (kazma_core/agent/capacity_commands.py): the command at the
  start of a message, the task pasted after it, what the command asks for, and what applying it does to
  the chat's long task and YOLO window. The texts of the replies are left out.
\<close>

subsection \<open>The command of a message\<close>

definition OFF_WORDS :: "string list" where "OFF_WORDS = [''off'', ''disable'', ''0'']"
definition STATUS_WORDS :: "string list" where "STATUS_WORDS = [''status'', ''?'', ''info'']"
definition ON_WORDS :: "string list" where "ON_WORDS = [''on'', ''enable'', ''1'']"
definition MISSION_ALIASES :: "string list" where "MISSION_ALIASES = [''mission'', ''unlimited'', ''unbounded'', ''full'', ''auto'']"
definition PRESET_WORDS :: "string list" where "PRESET_WORDS = [''research'', ''deep'', ''chat'']"

text \<open>\<open>word.lower().lstrip("/")\<close>.\<close>

definition bare_command :: "string \<Rightarrow> string" where
  "bare_command w = dropWhile (\<lambda>c. c = CHR 0x2F) (py_lower w)"

definition is_capacity_command :: "bool \<Rightarrow> string \<Rightarrow> bool" where
  "is_capacity_command require_slash text =
     (case words (py_strip text) of
        [] \<Rightarrow> False
      | w # _ \<Rightarrow> \<not> (require_slash \<and> \<not> starts_with [CHR 0x2F] (py_lower w))
                 \<and> bare_command w \<in> {''long'', ''mission'', ''unrestricted''})"

text \<open>How many leading words are the command; 0 is none of them.\<close>

definition command_arity :: "string list \<Rightarrow> nat" where
  "command_arity parts =
     (case parts of
        [] \<Rightarrow> 0
      | w # ws \<Rightarrow>
          (let cmd = bare_command w; rest = map py_lower ws in
           if cmd = ''unrestricted''
           then (if rest \<noteq> [] \<and> hd rest \<in> set (OFF_WORDS @ STATUS_WORDS @ ON_WORDS) then 2 else 1)
           else if cmd = ''mission''
           then (if rest \<noteq> [] \<and> hd rest \<in> set (OFF_WORDS @ STATUS_WORDS @ ON_WORDS @ MISSION_ALIASES) then 2 else 1)
           else if cmd \<noteq> ''long'' then 0
           else (let yolo = (rest \<noteq> [] \<and> hd rest = ''yolo''); n = (if yolo then 2 else 1);
                     rest' = (if yolo then tl rest else rest)
                 in if rest' = [] then n
                    else if hd rest' \<in> set (STATUS_WORDS @ OFF_WORDS @ ON_WORDS @ MISSION_ALIASES @ PRESET_WORDS)
                            \<or> py_isdigit (hd rest') then n + 1
                    else 0)))"

text \<open>What \<open>rest.lstrip().split(None, 1)\<close> leaves after the first word.\<close>

definition drop_word :: "string \<Rightarrow> string" where
  "drop_word s = dropWhile is_blank (dropWhile (\<lambda>c. \<not> is_blank c) (dropWhile is_blank s))"

definition split_command_and_body :: "string \<Rightarrow> string \<times> string" where
  "split_command_and_body text =
     (let stripped = py_strip text; parts = words stripped; n = command_arity parts
      in if n = 0 then (stripped, [])
         else (join_with '' '' (take n parts), py_strip ((drop_word ^^ n) stripped)))"

record cap_on =
  co_mode :: string
  co_preset :: string
  co_max :: "int option"
  co_yolo :: bool
  co_turns :: int
  co_unified :: bool

datatype cap_action = CapStatus | CapOffLong | CapOffBoth | CapOn cap_on

definition parse_long :: "string list \<Rightarrow> cap_action option" where
  "parse_long rest0 =
     (let yolo = (rest0 \<noteq> [] \<and> hd rest0 = ''yolo''); rest = (if yolo then tl rest0 else rest0);
          sub = (if rest \<noteq> [] then hd rest else if yolo then ''on'' else ''status'');
          budget = (\<lambda>preset mx. CapOn \<lparr>co_mode = ''budget'', co_preset = preset, co_max = mx, co_yolo = yolo,
                      co_turns = (if yolo then 2 else 1), co_unified = False\<rparr>)
      in if sub \<in> set STATUS_WORDS then Some CapStatus
         else if sub \<in> set OFF_WORDS then Some (if yolo then CapOffBoth else CapOffLong)
         else if sub \<in> set MISSION_ALIASES
         then Some (CapOn \<lparr>co_mode = ''mission'', co_preset = ''mission'', co_max = None, co_yolo = yolo, co_turns = 3, co_unified = False\<rparr>)
         else if sub \<in> set ON_WORDS then Some (budget ''research'' None)
         else if sub \<in> set PRESET_WORDS then Some (budget sub None)
         else if py_isdigit sub then Some (budget ''custom'' (Some (int (digits_nat sub))))
         else None)"

definition parse_capacity :: "string \<Rightarrow> cap_action option" where
  "parse_capacity text =
     (case words (py_lower (py_strip text)) of
        [] \<Rightarrow> None
      | cmd # rest \<Rightarrow>
          (let bare = bare_command cmd; sub = (if rest \<noteq> [] then hd rest else ''on'') in
           if bare = ''unrestricted''
           then Some (if sub \<in> set OFF_WORDS then CapOffBoth
                      else if sub \<in> set STATUS_WORDS then CapStatus
                      else CapOn \<lparr>co_mode = ''mission'', co_preset = ''mission'', co_max = None, co_yolo = True, co_turns = 1, co_unified = True\<rparr>)
           else if bare = ''mission''
           then Some (if sub \<in> set STATUS_WORDS then CapStatus
                      else if sub \<in> set OFF_WORDS then CapOffLong
                      else CapOn \<lparr>co_mode = ''mission'', co_preset = ''mission'', co_max = None, co_yolo = False, co_turns = 3, co_unified = False\<rparr>)
           else if bare \<noteq> ''long'' then None
           else parse_long rest))"

definition capacity_command_enables_yolo :: "bool \<Rightarrow> string \<Rightarrow> bool" where
  "capacity_command_enables_yolo require_slash text \<longleftrightarrow>
     is_capacity_command require_slash text
     \<and> (case parse_capacity (fst (split_command_and_body text)) of Some (CapOn on) \<Rightarrow> co_yolo on | _ \<Rightarrow> False)"

subsection \<open>Applying a command\<close>

record cap_result =
  cr_handled :: bool
  cr_action :: string
  cr_long :: bool
  cr_yolo :: bool
  cr_blocked :: bool
  cr_body :: "string option"

definition unhandled :: cap_result where
  "unhandled = \<lparr>cr_handled = False, cr_action = [], cr_long = False, cr_yolo = False, cr_blocked = False, cr_body = None\<rparr>"

definition said :: "string \<Rightarrow> cap_result" where
  "said what = unhandled\<lparr>cr_handled := True, cr_action := what\<rparr>"

text \<open>The flags a reply carries; an exception is the answer \<open>error\<close>.\<close>

definition with_flags ::
  "environ \<Rightarrow> real \<Rightarrow> string \<Rightarrow> string \<Rightarrow> bool \<Rightarrow> string \<Rightarrow> cstore \<Rightarrow> cap_result \<times> cstore" where
  "with_flags env now tid what blocked body cs =
     (case is_long_task_active env now cs tid of
        (Inl _, cs1) \<Rightarrow> (said ''error'', cs1)
      | (Inr long, cs1) \<Rightarrow>
          (case is_yolo_active now cs1 (Some tid) of
             (Inl _, cs2) \<Rightarrow> (said ''error'', cs2)
           | (Inr yolo, cs2) \<Rightarrow>
               (\<lparr>cr_handled = True, cr_action = what, cr_long = long, cr_yolo = yolo, cr_blocked = blocked,
                 cr_body = (if body = [] then None else Some body)\<rparr>, cs2)))"

text \<open>\<open>format_capacity_status\<close> asks for both records, and for the long task again.\<close>

definition ask_status :: "environ \<Rightarrow> real \<Rightarrow> string \<Rightarrow> cstore \<Rightarrow> (exn + unit) \<times> cstore" where
  "ask_status env now tid cs =
     (case long_task_status env now cs tid of
        (Inl e, cs1) \<Rightarrow> (Inl e, cs1)
      | (Inr _, cs1) \<Rightarrow>
          (case yolo_status now cs1 tid of
             (Inl e, cs2) \<Rightarrow> (Inl e, cs2)
           | (Inr _, cs2) \<Rightarrow> (case long_task_status env now cs2 tid of (st, cs3) \<Rightarrow> (map_sum id (\<lambda>_. ()) st, cs3))))"

text \<open>The seconds the YOLO window of a unified command gets: those of the long task, 0 (no end) when it has none.\<close>

definition unified_ttl :: "long_status \<Rightarrow> int" where
  "unified_ttl st = (case st of LOn i \<Rightarrow> (case py_int (li_ttl i) of None \<Rightarrow> 0 | Some n \<Rightarrow> n) | LOff _ _ _ \<Rightarrow> 0)"

definition enable_both :: "environ \<Rightarrow> real \<Rightarrow> string \<Rightarrow> string \<Rightarrow> cap_on \<Rightarrow> cstore \<Rightarrow> (exn + bool) \<times> cstore" where
  "enable_both env now tid actor on cs =
     (case enable_long_task env now cs tid actor (co_preset on) (co_max on) (co_mode on) (Some (co_turns on)) (co_unified on) of
        (Inl e, cs1) \<Rightarrow> (Inl e, cs1)
      | (Inr st, cs1) \<Rightarrow>
          if \<not> co_yolo on then (Inr False, cs1)
          else (case enable_yolo env now cs1 tid actor False (if co_unified on then Some (unified_ttl st) else None) of
                  (Inl (YoloDisabledError _), cs2) \<Rightarrow> (Inr True, cs2)
                | (_, cs2) \<Rightarrow> (Inr False, cs2)))"

definition apply_capacity_command ::
  "environ \<Rightarrow> real \<Rightarrow> string \<Rightarrow> string \<Rightarrow> bool \<Rightarrow> string \<Rightarrow> cstore \<Rightarrow> cap_result \<times> cstore" where
  "apply_capacity_command env now tid actor require_slash text cs =
     (if tid = [] \<or> \<not> is_capacity_command require_slash text then (unhandled, cs)
      else case split_command_and_body text of (cmd, body) \<Rightarrow>
        (case parse_capacity cmd of
           None \<Rightarrow> (said ''help'', cs)
         | Some CapStatus \<Rightarrow>
             (case ask_status env now tid cs of
                (Inl _, cs') \<Rightarrow> (said ''error'', cs')
              | (Inr _, cs') \<Rightarrow> with_flags env now tid ''status'' False body cs')
         | Some CapOffLong \<Rightarrow>
             (case disable_long_task cs tid of
                Inl _ \<Rightarrow> (said ''error'', cs)
              | Inr cs' \<Rightarrow> with_flags env now tid ''off_long'' False body cs')
         | Some CapOffBoth \<Rightarrow>
             (case disable_long_task cs tid of
                Inl _ \<Rightarrow> (said ''error'', cs)
              | Inr cs' \<Rightarrow>
                  (case disable_yolo cs' tid of
                     (Inl _, cs'') \<Rightarrow> (said ''error'', cs'')
                   | (Inr _, cs'') \<Rightarrow> with_flags env now tid ''off_both'' False body cs''))
         | Some (CapOn on) \<Rightarrow>
             (case enable_both env now tid actor on cs of
                (Inl _, cs') \<Rightarrow> (said ''error'', cs')
              | (Inr blocked, cs') \<Rightarrow> with_flags env now tid ''on'' blocked body cs')))"

subsection \<open>The command and the task\<close>

lemma words_blanks: "words (dropWhile is_blank s) = words s"
  by (induction s) auto

lemma words_of_word:
  "\<not> is_blank c \<Longrightarrow> \<exists>w. is_word_text (c # w) \<and> words (c # cs) = (c # w) # words (dropWhile (\<lambda>c. \<not> is_blank c) cs)"
proof (induction cs arbitrary: c)
  case Nil
  then show ?case by (auto simp: is_word_text_def intro: exI[of _ "[]"])
next
  case (Cons d cs)
  show ?case
  proof (cases "is_blank d")
    case True
    then show ?thesis using Cons.prems by (auto simp: is_word_text_def intro: exI[of _ "[]"])
  next
    case False
    then obtain w where "is_word_text (d # w)" "words (d # cs) = (d # w) # words (dropWhile (\<lambda>c. \<not> is_blank c) cs)"
      using Cons.IH by blast
    then show ?thesis using Cons.prems False by (intro exI[of _ "d # w"]) (simp add: is_word_text_def)
  qed
qed

lemma words_are_words: "list_all is_word_text (words s)"
proof (induction "length s" arbitrary: s rule: less_induct)
  case less
  show ?case
  proof (cases "dropWhile is_blank s")
    case Nil
    have "words s = []" using words_blanks[of s] unfolding Nil by simp
    then show ?thesis by simp
  next
    case (Cons c cs)
    then have "\<not> is_blank c" using hd_dropWhile[of is_blank s] by simp
    then obtain w where w: "is_word_text (c # w)" "words (c # cs) = (c # w) # words (dropWhile (\<lambda>c. \<not> is_blank c) cs)"
      using words_of_word by blast
    have "length (dropWhile (\<lambda>c. \<not> is_blank c) cs) < length s"
      using length_dropWhile_le[of is_blank s] length_dropWhile_le[of "\<lambda>c. \<not> is_blank c" cs] Cons by simp
    from less[OF this] have "list_all is_word_text (words (c # cs))" unfolding w(2) using w(1) by simp
    then show ?thesis using words_blanks[of s] unfolding Cons by simp
  qed
qed

lemma words_drop_word: "words (drop_word s) = tl (words s)"
proof (cases "dropWhile is_blank s")
  case Nil
  have "words s = []" using words_blanks[of s] unfolding Nil by simp
  then show ?thesis unfolding drop_word_def Nil by simp
next
  case (Cons c cs)
  then have "\<not> is_blank c" using hd_dropWhile[of is_blank s] by simp
  then show ?thesis using words_of_word[of c cs] Cons words_blanks[of s]
    by (auto simp: drop_word_def words_blanks)
qed

lemma words_drop_words: "words ((drop_word ^^ n) s) = drop n (words s)"
  by (induction n) (simp_all add: words_drop_word tl_drop drop_Suc)

lemma words_only_blanks: "list_all is_blank b \<Longrightarrow> words b = []"
  by (induction b) auto

lemma words_append_blanks: "list_all is_blank b \<Longrightarrow> words (s @ b) = words s"
proof (induction s rule: words.induct)
  case 1
  then show ?case by (simp add: words_only_blanks)
next
  case (2 c cs)
  then show ?case by (cases cs; cases b) (auto simp: words_only_blanks split: list.split)
qed

lemma words_strip: "words (py_strip s) = words s"
proof -
  let ?u = "dropWhile is_blank s"
  have "?u = py_strip s @ rev (takeWhile is_blank (rev ?u))"
    unfolding py_strip_def by (metis rev_append rev_rev_ident takeWhile_dropWhile_id)
  moreover have "list_all is_blank (rev (takeWhile is_blank (rev ?u)))" by (auto simp: list_all_iff dest: set_takeWhileD)
  ultimately have "words ?u = words (py_strip s)" by (metis words_append_blanks)
  then show ?thesis by (simp add: words_blanks)
qed

text \<open>Taking a command off a message loses no word of the task pasted after it: the words of the command and
  the words of the task are the words of the message.\<close>

theorem no_word_is_lost:
  "words (fst (split_command_and_body text)) @ words (snd (split_command_and_body text)) = words text"
proof (cases "command_arity (words (py_strip text)) = 0")
  case True
  then show ?thesis by (simp add: split_command_and_body_def Let_def words_strip)
next
  case False
  let ?n = "command_arity (words (py_strip text))"
  have "list_all is_word_text (take ?n (words text))"
    using words_are_words[of "text"] by (auto simp: list_all_iff dest: in_set_takeD)
  then show ?thesis using False
    by (simp add: split_command_and_body_def Let_def words_join words_strip words_drop_words)
qed

subsection \<open>Which commands open a window\<close>

text \<open>Nothing new is allowed to run unasked by YOLO.\<close>

definition no_new_yolo :: "string \<Rightarrow> cstore \<Rightarrow> cstore \<Rightarrow> bool" where
  "no_new_yolo t cs cs' \<longleftrightarrow> (leaf_key cs (yolo_key t) \<longrightarrow>
     leaf_key cs' (yolo_key t) \<and> (\<forall>now. yolo_live now cs' t \<longrightarrow> yolo_live now cs t))"

lemma no_new_refl [intro]: "no_new_yolo t cs cs"
  by (simp add: no_new_yolo_def)

lemma no_new_trans: "no_new_yolo t cs cs' \<Longrightarrow> no_new_yolo t cs' cs'' \<Longrightarrow> no_new_yolo t cs cs''"
  by (auto simp: no_new_yolo_def)

lemma no_new_put_long: "no_new_yolo t cs (put_row now (long_key t') v c cs)"
proof -
  have "yolo_key t \<noteq> long_key t'" using other_keys(1)[of t' t] by simp
  then show ?thesis
    by (simp add: no_new_yolo_def yolo_live_def leaf_key_put cs_get_put_other other_keys)
qed

lemma no_new_drop_long: "no_new_yolo t cs (drop_row (long_key t') cs)"
proof -
  have "yolo_key t \<noteq> long_key t'" using other_keys(1)[of t' t] by simp
  then show ?thesis by (simp add: no_new_yolo_def yolo_live_def leaf_key_drop cs_get_drop_other other_keys)
qed

lemma no_new_drop_yolo: "no_new_yolo t cs (drop_row (yolo_key t) cs)"
  by (simp add: no_new_yolo_def leaf_key_drop yolo_live_drop)

lemma no_new_status: "no_new_yolo t cs (snd (long_task_status env now cs tid))"
proof -
  have "snd (long_task_status env now cs tid) = cs \<or> snd (long_task_status env now cs tid) = drop_row (long_key tid) cs"
    by (auto simp: long_task_status_def cs_delete_eq split: sum.split pyval.split)
  then show ?thesis using no_new_drop_long by auto
qed

lemma no_new_active: "no_new_yolo t cs (snd (is_long_task_active env now cs tid))"
  using no_new_status[of t cs env now tid] by (auto simp: is_long_task_active_def split: prod.split)

lemma no_new_yolo_active: "no_new_yolo t cs (snd (is_yolo_active now cs (Some t)))"
  using snd_is_yolo_active[of now cs t] no_new_drop_yolo[of t cs] by auto

lemma no_new_yolo_status: "no_new_yolo t cs (snd (yolo_status now cs t))"
proof -
  have "snd (yolo_status now cs t) = cs \<or> snd (yolo_status now cs t) = drop_row (yolo_key t) cs"
    by (auto simp: yolo_status_def delete_then_eq split: sum.split pyval.split option.split)
  then show ?thesis using no_new_drop_yolo by auto
qed

lemma no_new_disable_yolo: "no_new_yolo t cs (snd (disable_yolo cs t))"
proof (cases "can_write cs")
  case True
  have "\<exists>P. snd (clear_grants (drop_row (yolo_key t) cs) t)
      = drop_row (yolo_key t) cs\<lparr>rows := filter P (rows (drop_row (yolo_key t) cs))\<rparr>"
    using True by (auto simp: clear_grants_def clear_keys_rows intro: exI[of _ "\<lambda>_. True"])
  then obtain P where P: "snd (disable_yolo cs t) = drop_row (yolo_key t) cs\<lparr>rows := filter P (rows (drop_row (yolo_key t) cs))\<rparr>"
    using True by (auto simp: disable_yolo_def cs_delete_eq)
  let ?cs = "drop_row (yolo_key t) cs\<lparr>rows := filter P (rows (drop_row (yolo_key t) cs))\<rparr>"
  have "find_row ?cs (yolo_key t) = None"
    by (auto simp: find_row_def drop_row_def find_None_iff)
  then have gone: "\<not> yolo_live now ?cs t" if "leaf_key ?cs (yolo_key t)" for now
    using that by (cases "can_read ?cs") (auto simp: yolo_live_def cs_get_leaf_missing cs_get_unreadable window_open_def)
  have "leaf_key ?cs (yolo_key t)" if "leaf_key cs (yolo_key t)"
    by (rule leaf_key_filter) (use that in \<open>simp add: leaf_key_drop\<close>)
  then show ?thesis unfolding P no_new_yolo_def using gone by simp
qed (auto simp: disable_yolo_def cs_delete_eq)

lemma no_new_flags: "no_new_yolo t cs (snd (with_flags env now t what blocked body cs))"
proof -
  have "no_new_yolo t cs (snd (is_yolo_active now (snd (is_long_task_active env now cs t)) (Some t)))"
    using no_new_active no_new_yolo_active no_new_trans by blast
  then show ?thesis using no_new_active[of t cs env now t]
    by (auto simp: with_flags_def split: prod.split sum.split)
qed

lemma no_new_ask: "no_new_yolo t cs (snd (ask_status env now t cs))"
proof -
  have a: "no_new_yolo t cs (snd (long_task_status env now cs t))" by (rule no_new_status)
  then have b: "no_new_yolo t cs (snd (yolo_status now (snd (long_task_status env now cs t)) t))"
    using no_new_yolo_status no_new_trans by blast
  then have "no_new_yolo t cs (snd (long_task_status env now (snd (yolo_status now (snd (long_task_status env now cs t)) t)) t))"
    using no_new_status no_new_trans by blast
  then show ?thesis using a b by (auto simp: ask_status_def split: prod.split sum.split)
qed

lemma no_new_enable_long: "no_new_yolo t cs (snd (enable_long_task env now cs tid actor preset mx mode rem u))"
proof -
  have "no_new_yolo t cs (snd (long_task_status env now (put_row now (long_key tid) v c cs) tid))" for v c
    using no_new_put_long no_new_status no_new_trans by blast
  then show ?thesis by (auto simp: enable_long_task_def cs_set_def)
qed

text \<open>A command that is not announced as one that enables YOLO opens no YOLO window of the chat, whatever it is and
  whatever the store holds: what runs unasked by YOLO after it, at any time, did so before it.\<close>

theorem only_announced_commands_open_yolo:
  assumes "\<not> capacity_command_enables_yolo require_slash text" "leaf_key cs (yolo_key t)"
    and "yolo_live later (snd (apply_capacity_command env now t actor require_slash text cs)) t"
  shows "yolo_live later cs t"
proof -
  obtain cmd body where s: "split_command_and_body text = (cmd, body)" by fastforce
  have flags: "no_new_yolo t cs c \<Longrightarrow> no_new_yolo t cs (snd (with_flags env now t what b body c))" for c what b
    using no_new_flags no_new_trans by blast
  have off: "disable_long_task cs t = Inr c \<Longrightarrow> no_new_yolo t cs c" for c
    using no_new_drop_long[of t cs t] by (auto simp: disable_long_task_def cs_delete_eq split: if_splits)
  have on: "no_new_yolo t cs (snd (enable_both env now t actor on cs))" if "\<not> co_yolo on" for on
    using that no_new_enable_long[of t cs env now t actor "co_preset on" "co_max on" "co_mode on" "Some (co_turns on)" "co_unified on"]
    by (auto simp: enable_both_def split: prod.split sum.split)
  have "no_new_yolo t cs (snd (apply_capacity_command env now t actor require_slash text cs))"
  proof (cases "t = [] \<or> \<not> is_capacity_command require_slash text")
    case False
    then have cap: "is_capacity_command require_slash text" by simp
    show ?thesis
    proof (cases "parse_capacity cmd")
      case None
      then show ?thesis using s by (auto simp: apply_capacity_command_def)
    next
      case (Some act)
      note unfold = apply_capacity_command_def s Some
      show ?thesis
      proof (cases act)
        case CapStatus
        then show ?thesis using False no_new_ask[of t cs env now] flags[OF no_new_ask[of t cs env now]]
          by (auto simp: unfold split: prod.split sum.split)
      next
        case CapOffLong
        then show ?thesis using False flags[OF off] by (auto simp: unfold split: sum.split)
      next
        case CapOffBoth
        have "no_new_yolo t cs (snd (disable_yolo c t))" if "disable_long_task cs t = Inr c" for c
          using off[OF that] no_new_disable_yolo no_new_trans by blast
        then have "no_new_yolo t cs c'" if "disable_long_task cs t = Inr c" "disable_yolo c t = (r, c')" for c r c'
          using that by (metis snd_conv)
        then show ?thesis using False CapOffBoth by (auto simp: unfold intro!: flags split: prod.split sum.split)
      next
        case (CapOn on)
        then have "\<not> co_yolo on" using assms(1) cap s Some by (simp add: capacity_command_enables_yolo_def)
        from on[OF this] have "no_new_yolo t cs c'" if "enable_both env now t actor on cs = (r, c')" for r c'
          using that by simp
        then show ?thesis using False CapOn by (auto simp: unfold intro!: flags split: prod.split sum.split)
      qed
    qed
  qed (auto simp: apply_capacity_command_def)
  then show ?thesis using assms(2,3) by (simp add: no_new_yolo_def)
qed


subsection \<open>On and off together\<close>

lemma payload_info:
  assumes "long_info_of env now d = Inr i"
  shows "li_ttl i = dget d ''ttl_seconds''"
  using assms by (auto simp: long_info_of_def Let_def split: sum.splits prod.splits)

lemma enabled_unified_ttl:
  assumes "enable_long_task env now cs tid actor preset mx mode rem True = (Inr st, cs')"
    and "can_read cs" "tid \<noteq> []" "leaf_key cs (long_key tid)"
  shows "unified_ttl st = unrestricted_ttl_seconds env"
proof -
  let ?d = "long_payload env now actor preset mx mode rem True"
  have rec: "has_record cs' tid ?d" and cs': "cs' = put_row now (long_key tid) (PDict ?d) ''agent'' cs"
    using enabled_record[OF assms] by simp_all
  have set: "can_write cs" using assms(1) by (auto simp: enable_long_task_def cs_set_def split: if_splits)
  have "0 < ttl \<Longrightarrow> now \<le> now + of_int ttl" for ttl :: int by simp
  then have alive: "not_over now ?d" by (auto simp: payload_not_over Let_def not_le)
  obtain i where i: "long_info_of env now ?d = Inr i" using int_fields_info[OF plan_fields] by blast
  have "long_task_status env now cs' tid = (Inr (LOn i), cs')"
    using rec alive i payload_running[of env now actor preset mx mode rem True]
    by (auto simp: long_task_status_def has_record_def running_def not_over_def split: option.splits)
  moreover have "long_task_status env now cs' tid = (Inr st, cs')"
    using assms(1) set by (simp add: enable_long_task_def cs_set_def cs')
  ultimately show ?thesis using payload_info[OF i] by (simp add: unified_ttl_def payload_fields)
qed

lemma enable_yolo_cases:
  assumes "enable_yolo env now cs t actor False req = (r, cs')" "can_read cs" "can_write cs"
  shows "(\<exists>why. r = Inl (YoloDisabledError why)) \<or> (\<exists>st. r = Inr st)"
  using assms yolo_status_payload[OF assms(2)]
  by (auto simp: enable_yolo_def cs_set_def Let_def split: if_splits)

text \<open>What /unrestricted asks for.\<close>

definition asks_unrestricted :: "string \<Rightarrow> bool" where
  "asks_unrestricted text \<longleftrightarrow>
     (case parse_capacity (fst (split_command_and_body text)) of Some (CapOn on) \<Rightarrow> co_unified on \<and> co_yolo on | _ \<Rightarrow> False)"

lemma unrestricted_pairs:
  assumes "apply_capacity_command env t0 tid actor require_slash text cs = (r, cs')"
    and "asks_unrestricted text" "cr_action r = ''on''" "\<not> cr_blocked r"
    and "can_read cs" "leaf_key cs (long_key tid)" "ttl = unrestricted_ttl_seconds env" "0 < ttl"
  shows "paired cs' tid ttl (t0 + of_int ttl)"
proof -
  obtain cmd body where s: "split_command_and_body text = (cmd, body)" by fastforce
  obtain on where on: "parse_capacity cmd = Some (CapOn on)" "co_unified on" "co_yolo on"
    using assms(2) s by (auto simp: asks_unrestricted_def split: option.splits cap_action.splits)
  have tid: "tid \<noteq> []" "is_capacity_command require_slash text"
    using assms(1,3) by (auto simp: apply_capacity_command_def unhandled_def split: if_splits)
  obtain e c where both: "enable_both env t0 tid actor on cs = (e, c)" by fastforce
  obtain b where b: "e = Inr b" "with_flags env t0 tid ''on'' b body c = (r, cs')"
    using assms(1,3) tid s on(1) both by (cases e) (auto simp: apply_capacity_command_def said_def)
  obtain st c1 where l: "enable_long_task env t0 cs tid actor (co_preset on) (co_max on) (co_mode on) (Some (co_turns on)) True = (Inr st, c1)"
    using both b(1) on(2) by (auto simp: enable_both_def split: prod.splits sum.splits)
  note rec = enabled_record[OF l assms(5) tid(1) assms(6)]
  have u: "unified_ttl st = ttl" using enabled_unified_ttl[OF l assms(5) tid(1) assms(6)] assms(7) by simp
  obtain y c2 where y: "enable_yolo env t0 c1 tid actor False (Some ttl) = (y, c2)" by fastforce
  have ycase: "(\<exists>why. y = Inl (YoloDisabledError why)) \<or> (\<exists>ys. y = Inr ys)"
    using enable_yolo_cases[OF y] rec(2) by (simp add: has_record_def)
  have res: "c = c2 \<and> (b \<longleftrightarrow> (\<exists>why. y = Inl (YoloDisabledError why)))"
    using both b(1) l y u on(2,3) ycase by (auto simp: enable_both_def)
  have nb: "\<not> b" using b(2) assms(3,4) by (auto simp: with_flags_def said_def unhandled_def split: prod.splits sum.splits)
  then obtain ys where "y = Inr ys" using ycase res by auto
  then have p: "paired c tid ttl (t0 + of_int ttl)"
    using arming_pairs[OF l _ assms(7,8,5) tid(1) assms(6), of False] y res by simp
  have "fst (is_long_task_active env t0 c tid) = Inr True" "yolo_live t0 c tid"
    using paired_active(1)[OF p, of env t0] paired_active(2)[OF p, of t0] assms(8) is_yolo_active_iff by simp_all
  then have "is_yolo_active t0 c (Some tid) = (Inr True, c)" using is_yolo_active_live by simp
  moreover have "is_long_task_active env t0 c tid = (Inr True, c)"
  proof -
    obtain d where d: "has_record c tid d" "running d" using p unfolding paired_def by blast
    then show ?thesis using running_status[OF d, of env t0] \<open>fst (is_long_task_active env t0 c tid) = Inr True\<close> by simp
  qed
  ultimately have "cs' = c" using b(2) by (simp add: with_flags_def)
  then show ?thesis using p by simp
qed

text \<open>/unrestricted has one clock: after the command armed the long task and the YOLO window, and the chat's turns
  never came further apart than its lifetime, both are active up to the same moment - one lifetime after the last
  turn - and neither is after it.\<close>

theorem unrestricted_has_one_clock:
  assumes "apply_capacity_command env t0 tid actor require_slash text cs = (r, cs')"
    and "asks_unrestricted text" "cr_action r = ''on''" "\<not> cr_blocked r"
    and "can_read cs" "leaf_key cs (long_key tid)" "ttl = unrestricted_ttl_seconds env" "0 < ttl"
    and "never_idle (of_int ttl) t0 ts"
  shows "(fst (is_long_task_active env now (after_turns env cs' tid ts) tid) = Inr True
            \<longleftrightarrow> now \<le> last (t0 # ts) + of_int ttl)
       \<and> (fst (is_yolo_active now (after_turns env cs' tid ts) (Some tid)) = Inr True
            \<longleftrightarrow> now \<le> last (t0 # ts) + of_int ttl)"
  using paired_active[OF paired_turns[OF unrestricted_pairs[OF assms(1-8)] assms(8,9)]] by simp

text \<open>What \<open>/unrestricted off\<close> and \<open>/long yolo off\<close> leave.\<close>

lemma disable_yolo_long: "cs_get (snd (disable_yolo cs t)) (long_key t') = Inr PNone"
  if "no_record cs t'" "leaf_key cs (long_key t')" "can_read cs" "find_row cs (long_key t') = None"
proof -
  have "\<exists>P. snd (disable_yolo cs t) = cs\<lparr>rows := filter P (rows cs)\<rparr>"
  proof (cases "can_write cs")
    case True
    have "\<exists>P. snd (clear_grants (drop_row (yolo_key t) cs) t)
        = drop_row (yolo_key t) cs\<lparr>rows := filter P (rows (drop_row (yolo_key t) cs))\<rparr>"
      using True by (auto simp: clear_grants_def clear_keys_rows intro: exI[of _ "\<lambda>_. True"])
    then show ?thesis using True by (auto simp: disable_yolo_def cs_delete_eq drop_row_def)
  next
    case False
    then show ?thesis by (auto simp: disable_yolo_def cs_delete_eq intro: exI[of _ "\<lambda>_. True"])
  qed
  then obtain P where P: "snd (disable_yolo cs t) = cs\<lparr>rows := filter P (rows cs)\<rparr>" ..
  have "find_row (cs\<lparr>rows := filter P (rows cs)\<rparr>) (long_key t') = None"
    using that(4) by (auto simp: find_row_def find_None_iff)
  then show ?thesis unfolding P using that(2,3) leaf_key_filter by (intro cs_get_leaf_missing) auto
qed


lemma disabled_yolo_not_live:
  assumes "disable_yolo cs t = (Inr (), cs')" "leaf_key cs (yolo_key t)"
  shows "\<not> yolo_live now cs' t"
proof -
  have w: "can_write cs" and cs': "cs' = snd (clear_grants (drop_row (yolo_key t) cs) t)"
    using assms(1) by (auto simp: disable_yolo_def cs_delete_eq split: if_splits)
  have "\<exists>P. cs' = drop_row (yolo_key t) cs\<lparr>rows := filter P (rows (drop_row (yolo_key t) cs))\<rparr>"
    unfolding cs' using w by (auto simp: clear_grants_def clear_keys_rows intro: exI[of _ "\<lambda>_. True"])
  then obtain P where P: "cs' = drop_row (yolo_key t) cs\<lparr>rows := filter P (rows (drop_row (yolo_key t) cs))\<rparr>" ..
  have "find_row cs' (yolo_key t) = None" unfolding P by (auto simp: find_row_def drop_row_def find_None_iff)
  moreover have "leaf_key cs' (yolo_key t)" unfolding P by (rule leaf_key_filter) (use assms(2) in \<open>simp add: leaf_key_drop\<close>)
  ultimately show ?thesis
    by (cases "can_read cs'") (auto simp: yolo_live_def cs_get_leaf_missing cs_get_unreadable window_open_def)
qed

fun action_name :: "cap_action \<Rightarrow> string" where
  "action_name CapStatus = ''status''"
| "action_name CapOffLong = ''off_long''"
| "action_name CapOffBoth = ''off_both''"
| "action_name (CapOn _) = ''on''"

lemma flags_action: "with_flags env now t what b body c = (r, c') \<Longrightarrow> cr_action r \<in> {what, ''error''}"
  by (auto simp: with_flags_def said_def split: prod.splits sum.splits)

lemma applied_action:
  assumes "apply_capacity_command env now t actor require_slash text cs = (r, cs')"
    and "t \<noteq> []" "is_capacity_command require_slash text" "split_command_and_body text = (cmd, body)"
  shows "(parse_capacity cmd = None \<and> cr_action r = ''help'')
    \<or> (\<exists>act. parse_capacity cmd = Some act \<and> cr_action r \<in> {action_name act, ''error''})"
proof (cases "parse_capacity cmd")
  case None
  then show ?thesis using assms by (auto simp: apply_capacity_command_def said_def)
next
  case (Some act)
  have e: "said ''error'' = r \<Longrightarrow> cr_action r \<in> {action_name act, ''error''}" by (auto simp: said_def)
  have "cr_action r \<in> {action_name act, ''error''}"
    using assms Some e
    by (cases act; simp add: apply_capacity_command_def; force dest: flags_action split: prod.splits sum.splits)
  then show ?thesis using Some by blast
qed

text \<open>When a command reports that both are off, the chat has no long task and no YOLO window, then and at every later
  time, until one is enabled again.\<close>

theorem off_is_off:
  assumes "apply_capacity_command env now t actor require_slash text cs = (r, cs')" "cr_action r = ''off_both''"
    and "can_read cs" "leaf_key cs (long_key t)" "leaf_key cs (yolo_key t)"
  shows "turns_raised env cs' t ts = replicate (length ts) False \<and> \<not> yolo_live later cs' t"
proof -
  obtain cmd body where s: "split_command_and_body text = (cmd, body)" by fastforce
  have tid: "t \<noteq> []" "is_capacity_command require_slash text"
    using assms(1,2) by (auto simp: apply_capacity_command_def unhandled_def split: if_splits)
  obtain act where act: "parse_capacity cmd = Some act" "cr_action r \<in> {action_name act, ''error''}"
    using applied_action[OF assms(1) tid s] assms(2) by auto
  then have act: "parse_capacity cmd = Some CapOffBoth" using assms(2) by (cases act) simp_all
  let ?c1 = "drop_row (long_key t) cs"
  have w: "can_write cs" "disable_long_task cs t = Inr ?c1"
    using assms(1,2) s tid act by (auto simp: apply_capacity_command_def disable_long_task_def cs_delete_eq said_def split: if_splits)
  have w1: "can_write ?c1" using w(1) by simp
  obtain c2 where d: "disable_yolo ?c1 t = (Inr (), c2)"
    using w1 by (auto simp: disable_yolo_def cs_delete_eq)
  have last: "(r, cs') = with_flags env now t ''off_both'' False body c2"
    using assms(1) s tid act w(2) d by (simp add: apply_capacity_command_def)
  have leaf1: "leaf_key ?c1 (long_key t)" "leaf_key ?c1 (yolo_key t)"
    using assms(4,5) other_keys[of t t] by (simp_all add: leaf_key_drop)
  have long: "no_record c2 t"
    using disable_yolo_long[of ?c1 t t] d leaf1(1) assms(3) by (simp add: no_record_def cs_get_leaf_missing)
  have yolo: "\<not> yolo_live now' c2 t" for now' using disabled_yolo_not_live[OF d leaf1(2)] .
  have c2: "is_long_task_active env now c2 t = (Inr False, c2)" using long by (rule no_record_inactive)
  have leaf2: "leaf_key c2 (yolo_key t)"
    using no_new_disable_yolo[of t ?c1] leaf1(2) d by (simp add: no_new_yolo_def)
  have "cs' = c2 \<or> cs' = drop_row (yolo_key t) c2"
    using last snd_is_yolo_active[of now c2 t] by (auto simp: with_flags_def c2 split: prod.splits sum.splits)
  then have "no_record cs' t \<and> \<not> yolo_live later cs' t"
  proof
    assume "cs' = drop_row (yolo_key t) c2"
    then show ?thesis using long yolo_live_drop[OF leaf2] other_keys[of t t] cs_get_drop_other[of "long_key t" "yolo_key t" c2]
      by (simp add: no_record_def)
  qed (use long yolo in simp)
  then show ?thesis using no_record_turns by blast
qed

subsection \<open>Examples\<close>

lemma example_commands:
  "asks_unrestricted ''/unrestricted''" "is_capacity_command True ''/unrestricted''"
  "split_command_and_body ''/unrestricted'' = (''/unrestricted'', [])"
  "is_capacity_command True ''/unrestricted off''" "parse_capacity ''/unrestricted off'' = Some CapOffBoth"
  "split_command_and_body ''/unrestricted off'' = (''/unrestricted off'', [])"
  "\<not> capacity_command_enables_yolo True ''/long bananas''" "is_capacity_command True ''/long bananas''"
  "split_command_and_body ''/long bananas'' = (''/long bananas'', [])" "parse_capacity ''/long bananas'' = None"
  "parse_capacity ''/unrestricted'' = Some (CapOn \<lparr>co_mode = ''mission'', co_preset = ''mission'', co_max = None,
     co_yolo = True, co_turns = 1, co_unified = True\<rparr>)"
  by code_simp+

lemma empty_drop: "drop_row k empty_store = empty_store"
  by (simp add: drop_row_def empty_store_def)

lemma empty_disable_yolo: "disable_yolo empty_store ''t'' = (Inr (), empty_store)"
proof -
  have "snd (clear_grants empty_store ''t'') = empty_store"
    by (simp add: clear_grants_def clear_keys_rows)
  then show ?thesis by (simp add: disable_yolo_def cs_delete_eq empty_drop)
qed

end
