(* ===== verification/TurnBudget.thy ===== *)
theory TurnBudget
  imports LongTask
begin

text \<open>
  What a chat turn may spend: wall-clock seconds (kazma_core/agent/turn_budget.py), tokens and dollars a day
  (kazma_core/agent/turn_token_budget.py), and the session's cost breaker (kazma_core/cost_breaker.py), with the
  gates of the supervisor that ask them (kazma_core/agent/graph_supervisor.py).
\<close>

subsection \<open>Settings\<close>

datatype budget_source = FromEnv | FromSetting | ByDefault

text \<open>\<open>int(str(value).strip())\<close> of a stored value; the text of a float is no whole number.\<close>

definition whole_number :: "int \<Rightarrow> pyval \<Rightarrow> int option" where
  "whole_number most v =
     (case (case v of PInt n \<Rightarrow> Some n | PStr s \<Rightarrow> parse_int s | _ \<Rightarrow> None) of
        None \<Rightarrow> None
      | Some n \<Rightarrow> if 0 \<le> n \<and> n \<le> most then Some n else None)"

definition unset :: "pyval \<Rightarrow> bool" where
  "unset v \<longleftrightarrow> v = PNone \<or> (case v of PStr s \<Rightarrow> py_strip s = [] | _ \<Rightarrow> False)"

subsection \<open>Wall-clock seconds\<close>

definition MAX_TURN_TIMEOUT_SECONDS :: int where "MAX_TURN_TIMEOUT_SECONDS = 86400"

definition parse_turn_timeout :: "pyval \<Rightarrow> int option" where
  "parse_turn_timeout = whole_number MAX_TURN_TIMEOUT_SECONDS"

definition env_limit :: "environ \<Rightarrow> int option" where
  "env_limit env =
     (let raw = py_strip (env_or_empty env ''KAZMA_TURN_TIMEOUT_SECONDS'')
      in if raw = [] then None else parse_turn_timeout (PStr raw))"

definition turn_timeout_setting :: "environ \<Rightarrow> cstore \<Rightarrow> exn + (int \<times> budget_source)" where
  "turn_timeout_setting env cs =
     (case env_limit env of
        Some n \<Rightarrow> Inr (n, FromEnv)
      | None \<Rightarrow>
          (case cs_get cs ''agent.turn_timeout_seconds'' of
             Inl e \<Rightarrow> Inl e
           | Inr raw \<Rightarrow>
               if unset raw then Inr (0, ByDefault)
               else (case parse_turn_timeout raw of None \<Rightarrow> Inr (0, ByDefault) | Some n \<Rightarrow> Inr (n, FromSetting))))"

text \<open>Whether a chat has a long task, as the budgets ask; no chat has none.\<close>

definition long_asked :: "environ \<Rightarrow> real \<Rightarrow> cstore \<Rightarrow> string \<Rightarrow> (exn + bool) \<times> cstore" where
  "long_asked env now cs tid =
     (if tid = [] then (Inr False, cs)
      else case long_task_status env now cs tid of (st, cs') \<Rightarrow> (map_sum id long_active st, cs'))"

definition resolve_turn_budget :: "environ \<Rightarrow> real \<Rightarrow> cstore \<Rightarrow> string \<Rightarrow> (int \<times> budget_source) option \<times> cstore" where
  "resolve_turn_budget env now cs tid =
     (case long_asked env now cs tid of
        (Inr True, cs') \<Rightarrow> (None, cs')
      | (asked, cs') \<Rightarrow>
          (let current = (case (asked, turn_timeout_setting env cs') of
                            (Inr _, Inr c) \<Rightarrow> c
                          | _ \<Rightarrow> (case env_limit env of None \<Rightarrow> 0 | Some n \<Rightarrow> n, FromEnv))
           in (if fst current \<le> 0 then None else Some current, cs')))"

subsection \<open>Tokens\<close>

definition DEFAULT_TURN_TOKEN_BUDGET :: int where "DEFAULT_TURN_TOKEN_BUDGET = 500000"
definition MAX_TURN_TOKEN_BUDGET :: int where "MAX_TURN_TOKEN_BUDGET = 100000000"

definition parse_turn_token_budget :: "pyval \<Rightarrow> int option" where
  "parse_turn_token_budget = whole_number MAX_TURN_TOKEN_BUDGET"

definition turn_token_budget_setting :: "cstore \<Rightarrow> exn + (int \<times> budget_source)" where
  "turn_token_budget_setting cs =
     (case cs_get cs ''agent.turn_token_budget'' of
        Inl e \<Rightarrow> Inl e
      | Inr raw \<Rightarrow>
          if unset raw then Inr (DEFAULT_TURN_TOKEN_BUDGET, ByDefault)
          else (case parse_turn_token_budget raw of
                  None \<Rightarrow> Inr (DEFAULT_TURN_TOKEN_BUDGET, ByDefault) | Some n \<Rightarrow> Inr (n, FromSetting)))"

text \<open>\<open>None\<close> is no limit.\<close>

definition resolve_turn_token_budget :: "environ \<Rightarrow> real \<Rightarrow> cstore \<Rightarrow> string \<Rightarrow> int option \<times> cstore" where
  "resolve_turn_token_budget env now cs tid =
     (case long_asked env now cs tid of
        (Inr True, cs') \<Rightarrow> (None, cs')
      | (asked, cs') \<Rightarrow>
          (let tokens = (case (asked, turn_token_budget_setting cs') of
                           (Inr _, Inr c) \<Rightarrow> fst c | _ \<Rightarrow> DEFAULT_TURN_TOKEN_BUDGET)
           in (if tokens = 0 then None else Some tokens, cs')))"

subsection \<open>A turn's tokens\<close>

record turn_state =
  ts_tokens :: int
  ts_stopped :: bool
  ts_granted :: int

text \<open>What a stopped turn is promised on top: half its limit, rounded up.\<close>

definition more_tokens :: "int \<Rightarrow> int" where
  "more_tokens had = \<lceil>of_int had * 1.5 :: real\<rceil> - had"

definition start_of_turn :: "turn_state \<Rightarrow> string \<Rightarrow> int option \<Rightarrow> turn_state" where
  "start_of_turn st user_text base =
     (case base of
        Some b \<Rightarrow>
          if b \<noteq> 0 \<and> ts_stopped st \<and> py_strip user_text \<noteq> [] \<and> is_continuation_reply (py_strip user_text)
          then (let had = (if ts_granted st \<noteq> 0 then ts_granted st else b)
                in st\<lparr>ts_stopped := False, ts_granted := max (had + more_tokens had) (ts_tokens st + more_tokens had)\<rparr>)
          else \<lparr>ts_tokens = 0, ts_stopped = False, ts_granted = 0\<rparr>
      | None \<Rightarrow> \<lparr>ts_tokens = 0, ts_stopped = False, ts_granted = 0\<rparr>)"

definition effective_limit :: "turn_state \<Rightarrow> int option \<Rightarrow> int option" where
  "effective_limit st base =
     (case base of
        None \<Rightarrow> None
      | Some b \<Rightarrow> if b = 0 then None else Some (if ts_granted st \<noteq> 0 then ts_granted st else b))"

text \<open>\<open>int(v or 0)\<close>; None when it raises.\<close>

definition int_or_zero :: "pyval \<Rightarrow> int option" where
  "int_or_zero v = (if truthy v then py_int v else Some 0)"

definition add_call_tokens :: "int \<Rightarrow> pyval \<Rightarrow> int" where
  "add_call_tokens used usage =
     (case usage of
        PDict u \<Rightarrow>
          (let spent = (if dget u ''total_tokens'' \<noteq> PNone then py_int (dget u ''total_tokens'')
                        else case (int_or_zero (dget u ''prompt_tokens''), int_or_zero (dget u ''completion_tokens'')) of
                          (Some p, Some c) \<Rightarrow> Some (p + c) | _ \<Rightarrow> None)
           in used + max 0 (case spent of None \<Rightarrow> 0 | Some n \<Rightarrow> n))
      | _ \<Rightarrow> used)"

text \<open>The supervisor before a model call: at the limit the turn stops.\<close>

definition token_gate :: "turn_state \<Rightarrow> int option \<Rightarrow> turn_state option" where
  "token_gate st limit =
     (case limit of
        None \<Rightarrow> None
      | Some l \<Rightarrow> if l \<noteq> 0 \<and> l \<le> ts_tokens st then Some (st\<lparr>ts_stopped := True, ts_granted := l\<rparr>) else None)"

text \<open>A visit of the supervisor makes one call, or two when the answer was empty; a turn is a list of visits, each
  with the usage its calls report. The answer says whether the budget stopped the turn.\<close>

fun run_turn :: "int option \<Rightarrow> turn_state \<Rightarrow> pyval list list \<Rightarrow> turn_state \<times> bool" where
  "run_turn base st [] = (st, False)"
| "run_turn base st (us # visits) =
     (case token_gate st (effective_limit st base) of
        Some st' \<Rightarrow> (st', True)
      | None \<Rightarrow> run_turn base (st\<lparr>ts_tokens := foldl add_call_tokens (ts_tokens st) us\<rparr>) visits)"

subsection \<open>The daily limit\<close>

definition MAX_DAILY_COST_LIMIT_USD :: real where "MAX_DAILY_COST_LIMIT_USD = 1000000"

text \<open>\<open>round(x, 4)\<close>: a tie goes to the even digit.\<close>

definition round_fourth :: "real \<Rightarrow> real" where
  "round_fourth x =
     (let y = 10000 * x; f = \<lfloor>y\<rfloor>; d = y - of_int f
      in of_int (if d < 1 / 2 then f else if 1 / 2 < d then f + 1 else if even f then f else f + 1) / 10000)"

definition parse_daily_cost_limit :: "pyval \<Rightarrow> real option" where
  "parse_daily_cost_limit v =
     (case (case v of PInt n \<Rightarrow> Some (of_int n) | PFloat r \<Rightarrow> Some r | PStr s \<Rightarrow> parse_float s | _ \<Rightarrow> None) of
        None \<Rightarrow> None
      | Some usd \<Rightarrow> if 0 \<le> usd \<and> usd \<le> MAX_DAILY_COST_LIMIT_USD then Some (round_fourth usd) else None)"

definition daily_cost_limit_setting :: "cstore \<Rightarrow> exn + real" where
  "daily_cost_limit_setting cs =
     map_sum id (\<lambda>raw. if unset raw then 0 else case parse_daily_cost_limit raw of None \<Rightarrow> 0 | Some usd \<Rightarrow> usd)
       (cs_get cs ''agent.daily_cost_limit_usd'')"

text \<open>What the ledger says of the day: its date and its cost, or nothing when it was not measured.\<close>

type_synonym day_spend = "(string \<times> real) option"

record verdict =
  dv_limit :: real
  dv_spent :: "real option"
  dv_over :: bool

definition ALERT_STAMP :: string where "ALERT_STAMP = ''system.cost.daily_alerted''"

text \<open>Whether an alert went out, and the store with its stamp. A failed read or write ends the check.\<close>

definition alert_once_today :: "(pyval \<Rightarrow> string) \<Rightarrow> real \<Rightarrow> cstore \<Rightarrow> string \<Rightarrow> bool \<times> cstore" where
  "alert_once_today str_of now cs day =
     (case cs_get cs ALERT_STAMP of
        Inl _ \<Rightarrow> (False, cs)
      | Inr v \<Rightarrow>
          if text_or str_of v = day then (False, cs)
          else (case cs_set now cs ALERT_STAMP (PStr day) ''general'' of Inl _ \<Rightarrow> (False, cs) | Inr cs' \<Rightarrow> (True, cs')))"

definition daily_limit_check ::
  "(pyval \<Rightarrow> string) \<Rightarrow> real \<Rightarrow> cstore \<Rightarrow> day_spend \<Rightarrow> verdict \<times> bool \<times> cstore" where
  "daily_limit_check str_of now cs spend =
     (case daily_cost_limit_setting cs of
        Inl _ \<Rightarrow> (\<lparr>dv_limit = 0, dv_spent = None, dv_over = False\<rparr>, False, cs)
      | Inr limit \<Rightarrow>
          if limit \<le> 0 then (\<lparr>dv_limit = limit, dv_spent = None, dv_over = False\<rparr>, False, cs)
          else case spend of
            None \<Rightarrow> (\<lparr>dv_limit = limit, dv_spent = None, dv_over = False\<rparr>, False, cs)
          | Some (day, cost) \<Rightarrow>
              (\<lparr>dv_limit = limit, dv_spent = Some cost, dv_over = (limit \<le> cost)\<rparr>,
               if limit * 0.8 \<le> cost then alert_once_today str_of now cs day else (False, cs)))"

subsection \<open>The cost breaker\<close>

record cost_breaker =
  k_max :: real
  k_silence :: real
  k_hard :: real
  k_cost :: real
  k_last :: real
  k_halted :: bool

text \<open>A threshold: the environment's when it is a number, else the setting, else the default.\<close>

definition threshold_from :: "environ \<Rightarrow> cstore \<Rightarrow> string \<Rightarrow> string \<Rightarrow> real \<Rightarrow> real" where
  "threshold_from env cs name key dflt =
     (case (case env name of None \<Rightarrow> None | Some s \<Rightarrow> if s = [] then None else parse_float s) of
        Some r \<Rightarrow> r
      | None \<Rightarrow>
          (case cs_get cs key of
             Inl _ \<Rightarrow> dflt
           | Inr v \<Rightarrow> (case py_float v of None \<Rightarrow> dflt | Some r \<Rightarrow> r)))"

definition default_max_cost :: "environ \<Rightarrow> cstore \<Rightarrow> real" where
  "default_max_cost env cs = threshold_from env cs ''KAZMA_MAX_COST'' ''safety.max_cost'' 5"

definition default_hard_max_cost :: "environ \<Rightarrow> cstore \<Rightarrow> real" where
  "default_hard_max_cost env cs = threshold_from env cs ''KAZMA_HARD_MAX_COST'' ''safety.hard_max_cost'' 15"

definition default_silence_window :: "environ \<Rightarrow> cstore \<Rightarrow> real" where
  "default_silence_window env cs = threshold_from env cs ''KAZMA_SILENCE_WINDOW'' ''safety.silence_window'' 900"

definition cost_breaker_enabled :: "cstore \<Rightarrow> bool" where
  "cost_breaker_enabled cs =
     (case cs_get cs ''cost.breaker_enabled'' of
        Inl _ \<Rightarrow> True
      | Inr PNone \<Rightarrow> True
      | Inr (PStr s) \<Rightarrow> py_lower (py_strip s) \<notin> {''0'', ''false'', ''no'', ''off'', []}
      | Inr v \<Rightarrow> truthy v)"

definition create_cost_breaker :: "environ \<Rightarrow> cstore \<Rightarrow> real \<Rightarrow> real option \<Rightarrow> real option \<Rightarrow> cost_breaker" where
  "create_cost_breaker env cs now max_cost silence =
     \<lparr>k_max = (case max_cost of None \<Rightarrow> default_max_cost env cs | Some m \<Rightarrow> m),
      k_silence = (case silence of None \<Rightarrow> default_silence_window env cs | Some s \<Rightarrow> s),
      k_hard = default_hard_max_cost env cs, k_cost = 0, k_last = now, k_halted = False\<rparr>"

definition record_cost :: "real \<Rightarrow> cost_breaker \<Rightarrow> exn + cost_breaker" where
  "record_cost amount b =
     (if amount < 0 then Inl (ValueError ''Cost amount must be non-negative'') else Inr (b\<lparr>k_cost := k_cost b + amount\<rparr>))"

definition record_user_interaction :: "real \<Rightarrow> cost_breaker \<Rightarrow> cost_breaker" where
  "record_user_interaction now b =
     (let b' = b\<lparr>k_last := now\<rparr> in if k_halted b then b'\<lparr>k_halted := False, k_cost := 0\<rparr> else b')"

text \<open>The breaker can trip at all: it is not switched off by the environment, the setting or a budget of 0 or less.\<close>

definition breaker_on :: "environ \<Rightarrow> cstore \<Rightarrow> cost_breaker \<Rightarrow> bool" where
  "breaker_on env cs b \<longleftrightarrow>
     (case env ''KAZMA_DISABLE_COST_BREAKER'' of None \<Rightarrow> True | Some s \<Rightarrow> s \<noteq> ''1'') \<and> cost_breaker_enabled cs \<and> 0 < k_max b"

definition should_halt :: "environ \<Rightarrow> cstore \<Rightarrow> real \<Rightarrow> cost_breaker \<Rightarrow> bool \<times> cost_breaker" where
  "should_halt env cs now b =
     (if \<not> breaker_on env cs b then (False, b)
      else if k_halted b then (True, b)
      else if 0 < k_hard b \<and> k_hard b \<le> k_cost b then (True, b\<lparr>k_halted := True\<rparr>)
      else if k_cost b < k_max b then (False, b)
      else if k_silence b \<le> now - k_last b then (True, b\<lparr>k_halted := True\<rparr>)
      else (False, b))"

definition reset_cost :: "real \<Rightarrow> cost_breaker \<Rightarrow> cost_breaker" where
  "reset_cost now b = b\<lparr>k_cost := 0, k_last := now, k_halted := False\<rparr>"

definition cost_headroom :: "cost_breaker \<Rightarrow> real" where
  "cost_headroom b = max 0 (k_max b - k_cost b)"

text \<open>None stands for \<open>inf\<close>.\<close>

definition silence_remaining :: "real \<Rightarrow> cost_breaker \<Rightarrow> real option" where
  "silence_remaining now b = (if k_cost b < k_max b then None else Some (max 0 (k_silence b - (now - k_last b))))"

text \<open>
  What happens to the breaker in a session: a visit of the supervisor with iteration 0 (a user's turn, and also
  each wave of a mission that goes on by itself), a model call the gate lets through, a reset.
\<close>

datatype cost_event = FirstVisit real | ModelCall real real | ResetCost real

definition cost_event :: "environ \<Rightarrow> cstore \<Rightarrow> cost_event \<Rightarrow> cost_breaker \<Rightarrow> cost_breaker" where
  "cost_event env cs ev b =
     (case ev of
        FirstVisit now \<Rightarrow> record_user_interaction now b
      | ModelCall now amount \<Rightarrow>
          (case should_halt env cs now b of
             (True, b') \<Rightarrow> b'
           | (False, b') \<Rightarrow> (case record_cost amount b' of Inl _ \<Rightarrow> b' | Inr b'' \<Rightarrow> b''))
      | ResetCost now \<Rightarrow> reset_cost now b)"

subsection \<open>A turn stays within its budget\<close>

definition visit_tokens :: "pyval list \<Rightarrow> int" where
  "visit_tokens us = foldl add_call_tokens 0 us"

lemma add_call_tokens_shift: "add_call_tokens used u = used + add_call_tokens 0 u"
  by (simp add: add_call_tokens_def Let_def split: pyval.split)

lemma foldl_tokens: "foldl add_call_tokens used us = used + visit_tokens us"
proof (induction us arbitrary: used)
  case (Cons u us)
  have "foldl add_call_tokens used (u # us) = add_call_tokens used u + visit_tokens us" by (simp add: Cons)
  also have "\<dots> = used + (add_call_tokens 0 u + visit_tokens us)" using add_call_tokens_shift[of used u] by simp
  also have "add_call_tokens 0 u + visit_tokens us = visit_tokens (u # us)" by (simp add: Cons visit_tokens_def[of "u # us"])
  finally show ?case .
qed (simp add: visit_tokens_def)

lemma more_tokens_half: "l \<le> 2 * more_tokens l"
proof -
  obtain c where c: "c = \<lceil>of_int l * 1.5 :: real\<rceil>" by simp
  have "of_int l * 1.5 \<le> (of_int c :: real)" unfolding c by (rule le_of_int_ceiling)
  then have "(of_int (3 * l) :: real) \<le> of_int (2 * c)" by simp
  then have "3 * l \<le> 2 * c" by (simp only: of_int_le_iff)
  then show ?thesis unfolding more_tokens_def c[symmetric] by simp
qed

lemma more_tokens_pos: "0 < had \<Longrightarrow> 0 < more_tokens had"
  using more_tokens_half[of had] by simp

lemma effective_limit_tokens [simp]: "effective_limit (st\<lparr>ts_tokens := n\<rparr>) base = effective_limit st base"
  by (cases base) (simp_all add: effective_limit_def)

lemma run_turn_bound:
  assumes "effective_limit st base = Some l" "ts_tokens st < l + m" "0 \<le> m" "\<forall>us \<in> set visits. visit_tokens us \<le> m"
  shows "ts_tokens (fst (run_turn base st visits)) < l + m"
  using assms(1,2,4)
proof (induction visits arbitrary: st)
  case (Cons us visits)
  show ?case
  proof (cases "token_gate st (effective_limit st base)")
    case None
    then have "ts_tokens st < l \<or> l = 0" using Cons.prems(1) by (auto simp: token_gate_def split: if_splits)
    moreover have "l \<noteq> 0" using Cons.prems(1) by (auto simp: effective_limit_def split: option.splits if_splits)
    ultimately show ?thesis using Cons.prems(1) Cons.IH[of "st\<lparr>ts_tokens := foldl add_call_tokens (ts_tokens st) us\<rparr>"] Cons.prems(3) None
      by (auto simp: foldl_tokens)
  next
    case (Some st')
    then have "ts_tokens st' = ts_tokens st" by (auto simp: token_gate_def split: option.splits if_splits)
    then show ?thesis using Cons.prems(2) Some by simp
  qed
qed simp

lemma start_below_limit:
  assumes "0 < b" "0 \<le> ts_granted st"
  shows "\<exists>l. effective_limit (start_of_turn st text (Some b)) (Some b) = Some l \<and> ts_tokens (start_of_turn st text (Some b)) < l"
proof -
  let ?had = "if ts_granted st \<noteq> 0 then ts_granted st else b"
  have had: "0 < ?had" using assms by simp
  note m = more_tokens_pos[OF had]
  show ?thesis
  proof (cases "ts_stopped st \<and> py_strip text \<noteq> [] \<and> is_continuation_reply (py_strip text)")
    case True
    then have s: "start_of_turn st text (Some b)
        = st\<lparr>ts_stopped := False, ts_granted := max (?had + more_tokens ?had) (ts_tokens st + more_tokens ?had)\<rparr>"
      using assms by (simp add: start_of_turn_def Let_def)
    have "max (?had + more_tokens ?had) (ts_tokens st + more_tokens ?had) \<noteq> 0" using m had by (smt (verit))
    then show ?thesis unfolding s using m assms(1) by (auto simp: effective_limit_def)
  next
    case False
    then have "start_of_turn st text (Some b) = \<lparr>ts_tokens = 0, ts_stopped = False, ts_granted = 0\<rparr>"
      by (auto simp: start_of_turn_def)
    then show ?thesis using assms by (simp add: effective_limit_def)
  qed
qed

text \<open>C39: A turn spends less than its limit and one visit of the supervisor: whether it is a new turn or goes on with a
  stopped one, its tokens stay below the limit it runs under plus the most one visit's calls use.\<close>

theorem turn_stays_within_budget:
  assumes "0 < b" "0 \<le> ts_granted st" "0 \<le> m" "\<forall>us \<in> set visits. visit_tokens us \<le> m"
    and "effective_limit (start_of_turn st text (Some b)) (Some b) = Some l"
  shows "ts_tokens (fst (run_turn (Some b) (start_of_turn st text (Some b)) visits)) < l + m"
proof (rule run_turn_bound[OF assms(5) _ assms(3,4)])
  show "ts_tokens (start_of_turn st text (Some b)) < l + m"
    using start_below_limit[OF assms(1,2), of "text"] assms(3,5) by simp
qed

lemma run_turn_stopped:
  assumes "run_turn base st visits = (st', True)"
  shows "\<exists>l. effective_limit st base = Some l \<and> ts_stopped st' \<and> ts_granted st' = l \<and> l \<le> ts_tokens st'"
  using assms
proof (induction visits arbitrary: st)
  case (Cons us visits)
  show ?case
  proof (cases "token_gate st (effective_limit st base)")
    case None
    then have "run_turn base (st\<lparr>ts_tokens := foldl add_call_tokens (ts_tokens st) us\<rparr>) visits = (st', True)" using Cons.prems by simp
    from Cons.IH[OF this] show ?thesis by simp
  next
    case (Some st'')
    then show ?thesis using Cons.prems by (auto simp: token_gate_def split: option.splits if_splits)
  qed
qed simp

text \<open>A reply that goes on with a turn the budget stopped gets what the stop message promised: the turn keeps its
  tokens, and its new limit leaves at least half the old one for it, however far the last call ran past the old
  one and whatever the setting is by then.\<close>

theorem continued_turn_gets_its_promise:
  assumes "run_turn (Some b) st visits = (st', True)" "effective_limit st (Some b) = Some l" "0 < l"
    and "py_strip text \<noteq> []" "is_continuation_reply (py_strip text)" "0 < b'"
  shows "\<exists>l'. effective_limit (start_of_turn st' text (Some b')) (Some b') = Some l'
    \<and> ts_tokens (start_of_turn st' text (Some b')) = ts_tokens st'
    \<and> ts_tokens st' + more_tokens l \<le> l' \<and> l \<le> 2 * more_tokens l"
proof -
  have st': "ts_stopped st'" "ts_granted st' = l" using run_turn_stopped[OF assms(1)] assms(2) by auto
  then have s: "start_of_turn st' text (Some b')
      = st'\<lparr>ts_stopped := False, ts_granted := max (l + more_tokens l) (ts_tokens st' + more_tokens l)\<rparr>"
    using assms(3-6) by (simp add: start_of_turn_def Let_def)
  note m = more_tokens_half[of l]
  have "max (l + more_tokens l) (ts_tokens st' + more_tokens l) \<noteq> 0" using m assms(3) by (smt (verit))
  then show ?thesis unfolding s using m assms(6) by (simp add: effective_limit_def)
qed

subsection \<open>Budgets when the store cannot be read\<close>

lemma whole_number_range: "whole_number most v = Some n \<Longrightarrow> 0 \<le> n \<and> n \<le> most"
  by (auto simp: whole_number_def split: pyval.splits option.splits if_splits)

text \<open>A budget is never lost or boundless by accident: whatever the store holds, the token budget of a turn is no limit
  only for a long task or a stored zero, otherwise between 1 and 100 million, and when the store cannot be read it is
  the default; a time limit is between a second and a day.\<close>

theorem resolved_budgets_bounded:
  "(case fst (resolve_turn_token_budget env now cs tid) of
       None \<Rightarrow> can_read cs | Some n \<Rightarrow> 0 < n \<and> n \<le> MAX_TURN_TOKEN_BUDGET)
   \<and> (can_read cs \<or> fst (resolve_turn_token_budget env now cs tid) = Some DEFAULT_TURN_TOKEN_BUDGET)
   \<and> (case fst (resolve_turn_budget env now cs tid) of
       None \<Rightarrow> True | Some (n, src) \<Rightarrow> 0 < n \<and> n \<le> MAX_TURN_TIMEOUT_SECONDS)"
proof -
  obtain asked cs' where a: "long_asked env now cs tid = (asked, cs')" by fastforce
  have t: "0 \<le> fst c \<and> fst c \<le> MAX_TURN_TOKEN_BUDGET" if "turn_token_budget_setting cs' = Inr c" for c
    using that whole_number_range[of MAX_TURN_TOKEN_BUDGET]
    by (auto simp: turn_token_budget_setting_def parse_turn_token_budget_def DEFAULT_TURN_TOKEN_BUDGET_def MAX_TURN_TOKEN_BUDGET_def
        split: sum.splits if_splits option.splits)
  have e: "0 \<le> n \<and> n \<le> MAX_TURN_TIMEOUT_SECONDS" if "env_limit env = Some n" for n
    using that whole_number_range[of MAX_TURN_TIMEOUT_SECONDS] by (auto simp: env_limit_def parse_turn_timeout_def Let_def split: if_splits)
  have w: "0 \<le> fst c \<and> fst c \<le> MAX_TURN_TIMEOUT_SECONDS" if "turn_timeout_setting env cs' = Inr c" for c
    using that e whole_number_range[of MAX_TURN_TIMEOUT_SECONDS]
    by (auto simp: turn_timeout_setting_def parse_turn_timeout_def MAX_TURN_TIMEOUT_SECONDS_def
        split: sum.splits if_splits option.splits)
  have blind: "\<not> can_read cs' \<and> asked \<noteq> Inr True" if "\<not> can_read cs"
    using a that by (auto simp: long_asked_def long_task_status_def cs_get_unreadable split: if_splits)
  have def: "0 < DEFAULT_TURN_TOKEN_BUDGET" "DEFAULT_TURN_TOKEN_BUDGET \<le> MAX_TURN_TOKEN_BUDGET"
    by (simp_all add: DEFAULT_TURN_TOKEN_BUDGET_def MAX_TURN_TOKEN_BUDGET_def)
  have unread: "turn_token_budget_setting cs' = Inl StoreUnreadable" if "\<not> can_read cs"
    using blind[OF that] by (simp add: turn_token_budget_setting_def cs_get_unreadable)
  have tokens: "(case fst (resolve_turn_token_budget env now cs tid) of
       None \<Rightarrow> can_read cs | Some n \<Rightarrow> 0 < n \<and> n \<le> MAX_TURN_TOKEN_BUDGET)"
    "can_read cs \<or> fst (resolve_turn_token_budget env now cs tid) = Some DEFAULT_TURN_TOKEN_BUDGET"
  proof -
    let ?T = "case (asked, turn_token_budget_setting cs') of (Inr _, Inr c) \<Rightarrow> fst c | _ \<Rightarrow> DEFAULT_TURN_TOKEN_BUDGET"
    have T: "0 \<le> ?T \<and> ?T \<le> MAX_TURN_TOKEN_BUDGET" using t def by (auto split: sum.split)
    have D: "\<not> can_read cs \<Longrightarrow> ?T = DEFAULT_TURN_TOKEN_BUDGET" using unread by (simp split: sum.split)
    have r: "fst (resolve_turn_token_budget env now cs tid)
        = (if asked = Inr True then None else if ?T = 0 then None else Some ?T)"
      unfolding resolve_turn_token_budget_def a by (auto simp: Let_def split: sum.split bool.split)
    show "(case fst (resolve_turn_token_budget env now cs tid) of
         None \<Rightarrow> can_read cs | Some n \<Rightarrow> 0 < n \<and> n \<le> MAX_TURN_TOKEN_BUDGET)"
      unfolding r using T D def blind by (cases "can_read cs") auto
    show "can_read cs \<or> fst (resolve_turn_token_budget env now cs tid) = Some DEFAULT_TURN_TOKEN_BUDGET"
      unfolding r using D def blind by (cases "can_read cs") auto
  qed
  have "(case fst (resolve_turn_budget env now cs tid) of
       None \<Rightarrow> True | Some (n, src) \<Rightarrow> 0 < n \<and> n \<le> MAX_TURN_TIMEOUT_SECONDS)"
  proof -
    let ?C = "case (asked, turn_timeout_setting env cs') of (Inr _, Inr c) \<Rightarrow> c
      | _ \<Rightarrow> (case env_limit env of None \<Rightarrow> 0 | Some n \<Rightarrow> n, FromEnv)"
    have C: "fst ?C \<le> MAX_TURN_TIMEOUT_SECONDS"
      using w e by (auto simp: MAX_TURN_TIMEOUT_SECONDS_def split: sum.split option.split)
    have "fst (resolve_turn_budget env now cs tid) = (if asked = Inr True \<or> fst ?C \<le> 0 then None else Some ?C)"
      unfolding resolve_turn_budget_def a by (auto simp: Let_def split: sum.split bool.split)
    then show ?thesis using C by (cases ?C) (auto split: if_splits)
  qed
  then show ?thesis using tokens by simp
qed


subsection \<open>The daily alert\<close>

text \<open>The checks of one day, in the order they are made: how many alerts go out.\<close>

fun day_alerts :: "(pyval \<Rightarrow> string) \<Rightarrow> string \<Rightarrow> cstore \<Rightarrow> (real \<times> real) list \<Rightarrow> nat" where
  "day_alerts str_of day cs [] = 0"
| "day_alerts str_of day cs ((now, cost) # checks) =
     (case daily_limit_check str_of now cs (Some (day, cost)) of
        (v, alert, cs') \<Rightarrow> (if alert then 1 else 0) + day_alerts str_of day cs' checks)"

lemma stamped_is_quiet:
  assumes "can_read cs" "cs_get cs ALERT_STAMP = Inr (PStr day)"
  shows "day_alerts str_of day cs checks = 0"
proof (induction checks)
  case (Cons c checks)
  have q: "alert_once_today str_of now cs day = (False, cs)" for now
    using assms by (simp add: alert_once_today_def)
  obtain now cost where "c = (now, cost)" by (cases c)
  moreover have "snd (daily_limit_check str_of now cs (Some (day, cost))) = (False, cs)"
    using q by (auto simp: daily_limit_check_def split: sum.split)
  ultimately show ?case using Cons by (auto split: prod.split)
qed simp

text \<open>However often the daily limit is checked in a day, at most one alert goes out, whatever was
  spent at each check.\<close>

theorem one_alert_a_day:
  "day_alerts str_of day cs checks \<le> 1"
proof (induction checks arbitrary: cs)
  case (Cons c checks)
  obtain now cost where c: "c = (now, cost)" by (cases c)
  obtain v alert cs' where r: "daily_limit_check str_of now cs (Some (day, cost)) = (v, alert, cs')" by (metis prod_cases3)
  have "day_alerts str_of day cs' checks = 0" if alert
  proof (rule stamped_is_quiet)
    have a: "alert_once_today str_of now cs day = (True, cs')"
      using r that by (auto simp: daily_limit_check_def split: sum.splits if_splits)
    then have rd: "can_read cs" by (cases "can_read cs") (simp_all add: alert_once_today_def cs_get_unreadable)
    have "cs' = put_row now ALERT_STAMP (PStr day) ''general'' cs"
      using a by (auto simp: alert_once_today_def cs_set_def split: sum.splits if_splits)
    then show "can_read cs'" "cs_get cs' ALERT_STAMP = Inr (PStr day)" using rd by simp_all
  qed
  then show ?case using Cons[of cs'] r c by auto
qed simp

subsection \<open>The cost breaker bounds a session\<close>

fun charges :: "cost_event list \<Rightarrow> real list" where
  "charges [] = []"
| "charges (ModelCall _ a # es) = a # charges es"
| "charges (_ # es) = charges es"

definition same_limits :: "cost_breaker \<Rightarrow> cost_breaker \<Rightarrow> bool" where
  "same_limits b b' \<longleftrightarrow> k_max b' = k_max b \<and> k_hard b' = k_hard b \<and> k_silence b' = k_silence b"

lemma cost_event_limits: "same_limits b (cost_event env cs ev b)"
  by (auto simp: same_limits_def cost_event_def record_user_interaction_def should_halt_def record_cost_def reset_cost_def Let_def
      split: cost_event.split)

lemma should_halt_cost: "k_cost (snd (should_halt env cs now b)) = k_cost b"
  by (simp add: should_halt_def)

lemma should_halt_ceiling:
  "breaker_on env cs b \<Longrightarrow> 0 < k_hard b \<Longrightarrow> \<not> fst (should_halt env cs now b) \<Longrightarrow> k_cost b < k_hard b"
  by (auto simp: should_halt_def split: if_splits)

lemma cost_event_ceiling:
  assumes "breaker_on env cs b" "0 < k_hard b" "0 \<le> m" "k_cost b < k_hard b + m"
    and "\<And>now a. ev = ModelCall now a \<Longrightarrow> a \<le> m"
  shows "k_cost (cost_event env cs ev b) < k_hard b + m"
proof (cases ev)
  case (ModelCall now a)
  obtain h b' where s: "should_halt env cs now b = (h, b')" by fastforce
  show ?thesis
    using ModelCall s assms(4) assms(5)[OF ModelCall] should_halt_cost[of env cs now b] should_halt_ceiling[OF assms(1,2), of now]
    by (cases h) (auto simp: cost_event_def record_cost_def)
qed (use assms(2-4) in \<open>auto simp: cost_event_def record_user_interaction_def reset_cost_def Let_def\<close>)


text \<open>
  The other limit - the session's budget is spent and no user was there for the silence window - does not stop a
  mission: each of its waves visits the supervisor with iteration 0 and counts as a user interaction.
\<close>

fun attended :: "real \<Rightarrow> real \<Rightarrow> cost_event list \<Rightarrow> bool" where
  "attended silence last_seen [] = True"
| "attended silence last_seen (FirstVisit t # es) = attended silence t es"
| "attended silence last_seen (ModelCall t a # es) = (t - last_seen < silence \<and> 0 \<le> a \<and> attended silence last_seen es)"
| "attended silence last_seen (ResetCost t # es) = attended silence t es"

theorem waves_count_as_the_user:
  assumes "attended (k_silence b) (k_last b) evs" "\<not> k_halted b" "k_cost b + sum_list (charges evs) < k_hard b" "0 \<le> k_cost b"
  shows "\<not> k_halted (foldl (\<lambda>b ev. cost_event env cs ev b) b evs)"
  using assms
proof (induction evs arbitrary: b)
  case (Cons ev evs)
  have nonneg: "attended s l es \<Longrightarrow> 0 \<le> sum_list (charges es)" for s l es
    by (induction s l es rule: attended.induct) auto
  show ?case
  proof (cases ev)
    case (ModelCall now a)
    have late: "now - k_last b < k_silence b" "0 \<le> a" "attended (k_silence b) (k_last b) evs" using Cons.prems(1) ModelCall by auto
    have "\<not> k_hard b \<le> k_cost b" using Cons.prems(3) nonneg[OF late(3)] late(2) ModelCall by simp
    then have "should_halt env cs now b = (False, b)"
      using Cons.prems(2) late(1) by (auto simp: should_halt_def)
    then have "cost_event env cs ev b = b\<lparr>k_cost := k_cost b + a\<rparr>" using ModelCall late(2) by (simp add: cost_event_def record_cost_def)
    then show ?thesis using Cons.IH[of "b\<lparr>k_cost := k_cost b + a\<rparr>"] Cons.prems(2-4) late ModelCall by simp
  next
    case (FirstVisit now)
    then have "cost_event env cs ev b = b\<lparr>k_last := now\<rparr>" using Cons.prems(2) by (simp add: cost_event_def record_user_interaction_def)
    then show ?thesis using Cons.IH[of "b\<lparr>k_last := now\<rparr>"] Cons.prems FirstVisit by simp
  next
    case (ResetCost now)
    then have "cost_event env cs ev b = b\<lparr>k_cost := 0, k_last := now, k_halted := False\<rparr>" by (simp add: cost_event_def reset_cost_def)
    then show ?thesis using Cons.IH[of "b\<lparr>k_cost := 0, k_last := now, k_halted := False\<rparr>"] Cons.prems ResetCost by simp
  qed
qed simp

subsection \<open>Examples\<close>

definition fresh_turn :: turn_state where
  "fresh_turn = \<lparr>ts_tokens = 0, ts_stopped = False, ts_granted = 0\<rparr>"

lemma go_on: "py_strip ''continue'' = ''continue''" "is_continuation_reply ''continue''"
  by code_simp+

lemma turn_stays_within_budget_witness:
  "ts_tokens (fst (run_turn (Some 100) fresh_turn [[PDict [(''total_tokens'', PInt 80)]], [PDict [(''total_tokens'', PInt 80)]],
      [PDict [(''total_tokens'', PInt 80)]]])) < 180"
proof -
  have s: "start_of_turn fresh_turn ''hello'' (Some 100) = fresh_turn"
    by (simp add: start_of_turn_def fresh_turn_def)
  have "\<forall>us \<in> set [[PDict [(''total_tokens'', PInt 80)]], [PDict [(''total_tokens'', PInt 80)]], [PDict [(''total_tokens'', PInt 80)]]].
      visit_tokens us \<le> 80" by (simp add: visit_tokens_def add_call_tokens_def)
  from turn_stays_within_budget[OF _ _ _ this, of 100 fresh_turn "''hello''" 100]
  show ?thesis unfolding s by (simp add: effective_limit_def fresh_turn_def)
qed



end
