(* ===== verification/Runs.thy ===== *)
theory Runs
  imports Prelude
begin

text \<open>
  The run contract (kazma_core/runs/contract.py, kinds.py): one shape for every unit of work, the
  supervisor's verdict on it, and what the pages show of it (runs/text.py). Also when a run last made progress
  (runs/progress.py). Labels, icons and the Arabic words are left out.
\<close>

subsection \<open>Runs and kinds\<close>

datatype run_state = Queued | Running | WaitingHuman | Stalled | Slow | Failed | Done | Cancelled | Unknown

fun run_state_text :: "run_state \<Rightarrow> string" where
  "run_state_text Queued = ''queued''"
| "run_state_text Running = ''running''"
| "run_state_text WaitingHuman = ''waiting_human''"
| "run_state_text Stalled = ''stalled''"
| "run_state_text Slow = ''slow''"
| "run_state_text Failed = ''failed''"
| "run_state_text Done = ''done''"
| "run_state_text Cancelled = ''cancelled''"
| "run_state_text Unknown = ''unknown''"

definition ACTIVE_STATES :: "run_state list" where
  "ACTIVE_STATES = [Queued, Running, WaitingHuman, Stalled, Slow]"

datatype run_verdict = VOk | VSlow | VStalled | VDead | VFailed

definition ACTIONS :: "string list" where
  "ACTIONS = [''cancel'', ''retry'', ''retry_checked'', ''close'']"

definition INCIDENT_ACTIONS :: "string list" where
  "INCIDENT_ACTIONS = [''dismiss'', ''diagnose'']"

type_synonym origin = "(string \<times> string) list"

record run =
  r_id :: string
  r_kind :: string
  r_native :: string
  r_title :: string
  r_state :: run_state
  r_native_state :: string
  r_started :: "real option"
  r_progress :: "real option"
  r_note :: string
  r_owner :: "bool option"
  r_deadline :: "real option"
  r_ended :: "real option"
  r_effects :: string
  r_version :: string
  r_actions :: "string list"
  r_link :: string
  r_detail :: string
  r_origin :: origin
  r_announced :: string
  r_lineage :: string
  r_verdict :: "run_verdict option"
  r_handled :: bool

text \<open>The defaults of the dataclass.\<close>

definition plain_run :: "string \<Rightarrow> string \<Rightarrow> string \<Rightarrow> string \<Rightarrow> run_state \<Rightarrow> string \<Rightarrow> run" where
  "plain_run i k n t st ns =
     \<lparr>r_id = i, r_kind = k, r_native = n, r_title = t, r_state = st, r_native_state = ns, r_started = None,
      r_progress = None, r_note = [], r_owner = None, r_deadline = None, r_ended = None, r_effects = ''none'',
      r_version = [], r_actions = [], r_link = [], r_detail = [], r_origin = [], r_announced = [], r_lineage = [],
      r_verdict = None, r_handled = False\<rparr>"

record kind_spec =
  ks_stall :: "real option"
  ks_slow :: "real option"
  ks_dead :: real
  ks_announced :: "(string \<times> string) list"
  ks_read_only :: bool

definition plain_kind :: kind_spec where
  "plain_kind = \<lparr>ks_stall = None, ks_slow = None, ks_dead = 120, ks_announced = [], ks_read_only = False\<rparr>"

definition MONITOR :: string where
  "MONITOR = ''the research and crawl monitor (acquisition alerts)''"

definition KINDS :: "(string \<times> kind_spec) list" where
  "KINDS =
     [(''chat_turn'', plain_kind\<lparr>ks_stall := Some 600, ks_dead := 600,
         ks_announced := [(''failed'', ''the turn's own reply'')]\<rparr>),
      (''swarm_task'', plain_kind\<lparr>ks_stall := Some 600, ks_dead := 120\<rparr>),
      (''scheduled_job'', plain_kind\<lparr>ks_dead := 120,
         ks_announced := [(''failed'', ''the scheduled jobs' alert outbox (cron.job_failure, cron.job_failed, cron.delivery_failed, cron.delivery_unknown)'')]\<rparr>),
      (''document_job'', plain_kind\<lparr>ks_stall := Some 600, ks_dead := 120\<rparr>),
      (''research_session'', plain_kind\<lparr>ks_stall := Some 180, ks_dead := 120,
         ks_announced := [(''stalled'', MONITOR), (''failed'', MONITOR), (''dead'', MONITOR)]\<rparr>),
      (''crawl'', plain_kind\<lparr>ks_stall := Some 180, ks_dead := 300,
         ks_announced := [(''stalled'', MONITOR), (''failed'', MONITOR), (''dead'', MONITOR)]\<rparr>),
      (''x_post'', plain_kind\<lparr>ks_dead := 600,
         ks_announced := [(''failed'', ''the X publication notices (success, failure and held posts)'')]\<rparr>),
      (''memory_task'', plain_kind\<lparr>ks_dead := 600,
         ks_announced := [(''failed'', ''the memory.dead_letter ops alert'')]\<rparr>),
      (''maintenance'', plain_kind\<lparr>ks_read_only := True\<rparr>)]"

definition spec_of :: "string \<Rightarrow> kind_spec option" where
  "spec_of kind = map_of KINDS kind"

subsection \<open>The verdict\<close>

text \<open>\<open>a or b\<close> of two optional times: a time of zero is passed over.\<close>

definition or_time :: "real option \<Rightarrow> real option \<Rightarrow> real option" where
  "or_time a b = (case a of None \<Rightarrow> b | Some t \<Rightarrow> if t = 0 then b else Some t)"

definition last_progress :: "run \<Rightarrow> real option" where
  "last_progress r = or_time (r_progress r) (r_started r)"

definition longer_than :: "real \<Rightarrow> real option \<Rightarrow> real option \<Rightarrow> bool" where
  "longer_than now limit since = (case (limit, since) of (Some l, Some t) \<Rightarrow> l \<le> now - t | _ \<Rightarrow> False)"

definition judge :: "run \<Rightarrow> kind_spec \<Rightarrow> real \<Rightarrow> run_verdict" where
  "judge r spec now =
     (if r_state r = Failed then VFailed
      else if r_state r \<notin> {Running, Queued, Stalled, Slow} then VOk
      else if r_owner r = Some False
        then (case last_progress r of None \<Rightarrow> VDead | Some t \<Rightarrow> if ks_dead spec \<le> now - t then VDead else VOk)
      else if r_state r = Queued then VOk
      else if longer_than now (ks_stall spec) (last_progress r) then VStalled
      else if longer_than now (ks_slow spec) (r_started r) then VSlow
      else VOk)"

definition with_verdict :: "run \<Rightarrow> run_verdict \<Rightarrow> run" where
  "with_verdict r v =
     r\<lparr>r_state := (if v \<in> {VStalled, VDead} then Stalled else if v = VSlow then Slow else r_state r),
       r_verdict := Some v\<rparr>"

text \<open>The condition an incident is opened for (supervisor.py), and why it may be quiet.\<close>

definition condition_of :: "run \<Rightarrow> string option" where
  "condition_of r =
     (case r_verdict r of Some VDead \<Rightarrow> Some ''dead'' | Some VStalled \<Rightarrow> Some ''stalled'' | Some VFailed \<Rightarrow> Some ''failed''
      | _ \<Rightarrow> None)"

definition BASELINE_GRACE_S :: real where "BASELINE_GRACE_S = 900"

definition announced_for :: "string \<Rightarrow> string \<Rightarrow> string" where
  "announced_for kind condition =
     (case spec_of kind of None \<Rightarrow> [] | Some spec \<Rightarrow>
        (case map_of (ks_announced spec) condition of None \<Rightarrow> [] | Some a \<Rightarrow> a))"

definition quiet_reason :: "run \<Rightarrow> string \<Rightarrow> real \<Rightarrow> string" where
  "quiet_reason r condition watch_started =
     (let announced = (if announced_for (r_kind r) condition \<noteq> [] then announced_for (r_kind r) condition else r_announced r)
      in if announced \<noteq> [] then ''announced by '' @ announced
         else if condition = ''failed'' \<and> (case r_ended r of None \<Rightarrow> False | Some e \<Rightarrow> e < watch_started - BASELINE_GRACE_S)
           then ''ended before this start of Kazma''
         else [])"

subsection \<open>What the pages show\<close>

definition attention :: "run \<Rightarrow> bool" where
  "attention r \<longleftrightarrow> r_state r \<in> {Stalled, Failed, Unknown} \<and> \<not> r_handled r"

definition MAX_LINES :: nat where "MAX_LINES = 40"

text \<open>The runs \<open>/runs\<close> lists, in its order: those that need the owner, the active ones, and the rest on demand.\<close>

definition listed_groups :: "run list \<Rightarrow> bool \<Rightarrow> run list \<times> run list \<times> run list" where
  "listed_groups runs include_finished =
     (let needs = filter attention runs;
          active = filter (\<lambda>r. r_state r \<in> set ACTIVE_STATES \<and> \<not> attention r) runs
      in (needs, active, if include_finished then filter (\<lambda>r. r \<notin> set needs \<and> r \<notin> set active) runs else []))"

definition listed_runs :: "run list \<Rightarrow> bool \<Rightarrow> run list" where
  "listed_runs runs include_finished =
     (case listed_groups runs include_finished of (needs, active, rest) \<Rightarrow> take MAX_LINES (needs @ active @ rest))"

subsection \<open>Run ids\<close>

definition split_run_id :: "string \<Rightarrow> (exn, string \<times> string) sum" where
  "split_run_id i =
     (let kind = takeWhile (\<lambda>c. c \<noteq> CHR '':'') i; rest = dropWhile (\<lambda>c. c \<noteq> CHR '':'') i
      in if rest = [] \<or> spec_of kind = None \<or> tl rest = [] then Inl (ValueError ''not a run id'') else Inr (kind, tl rest))"

subsection \<open>Progress stamps\<close>

text \<open>An \<open>OrderedDict\<close> as the list of its items, the oldest first.\<close>

type_synonym stamps = "(string \<times> real \<times> string) list"

definition STAMPS_MAX :: nat where "STAMPS_MAX = 4096"

definition note_progress :: "nat \<Rightarrow> real \<Rightarrow> string \<Rightarrow> string \<Rightarrow> stamps \<Rightarrow> stamps" where
  "note_progress cap now rid what m =
     (if rid = [] then m
      else (let m' = filter (\<lambda>p. fst p \<noteq> rid) m @ [(rid, now, take 80 what)] in drop (length m' - cap) m'))"

definition progress_of :: "string \<Rightarrow> stamps \<Rightarrow> (real \<times> string) option" where
  "progress_of rid m = map_of m rid"

definition forget_progress :: "string \<Rightarrow> stamps \<Rightarrow> stamps" where
  "forget_progress rid m = filter (\<lambda>p. fst p \<noteq> rid) m"

subsection \<open>Lemmas\<close>

lemma with_verdict_simps [simp]:
  "r_id (with_verdict r v) = r_id r" "r_kind (with_verdict r v) = r_kind r" "r_version (with_verdict r v) = r_version r"
  "r_verdict (with_verdict r v) = Some v" "r_actions (with_verdict r v) = r_actions r" "r_effects (with_verdict r v) = r_effects r"
  "r_owner (with_verdict r v) = r_owner r" "r_lineage (with_verdict r v) = r_lineage r"
  by (simp_all add: with_verdict_def)

lemma judge_cases:
  "judge r spec now = VDead \<Longrightarrow> r_owner r = Some False \<and> r_state r \<in> {Running, Queued, Stalled, Slow}"
  "judge r spec now = VStalled \<Longrightarrow> r_owner r \<noteq> Some False \<and> r_state r \<in> {Running, Stalled, Slow}"
  "judge r spec now = VFailed \<longleftrightarrow> r_state r = Failed"
  by (auto simp: judge_def split: if_splits option.splits)

text \<open>Time alone makes a verdict worse, never better: what is stuck stays stuck until the run moves.\<close>

fun gravity :: "run_verdict \<Rightarrow> nat" where
  "gravity VOk = 0" | "gravity VSlow = 1" | "gravity VStalled = 2" | "gravity VDead = 3" | "gravity VFailed = 4"

lemma longer_than_mono: "longer_than t l s \<Longrightarrow> t \<le> t' \<Longrightarrow> longer_than t' l s"
  by (auto simp: longer_than_def split: option.splits)

lemma judge_worsens:
  assumes "t \<le> t'"
  shows "gravity (judge r spec t) \<le> gravity (judge r spec t')"
proof -
  note mono = longer_than_mono[OF _ assms]
  have dead: "(case last_progress r of None \<Rightarrow> VDead | Some u \<Rightarrow> if ks_dead spec \<le> t - u then VDead else VOk) = VDead \<Longrightarrow>
      (case last_progress r of None \<Rightarrow> VDead | Some u \<Rightarrow> if ks_dead spec \<le> t' - u then VDead else VOk) = VDead"
    using assms by (auto split: option.splits if_splits)
  show ?thesis
  proof (cases "r_state r = Failed \<or> r_state r \<notin> {Running, Queued, Stalled, Slow}")
    case True
    then show ?thesis by (auto simp: judge_def)
  next
    case alive: False
    show ?thesis
    proof (cases "r_owner r = Some False")
      case True
      then show ?thesis using alive dead by (auto simp: judge_def split: option.splits if_splits)
    next
      case False
      then show ?thesis using alive mono[of "ks_stall spec" "last_progress r"] mono[of "ks_slow spec" "r_started r"]
        by (auto simp: judge_def)
    qed
  qed
qed

end
