(* ===== verification/Incidents.thy ===== *)
theory Incidents
  imports Runs Interfaces
begin

text \<open>
  The incident store (kazma_core/runs/incidents.py): one row for a run and condition while it lasts. Every
  operation is one transaction, so one step. The new id of an incident is an argument (eight random
  characters in the code); the columns that hold JSON are kept decoded.
\<close>

subsection \<open>Rows\<close>

datatype inc_state = IOpen | IActing | IClosed | IResolved | IDismissed | IExpired

datatype inc_notify = NPending | NSuppressed | NSending | NDelivered | NRefused | NUncertain

datatype diagnosis_state = DNone | DRunning | DDone | DFailed

record incident =
  i_id :: string
  i_run :: string
  i_kind :: string
  i_cond :: string
  i_state :: inc_state
  i_version :: int
  i_opened :: real
  i_updated :: real
  i_title :: string
  i_detail :: string
  i_run_state :: string
  i_run_version :: string
  i_effects :: string
  i_actions :: "string list"
  i_origin :: origin
  i_link :: string
  i_notify :: inc_notify
  i_notify_detail :: string
  i_by :: string
  i_platform :: string
  i_action :: string
  i_decided_at :: "real option"
  i_code :: string
  i_message :: string
  i_auto :: int
  i_lineage :: string
  i_diagnosis :: string
  i_diag_state :: diagnosis_state
  i_diagnosed_at :: "real option"

definition live_row :: "incident \<Rightarrow> bool" where
  "live_row i \<longleftrightarrow> i_state i \<in> {IOpen, IActing}"

definition decided_row :: "incident \<Rightarrow> bool" where
  "decided_row i \<longleftrightarrow> i_state i \<in> {IClosed, IDismissed, IExpired}"

definition EXPIRE_AFTER_S :: real where "EXPIRE_AFTER_S = 7 * 24 * 3600"
definition RETAIN_S :: real where "RETAIN_S = 30 * 24 * 3600"

type_synonym incidents = "incident list"

text \<open>\<open>UPDATE ... WHERE P\<close>, and whether it changed a row.\<close>

definition update_where :: "(incident \<Rightarrow> bool) \<Rightarrow> (incident \<Rightarrow> incident) \<Rightarrow> incidents \<Rightarrow> incidents" where
  "update_where P f rows = map (\<lambda>i. if P i then f i else i) rows"

definition any_row :: "(incident \<Rightarrow> bool) \<Rightarrow> incidents \<Rightarrow> bool" where
  "any_row P rows \<longleftrightarrow> (\<exists>i \<in> set rows. P i)"

definition count_where :: "(incident \<Rightarrow> bool) \<Rightarrow> incidents \<Rightarrow> nat" where
  "count_where P rows = length (filter P rows)"

subsection \<open>Reads\<close>

definition get_incident :: "string \<Rightarrow> incidents \<Rightarrow> incident option" where
  "get_incident n rows = find (\<lambda>i. i_id i = n) rows"

definition live_for :: "string \<Rightarrow> string \<Rightarrow> incidents \<Rightarrow> incident option" where
  "live_for run condition rows = find (\<lambda>i. i_run i = run \<and> i_cond i = condition \<and> live_row i) rows"

text \<open>\<open>ORDER BY opened_at DESC\<close>; rows with one time keep their order.\<close>

definition newest_first :: "incidents \<Rightarrow> incidents" where
  "newest_first rows = rev (sort_key i_opened (rev rows))"

definition live :: "incidents \<Rightarrow> incidents" where
  "live rows = newest_first (filter live_row rows)"

definition open_for_run :: "string \<Rightarrow> incidents \<Rightarrow> incident option" where
  "open_for_run run rows = (case live (filter (\<lambda>i. i_run i = run) rows) of [] \<Rightarrow> None | i # _ \<Rightarrow> Some i)"

definition recent :: "int \<Rightarrow> incidents \<Rightarrow> incidents" where
  "recent limit rows =
     take (nat (max 1 (min limit 500)))
       (rev (sort_key i_updated (rev (filter live_row rows))) @ rev (sort_key i_updated (rev (filter (\<lambda>i. \<not> live_row i) rows))))"

definition decided_keys :: "incidents \<Rightarrow> (string \<times> string \<times> string) set" where
  "decided_keys rows = (\<lambda>i. (i_run i, i_cond i, i_run_version i)) ` set (filter decided_row rows)"

definition worth_sending :: "incident \<Rightarrow> bool" where
  "worth_sending i \<longleftrightarrow> i_notify i = NPending \<and> (live_row i \<or> i_state i = IClosed \<and> i_platform i = ''runbook'')"

definition pending_notifications :: "incidents \<Rightarrow> incidents" where
  "pending_notifications rows = sort_key i_opened (filter worth_sending rows)"

subsection \<open>Opening and settling\<close>

datatype open_result = Opened incident | AlreadyLive incident | AlreadyDecided

definition new_incident :: "string \<Rightarrow> run \<Rightarrow> string \<Rightarrow> origin \<Rightarrow> inc_notify \<Rightarrow> string \<Rightarrow> real \<Rightarrow> incident" where
  "new_incident ident r condition orig notify why now =
     \<lparr>i_id = ident, i_run = r_id r, i_kind = r_kind r, i_cond = condition, i_state = IOpen, i_version = 1,
      i_opened = now, i_updated = now, i_title = take 200 (r_title r), i_detail = take 500 (r_detail r),
      i_run_state = run_state_text (r_state r), i_run_version = r_version r, i_effects = r_effects r,
      i_actions = r_actions r @ INCIDENT_ACTIONS, i_origin = orig, i_link = r_link r, i_notify = notify,
      i_notify_detail = take 300 why, i_by = [], i_platform = [], i_action = [], i_decided_at = None, i_code = [],
      i_message = [], i_auto = 0, i_lineage = (if r_lineage r \<noteq> [] then r_lineage r else r_id r), i_diagnosis = [],
      i_diag_state = DNone, i_diagnosed_at = None\<rparr>"

text \<open>An id that is taken violates the primary key: the insert raises and nothing changes.\<close>

definition open_incident ::
  "string \<Rightarrow> run \<Rightarrow> string \<Rightarrow> origin \<Rightarrow> inc_notify \<Rightarrow> string \<Rightarrow> real \<Rightarrow> incidents \<Rightarrow> (exn, open_result) sum \<times> incidents" where
  "open_incident ident r condition orig notify why now rows =
     (case live_for (r_id r) condition rows of
        Some i \<Rightarrow> (Inr (AlreadyLive i), rows)
      | None \<Rightarrow>
          if any_row (\<lambda>i. i_run i = r_id r \<and> i_cond i = condition \<and> i_run_version i = r_version r \<and> decided_row i) rows
          then (Inr AlreadyDecided, rows)
          else if ident \<in> i_id ` set rows then (Inl (OtherError ''IntegrityError''), rows)
          else (let i = new_incident ident r condition orig notify why now in (Inr (Opened i), rows @ [i])))"

definition refreshed :: "run \<Rightarrow> real \<Rightarrow> incident \<Rightarrow> incident" where
  "refreshed r now i =
     i\<lparr>i_title := take 200 (r_title r), i_detail := take 500 (r_detail r), i_run_state := run_state_text (r_state r),
       i_effects := r_effects r, i_actions := r_actions r @ INCIDENT_ACTIONS, i_link := r_link r, i_updated := now\<rparr>"

definition refresh :: "string \<Rightarrow> run \<Rightarrow> real \<Rightarrow> incidents \<Rightarrow> incidents" where
  "refresh n r now rows = update_where (\<lambda>i. i_id i = n \<and> i_state i = IOpen) (refreshed r now) rows"

definition resolve :: "string \<Rightarrow> string \<Rightarrow> real \<Rightarrow> incidents \<Rightarrow> bool \<times> incidents" where
  "resolve n reason now rows =
     (let P = (\<lambda>i. i_id i = n \<and> i_state i = IOpen)
      in (any_row P rows, update_where P
           (\<lambda>i. i\<lparr>i_state := IResolved, i_code := ''resolved'', i_message := take 300 reason, i_version := i_version i + 1,
                  i_updated := now\<rparr>) rows))"

definition expire_old :: "real \<Rightarrow> incidents \<Rightarrow> nat \<times> incidents" where
  "expire_old now rows =
     (let P = (\<lambda>i. i_state i = IOpen \<and> i_opened i < now - EXPIRE_AFTER_S)
      in (count_where P rows, update_where P
           (\<lambda>i. i\<lparr>i_state := IExpired, i_code := ''expired'', i_version := i_version i + 1, i_updated := now\<rparr>) rows))"

definition purge_incidents :: "real \<Rightarrow> incidents \<Rightarrow> nat \<times> incidents" where
  "purge_incidents now rows =
     (let P = (\<lambda>i. \<not> live_row i \<and> i_updated i < now - RETAIN_S) in (count_where P rows, filter (\<lambda>i. \<not> P i) rows))"

subsection \<open>Delivery outbox\<close>

definition claim_notification :: "string \<Rightarrow> incidents \<Rightarrow> bool \<times> incidents" where
  "claim_notification n rows =
     (let P = (\<lambda>i. i_id i = n \<and> i_notify i = NPending)
      in (any_row P rows, update_where P (\<lambda>i. i\<lparr>i_notify := NSending\<rparr>) rows))"

definition finish_notification :: "string \<Rightarrow> inc_notify \<Rightarrow> string \<Rightarrow> incidents \<Rightarrow> (exn, incidents) sum" where
  "finish_notification n outcome why rows =
     (if outcome \<notin> {NDelivered, NRefused, NUncertain} then Inl (ValueError ''not a delivery outcome'')
      else Inr (update_where (\<lambda>i. i_id i = n \<and> i_notify i = NSending)
             (\<lambda>i. i\<lparr>i_notify := outcome, i_notify_detail := take 300 why\<rparr>) rows))"

definition INTERRUPTED_SEND :: string where
  "INTERRUPTED_SEND = ''the process stopped while sending; it may or may not have arrived''"

definition recover_note :: "incident \<Rightarrow> incident" where
  "recover_note i = (if i_notify i = NSending then i\<lparr>i_notify := NUncertain, i_notify_detail := INTERRUPTED_SEND\<rparr> else i)"

definition recover_action :: "real \<Rightarrow> incident \<Rightarrow> incident" where
  "recover_action now i =
     (if i_state i = IActing
      then i\<lparr>i_state := IClosed, i_code := ''interrupted'',
             i_message := ''Kazma stopped while the action ran; check the run before acting again.'',
             i_version := i_version i + 1, i_updated := now\<rparr> else i)"

definition recover_diagnosis :: "incident \<Rightarrow> incident" where
  "recover_diagnosis i =
     (if i_diag_state i = DRunning
      then i\<lparr>i_diag_state := DFailed, i_diagnosis := ''Kazma stopped while diagnosing; ask again.''\<rparr> else i)"

definition recover_incidents :: "real \<Rightarrow> incidents \<Rightarrow> (nat \<times> nat \<times> nat) \<times> incidents" where
  "recover_incidents now rows =
     ((count_where (\<lambda>i. i_notify i = NSending) rows, count_where (\<lambda>i. i_state i = IActing) rows,
       count_where (\<lambda>i. i_diag_state i = DRunning) rows),
      map (recover_diagnosis \<circ> recover_action now \<circ> recover_note) rows)"

subsection \<open>Decisions\<close>

datatype claim_error = DecisionConflict "incident option" | NotOffered string

definition decide_row :: "string \<Rightarrow> string \<Rightarrow> string \<Rightarrow> real \<Rightarrow> incident \<Rightarrow> incident" where
  "decide_row action actor platform now i =
     (let i' = i\<lparr>i_state := (if action = ''dismiss'' then IDismissed else IActing), i_by := take 120 actor,
                 i_platform := take 40 platform, i_action := action, i_decided_at := Some now,
                 i_version := i_version i + 1, i_updated := now\<rparr>
      in if action = ''dismiss'' then i'\<lparr>i_code := ''dismissed''\<rparr> else i')"

definition claim_decision ::
  "string \<Rightarrow> string \<Rightarrow> string \<Rightarrow> string \<Rightarrow> real \<Rightarrow> incidents \<Rightarrow> (claim_error, incident) sum \<times> incidents" where
  "claim_decision n action actor platform now rows =
     (case get_incident n rows of
        None \<Rightarrow> (Inl (DecisionConflict None), rows)
      | Some i \<Rightarrow>
          if i_state i \<noteq> IOpen then (Inl (DecisionConflict (Some i)), rows)
          else if action \<notin> set (i_actions i) then (Inl (NotOffered (''the incident does not offer '' @ action)), rows)
          else (Inr (decide_row action actor platform now i),
                update_where (\<lambda>i. i_id i = n \<and> i_state i = IOpen) (decide_row action actor platform now) rows))"

definition MOVED_ON_CODES :: "string list" where
  "MOVED_ON_CODES = [''gone'', ''not_offered'', ''not_found'', ''not_active'']"

definition decision_state :: "bool \<Rightarrow> string \<Rightarrow> inc_state" where
  "decision_state ok code = (if ok then IClosed else if code \<in> set MOVED_ON_CODES then IResolved else IOpen)"

definition settle_row :: "bool \<Rightarrow> string \<Rightarrow> string \<Rightarrow> real \<Rightarrow> incident \<Rightarrow> incident" where
  "settle_row ok code message now i =
     (let i' = i\<lparr>i_state := decision_state ok code, i_code := take 60 code, i_message := take 300 message,
                 i_version := i_version i + 1, i_updated := now\<rparr>
      in if decision_state ok code = IOpen then i'\<lparr>i_action := [], i_by := [], i_platform := [], i_decided_at := None\<rparr> else i')"

definition finish_decision ::
  "string \<Rightarrow> bool \<Rightarrow> string \<Rightarrow> string \<Rightarrow> real \<Rightarrow> incidents \<Rightarrow> incident option \<times> incidents" where
  "finish_decision n ok code message now rows =
     (let rows' = update_where (\<lambda>i. i_id i = n \<and> i_state i = IActing) (settle_row ok code message now) rows
      in (get_incident n rows', rows'))"

definition claim_diagnosis :: "string \<Rightarrow> real \<Rightarrow> incidents \<Rightarrow> bool \<times> incidents" where
  "claim_diagnosis n now rows =
     (let P = (\<lambda>i. i_id i = n \<and> i_diag_state i \<noteq> DRunning)
      in (any_row P rows, update_where P (\<lambda>i. i\<lparr>i_diag_state := DRunning, i_diagnosed_at := Some now\<rparr>) rows))"

definition finish_diagnosis :: "string \<Rightarrow> string \<Rightarrow> bool \<Rightarrow> real \<Rightarrow> incidents \<Rightarrow> incidents" where
  "finish_diagnosis n text' ok now rows =
     update_where (\<lambda>i. i_id i = n)
       (\<lambda>i. i\<lparr>i_diagnosis := take 4000 text', i_diag_state := (if ok then DDone else DFailed), i_diagnosed_at := Some now\<rparr>) rows"

definition auto_steps :: "string \<Rightarrow> real \<Rightarrow> incidents \<Rightarrow> int" where
  "auto_steps lineage since rows = sum_list (map i_auto (filter (\<lambda>i. i_lineage i = lineage \<and> since \<le> i_opened i) rows))"

definition claim_auto_step :: "string \<Rightarrow> string \<Rightarrow> int \<Rightarrow> real \<Rightarrow> incidents \<Rightarrow> bool \<times> incidents" where
  "claim_auto_step n lineage limit since rows =
     (if limit \<le> auto_steps lineage since rows then (False, rows)
      else (True, update_where (\<lambda>i. i_id i = n) (\<lambda>i. i\<lparr>i_auto := i_auto i + 1\<rparr>) rows))"

end
