(* ===== verification/IncidentRuns.thy ===== *)
theory IncidentRuns
  imports Incidents
begin

text \<open>
  Runs of the incident store: every operation as a step of one machine that also logs what it let happen (an
  incident opened, a message allowed to leave, a decision taken, an incident given back to the owner), and what holds
  of every run, whatever surfaces, passes and restarts do it.
\<close>

subsection \<open>The machine\<close>

datatype inc_op =
    IncOpen string run string origin inc_notify string real
  | IncRefresh string run real
  | IncResolve string string real
  | IncExpire real
  | IncPurge real
  | IncClaimNote string
  | IncFinishNote string inc_notify string
  | IncRecover real
  | IncDecide string string string string real
  | IncFinish string bool string string real
  | IncClaimDiag string real
  | IncFinishDiag string string bool real
  | IncAuto string string int real

datatype inc_event =
    EOpened string string string string
  | ESent string
  | EDecided string string
  | EReopened string

fun inc_step :: "incidents \<Rightarrow> inc_op \<Rightarrow> incidents" where
  "inc_step rows (IncOpen ident r c orig nt why now) = snd (open_incident ident r c orig nt why now rows)"
| "inc_step rows (IncRefresh n r now) = refresh n r now rows"
| "inc_step rows (IncResolve n reason now) = snd (resolve n reason now rows)"
| "inc_step rows (IncExpire now) = snd (expire_old now rows)"
| "inc_step rows (IncPurge now) = snd (purge_incidents now rows)"
| "inc_step rows (IncClaimNote n) = snd (claim_notification n rows)"
| "inc_step rows (IncFinishNote n outcome why) = (case finish_notification n outcome why rows of Inl e \<Rightarrow> rows | Inr rows' \<Rightarrow> rows')"
| "inc_step rows (IncRecover now) = snd (recover_incidents now rows)"
| "inc_step rows (IncDecide n a actor p now) = snd (claim_decision n a actor p now rows)"
| "inc_step rows (IncFinish n ok code m now) = snd (finish_decision n ok code m now rows)"
| "inc_step rows (IncClaimDiag n now) = snd (claim_diagnosis n now rows)"
| "inc_step rows (IncFinishDiag n t ok now) = finish_diagnosis n t ok now rows"
| "inc_step rows (IncAuto n l limit since) = snd (claim_auto_step n l limit since rows)"

fun inc_events :: "incidents \<Rightarrow> inc_op \<Rightarrow> inc_event list" where
  "inc_events rows (IncOpen ident r c orig nt why now) =
     (case fst (open_incident ident r c orig nt why now rows) of
        Inr (Opened i) \<Rightarrow> [EOpened (i_id i) (i_run i) (i_cond i) (i_run_version i)] | _ \<Rightarrow> [])"
| "inc_events rows (IncClaimNote n) = (if fst (claim_notification n rows) then [ESent n] else [])"
| "inc_events rows (IncDecide n a actor p now) =
     (case fst (claim_decision n a actor p now rows) of Inr i \<Rightarrow> [EDecided n a] | Inl e \<Rightarrow> [])"
| "inc_events rows (IncFinish n ok code m now) =
     (if any_row (\<lambda>i. i_id i = n \<and> i_state i = IActing) rows \<and> decision_state ok code = IOpen then [EReopened n] else [])"
| "inc_events rows _ = []"

fun inc_log :: "incidents \<Rightarrow> inc_op list \<Rightarrow> inc_event list" where
  "inc_log rows [] = []"
| "inc_log rows (op # ops) = inc_events rows op @ inc_log (inc_step rows op) ops"

subsection \<open>The life of one row\<close>

definition same_incident :: "incident \<Rightarrow> incident \<Rightarrow> bool" where
  "same_incident i i' \<longleftrightarrow> i_id i' = i_id i \<and> i_run i' = i_run i \<and> i_kind i' = i_kind i \<and> i_cond i' = i_cond i
     \<and> i_opened i' = i_opened i \<and> i_run_version i' = i_run_version i \<and> i_lineage i' = i_lineage i \<and> i_origin i' = i_origin i"

inductive state_move :: "inc_state \<Rightarrow> inc_state \<Rightarrow> bool" where
  stay: "state_move s s"
| from_open: "s' \<noteq> IClosed \<Longrightarrow> state_move IOpen s'"
| from_acting: "s' \<in> {IClosed, IResolved, IOpen} \<Longrightarrow> state_move IActing s'"

inductive note_move :: "inc_notify \<Rightarrow> inc_notify \<Rightarrow> bool" where
  note_stay: "note_move s s"
| note_sending: "note_move NPending NSending"
| note_settled: "s' \<in> {NDelivered, NRefused, NUncertain} \<Longrightarrow> note_move NSending s'"

inductive_simps state_move_simps: "state_move s s'"
inductive_simps note_move_simps: "note_move s s'"

definition row_move :: "incident \<Rightarrow> incident \<Rightarrow> bool" where
  "row_move i i' \<longleftrightarrow> same_incident i i' \<and> state_move (i_state i) (i_state i') \<and> note_move (i_notify i) (i_notify i')
     \<and> (\<not> live_row i \<longrightarrow> i_updated i' = i_updated i) \<and> i_auto i \<le> i_auto i'"

lemma row_move_refl [simp]: "row_move i i"
  by (simp add: row_move_def same_incident_def stay note_stay)

lemma row_move_ended: "row_move i i' \<Longrightarrow> \<not> live_row i \<Longrightarrow> i_state i' = i_state i \<and> i_updated i' = i_updated i"
  by (auto simp: row_move_def state_move_simps live_row_def)

lemma row_move_live: "row_move i i' \<Longrightarrow> live_row i' \<Longrightarrow> live_row i"
  by (metis row_move_ended live_row_def)

lemma row_move_same: "row_move i i' \<Longrightarrow> same_incident i i'"
  by (simp add: row_move_def)

text \<open>A step maps each row it keeps by a move, drops only ended rows, and adds at most one.\<close>

definition table_step :: "incidents \<Rightarrow> incidents \<Rightarrow> bool" where
  "table_step rows rows' \<longleftrightarrow> (\<exists>f. (\<forall>i \<in> set rows. row_move i (f i)) \<and> rows' = map f rows)"

lemma table_step_update:
  assumes "\<And>i. P i \<Longrightarrow> row_move i (f i)"
  shows "table_step rows (update_where P f rows)"
  unfolding table_step_def update_where_def by (rule exI[of _ "\<lambda>i. if P i then f i else i"]) (simp add: assms)

lemma table_step_refl [simp]: "table_step rows rows"
  unfolding table_step_def by (rule exI[of _ id]) simp

fun grows_table :: "inc_op \<Rightarrow> bool" where
  "grows_table (IncOpen ident r c orig nt why now) = True"
| "grows_table (IncPurge now) = True"
| "grows_table _ = False"

lemmas row_move_unfold = row_move_def same_incident_def state_move_simps note_move_simps live_row_def

lemma move_refreshed: "i_state i = IOpen \<Longrightarrow> row_move i (refreshed r now i)"
  by (simp add: row_move_unfold refreshed_def)

lemma move_decide: "i_state i = IOpen \<Longrightarrow> row_move i (decide_row a actor p now i)"
  by (simp add: row_move_unfold decide_row_def Let_def)

lemma move_settle: "i_state i = IActing \<Longrightarrow> row_move i (settle_row ok code m now i)"
  by (simp add: row_move_unfold settle_row_def decision_state_def Let_def)

lemma row_move_recover: "row_move i (recover_diagnosis (recover_action now (recover_note i)))"
  by (simp add: row_move_unfold recover_diagnosis_def recover_action_def recover_note_def)

lemma step_moves:
  assumes "\<not> grows_table op"
  shows "table_step rows (inc_step rows op)"
proof (cases op)
  case (IncRecover now)
  then show ?thesis
    by (auto simp: recover_incidents_def table_step_def row_move_recover
        intro!: exI[of _ "\<lambda>i. recover_diagnosis (recover_action now (recover_note i))"])
next
  case (IncDecide n a actor p now)
  have "table_step rows (update_where (\<lambda>i. i_id i = n \<and> i_state i = IOpen) (decide_row a actor p now) rows)"
    by (rule table_step_update) (simp add: move_decide)
  then show ?thesis using IncDecide by (simp add: claim_decision_def split: option.split)
next
  case (IncFinishNote n outcome why)
  have "outcome \<in> {NDelivered, NRefused, NUncertain} \<Longrightarrow>
      table_step rows (update_where (\<lambda>i. i_id i = n \<and> i_notify i = NSending) (\<lambda>i. i\<lparr>i_notify := outcome, i_notify_detail := take 300 why\<rparr>) rows)"
    by (rule table_step_update) (simp add: row_move_unfold)
  then show ?thesis using IncFinishNote by (simp add: finish_notification_def)
qed (use assms in \<open>auto simp: refresh_def resolve_def expire_old_def claim_notification_def finish_decision_def claim_diagnosis_def
       finish_diagnosis_def claim_auto_step_def Let_def move_refreshed move_settle intro!: table_step_update, (simp add: row_move_unfold)+\<close>)

subsection \<open>One live incident for a run and condition\<close>

definition live_keys :: "incidents \<Rightarrow> (string \<times> string) list" where
  "live_keys rows = map (\<lambda>i. (i_run i, i_cond i)) (filter live_row rows)"

definition incidents_ok :: "incidents \<Rightarrow> bool" where
  "incidents_ok rows \<longleftrightarrow> distinct (map i_id rows) \<and> distinct (live_keys rows)"

lemma table_step_ids: "table_step rows rows' \<Longrightarrow> map i_id rows' = map i_id rows"
  by (auto simp: table_step_def row_move_def same_incident_def)

lemma table_step_live:
  assumes "table_step rows rows'" "distinct (live_keys rows)"
  shows "distinct (live_keys rows')"
  using assms
proof (induction rows arbitrary: rows')
  case Nil
  then show ?case by (simp add: table_step_def live_keys_def)
next
  case (Cons i rows)
  obtain f where f: "\<forall>i \<in> set (i # rows). row_move i (f i)" "rows' = map f (i # rows)"
    using Cons.prems(1) by (auto simp: table_step_def)
  have rest: "table_step rows (map f rows)" using f(1) by (auto simp: table_step_def)
  have IH: "distinct (live_keys (map f rows))" using Cons.IH[OF rest] Cons.prems(2) by (auto simp: live_keys_def split: if_splits)
  have sub: "set (live_keys (map f rows)) \<subseteq> set (live_keys rows)"
  proof
    fix k assume "k \<in> set (live_keys (map f rows))"
    then obtain j where j: "j \<in> set rows" "live_row (f j)" "k = (i_run (f j), i_cond (f j))" by (auto simp: live_keys_def)
    then have "row_move j (f j)" using f(1) by simp
    then have "live_row j" "k = (i_run j, i_cond j)" using row_move_live[OF _ j(2)] j(3) by (auto simp: row_move_def same_incident_def)
    then show "k \<in> set (live_keys rows)" using j(1) by (auto simp: live_keys_def)
  qed
  show ?case
  proof (cases "live_row (f i)")
    case True
    have m: "row_move i (f i)" using f(1) by simp
    then have "live_row i" "(i_run (f i), i_cond (f i)) = (i_run i, i_cond i)"
      using row_move_live[OF m True] by (auto simp: row_move_def same_incident_def)
    then have "(i_run (f i), i_cond (f i)) \<notin> set (live_keys (map f rows))"
      using Cons.prems(2) sub by (auto simp: live_keys_def)
    then show ?thesis using True IH f(2) by (simp add: live_keys_def)
  next
    case False
    then show ?thesis using IH f(2) by (simp add: live_keys_def)
  qed
qed

lemma opened_row:
  "open_incident ident r c orig nt why now rows = (Inr (Opened i), rows') \<Longrightarrow>
     i = new_incident ident r c orig nt why now \<and> rows' = rows @ [i] \<and> ident \<notin> i_id ` set rows
     \<and> (r_id r, c) \<notin> set (live_keys rows)
     \<and> \<not> any_row (\<lambda>i. i_run i = r_id r \<and> i_cond i = c \<and> i_run_version i = r_version r \<and> decided_row i) rows"
  by (auto simp: open_incident_def live_for_def Let_def live_keys_def find_None_iff split: option.splits if_splits)

lemma open_cases:
  "(\<exists>i. open_incident ident r c orig nt why now rows = (Inr (Opened i), rows @ [i]))
   \<or> snd (open_incident ident r c orig nt why now rows) = rows
      \<and> inc_events rows (IncOpen ident r c orig nt why now) = []"
  by (cases "live_for (r_id r) c rows") (auto simp: open_incident_def Let_def)

lemma new_incident_simps [simp]:
  "i_id (new_incident ident r c orig nt why now) = ident" "i_run (new_incident ident r c orig nt why now) = r_id r"
  "i_cond (new_incident ident r c orig nt why now) = c" "i_state (new_incident ident r c orig nt why now) = IOpen"
  "i_notify (new_incident ident r c orig nt why now) = nt" "i_run_version (new_incident ident r c orig nt why now) = r_version r"
  "i_opened (new_incident ident r c orig nt why now) = now" "i_auto (new_incident ident r c orig nt why now) = 0"
  "i_kind (new_incident ident r c orig nt why now) = r_kind r"
  by (simp_all add: new_incident_def)

lemma live_keys_filter: "distinct (live_keys rows) \<Longrightarrow> distinct (live_keys (filter P rows))"
proof -
  have "filter live_row (filter P rows) = filter P (filter live_row rows)" by (simp only: filter_filter conj_commute)
  then show "distinct (live_keys rows) \<Longrightarrow> distinct (live_keys (filter P rows))"
    by (simp only: live_keys_def distinct_map_filter)
qed

lemma table_step_ok: "table_step rows rows' \<Longrightarrow> incidents_ok rows \<Longrightarrow> incidents_ok rows'"
  by (simp add: incidents_ok_def table_step_ids table_step_live)

lemma open_ok:
  assumes ok: "incidents_ok rows"
  shows "incidents_ok (inc_step rows (IncOpen ident r c orig nt why now))"
proof (cases "\<exists>i. open_incident ident r c orig nt why now rows = (Inr (Opened i), rows @ [i])")
  case True
  then obtain i where new: "open_incident ident r c orig nt why now rows = (Inr (Opened i), rows @ [i])" ..
  from opened_row[OF new] ok show ?thesis using new by (auto simp: incidents_ok_def live_keys_def live_row_def)
next
  case False
  then show ?thesis using ok open_cases[of ident r c orig nt why now rows] by simp
qed

lemma step_ok: "incidents_ok rows \<Longrightarrow> incidents_ok (inc_step rows op)"
proof (cases "grows_table op")
  case True
  assume ok: "incidents_ok rows"
  have "incidents_ok (filter P rows)" for P
    using ok by (simp add: incidents_ok_def live_keys_filter distinct_map_filter)
  then show ?thesis using True ok open_ok by (cases op) (simp_all add: purge_incidents_def Let_def)
next
  case False
  then show "incidents_ok rows \<Longrightarrow> ?thesis" by (rule table_step_ok[OF step_moves])
qed

interpretation incidents: invariant_machine inc_step incidents_ok
  by unfold_locales (rule step_ok)

subsection \<open>What an incident lets happen, counted\<close>

definition events_count :: "(inc_event \<Rightarrow> bool) \<Rightarrow> inc_event list \<Rightarrow> nat" where
  "events_count p es = length (filter p es)"

fun is_opened :: "string \<Rightarrow> inc_event \<Rightarrow> bool" where
  "is_opened n (EOpened m run c v) = (m = n)" | "is_opened n _ = False"

fun is_sent :: "string \<Rightarrow> inc_event \<Rightarrow> bool" where
  "is_sent n (ESent m) = (m = n)" | "is_sent n _ = False"

fun is_decided :: "string \<Rightarrow> inc_event \<Rightarrow> bool" where
  "is_decided n (EDecided m a) = (m = n)" | "is_decided n _ = False"

fun is_reopened :: "string \<Rightarrow> inc_event \<Rightarrow> bool" where
  "is_reopened n (EReopened m) = (m = n)" | "is_reopened n _ = False"

lemma events_count_simps [simp]:
  "events_count p [] = 0" "events_count p (es @ es') = events_count p es + events_count p es'"
  "events_count p (e # es) = (if p e then 1 else 0) + events_count p es"
  by (simp_all add: events_count_def)

text \<open>What goes out of an account never exceeds what it held and what came in.\<close>

lemma log_balance:
  assumes step: "\<And>rows op. incidents_ok rows \<Longrightarrow>
      account (inc_step rows op) + events_count out (inc_events rows op) \<le> account rows + events_count inn (inc_events rows op)"
    and ok: "incidents_ok rows"
  shows "events_count out (inc_log rows ops) \<le> (account rows :: nat) + events_count inn (inc_log rows ops)"
  using ok
proof (induction ops arbitrary: rows)
  case (Cons op ops)
  show ?case using Cons.IH[OF step_ok[OF Cons.prems, of op]] step[OF Cons.prems, of op] by simp
qed simp

lemma count_where_mono: "(\<And>i. i \<in> set rows \<Longrightarrow> Q (f i) \<Longrightarrow> Q i) \<Longrightarrow> count_where Q (map f rows) \<le> count_where Q rows"
  by (induction rows) (auto simp: count_where_def le_SucI)

lemma count_update_le: "(\<And>i. P i \<Longrightarrow> Q (f i) \<Longrightarrow> Q i) \<Longrightarrow> count_where Q (update_where P f rows) \<le> count_where Q rows"
  unfolding update_where_def by (rule count_where_mono) (auto split: if_splits)

lemma count_where_append [simp]: "count_where Q (xs @ ys) = count_where Q xs + count_where Q ys"
  by (simp add: count_where_def)

lemma count_where_filter: "count_where Q (filter P rows) \<le> count_where Q rows"
  by (induction rows) (auto simp: count_where_def)

lemma count_where_pos: "0 < count_where Q rows \<longleftrightarrow> any_row Q rows"
  by (auto simp: count_where_def any_row_def filter_empty_conv)

lemma count_where_zero: "(\<And>i. i \<in> set rows \<Longrightarrow> \<not> Q i) \<Longrightarrow> count_where Q rows = 0"
  by (simp add: count_where_def)

lemma count_where_id:
  "distinct (map i_id rows) \<Longrightarrow> (\<And>i. Q i \<Longrightarrow> i_id i = n) \<Longrightarrow> count_where Q rows \<le> 1"
proof (induction rows)
  case (Cons i rows)
  show ?case
  proof (cases "Q i")
    case True
    then have "count_where Q rows = 0" using Cons.prems by (intro count_where_zero) (auto simp: rev_image_eqI)
    then show ?thesis using True by (simp add: count_where_def)
  next
    case False
    then show ?thesis using Cons by (simp add: count_where_def)
  qed
qed (simp add: count_where_def)

lemma open_account:
  assumes "\<And>i. Q i \<Longrightarrow> i_id i = n"
  shows "count_where Q (inc_step rows (IncOpen ident r c orig nt why now))
     \<le> count_where Q rows + events_count (is_opened n) (inc_events rows (IncOpen ident r c orig nt why now))"
proof (cases "\<exists>i. open_incident ident r c orig nt why now rows = (Inr (Opened i), rows @ [i])")
  case True
  then obtain i where "open_incident ident r c orig nt why now rows = (Inr (Opened i), rows @ [i])" ..
  then show ?thesis using assms by (auto simp: count_where_def)
next
  case False
  then show ?thesis using open_cases[of ident r c orig nt why now rows] by simp
qed

lemma update_away: "(\<And>i. \<not> P (f i)) \<Longrightarrow> count_where P (update_where P f rows) = 0"
  by (rule count_where_zero) (auto simp: update_where_def)

definition unsent :: "string \<Rightarrow> incident \<Rightarrow> bool" where
  "unsent n i \<longleftrightarrow> i_id i = n \<and> i_notify i = NPending"

lemma unsent_fun: "unsent n = (\<lambda>i. i_id i = n \<and> i_notify i = NPending)"
  by (rule ext) (simp add: unsent_def)

lemma row_move_unsent: "row_move i i' \<Longrightarrow> unsent n i' \<Longrightarrow> unsent n i"
  by (auto simp: row_move_def unsent_def same_incident_def note_move_simps)

lemma table_step_count:
  "table_step rows rows' \<Longrightarrow> (\<And>i i'. row_move i i' \<Longrightarrow> Q i' \<Longrightarrow> Q i) \<Longrightarrow> count_where Q rows' \<le> count_where Q rows"
  unfolding table_step_def by (blast intro: count_where_mono)

lemma step_unsent:
  "count_where (unsent n) (inc_step rows op) + events_count (is_sent n) (inc_events rows op)
     \<le> count_where (unsent n) rows + events_count (is_opened n) (inc_events rows op)"
proof (cases "grows_table op")
  case True
  show ?thesis
  proof (cases op)
    case (IncOpen ident r c orig nt why now)
    have "events_count (is_sent n) (inc_events rows op) = 0" using IncOpen by (simp split: sum.split open_result.split)
    then show ?thesis using IncOpen open_account[of "unsent n" n rows ident r c orig nt why now] by (simp add: unsent_def)
  qed (use True in \<open>simp_all add: purge_incidents_def Let_def count_where_filter\<close>)
next
  case False
  have le: "count_where (unsent n) (inc_step rows op) \<le> count_where (unsent n) rows"
    by (rule table_step_count[OF step_moves[OF False]]) (rule row_move_unsent)
  show ?thesis
  proof (cases op)
    case (IncClaimNote m)
    show ?thesis
    proof (cases "m = n \<and> any_row (unsent n) rows")
      case True
      then have m: "m = n" and pos: "0 < count_where (unsent n) rows" by (simp_all add: count_where_pos)
      have "inc_step rows op = update_where (unsent n) (\<lambda>i. i\<lparr>i_notify := NSending\<rparr>) rows"
        using IncClaimNote m by (simp add: claim_notification_def unsent_fun Let_def)
      then have "count_where (unsent n) (inc_step rows op) = 0"
        by (simp only:) (rule update_away, simp add: unsent_def)
      moreover have "events_count (is_sent n) (inc_events rows op) \<le> 1" using IncClaimNote by simp
      ultimately show ?thesis using pos by linarith
    next
      case False
      then have "events_count (is_sent n) (inc_events rows op) = 0"
        using IncClaimNote by (auto simp: claim_notification_def Let_def unsent_def any_row_def)
      then show ?thesis using le by simp
    qed
  qed (use False le in \<open>auto split: sum.split\<close>)
qed

text \<open>An incident's message leaves at most once: however many passes, surfaces and restarts work on the store, no
  more sends of an incident are started than incidents were opened under its id.\<close>

theorem incident_sent_once:
  "events_count (is_sent n) (inc_log [] ops) \<le> events_count (is_opened n) (inc_log [] ops)"
proof -
  have "incidents_ok []" by (simp add: incidents_ok_def live_keys_def)
  from log_balance[OF step_unsent this] show ?thesis by (simp add: count_where_def)
qed

definition undecided :: "string \<Rightarrow> incident \<Rightarrow> bool" where
  "undecided n i \<longleftrightarrow> i_id i = n \<and> i_state i = IOpen"

lemma undecided_fun: "undecided n = (\<lambda>i. i_id i = n \<and> i_state i = IOpen)"
  by (rule ext) (simp add: undecided_def)

lemma decide_row_not_open: "i_state (decide_row a actor p now i) \<noteq> IOpen"
  by (simp add: decide_row_def Let_def)

lemma step_undecided:
  assumes ok: "incidents_ok rows"
  shows "count_where (undecided n) (inc_step rows op) + events_count (is_decided n) (inc_events rows op)
     \<le> count_where (undecided n) rows + events_count (\<lambda>e. is_opened n e \<or> is_reopened n e) (inc_events rows op)"
proof (cases op)
  case (IncOpen ident r c orig nt why now)
  have "events_count (is_decided n) (inc_events rows op) = 0" using IncOpen by (simp split: sum.split open_result.split)
  moreover have "events_count (is_opened n) (inc_events rows op) \<le> events_count (\<lambda>e. is_opened n e \<or> is_reopened n e) (inc_events rows op)"
    using IncOpen by (simp split: sum.split open_result.split)
  ultimately show ?thesis using IncOpen open_account[of "undecided n" n rows ident r c orig nt why now] by (simp add: undecided_def)
next
  case (IncDecide m a actor p now)
  show ?thesis
  proof (cases "fst (claim_decision m a actor p now rows)")
    case (Inl e)
    then show ?thesis using IncDecide by (auto simp: claim_decision_def split: option.splits if_splits)
  next
    case (Inr i)
    then obtain j where j: "get_incident m rows = Some j" "i_state j = IOpen"
      "inc_step rows op = update_where (\<lambda>i. i_id i = m \<and> i_state i = IOpen) (decide_row a actor p now) rows"
      using IncDecide by (auto simp: claim_decision_def split: option.splits if_splits)
    show ?thesis
    proof (cases "m = n")
      case True
      have "j \<in> set rows" "i_id j = n" using j(1) True by (simp_all add: get_incident_def find_Some_iff) (auto simp: in_set_conv_nth)
      then have "any_row (undecided n) rows" using j(2) by (auto simp only: any_row_def undecided_def)
      then have pos: "0 < count_where (undecided n) rows" by (simp only: count_where_pos)
      have "count_where (undecided n) (update_where (undecided n) (decide_row a actor p now) rows) = 0"
        by (rule update_away) (simp add: undecided_def decide_row_not_open)
      then have zero: "count_where (undecided n) (inc_step rows op) = 0" using j(3) True by (simp add: undecided_fun)
      have "events_count (is_decided n) (inc_events rows op) \<le> 1" using IncDecide by (simp split: sum.split)
      then show ?thesis using pos zero by linarith
    next
      case False
      have "count_where (undecided n) (inc_step rows op) \<le> count_where (undecided n) rows"
        unfolding j(3) by (rule count_update_le) (auto simp: undecided_def decide_row_def Let_def split: if_splits)
      then show ?thesis using IncDecide Inr False by simp
    qed
  qed
next
  case (IncFinish m good code msg now)
  let ?P = "\<lambda>i. i_id i = m \<and> i_state i = IActing"
  have st: "inc_step rows op = update_where ?P (settle_row good code msg now) rows" using IncFinish by (simp add: finish_decision_def Let_def)
  show ?thesis
  proof (cases "m = n \<and> any_row ?P rows \<and> decision_state good code = IOpen")
    case True
    have "distinct (map i_id (inc_step rows op))" using step_ok[OF ok] by (simp add: incidents_ok_def)
    then have "count_where (undecided n) (inc_step rows op) \<le> 1" by (rule count_where_id) (simp add: undecided_def)
    moreover have "is_reopened n (EReopened m)" "inc_events rows op = [EReopened m]" using True IncFinish by auto
    ultimately show ?thesis by simp
  next
    case False
    have "\<And>i. i \<in> set rows \<Longrightarrow> undecided n (if ?P i then settle_row good code msg now i else i) \<Longrightarrow> undecided n i"
      using False by (auto simp: undecided_def settle_row_def Let_def any_row_def split: if_splits)
    then have "count_where (undecided n) (inc_step rows op) \<le> count_where (undecided n) rows"
      unfolding st update_where_def by (rule count_where_mono)
    then show ?thesis using IncFinish by simp
  qed
next
  case (IncPurge now)
  then show ?thesis by (simp add: purge_incidents_def Let_def count_where_filter)
next
  case (IncRecover now)
  then show ?thesis
    by (auto simp: recover_incidents_def undecided_def recover_diagnosis_def recover_action_def recover_note_def
        intro!: count_where_mono split: if_splits)
next
  case (IncFinishNote m outcome why)
  then show ?thesis by (auto simp: finish_notification_def undecided_def intro!: count_update_le)
qed (auto simp: refresh_def refreshed_def resolve_def expire_old_def claim_notification_def claim_diagnosis_def finish_diagnosis_def
      claim_auto_step_def Let_def undecided_def intro!: count_update_le)

text \<open>C22: An incident is decided once: of all the buttons, commands and runbooks that act on an incident, in any order and
  from any surface, at most one wins for each time it was open - when it was opened, and each time an action was refused
  and gave it back to the owner.\<close>

theorem incident_decided_once:
  "events_count (is_decided n) (inc_log [] ops) \<le> events_count (\<lambda>e. is_opened n e \<or> is_reopened n e) (inc_log [] ops)"
proof -
  have "incidents_ok []" by (simp add: incidents_ok_def live_keys_def)
  from log_balance[OF step_undecided this] show ?thesis by (simp add: count_where_def)
qed


text \<open>C16: There is one live incident for a run and condition: after any sequence of operations, ids are unique and no two
  rows that are open or being acted on are about the same run and condition.\<close>

theorem one_live_incident:
  "distinct (map i_id (foldl inc_step [] ops))
     \<and> distinct (map (\<lambda>i. (i_run i, i_cond i)) (filter live_row (foldl inc_step [] ops)))"
proof -
  have "incidents_ok []" by (simp add: incidents_ok_def live_keys_def)
  from incidents.run_inv[OF this] show ?thesis by (simp add: incidents_ok_def live_keys_def)
qed

subsection \<open>What the owner decided stays decided\<close>

text \<open>When each operation that can purge works.\<close>

fun purge_time :: "inc_op \<Rightarrow> real option" where
  "purge_time (IncPurge now) = Some now"
| "purge_time _ = None"

definition kept_until :: "real \<Rightarrow> inc_op list \<Rightarrow> bool" where
  "kept_until t ops \<longleftrightarrow> list_all (\<lambda>op. case purge_time op of None \<Rightarrow> True | Some now \<Rightarrow> now - RETAIN_S \<le> t) ops"

fun is_opened_for :: "string \<Rightarrow> string \<Rightarrow> string \<Rightarrow> inc_event \<Rightarrow> bool" where
  "is_opened_for run c v (EOpened n run' c' v') = (run' = run \<and> c' = c \<and> v' = v)"
| "is_opened_for run c v _ = False"

definition decided_about :: "string \<Rightarrow> string \<Rightarrow> string \<Rightarrow> real \<Rightarrow> incident \<Rightarrow> bool" where
  "decided_about run c v t i \<longleftrightarrow> decided_row i \<and> i_run i = run \<and> i_cond i = c \<and> i_run_version i = v \<and> i_updated i = t"

lemma row_move_decided: "row_move i i' \<Longrightarrow> decided_about run c v t i \<Longrightarrow> decided_about run c v t i'"
proof -
  assume m: "row_move i i'" and d: "decided_about run c v t i"
  then have "\<not> live_row i" by (auto simp: decided_about_def decided_row_def live_row_def)
  from row_move_ended[OF m this] row_move_same[OF m] d show "decided_about run c v t i'"
    by (simp add: decided_about_def decided_row_def same_incident_def)
qed

lemma step_decided:
  assumes "any_row (decided_about run c v t) rows" "kept_until t [op]"
  shows "any_row (decided_about run c v t) (inc_step rows op)"
    and "events_count (is_opened_for run c v) (inc_events rows op) = 0"
proof -
  obtain i where i: "i \<in> set rows" "decided_about run c v t i" using assms(1) by (auto simp: any_row_def)
  show "any_row (decided_about run c v t) (inc_step rows op)"
  proof (cases "grows_table op")
    case True
    have "\<not> live_row i" using i(2) by (auto simp: decided_about_def decided_row_def live_row_def)
    have new: "set rows \<subseteq> set (inc_step rows (IncOpen ident r c orig nt why now))" for ident r c orig nt why now
      using open_cases[of ident r c orig nt why now rows] by auto
    show ?thesis
    proof (cases op)
      case (IncPurge now)
      then have "i \<in> set (inc_step rows op)"
        using i assms(2) by (simp add: purge_incidents_def Let_def kept_until_def decided_about_def)
      then show ?thesis using i(2) by (auto simp only: any_row_def)
    next
      case (IncOpen ident r c' orig nt why now)
      have "i \<in> set (inc_step rows op)" unfolding IncOpen by (rule subsetD[OF new i(1)])
      then show ?thesis using i(2) by (auto simp only: any_row_def)
    qed (use True in simp_all)
  next
    case False
    obtain f where f: "\<forall>i \<in> set rows. row_move i (f i)" "inc_step rows op = map f rows"
      using step_moves[OF False] by (auto simp: table_step_def)
    then have "decided_about run c v t (f i)" using i row_move_decided by blast
    then show ?thesis using f(2) i(1) by (auto simp: any_row_def)
  qed
  show "events_count (is_opened_for run c v) (inc_events rows op) = 0"
  proof (cases op)
    case (IncOpen ident r c' orig nt why now)
    show ?thesis
    proof (cases "\<exists>j. open_incident ident r c' orig nt why now rows = (Inr (Opened j), rows @ [j])")
      case True
      then obtain j where new: "open_incident ident r c' orig nt why now rows = (Inr (Opened j), rows @ [j])" ..
      have "\<not> (r_id r = run \<and> c' = c \<and> r_version r = v)"
        using opened_row[OF new] i by (auto simp: any_row_def decided_about_def)
      then show ?thesis using IncOpen new opened_row[OF new] by auto
    next
      case False
      then show ?thesis using IncOpen open_cases[of ident r c' orig nt why now rows] by simp
    qed
  qed (auto split: sum.split)
qed

text \<open>C23: The owner is asked about a failure once: after an incident was dismissed, expired or closed by an action, no
  incident is opened again for that run, condition and version of the run, whatever happens, until the decision itself is
  purged thirty days later.\<close>

theorem decided_failure_not_reopened:
  assumes "i \<in> set rows" "decided_row i" "kept_until (i_updated i) ops"
  shows "events_count (is_opened_for (i_run i) (i_cond i) (i_run_version i)) (inc_log rows ops) = 0"
proof -
  have "any_row (decided_about (i_run i) (i_cond i) (i_run_version i) (i_updated i)) rows"
    using assms(1,2) by (auto simp: any_row_def decided_about_def)
  then show ?thesis using assms(3)
  proof (induction ops arbitrary: rows)
    case (Cons op ops)
    have "kept_until (i_updated i) [op]" "kept_until (i_updated i) ops" using Cons.prems(2) by (simp_all add: kept_until_def)
    then show ?case using Cons.IH step_decided[OF Cons.prems(1)] by simp
  qed simp
qed

subsection \<open>Restarts\<close>

text \<open>A restart leaves nothing half done and repeats nothing: afterwards no message is being sent, no action and no
  diagnosis is running; a message that was pending is still pending, and an action that was running is recorded as
  interrupted.\<close>

theorem restart_settles:
  assumes "rows' = snd (recover_incidents now rows)"
  shows "(\<forall>i \<in> set rows'. i_notify i \<noteq> NSending \<and> i_state i \<noteq> IActing \<and> i_diag_state i \<noteq> DRunning)
     \<and> map i_id (filter (\<lambda>i. i_notify i = NPending) rows') = map i_id (filter (\<lambda>i. i_notify i = NPending) rows)
     \<and> map i_id (filter (\<lambda>i. i_state i = IOpen) rows') = map i_id (filter (\<lambda>i. i_state i = IOpen) rows)"
proof -
  let ?f = "recover_diagnosis \<circ> recover_action now \<circ> recover_note"
  have f: "i_id (?f i) = i_id i" "i_notify (?f i) \<noteq> NSending" "i_state (?f i) \<noteq> IActing" "i_diag_state (?f i) \<noteq> DRunning"
    "i_notify (?f i) = NPending \<longleftrightarrow> i_notify i = NPending" "i_state (?f i) = IOpen \<longleftrightarrow> i_state i = IOpen" for i
    by (auto simp: recover_diagnosis_def recover_action_def recover_note_def)
  have "rows' = map ?f rows" using assms by (simp add: recover_incidents_def)
  then show ?thesis using f by (simp add: filter_map comp_def)
qed

end
