(* ===== verification/Supervision.thy ===== *)
theory Supervision
  imports IncidentRuns
begin

text \<open>
  The run supervisor (kazma_core/runs): the registry that reads every kind's runs and carries out an action
  (registry.py), the owner's decision on an incident (decide.py), the automatic first steps (runbooks.py), the delivery of an
  incident (notify.py), one pass over all runs, and the supervisor's own outage (supervisor.py). What a kind's
  store answers, what its control does, and what a chat platform does with a message are parameters.
\<close>

subsection \<open>The registry\<close>

text \<open>What reading one kind gave: a reason, or its runs.\<close>

type_synonym kind_read = "string \<Rightarrow> (string, run list) sum"

record listing =
  l_runs :: "run list"
  l_errors :: "(string \<times> string) list"

definition judged :: "real \<Rightarrow> string \<Rightarrow> run list \<Rightarrow> run list" where
  "judged now kind runs =
     (case spec_of kind of None \<Rightarrow> [] | Some spec \<Rightarrow> map (\<lambda>r. with_verdict r (judge r spec now)) runs)"

definition run_time :: "run \<Rightarrow> real" where
  "run_time r = (case last_progress r of None \<Rightarrow> 0 | Some t \<Rightarrow> t)"

definition newest_runs :: "run list \<Rightarrow> run list" where
  "newest_runs runs =
     (let desc = (\<lambda>rs. rev (sort_key run_time (rev rs)))
      in desc (filter (\<lambda>r. r_ended r = None) runs) @ desc (filter (\<lambda>r. r_ended r \<noteq> None) runs))"

definition list_runs :: "string list \<Rightarrow> kind_read \<Rightarrow> real \<Rightarrow> listing" where
  "list_runs kinds rd now =
     (let wanted = filter (\<lambda>k. spec_of k \<noteq> None) (if kinds = [] then map fst KINDS else kinds)
      in \<lparr>l_runs = newest_runs (concat (map (\<lambda>k. case rd k of Inl e \<Rightarrow> [] | Inr rs \<Rightarrow> judged now k rs) wanted)),
          l_errors = concat (map (\<lambda>k. case rd k of Inl e \<Rightarrow> [(k, e)] | Inr rs \<Rightarrow> []) wanted)\<rparr>)"

text \<open>With the decisions at hand; when they cannot be read every run stays as it is.\<close>

definition mark_handled :: "incidents option \<Rightarrow> run list \<Rightarrow> run list" where
  "mark_handled store runs =
     (case store of None \<Rightarrow> runs
      | Some rows \<Rightarrow> map (\<lambda>r. if (r_id r, r_version r) \<in> (\<lambda>(i, c, v). (i, v)) ` decided_keys rows then r\<lparr>r_handled := True\<rparr> else r) runs)"

datatype attempt = Did bool string string | WorkFailed string string | Broke string string | WasCancelled

text \<open>The calls of the kinds' own controls: kind, native id, action.\<close>

type_synonym act_calls = "(string \<times> string \<times> string) list"

record surroundings =
  s_read :: kind_read
  s_act :: "string \<Rightarrow> string \<Rightarrow> string \<Rightarrow> attempt"
  s_graph :: bool
  s_flags :: pyval
  s_origin :: "run \<Rightarrow> origin"
  s_send :: "incident \<Rightarrow> attempt"
  s_ops :: "incident \<Rightarrow> bool"
  s_ids :: "nat \<Rightarrow> string"

definition get_run :: "surroundings \<Rightarrow> string \<Rightarrow> string \<Rightarrow> real \<Rightarrow> (string, run option) sum" where
  "get_run s rid kind now =
     (let l = list_runs [kind] (s_read s) now
      in case map_of (l_errors l) kind of
           Some e \<Rightarrow> Inl (kind @ '' runs could not be read: '' @ e)
         | None \<Rightarrow> Inr (find (\<lambda>r. r_id r = rid) (l_runs l)))"

definition perform :: "surroundings \<Rightarrow> string \<Rightarrow> string \<Rightarrow> real \<Rightarrow> attempt \<times> act_calls" where
  "perform s rid action now =
     (case split_run_id rid of
        Inl e \<Rightarrow> (Did False ''unknown_run'' ''No such run.'', [])
      | Inr (kind, native) \<Rightarrow>
          (case spec_of kind of
             None \<Rightarrow> (Did False ''unknown_run'' ''No such run.'', [])
           | Some spec \<Rightarrow>
               if ks_read_only spec then (Did False ''read_only'' ''This kind of run takes no actions here.'', [])
               else (case get_run s rid kind now of
                       Inl msg \<Rightarrow> (WorkFailed ''RuntimeError'' msg, [])
                     | Inr None \<Rightarrow> (Did False ''gone'' ''The run is no longer listed: it finished or was removed.'', [])
                     | Inr (Some r) \<Rightarrow>
                         if action \<notin> set (r_actions r)
                         then (Did False ''not_offered'' (''The run is '' @ run_state_text (r_state r) @ '' now and does not offer '' @ action @ ''.''), [])
                         else (s_act s kind native action, [(kind, native, action)]))))"

subsection \<open>The owner's decision\<close>

definition ACTION_WORDS :: "(string \<times> string) list" where
  "ACTION_WORDS = [(''cancel'', ''Cancel''), (''retry'', ''Retry''), (''retry_checked'', ''Retry (I checked its effects)''),
     (''close'', ''Close the turn''), (''dismiss'', ''Dismiss''), (''continue'', ''Continue''),
     (''diagnose'', ''Ask Kazma to diagnose'')]"

definition action_word :: "string \<Rightarrow> string" where
  "action_word a = (case map_of ACTION_WORDS a of Some t \<Rightarrow> t | None \<Rightarrow> a)"

definition or_text :: "string \<Rightarrow> string \<Rightarrow> string" where
  "or_text a b = (if a = [] then b else a)"

datatype reply = Reply bool string string "incident option" | Escaped string

definition already :: "incident option \<Rightarrow> reply" where
  "already row =
     (case row of
        None \<Rightarrow> Reply False ''unknown_incident'' ''No such incident.'' None
      | Some i \<Rightarrow>
          if i_state i = IResolved then Reply False ''resolved'' ''Already settled: the run moved on by itself.'' row
          else if i_state i = IExpired then Reply False ''expired'' ''This incident expired unanswered.'' row
          else Reply False ''already_decided''
                 (''Already handled: '' @ or_text (action_word (i_action i)) ''a decision'' @ '', by '' @ or_text (i_by i) ''someone''
                  @ '' on '' @ or_text (i_platform i) ''another surface'' @ ''.''
                  @ (if i_message i = [] then [] else '' Outcome: '' @ i_message i)) row)"

definition start_diagnosis :: "surroundings \<Rightarrow> incident \<Rightarrow> real \<Rightarrow> incidents \<Rightarrow> reply \<times> incidents" where
  "start_diagnosis s i now rows =
     (if \<not> s_graph s then (Reply False ''diagnosis_unavailable'' ''The agent is not ready to diagnose.'' (Some i), rows)
      else (case claim_diagnosis (i_id i) now rows of
              (True, rows') \<Rightarrow> (Reply True ''diagnosing'' ''Diagnosing; the answer comes here in a minute or two.'' (Some i), rows')
            | (False, rows') \<Rightarrow> (Reply False ''diagnosis_running'' ''A diagnosis of this incident is already running.'' (Some i), rows')))"

text \<open>\<open>settle_on_error\<close>: a failure no handler took is recorded, then goes on; a cancellation records nothing.\<close>

definition finish_attempt :: "string \<Rightarrow> attempt \<Rightarrow> real \<Rightarrow> incidents \<Rightarrow> reply \<times> incidents" where
  "finish_attempt n a now rows =
     (case a of
        Did ok code message \<Rightarrow>
          (case finish_decision n ok code message now rows of (final, rows') \<Rightarrow> (Reply ok code (or_text message code) final, rows'))
      | WorkFailed ty msg \<Rightarrow>
          (case finish_decision n False ty (take 300 msg) now rows of
             (final, rows') \<Rightarrow> (Reply False ''action_failed'' (''The action failed: '' @ msg) final, rows'))
      | Broke ty msg \<Rightarrow> (Escaped ty, snd (finish_decision n False ty (take 300 msg) now rows))
      | WasCancelled \<Rightarrow> (Escaped ''CancelledError'', rows))"

definition decide ::
  "surroundings \<Rightarrow> string \<Rightarrow> string \<Rightarrow> string \<Rightarrow> string \<Rightarrow> real \<Rightarrow> incidents \<Rightarrow> reply \<times> incidents \<times> act_calls" where
  "decide s n action actor platform now rows =
     (if action = ''diagnose''
      then (case get_incident n rows of
              Some i \<Rightarrow> if live_row i then (case start_diagnosis s i now rows of (a, rows') \<Rightarrow> (a, rows', []))
                        else (already (Some i), rows, [])
            | None \<Rightarrow> (already None, rows, []))
      else (case claim_decision n action actor platform now rows of
              (Inl (DecisionConflict row), rows') \<Rightarrow> (already row, rows', [])
            | (Inl (NotOffered msg), rows') \<Rightarrow> (Reply False ''not_offered'' msg None, rows', [])
            | (Inr i, rows') \<Rightarrow>
                if action = ''dismiss'' then (Reply True ''dismissed'' ''Dismissed. The run is left as it is.'' (Some i), rows', [])
                else (case perform s (i_run i) action now of
                        (a, calls) \<Rightarrow> (case finish_attempt n a now rows' of (ans, rows'') \<Rightarrow> (ans, rows'', calls)))))"

subsection \<open>Runbooks\<close>

definition MAX_STEPS_PER_DAY :: int where "MAX_STEPS_PER_DAY = 1"

definition RUNBOOK :: "(string \<times> string) list" where
  "RUNBOOK = [(''swarm_task.failed'', ''retry''), (''document_job.failed'', ''retry''), (''memory_task.failed'', ''retry''),
     (''chat_turn.dead'', ''close'')]"

definition validate_runbooks :: "pyval \<Rightarrow> (exn, pydict) sum" where
  "validate_runbooks v =
     (case v of
        PDict d \<Rightarrow>
          if \<not> list_all (\<lambda>(k, x). k \<in> fst ` set RUNBOOK) d then Inl (ValueError ''Unknown runbook(s)'')
          else if \<not> list_all (\<lambda>(k, x). case x of PBool b \<Rightarrow> True | _ \<Rightarrow> False) d
            then Inl (ValueError ''Each runbook is switched on or off with true or false.'')
          else Inr d
      | _ \<Rightarrow> Inl (ValueError ''runs.runbooks must be a mapping of runbook names to true/false.''))"

text \<open>A runbook is on only when its flag is True itself.\<close>

definition runbook_on :: "pyval \<Rightarrow> string \<Rightarrow> bool" where
  "runbook_on stored name \<longleftrightarrow>
     name \<in> fst ` set RUNBOOK \<and> (case stored of PDict d \<Rightarrow> map_of d name = Some (PBool True) | _ \<Rightarrow> False)"

definition refusal :: "run \<Rightarrow> string \<Rightarrow> string" where
  "refusal r action =
     (if r_effects r = ''unknown'' then ''its effects are unknown''
      else if action = ''retry_checked'' then ''only a person checks a run's effects''
      else if action \<notin> set (r_actions r) then ''the run does not offer '' @ action @ '' now''
      else [])"

definition runbook_name :: "incident \<Rightarrow> run \<Rightarrow> string" where
  "runbook_name i r = r_kind r @ ''.'' @ i_cond i"

definition apply_runbook :: "surroundings \<Rightarrow> incident \<Rightarrow> run \<Rightarrow> real \<Rightarrow> incidents \<Rightarrow> reply option \<times> incidents \<times> act_calls" where
  "apply_runbook s i r now rows =
     (case map_of RUNBOOK (runbook_name i r) of
        None \<Rightarrow> (None, rows, [])
      | Some action \<Rightarrow>
          if \<not> runbook_on (s_flags s) (runbook_name i r) then (None, rows, [])
          else if refusal r action \<noteq> [] then (None, rows, [])
          else (case claim_auto_step (i_id i) (or_text (r_lineage r) (r_id r)) MAX_STEPS_PER_DAY (now - 86400) rows of
                  (False, rows') \<Rightarrow> (None, rows', [])
                | (True, rows') \<Rightarrow> (case decide s (i_id i) action ''kazma'' ''runbook'' now rows' of (ans, rest) \<Rightarrow> (Some ans, rest))))"

subsection \<open>Delivery\<close>

definition CHAT_PLATFORMS :: "string list" where
  "CHAT_PLATFORMS = [''telegram'', ''discord'', ''slack'']"

definition origin_part :: "string \<Rightarrow> incident \<Rightarrow> string" where
  "origin_part k i = (case map_of (i_origin i) k of None \<Rightarrow> [] | Some v \<Rightarrow> v)"

text \<open>A message that left, and where it went.\<close>

datatype message = ToChat string | ToOps string | RecoveryNote string bool

definition settle_note :: "string \<Rightarrow> inc_notify \<Rightarrow> string \<Rightarrow> incidents \<Rightarrow> incidents" where
  "settle_note n out why rows = (case finish_notification n out why rows of Inl e \<Rightarrow> rows | Inr rows' \<Rightarrow> rows')"

definition to_ops :: "surroundings \<Rightarrow> incident \<Rightarrow> incidents \<Rightarrow> (string, string) sum \<times> incidents \<times> message list" where
  "to_ops s i rows =
     (if s_ops s i then (Inr ''sending'', rows, [ToOps (i_id i)])
      else (Inr ''refused'', settle_note (i_id i) NRefused ''ops alerts are switched off or refused it'' rows, []))"

definition deliver :: "surroundings \<Rightarrow> incident \<Rightarrow> incidents \<Rightarrow> (string, string) sum \<times> incidents \<times> message list" where
  "deliver s i rows =
     (case claim_notification (i_id i) rows of
        (False, rows') \<Rightarrow> (Inr ''already_claimed'', rows', [])
      | (True, rows') \<Rightarrow>
          if origin_part ''platform'' i \<in> set CHAT_PLATFORMS \<and> origin_part ''target'' i \<noteq> []
          then (case s_send s i of
                  Did True code text' \<Rightarrow>
                    (Inr ''delivered'', settle_note (i_id i) NDelivered (origin_part ''platform'' i) rows', [ToChat (i_id i)])
                | Did False code text' \<Rightarrow> to_ops s i rows'
                | WorkFailed ty msg \<Rightarrow> to_ops s i rows'
                | Broke ty msg \<Rightarrow> (Inl ty, settle_note (i_id i) NUncertain (''the send raised '' @ ty) rows', [])
                | WasCancelled \<Rightarrow> (Inl ''CancelledError'', rows', []))
          else to_ops s i rows')"

text \<open>The receipt of the ops channels: True, False, or None when it is not known.\<close>

definition ops_receipt :: "string \<Rightarrow> bool option \<Rightarrow> incidents \<Rightarrow> incidents" where
  "ops_receipt n accepted rows =
     (case accepted of
        None \<Rightarrow> settle_note n NUncertain ''delivery was interrupted'' rows
      | Some True \<Rightarrow> settle_note n NDelivered ''ops channels'' rows
      | Some False \<Rightarrow> settle_note n NRefused ''no ops channel took it'' rows)"

subsection \<open>One pass\<close>

text \<open>
  What a pass works on: the store, the messages that left, the actions the runbooks took, its counts, and the error that
  ended it, if one did. The steps after an error do nothing.
\<close>

record pass =
  p_rows :: incidents
  p_sent :: "message list"
  p_acts :: act_calls
  p_opened :: nat
  p_resolved :: nat
  p_delivered :: nat
  p_automatic :: nat
  p_error :: "string option"

definition unless_failed :: "(pass \<Rightarrow> pass) \<Rightarrow> pass \<Rightarrow> pass" where
  "unless_failed f p = (if p_error p = None then f p else p)"

definition changed_view :: "incident \<Rightarrow> run \<Rightarrow> bool" where
  "changed_view i r \<longleftrightarrow> i_title i \<noteq> take 200 (r_title r) \<or> i_detail i \<noteq> take 500 (r_detail r)
     \<or> i_run_state i \<noteq> run_state_text (r_state r) \<or> i_effects i \<noteq> r_effects r \<or> i_link i \<noteq> r_link r
     \<or> i_actions i \<noteq> r_actions r @ INCIDENT_ACTIONS"

definition after_opening :: "surroundings \<Rightarrow> real \<Rightarrow> run \<Rightarrow> incident \<Rightarrow> pass \<Rightarrow> pass" where
  "after_opening s now r i p =
     (case apply_runbook s i r now (p_rows p) of
        (ans, rows', calls) \<Rightarrow>
          p\<lparr>p_rows := rows', p_acts := p_acts p @ calls, p_opened := p_opened p + 1,
            p_automatic := p_automatic p + (case ans of Some (Reply True code msg row) \<Rightarrow> 1 | _ \<Rightarrow> 0),
            p_error := (case ans of Some (Escaped e) \<Rightarrow> Some e | _ \<Rightarrow> None)\<rparr>)"

definition open_bad :: "surroundings \<Rightarrow> real \<Rightarrow> real \<Rightarrow> run \<Rightarrow> string \<Rightarrow> pass \<Rightarrow> pass" where
  "open_bad s now watch r c p =
     (let quiet = quiet_reason r c watch
      in case open_incident (s_ids s (p_opened p)) r c (s_origin s r) (if quiet = [] then NPending else NSuppressed) quiet now (p_rows p) of
           (Inl e, rows') \<Rightarrow> p\<lparr>p_error := Some ''IntegrityError''\<rparr>
         | (Inr AlreadyDecided, rows') \<Rightarrow> p
         | (Inr (AlreadyLive i), rows') \<Rightarrow>
             if changed_view i r then p\<lparr>p_rows := refresh (i_id i) r now rows'\<rparr> else p
         | (Inr (Opened i), rows') \<Rightarrow> after_opening s now r i (p\<lparr>p_rows := rows'\<rparr>))"

definition look_at :: "surroundings \<Rightarrow> real \<Rightarrow> real \<Rightarrow> incidents \<Rightarrow> (string \<times> string \<times> string) set \<Rightarrow> run \<Rightarrow> pass \<Rightarrow> pass" where
  "look_at s now watch live0 decided r p =
     (case condition_of r of
        None \<Rightarrow> p
      | Some c \<Rightarrow>
          (case find (\<lambda>i. i_run i = r_id r \<and> i_cond i = c) (rev live0) of
             Some i \<Rightarrow> if i_state i = IOpen \<and> changed_view i r then p\<lparr>p_rows := refresh (i_id i) r now (p_rows p)\<rparr> else p
           | None \<Rightarrow> if (r_id r, c, r_version r) \<in> decided then p else open_bad s now watch r c p))"

definition bad_keys :: "run list \<Rightarrow> (string \<times> string) set" where
  "bad_keys runs = set (concat (map (\<lambda>r. case condition_of r of None \<Rightarrow> [] | Some c \<Rightarrow> [(r_id r, c)]) runs))"

definition run_by_id :: "string \<Rightarrow> run list \<Rightarrow> run option" where
  "run_by_id n runs = find (\<lambda>r. r_id r = n) (rev runs)"

definition settle_reason :: "run option \<Rightarrow> string" where
  "settle_reason r =
     (case r of None \<Rightarrow> ''the run is no longer listed''
      | Some r \<Rightarrow> if r_state r \<in> set ACTIVE_STATES then ''the run is making progress again'' else ''the run is '' @ run_state_text (r_state r))"

definition recovery_notes :: "incident \<Rightarrow> run option \<Rightarrow> message list" where
  "recovery_notes i r =
     (case r of None \<Rightarrow> []
      | Some r \<Rightarrow>
          if i_cond i \<in> {''stalled'', ''dead''} \<and> (r_state r \<in> set ACTIVE_STATES \<or> r_state r = Done)
             \<and> i_notify i \<in> {NDelivered, NUncertain}
          then [RecoveryNote (i_id i) (r_state r = Done)] else [])"

definition settle_one :: "real \<Rightarrow> listing \<Rightarrow> incident \<Rightarrow> pass \<Rightarrow> pass" where
  "settle_one now l i p =
     (if i_state i \<noteq> IOpen \<or> (i_run i, i_cond i) \<in> bad_keys (l_runs l) \<or> i_kind i \<in> fst ` set (l_errors l) then p
      else (let r = run_by_id (i_run i) (l_runs l)
            in case resolve (i_id i) (settle_reason r) now (p_rows p) of
                 (False, rows') \<Rightarrow> p
               | (True, rows') \<Rightarrow> p\<lparr>p_rows := rows', p_resolved := p_resolved p + 1, p_sent := p_sent p @ recovery_notes i r\<rparr>))"

definition deliver_one :: "surroundings \<Rightarrow> incident \<Rightarrow> pass \<Rightarrow> pass" where
  "deliver_one s i p =
     (case deliver s i (p_rows p) of
        (Inl e, rows', ms) \<Rightarrow> p\<lparr>p_rows := rows', p_sent := p_sent p @ ms, p_error := Some e\<rparr>
      | (Inr out, rows', ms) \<Rightarrow>
          p\<lparr>p_rows := rows', p_sent := p_sent p @ ms,
            p_delivered := p_delivered p + (if out \<in> {''delivered'', ''sending''} then 1 else 0)\<rparr>)"

definition start_pass :: "incidents \<Rightarrow> pass" where
  "start_pass rows =
     \<lparr>p_rows = rows, p_sent = [], p_acts = [], p_opened = 0, p_resolved = 0, p_delivered = 0, p_automatic = 0, p_error = None\<rparr>"

definition judge_runs :: "surroundings \<Rightarrow> real \<Rightarrow> real \<Rightarrow> listing \<Rightarrow> incidents \<Rightarrow> pass" where
  "judge_runs s now watch l rows =
     fold (\<lambda>r. unless_failed (look_at s now watch (live rows) (decided_keys rows) r)) (l_runs l) (start_pass rows)"

definition settle_runs :: "real \<Rightarrow> listing \<Rightarrow> incidents \<Rightarrow> pass \<Rightarrow> pass" where
  "settle_runs now l rows p = fold (\<lambda>i. unless_failed (settle_one now l i)) (live rows) p"

definition send_pending :: "surroundings \<Rightarrow> pass \<Rightarrow> pass" where
  "send_pending s p = unless_failed (\<lambda>p. fold (\<lambda>i. unless_failed (deliver_one s i)) (pending_notifications (p_rows p)) p) p"

text \<open>The first pass notes when watching started.\<close>

definition tick :: "surroundings \<Rightarrow> real \<Rightarrow> real option \<Rightarrow> incidents \<Rightarrow> pass \<times> real option" where
  "tick s now watch rows =
     (let started = (case watch of None \<Rightarrow> now | Some w \<Rightarrow> w); l = list_runs [] (s_read s) now
      in (send_pending s (settle_runs now l rows (judge_runs s now started l rows)), Some started))"

subsection \<open>The supervisor's own outage\<close>

record outage =
  o_failing :: "real option"
  o_paged :: bool

definition UNAVAILABLE_AFTER_S :: real where "UNAVAILABLE_AFTER_S = 300"

datatype pass_note = Good | Recovered | Failing | Paged

text \<open>A time of zero is passed over, as \<open>or\<close> does.\<close>

definition note_pass :: "bool \<Rightarrow> real \<Rightarrow> outage \<Rightarrow> pass_note \<times> outage" where
  "note_pass failed now o' =
     (if \<not> failed then (if o_paged o' then Recovered else Good, \<lparr>o_failing = None, o_paged = False\<rparr>)
      else (let since = (case or_time (o_failing o') (Some now) of Some t \<Rightarrow> t | None \<Rightarrow> now)
            in if \<not> o_paged o' \<and> UNAVAILABLE_AFTER_S \<le> now - since then (Paged, \<lparr>o_failing = Some since, o_paged = True\<rparr>)
               else (Failing, o'\<lparr>o_failing := Some since\<rparr>)))"

text \<open>A page an earlier process sent: since when, if the mark says.\<close>

definition restore_owed_page :: "real option option \<Rightarrow> real \<Rightarrow> outage \<Rightarrow> outage" where
  "restore_owed_page mark now o' =
     (case mark of None \<Rightarrow> o'
      | Some since \<Rightarrow> \<lparr>o_failing = or_time since (Some now), o_paged = True\<rparr>)"

end
