(* ===== verification/SupervisionRuns.thy ===== *)
theory SupervisionRuns
  imports Supervision
begin

text \<open>
  What holds of decisions and passes of the run supervisor, over every history of passes, decisions from any surface,
  receipts, restarts and housekeeping. Each of them is a run of the incident store's machine, so what holds of
  that machine holds here.
\<close>

subsection \<open>Decisions\<close>

lemma get_incident_Some: "get_incident n rows = Some i \<Longrightarrow> i \<in> set rows \<and> i_id i = n"
  by (auto simp: get_incident_def find_Some_iff)

lemma claim_decision_Inr:
  "claim_decision n a actor p now rows = (Inr i, rows') \<Longrightarrow>
     \<exists>j. get_incident n rows = Some j \<and> i_state j = IOpen \<and> a \<in> set (i_actions j) \<and> i = decide_row a actor p now j
       \<and> rows' = update_where (\<lambda>i. i_id i = n \<and> i_state i = IOpen) (decide_row a actor p now) rows"
  by (auto simp: claim_decision_def split: option.splits if_splits)

lemma claim_decision_Inl: "claim_decision n a actor p now rows = (Inl e, rows') \<Longrightarrow> rows' = rows"
  by (auto simp: claim_decision_def split: option.splits if_splits)

lemma perform_calls:
  assumes "perform s rid action now = (a, calls)" "calls \<noteq> []"
  shows "\<exists>kind native spec r. split_run_id rid = Inr (kind, native) \<and> spec_of kind = Some spec \<and> \<not> ks_read_only spec
    \<and> r \<in> set (l_runs (list_runs [kind] (s_read s) now)) \<and> r_id r = rid \<and> action \<in> set (r_actions r)
    \<and> calls = [(kind, native, action)] \<and> a = s_act s kind native action"
proof -
  obtain kind native where k: "split_run_id rid = Inr (kind, native)"
    using assms by (cases "split_run_id rid") (auto simp: perform_def)
  obtain spec where sp: "spec_of kind = Some spec" "\<not> ks_read_only spec"
    using assms k by (cases "spec_of kind") (auto simp: perform_def split: if_splits)
  obtain r where r: "get_run s rid kind now = Inr (Some r)"
    using assms k sp by (cases "get_run s rid kind now") (auto simp: perform_def split: option.splits)
  then have "r \<in> set (l_runs (list_runs [kind] (s_read s) now))" "r_id r = rid"
    by (auto simp: get_run_def Let_def find_Some_iff split: option.splits)
  then show ?thesis using assms k sp r by (auto simp: perform_def split: if_splits)
qed

lemma decide_no_calls:
  "snd (snd (decide s n ''diagnose'' actor platform now rows)) = []"
  "snd (snd (decide s n ''dismiss'' actor platform now rows)) = []"
  by (simp_all add: decide_def split: option.split prod.split sum.split claim_error.split)

lemma start_diagnosis_rows:
  "snd (start_diagnosis s i now rows) = rows \<or> snd (start_diagnosis s i now rows) = snd (claim_diagnosis (i_id i) now rows)"
  by (simp add: start_diagnosis_def split: prod.split bool.split)

lemma decide_diagnose_rows:
  "fst (snd (decide s n ''diagnose'' actor platform now rows)) = rows
   \<or> fst (snd (decide s n ''diagnose'' actor platform now rows)) = snd (claim_diagnosis n now rows)"
proof (cases "get_incident n rows")
  case (Some i)
  then have "i_id i = n" using get_incident_Some by blast
  then show ?thesis using Some start_diagnosis_rows[of s i now rows] by (cases "start_diagnosis s i now rows") (simp add: decide_def)
qed (simp add: decide_def)

lemma decide_other:
  "action \<noteq> ''diagnose'' \<Longrightarrow> decide s n action actor platform now rows =
     (case claim_decision n action actor platform now rows of
        (Inl (DecisionConflict row), rows') \<Rightarrow> (already row, rows', [])
      | (Inl (NotOffered msg), rows') \<Rightarrow> (Reply False ''not_offered'' msg None, rows', [])
      | (Inr i, rows') \<Rightarrow>
          if action = ''dismiss'' then (Reply True ''dismissed'' ''Dismissed. The run is left as it is.'' (Some i), rows', [])
          else (case perform s (i_run i) action now of
                  (a, calls) \<Rightarrow> (case finish_attempt n a now rows' of (ans, rows'') \<Rightarrow> (ans, rows'', calls))))"
  by (simp add: decide_def)

lemma decide_calls:
  assumes "decide s n action actor platform now rows = (ans, rows', calls)" "calls \<noteq> []"
  shows "\<exists>i kind native spec r. get_incident n rows = Some i \<and> i_state i = IOpen \<and> action \<in> set (i_actions i)
    \<and> split_run_id (i_run i) = Inr (kind, native) \<and> spec_of kind = Some spec \<and> \<not> ks_read_only spec
    \<and> r \<in> set (l_runs (list_runs [kind] (s_read s) now)) \<and> r_id r = i_run i \<and> action \<in> set (r_actions r)
    \<and> calls = [(kind, native, action)]"
proof -
  have a: "action \<noteq> ''diagnose''" "action \<noteq> ''dismiss''"
    using assms decide_no_calls[of s n actor platform now rows] by auto
  obtain e rows1 where e: "claim_decision n action actor platform now rows = (e, rows1)" by fastforce
  obtain i where i: "e = Inr i"
    using assms a(1) e by (cases e) (auto simp: decide_other split: claim_error.splits)
  note c = e[unfolded i]
  obtain j where j: "get_incident n rows = Some j" "i_state j = IOpen" "action \<in> set (i_actions j)"
      "i = decide_row action actor platform now j"
    using claim_decision_Inr[OF c] by blast
  have "i_run i = i_run j" using j(4) by (simp add: decide_row_def Let_def)
  moreover obtain att where "perform s (i_run i) action now = (att, calls)"
    using assms(1) a c by (cases "perform s (i_run i) action now") (simp add: decide_other split: prod.splits)
  ultimately show ?thesis using perform_calls[OF _ assms(2)] j by metis
qed

text \<open>C13: A decision runs a control only when both sides still offer it, and runs it once: the incident was open and offered the
  action, its kind takes actions, the run as it is now is listed and offers the action; then exactly that one call is
  made, and in every other case none.\<close>

theorem decision_acts_on_offer:
  assumes "decide s n action actor platform now rows = (ans, rows', calls)" "calls \<noteq> []"
  shows "\<exists>i kind native spec r. get_incident n rows = Some i \<and> i_state i = IOpen \<and> action \<in> set (i_actions i)
    \<and> split_run_id (i_run i) = Inr (kind, native) \<and> spec_of kind = Some spec \<and> \<not> ks_read_only spec
    \<and> r \<in> set (l_runs (list_runs [kind] (s_read s) now)) \<and> r_id r = i_run i \<and> action \<in> set (r_actions r)
    \<and> calls = [(kind, native, action)]"
  by (rule decide_calls[OF assms])

lemma in_update: "i \<in> set (update_where P f rows) \<Longrightarrow> \<exists>j \<in> set rows. P j \<and> i = f j \<or> \<not> P j \<and> i = j"
  by (auto simp: update_where_def)

lemma settle_row_simps: "i_id (settle_row ok code m now i) = i_id i" "i_state (settle_row ok code m now i) = decision_state ok code"
  by (simp_all add: settle_row_def Let_def)

lemma finish_decision_rows:
  assumes "i \<in> set (snd (finish_decision n ok code m now rows))" "i_id i = n"
  shows "i_state i \<noteq> IActing"
proof -
  have ds: "decision_state ok code \<noteq> IActing" by (simp add: decision_state_def)
  have "i \<in> set (update_where (\<lambda>i. i_id i = n \<and> i_state i = IActing) (settle_row ok code m now) rows)"
    using assms(1) by (simp add: finish_decision_def Let_def)
  from in_update[OF this] show ?thesis
  proof (elim bexE disjE conjE)
    fix j assume "i = settle_row ok code m now j"
    then show ?thesis using ds by (simp add: settle_row_simps)
  next
    fix j assume "\<not> (i_id j = n \<and> i_state j = IActing)" "i = j"
    then show ?thesis using assms(2) by blast
  qed
qed

lemma claim_diagnosis_rows:
  assumes "i \<in> set (snd (claim_diagnosis n now rows))"
  shows "\<exists>j \<in> set rows. i_id j = i_id i \<and> i_state j = i_state i"
proof -
  have "i \<in> set (update_where (\<lambda>i. i_id i = n \<and> i_diag_state i \<noteq> DRunning)
      (\<lambda>i. i\<lparr>i_diag_state := DRunning, i_diagnosed_at := Some now\<rparr>) rows)"
    using assms by (simp add: claim_diagnosis_def Let_def)
  from in_update[OF this] show ?thesis by auto
qed

text \<open>C14: Work that was claimed always ends recorded: whatever the control did - answered, failed in a known way, or raised an
  error nobody expected - the incident is not left as being acted on; only a cancelled call leaves it so, for the next
  start to settle.\<close>

theorem decision_ends_recorded:
  assumes "decide s n action actor platform now rows = (ans, rows', calls)"
    and "\<And>kind native. s_act s kind native action \<noteq> WasCancelled"
    and "i \<in> set rows'" "i_id i = n" "i_state i = IActing"
  shows "\<exists>j \<in> set rows. i_id j = n \<and> i_state j = IActing"
proof (cases "action = ''diagnose''")
  case True
  have "rows' = rows \<or> rows' = snd (claim_diagnosis n now rows)"
    using assms(1) True decide_diagnose_rows[of s n actor platform now rows] by simp
  then show ?thesis using assms(3-5) claim_diagnosis_rows[of i n now rows] by auto
next
  case False
  show ?thesis
  proof (cases "claim_decision n action actor platform now rows")
    case (Pair e rows1)
    show ?thesis
    proof (cases e)
      case (Inl err)
      then show ?thesis using assms Pair False claim_decision_Inl[of n action actor platform now rows err rows1]
        by (auto simp: decide_other split: claim_error.splits)
    next
      case (Inr j)
      show ?thesis
      proof (cases "action = ''dismiss''")
        case True
        then have "rows' = rows1" using assms(1) False Pair Inr by (simp add: decide_other)
        moreover obtain k where "rows1 = update_where (\<lambda>i. i_id i = n \<and> i_state i = IOpen) (decide_row action actor platform now) rows"
          using claim_decision_Inr[of n action actor platform now rows j rows1] Pair Inr by auto
        ultimately have "i \<in> set (update_where (\<lambda>i. i_id i = n \<and> i_state i = IOpen) (decide_row action actor platform now) rows)"
          using assms(3) by simp
        from in_update[OF this] obtain j where "j \<in> set rows" "i = decide_row action actor platform now j \<or> i = j" by blast
        moreover have "i_state (decide_row action actor platform now j) = IDismissed" for j
          using True by (simp add: decide_row_def Let_def)
        ultimately show ?thesis using assms(4,5) by auto
      next
        case no: False
        obtain att where p: "perform s (i_run j) action now = (att, calls)" "finish_attempt n att now rows1 = (ans, rows')"
          using assms(1) False no Pair Inr by (cases "perform s (i_run j) action now") (simp add: decide_other split: prod.splits)
        have "att \<noteq> WasCancelled"
          using p(1) assms(2) by (auto simp: perform_def split: sum.splits option.splits if_splits prod.splits)
        then have "\<exists>ok code m. rows' = snd (finish_decision n ok code m now rows1)"
          using p(2) by (cases att) (auto simp: finish_attempt_def split: prod.splits, metis snd_conv, metis snd_conv)
        then show ?thesis using finish_decision_rows assms(3-5) by blast
      qed
    qed
  qed
qed


subsection \<open>Everything is a run of the store\<close>

definition steps :: "incidents \<Rightarrow> inc_event list \<Rightarrow> incidents \<Rightarrow> bool" where
  "steps rows es rows' \<longleftrightarrow> (\<exists>ops. list_all (\<lambda>op. purge_time op = None) ops \<and> foldl inc_step rows ops = rows' \<and> inc_log rows ops = es)"

lemma inc_log_append: "inc_log rows (ops @ ops') = inc_log rows ops @ inc_log (foldl inc_step rows ops) ops'"
  by (induction ops arbitrary: rows) simp_all

lemma steps_refl [simp]: "steps rows [] rows"
  unfolding steps_def by (rule exI[of _ "[]"]) simp

lemma steps_ex [simp]: "\<exists>es. steps rows es rows"
  by (rule exI, rule steps_refl)

lemma steps_trans: "steps r es r' \<Longrightarrow> steps r' es' r'' \<Longrightarrow> steps r (es @ es') r''"
  unfolding steps_def by (elim exE conjE, rule_tac x = "ops @ opsa" in exI) (auto simp: inc_log_append)

lemma steps_one: "purge_time op = None \<Longrightarrow> steps rows (inc_events rows op) (inc_step rows op)"
  unfolding steps_def by (rule exI[of _ "[op]"]) simp

lemma steps_ok: "steps r es r' \<Longrightarrow> incidents_ok r \<Longrightarrow> incidents_ok r'"
  by (auto simp: steps_def intro: incidents.run_inv)

text \<open>Messages about one incident.\<close>

fun is_told :: "string \<Rightarrow> message \<Rightarrow> bool" where
  "is_told n (ToChat m) = (m = n)"
| "is_told n (ToOps m) = (m = n)"
| "is_told n (RecoveryNote m finished) = False"

definition told :: "string \<Rightarrow> message list \<Rightarrow> nat" where
  "told n ms = length (filter (is_told n) ms)"

lemma told_simps [simp]: "told n [] = 0" "told n (ms @ ms') = told n ms + told n ms'"
  "told n (m # ms) = (if is_told n m then 1 else 0) + told n ms"
  by (simp_all add: told_def)

text \<open>A piece of a pass: a run of the store in which no more messages leave than the store let leave.\<close>

definition works :: "pass \<Rightarrow> pass \<Rightarrow> bool" where
  "works p p' \<longleftrightarrow> (\<exists>es. steps (p_rows p) es (p_rows p')
     \<and> (\<forall>n. told n (p_sent p') \<le> told n (p_sent p) + events_count (is_sent n) es))"

lemma works_refl [simp]: "works p p"
  unfolding works_def by (rule exI[of _ "[]"]) simp

lemma works_trans: "works p p' \<Longrightarrow> works p' p'' \<Longrightarrow> works p p''"
  unfolding works_def
proof (elim exE conjE)
  fix es es'
  assume st: "steps (p_rows p) es (p_rows p')" "steps (p_rows p') es' (p_rows p'')"
    and t: "\<forall>n. told n (p_sent p') \<le> told n (p_sent p) + events_count (is_sent n) es"
      "\<forall>n. told n (p_sent p'') \<le> told n (p_sent p') + events_count (is_sent n) es'"
  have "told n (p_sent p'') \<le> told n (p_sent p) + events_count (is_sent n) (es @ es')" for n
    using spec[OF t(1), of n] spec[OF t(2), of n] by simp
  then show "\<exists>es. steps (p_rows p) es (p_rows p'') \<and> (\<forall>n. told n (p_sent p'') \<le> told n (p_sent p) + events_count (is_sent n) es)"
    using steps_trans[OF st] by blast
qed

lemma works_silent: "steps (p_rows p) es (p_rows p') \<Longrightarrow> (\<And>n. told n (p_sent p') = told n (p_sent p)) \<Longrightarrow> works p p'"
  unfolding works_def by fastforce

lemma works_unless: "(p_error p = None \<Longrightarrow> works p (f p)) \<Longrightarrow> works p (unless_failed f p)"
  by (simp add: unless_failed_def)

lemma works_fold: "(\<And>x p. x \<in> set xs \<Longrightarrow> works p (f x p)) \<Longrightarrow> works p (fold f xs p)"
  by (induction xs arbitrary: p) (auto intro: works_trans)

lemma finish_steps: "\<exists>es. steps rows es (snd (finish_decision n ok code m now rows))"
  using steps_one[of "IncFinish n ok code m now" rows] by auto

lemma finish_attempt_rows:
  "snd (finish_attempt n a now rows) =
     (case a of Did ok code m \<Rightarrow> snd (finish_decision n ok code m now rows)
      | WorkFailed ty m \<Rightarrow> snd (finish_decision n False ty (take 300 m) now rows)
      | Broke ty m \<Rightarrow> snd (finish_decision n False ty (take 300 m) now rows)
      | WasCancelled \<Rightarrow> rows)"
  by (simp add: finish_attempt_def case_prod_beta split: attempt.split)

lemma finish_attempt_steps: "\<exists>es. steps rows es (snd (finish_attempt n a now rows))"
  using finish_steps steps_refl[of rows] by (auto simp: finish_attempt_rows split: attempt.split)

lemma decide_steps: "\<exists>es. steps rows es (fst (snd (decide s n action actor platform now rows)))"
proof (cases "action = ''diagnose''")
  case True
  have "steps rows [] (snd (claim_diagnosis n now rows))" using steps_one[of "IncClaimDiag n now" rows] by simp
  then show ?thesis using True decide_diagnose_rows[of s n actor platform now rows] by (metis steps_refl)
next
  case False
  obtain e rows1 where e: "claim_decision n action actor platform now rows = (e, rows1)" by fastforce
  have st: "\<exists>es. steps rows es rows1" using steps_one[of "IncDecide n action actor platform now" rows] e by auto
  show ?thesis
  proof (cases e)
    case (Inl err)
    then show ?thesis using False e st by (cases err) (simp_all add: decide_other)
  next
    case (Inr i)
    show ?thesis
    proof (cases "action = ''dismiss''")
      case True
      then show ?thesis using False e st Inr by (simp add: decide_other)
    next
      case no: False
      obtain a calls where p: "perform s (i_run i) action now = (a, calls)" by fastforce
      have "fst (snd (decide s n action actor platform now rows)) = snd (finish_attempt n a now rows1)"
        using False no e Inr p by (simp add: decide_other split: prod.split)
      then show ?thesis using st finish_attempt_steps[of rows1 n a now] steps_trans by metis
    qed
  qed
qed

lemma runbook_steps: "\<exists>es. steps rows es (fst (snd (apply_runbook s i r now rows)))"
proof (cases "map_of RUNBOOK (runbook_name i r)")
  case None
  then show ?thesis using steps_refl[of rows] by (auto simp: apply_runbook_def)
next
  case (Some a)
  let ?l = "or_text (r_lineage r) (r_id r)"
  obtain ok rows1 where c: "claim_auto_step (i_id i) ?l MAX_STEPS_PER_DAY (now - 86400) rows = (ok, rows1)" by fastforce
  have st: "steps rows [] rows1" using steps_one[of "IncAuto (i_id i) ?l MAX_STEPS_PER_DAY (now - 86400)" rows] c by simp
  obtain es where d: "steps rows1 es (fst (snd (decide s (i_id i) a ''kazma'' ''runbook'' now rows1)))" using decide_steps by blast
  show ?thesis
  proof (cases "runbook_on (s_flags s) (runbook_name i r) \<and> refusal r a = []")
    case True
    then show ?thesis using Some c st steps_trans[OF st d] by (cases ok) (auto simp: apply_runbook_def case_prod_beta)
  next
    case False
    then have "fst (snd (apply_runbook s i r now rows)) = rows" using Some by (auto simp: apply_runbook_def)
    then show ?thesis using steps_refl[of rows] by auto
  qed
qed

lemma works_rows: "steps (p_rows p) es rows' \<Longrightarrow> works p (p\<lparr>p_rows := rows'\<rparr>)"
  by (rule works_silent[of _ es]) simp_all

lemma after_opening_simps [simp]:
  "p_rows (after_opening s now r i p) = fst (snd (apply_runbook s i r now (p_rows p)))"
  "p_sent (after_opening s now r i p) = p_sent p"
  by (simp_all add: after_opening_def case_prod_beta)

lemma opening_works: "works p (after_opening s now r i p)"
  using runbook_steps[of "p_rows p" s i r now] by (auto intro: works_silent)

lemma open_bad_works: "works p (open_bad s now watch r c p)"
proof -
  let ?q = "quiet_reason r c watch"
  let ?op = "IncOpen (s_ids s (p_opened p)) r c (s_origin s r) (if ?q = [] then NPending else NSuppressed) ?q now"
  obtain x rows' where x: "open_incident (s_ids s (p_opened p)) r c (s_origin s r) (if ?q = [] then NPending else NSuppressed) ?q now (p_rows p) = (x, rows')"
    by fastforce
  have st: "steps (p_rows p) (inc_events (p_rows p) ?op) rows'" using steps_one[of ?op "p_rows p"] x by simp
  show ?thesis
  proof (cases x)
    case (Inl e)
    then show ?thesis using x by (simp add: open_bad_def Let_def) (rule works_silent[of _ "[]"], simp_all)
  next
    case (Inr o')
    show ?thesis
    proof (cases o')
      case (Opened i)
      have "works p (p\<lparr>p_rows := rows'\<rparr>)" using st by (rule works_rows)
      then show ?thesis using x Inr Opened works_trans[OF _ opening_works] by (simp add: open_bad_def Let_def)
    next
      case (AlreadyLive i)
      have "steps rows' [] (refresh (i_id i) r now rows')" using steps_one[of "IncRefresh (i_id i) r now" rows'] by simp
      then have "works p (p\<lparr>p_rows := refresh (i_id i) r now rows'\<rparr>)"
        using steps_trans[OF st] by (intro works_silent) auto
      then show ?thesis using x Inr AlreadyLive by (simp add: open_bad_def Let_def)
    qed (use x Inr in \<open>simp add: open_bad_def Let_def\<close>)
  qed
qed

lemma look_works: "works p (look_at s now watch live0 decided r p)"
proof -
  have "works p (p\<lparr>p_rows := refresh n r now (p_rows p)\<rparr>)" for n
    using steps_one[of "IncRefresh n r now" "p_rows p"] by (intro works_silent[of _ "[]"]) simp_all
  then show ?thesis using open_bad_works by (simp add: look_at_def split: option.split)
qed

lemma told_recovery [simp]: "told n (recovery_notes i r) = 0"
  by (simp add: recovery_notes_def split: option.split)

lemma settle_works: "works p (settle_one now l i p)"
proof -
  let ?reason = "settle_reason (run_by_id (i_run i) (l_runs l))"
  obtain b rows' where x: "resolve (i_id i) ?reason now (p_rows p) = (b, rows')" by fastforce
  have "steps (p_rows p) [] rows'" using steps_one[of "IncResolve (i_id i) ?reason now" "p_rows p"] x by simp
  then show ?thesis using x
    by (cases b) (auto simp: settle_one_def Let_def intro!: works_silent[of _ "[]"])
qed

lemma settle_note_steps: "steps rows [] (settle_note n out why rows)"
  using steps_one[of "IncFinishNote n out why" rows] by (simp add: settle_note_def)

lemma deliver_told:
  assumes "deliver s i rows = (x, rows', ms)"
  shows "\<exists>es. steps rows es rows' \<and> (\<forall>n. told n ms \<le> events_count (is_sent n) es)"
proof -
  obtain b rows1 where c: "claim_notification (i_id i) rows = (b, rows1)" by fastforce
  have st: "steps rows (if b then [ESent (i_id i)] else []) rows1"
    using steps_one[of "IncClaimNote (i_id i)" rows] c by simp
  show ?thesis
  proof (cases b)
    case False
    then show ?thesis using assms c st by (intro exI[of _ "[]"]) (simp add: deliver_def)
  next
    case True
    have settled: "steps rows [ESent (i_id i)] (settle_note n out why rows1)" for n out why
      using steps_trans[OF st settle_note_steps] True by simp
    have st: "steps rows [ESent (i_id i)] rows1" using st True by simp
    have ops: "to_ops s i rows1 = (x, rows', ms) \<Longrightarrow> steps rows [ESent (i_id i)] rows' \<and> ms \<in> {[], [ToOps (i_id i)]}"
      using settled st by (auto simp: to_ops_def split: if_splits)
    have "steps rows [ESent (i_id i)] rows' \<and> ms \<in> {[], [ToOps (i_id i)], [ToChat (i_id i)]}"
    proof (cases "origin_part ''platform'' i \<in> set CHAT_PLATFORMS \<and> origin_part ''target'' i \<noteq> []")
      case False
      then have "to_ops s i rows1 = (x, rows', ms)" using assms c True by (auto simp: deliver_def)
      then show ?thesis using ops by auto
    next
      case chat: True
      show ?thesis
      proof (cases "s_send s i")
        case (Did ok code m)
        then show ?thesis using assms c True chat ops settled st by (cases ok) (simp_all add: deliver_def, blast+)
      next
        case (WorkFailed ty m)
        then show ?thesis using assms c True chat ops by (simp add: deliver_def) blast
      next
        case (Broke ty m)
        have "rows' = settle_note (i_id i) NUncertain (''the send raised '' @ ty) rows1" "ms = []"
          using assms c True chat Broke by (simp_all add: deliver_def)
        then show ?thesis by (simp only: settled) simp
      next
        case WasCancelled
        then show ?thesis using assms c True chat st by (simp add: deliver_def)
      qed
    qed
    then show ?thesis by (intro exI[of _ "[ESent (i_id i)]"]) auto
  qed
qed

lemma deliver_works: "works p (deliver_one s i p)"
proof -
  obtain x rows' ms where d: "deliver s i (p_rows p) = (x, rows', ms)" by (cases "deliver s i (p_rows p)")
  show ?thesis using deliver_told[OF d] d
    by (cases x) (auto simp: deliver_one_def works_def)
qed

lemma tick_works: "works (start_pass rows) (fst (tick s now watch rows))"
proof -
  have 1: "works (start_pass rows) (judge_runs s now w l rows)" for w l
    unfolding judge_runs_def by (intro works_fold works_unless look_works)
  have 2: "works p (settle_runs now l rows p)" for l p
    unfolding settle_runs_def by (intro works_fold works_unless settle_works)
  have 3: "works p (send_pending s p)" for p
    unfolding send_pending_def by (intro works_unless works_fold deliver_works)
  show ?thesis unfolding tick_def Let_def fst_conv by (rule works_trans[OF 1 works_trans[OF 2 3]])
qed


subsection \<open>Histories\<close>

datatype sup_op =
    Pass surroundings real
  | Decision surroundings string string string string real
  | Receipt string "bool option"
  | DiagnosisDone string string bool real
  | Restart real
  | Sweep real

fun sup_step :: "incidents \<times> real option \<Rightarrow> sup_op \<Rightarrow> (incidents \<times> real option) \<times> message list" where
  "sup_step (rows, watch) (Pass s now) =
     (case tick s now watch rows of (p, watch') \<Rightarrow> ((p_rows p, watch'), p_sent p))"
| "sup_step (rows, watch) (Decision s n action actor platform now) =
     ((fst (snd (decide s n action actor platform now rows)), watch), [])"
| "sup_step (rows, watch) (Receipt n accepted) = ((ops_receipt n accepted rows, watch), [])"
| "sup_step (rows, watch) (DiagnosisDone n text' ok now) = ((finish_diagnosis n text' ok now rows, watch), [])"
| "sup_step (rows, watch) (Restart now) = ((snd (recover_incidents now rows), None), [])"
| "sup_step (rows, watch) (Sweep now) = ((snd (purge_incidents now (snd (expire_old now rows))), watch), [])"

fun messages :: "incidents \<times> real option \<Rightarrow> sup_op list \<Rightarrow> message list" where
  "messages st [] = []"
| "messages st (op # ops) = snd (sup_step st op) @ messages (fst (sup_step st op)) ops"

text \<open>How often an incident with an id came into the store.\<close>

definition appears :: "string \<Rightarrow> incidents \<Rightarrow> incidents \<Rightarrow> bool" where
  "appears n rows rows' \<longleftrightarrow> n \<notin> i_id ` set rows \<and> n \<in> i_id ` set rows'"

fun appearances :: "string \<Rightarrow> incidents \<times> real option \<Rightarrow> sup_op list \<Rightarrow> nat" where
  "appearances n st [] = 0"
| "appearances n st (op # ops) =
     (if appears n (fst st) (fst (fst (sup_step st op))) then 1 else 0) + appearances n (fst (sup_step st op)) ops"

definition about_id :: "string \<Rightarrow> incident \<Rightarrow> bool" where
  "about_id n i \<longleftrightarrow> i_id i = n"

lemma step_named:
  assumes "purge_time op = None"
  shows "count_where (about_id n) (inc_step rows op) = count_where (about_id n) rows + events_count (is_opened n) (inc_events rows op)"
proof (cases "grows_table op")
  case True
  then obtain ident r c orig nt why now where op: "op = IncOpen ident r c orig nt why now" using assms by (cases op) auto
  show ?thesis
  proof (cases "\<exists>i. open_incident ident r c orig nt why now rows = (Inr (Opened i), rows @ [i])")
    case True
    then show ?thesis using op by (auto simp: count_where_def about_id_def)
  next
    case False
    then show ?thesis using op open_cases[of ident r c orig nt why now rows] by simp
  qed
next
  case False
  have ids: "map i_id (inc_step rows op) = map i_id rows" by (rule table_step_ids[OF step_moves[OF False]])
  have "count_where (about_id n) xs = length (filter (\<lambda>m. m = n) (map i_id xs))" for xs
    by (induction xs) (auto simp: count_where_def about_id_def)
  then have "count_where (about_id n) (inc_step rows op) = count_where (about_id n) rows" using ids by metis
  moreover have "events_count (is_opened n) (inc_events rows op) = 0" using False by (cases op) (auto split: sum.split)
  ultimately show ?thesis by simp
qed

lemma steps_induct [consumes 1, case_names none more]:
  assumes "steps rows es rows'" and "\<And>rows. P rows [] rows"
    and "\<And>rows op es rows'. purge_time op = None \<Longrightarrow> steps (inc_step rows op) es rows' \<Longrightarrow> P (inc_step rows op) es rows'
        \<Longrightarrow> P rows (inc_events rows op @ es) rows'"
  shows "P rows es rows'"
proof -
  obtain ops where ops: "list_all (\<lambda>op. purge_time op = None) ops" "foldl inc_step rows ops = rows'" "inc_log rows ops = es"
    using assms(1) by (auto simp: steps_def)
  have "list_all (\<lambda>op. purge_time op = None) ops \<Longrightarrow> P rows (inc_log rows ops) (foldl inc_step rows ops)"
  proof (induction ops arbitrary: rows)
    case (Cons op ops)
    have "steps (inc_step rows op) (inc_log (inc_step rows op) ops) (foldl inc_step (inc_step rows op) ops)"
      using Cons.prems unfolding steps_def by auto
    then show ?case using Cons assms(3) by simp
  qed (simp add: assms(2))
  then show ?thesis using ops by simp
qed

lemma steps_named: "steps rows es rows' \<Longrightarrow> count_where (about_id n) rows' = count_where (about_id n) rows + events_count (is_opened n) es"
  by (induction rule: steps_induct) (simp_all add: step_named)

lemma steps_unsent:
  "steps rows es rows' \<Longrightarrow>
     count_where (unsent n) rows' + events_count (is_sent n) es \<le> count_where (unsent n) rows + events_count (is_opened n) es"
proof (induction rule: steps_induct)
  case (more rows op es rows')
  then show ?case using step_unsent[of n rows op] by simp
qed simp

lemma named_count: "incidents_ok rows \<Longrightarrow> count_where (about_id n) rows = (if n \<in> i_id ` set rows then 1 else 0)"
proof -
  assume ok: "incidents_ok rows"
  have le: "count_where (about_id n) rows \<le> 1" using ok by (intro count_where_id) (auto simp: incidents_ok_def about_id_def)
  have "0 < count_where (about_id n) rows \<longleftrightarrow> n \<in> i_id ` set rows" by (auto simp: count_where_pos any_row_def about_id_def)
  then show ?thesis using le by auto
qed

lemma steps_account:
  assumes "steps rows es rows'" "incidents_ok rows"
  shows "count_where (unsent n) rows' + events_count (is_sent n) es
    \<le> count_where (unsent n) rows + (if appears n rows rows' then 1 else 0)"
proof -
  have "events_count (is_opened n) es \<le> (if appears n rows rows' then 1 else 0)"
    using steps_named[OF assms(1), of n] named_count[OF assms(2), of n] named_count[OF steps_ok[OF assms], of n]
    unfolding appears_def by (cases "n \<in> i_id ` set rows"; cases "n \<in> i_id ` set rows'"; simp only: if_True if_False; simp)
  then show ?thesis using steps_unsent[OF assms(1), of n] by linarith
qed

lemma sup_step_account:
  assumes ok: "incidents_ok rows" and st: "sup_step (rows, watch) op = ((rows', watch'), ms)"
  shows "incidents_ok rows'"
    and "count_where (unsent n) rows' + told n ms \<le> count_where (unsent n) rows + (if appears n rows rows' then 1 else 0)"
proof -
  have "incidents_ok rows' \<and>
      count_where (unsent n) rows' + told n ms \<le> count_where (unsent n) rows + (if appears n rows rows' then 1 else 0)"
  proof (cases "\<exists>es. steps rows es rows' \<and> told n ms \<le> events_count (is_sent n) es")
    case True
    then obtain es where es: "steps rows es rows'" "told n ms \<le> events_count (is_sent n) es" by blast
    from steps_account[OF es(1) ok, of n] es(2) steps_ok[OF es(1) ok] show ?thesis by simp
  next
    case False
    obtain now where sweep: "op = Sweep now"
    proof (cases op)
      case (Pass s now)
      have "works (start_pass rows) (fst (tick s now watch rows))" by (rule tick_works)
      then show ?thesis using False st Pass by (auto simp: works_def start_pass_def split: prod.splits)
    next
      case (Decision s m action actor platform now)
      then show ?thesis using False st decide_steps[of rows s m action actor platform now] by auto
    next
      case (Receipt m acc)
      have "steps rows [] (ops_receipt m acc rows)"
        using settle_note_steps by (auto simp: ops_receipt_def split: option.split bool.split)
      then show ?thesis using False st Receipt by auto
    next
      case (DiagnosisDone m t ok' now)
      have "steps rows [] (finish_diagnosis m t ok' now rows)" using steps_one[of "IncFinishDiag m t ok' now" rows] by simp
      then show ?thesis using False st DiagnosisDone by auto
    next
      case (Restart now)
      have "steps rows [] (snd (recover_incidents now rows))" using steps_one[of "IncRecover now" rows] by simp
      then show ?thesis using False st Restart by auto
    qed
    let ?mid = "inc_step rows (IncExpire now)"
    have mid: "incidents_ok ?mid" "count_where (unsent n) ?mid \<le> count_where (unsent n) rows"
      using step_ok[OF ok] step_unsent[of n rows "IncExpire now"] by (simp_all del: inc_step.simps)
    have "rows' = inc_step ?mid (IncPurge now)" "ms = []" using st sweep by simp_all
    then show ?thesis
      using step_ok[OF mid(1), of "IncPurge now"] step_unsent[of n ?mid "IncPurge now"] mid(2) by (simp del: inc_step.simps)
  qed
  then show "incidents_ok rows'"
    "count_where (unsent n) rows' + told n ms \<le> count_where (unsent n) rows + (if appears n rows rows' then 1 else 0)" by simp_all
qed


end
