(* ===== verification/SupervisionPass.thy ===== *)
theory SupervisionPass
  imports SupervisionRuns
begin

text \<open>
  What one pass of the run supervisor achieves: every bad run has its incident, open incidents are settled
  exactly when their run was read and is well, an automatic step is taken once a day, and the supervisor pages its
  own outage once; and two things a pass gets wrong.
\<close>

subsection \<open>What a piece of a pass leaves alone\<close>

definition frame :: "string \<Rightarrow> incidents \<Rightarrow> incidents \<Rightarrow> bool" where
  "frame n rows rows' \<longleftrightarrow>
     (\<forall>j \<in> set rows. i_id j = n \<longrightarrow> (\<exists>j' \<in> set rows'. same_incident j j' \<and> i_state j' = i_state j))"

lemma same_incident_refl [simp]: "same_incident i i"
  by (simp add: same_incident_def)

lemma same_incident_id: "same_incident i j \<Longrightarrow> i_id j = i_id i"
  by (simp add: same_incident_def)

lemma same_incident_trans: "same_incident i j \<Longrightarrow> same_incident j k \<Longrightarrow> same_incident i k"
  by (simp add: same_incident_def)

lemma frameI:
  "(\<And>j. j \<in> set rows \<Longrightarrow> i_id j = n \<Longrightarrow> \<exists>j' \<in> set rows'. same_incident j j' \<and> i_state j' = i_state j) \<Longrightarrow> frame n rows rows'"
  by (simp add: frame_def)

lemma frameE:
  assumes "frame n rows rows'" "j \<in> set rows" "i_id j = n"
  obtains j' where "j' \<in> set rows'" "same_incident j j'" "i_state j' = i_state j"
  using assms unfolding frame_def by blast

lemma frame_subset: "set rows \<subseteq> set rows' \<Longrightarrow> frame n rows rows'"
proof (rule frameI)
  fix j assume "set rows \<subseteq> set rows'" "j \<in> set rows"
  then show "\<exists>j' \<in> set rows'. same_incident j j' \<and> i_state j' = i_state j" using same_incident_refl by blast
qed

lemma frame_refl [simp]: "frame n rows rows"
  by (rule frame_subset) simp

lemma frame_append [simp]: "frame n rows (rows @ xs)"
  by (rule frame_subset) simp

lemma frame_trans:
  assumes "frame n r r'" "frame n r' r''"
  shows "frame n r r''"
proof (rule frameI)
  fix j assume "j \<in> set r" "i_id j = n"
  from frameE[OF assms(1) this] obtain k where k: "k \<in> set r'" "same_incident j k" "i_state k = i_state j" .
  have "i_id k = n" using k(2) \<open>i_id j = n\<close> by (simp add: same_incident_id)
  from frameE[OF assms(2) k(1) this] obtain m where "m \<in> set r''" "same_incident k m" "i_state m = i_state k" .
  then show "\<exists>j' \<in> set r''. same_incident j j' \<and> i_state j' = i_state j" using k same_incident_trans by metis
qed

lemma frame_update:
  assumes "\<And>j. P j \<Longrightarrow> i_id j = n \<Longrightarrow> same_incident j (f j) \<and> i_state (f j) = i_state j"
  shows "frame n rows (update_where P f rows)"
proof (rule frameI)
  fix j assume j: "j \<in> set rows" "i_id j = n"
  let ?j = "if P j then f j else j"
  have "?j \<in> set (update_where P f rows)" using j(1) by (auto simp: update_where_def)
  moreover have "same_incident j ?j \<and> i_state ?j = i_state j" using assms j(2) by simp
  ultimately show "\<exists>j' \<in> set (update_where P f rows). same_incident j j' \<and> i_state j' = i_state j" by blast
qed

lemma frame_refresh: "frame n rows (refresh m r now rows)"
  unfolding refresh_def by (rule frame_update) (simp add: refreshed_def same_incident_def)

lemma frame_auto: "frame n rows (snd (claim_auto_step m l limit since rows))"
  by (auto simp: claim_auto_step_def same_incident_def intro!: frame_update)

lemma frame_note: "frame n rows (settle_note m out why rows)"
  by (auto simp: settle_note_def finish_notification_def same_incident_def intro!: frame_update)

lemma frame_claim_note: "frame n rows (snd (claim_notification m rows))"
  by (auto simp: claim_notification_def Let_def same_incident_def intro!: frame_update)

lemma frame_finish: "m \<noteq> n \<Longrightarrow> frame n rows (snd (finish_decision m ok code msg now rows))"
  by (auto simp: finish_decision_def Let_def intro!: frame_update)

lemma frame_finish_attempt: "m \<noteq> n \<Longrightarrow> frame n rows (snd (finish_attempt m a now rows))"
  by (simp add: finish_attempt_rows frame_finish split: attempt.split)

lemma claim_rows:
  "claim_decision m a actor p now rows = (e, rows1) \<Longrightarrow>
     rows1 = rows \<or> rows1 = update_where (\<lambda>i. i_id i = m \<and> i_state i = IOpen) (decide_row a actor p now) rows"
  using claim_decision_Inr claim_decision_Inl by (cases e) blast+

lemma decide_rows:
  assumes "action \<noteq> ''diagnose''" "claim_decision n action actor p now rows = (e, rows1)"
  shows "fst (snd (decide s n action actor p now rows)) = rows1
    \<or> (\<exists>i a. e = Inr i \<and> fst (snd (decide s n action actor p now rows)) = snd (finish_attempt n a now rows1))"
proof (cases e)
  case (Inl err)
  then show ?thesis using assms by (cases err) (simp_all add: decide_other)
next
  case (Inr i)
  then show ?thesis using assms by (auto simp: decide_other case_prod_beta)
qed

lemma frame_decide:
  assumes "m \<noteq> n" "action \<noteq> ''diagnose''"
  shows "frame n rows (fst (snd (decide s m action actor p now rows)))"
proof -
  obtain e rows1 where c: "claim_decision m action actor p now rows = (e, rows1)" by fastforce
  have 1: "frame n rows rows1"
    using claim_rows[OF c] assms(1) by (auto intro!: frame_update)
  show ?thesis using decide_rows[OF assms(2) c, of s] 1 frame_trans[OF 1 frame_finish_attempt[OF assms(1)]] by metis
qed

lemma runbook_actions: "map_of RUNBOOK name = Some a \<Longrightarrow> a \<noteq> ''diagnose'' \<and> a \<noteq> ''dismiss''"
  by (auto simp: RUNBOOK_def split: if_splits)

lemma frame_runbook: "i_id i \<noteq> n \<Longrightarrow> frame n rows (fst (snd (apply_runbook s i r now rows)))"
proof (cases "map_of RUNBOOK (runbook_name i r)")
  case (Some a)
  assume ne: "i_id i \<noteq> n"
  obtain ok rows1 where c: "claim_auto_step (i_id i) (or_text (r_lineage r) (r_id r)) MAX_STEPS_PER_DAY (now - 86400) rows = (ok, rows1)"
    by fastforce
  have 1: "frame n rows rows1" using frame_auto[of n rows "i_id i"] c by (metis snd_conv)
  have 2: "frame n rows (fst (snd (decide s (i_id i) a ''kazma'' ''runbook'' now rows1)))"
    using frame_trans[OF 1 frame_decide[OF ne]] runbook_actions[OF Some] by blast
  show ?thesis using Some c 1 2 by (cases ok) (simp_all add: apply_runbook_def case_prod_beta)
qed (simp add: apply_runbook_def)

lemma frame_look:
  assumes "n \<in> i_id ` set (p_rows p)"
  shows "frame n (p_rows p) (p_rows (look_at s now watch live0 decided r p))"
proof -
  have ob: "frame n (p_rows p) (p_rows (open_bad s now watch r c p))" for c
  proof -
    let ?q = "quiet_reason r c watch"
    obtain x rows' where x: "open_incident (s_ids s (p_opened p)) r c (s_origin s r) (if ?q = [] then NPending else NSuppressed) ?q now (p_rows p) = (x, rows')"
      by fastforce
    show ?thesis
    proof (cases x)
      case (Inr o')
      show ?thesis
      proof (cases o')
        case (Opened i)
        from opened_row[OF x[unfolded Inr Opened]] have i: "rows' = p_rows p @ [i]" "i_id i \<notin> i_id ` set (p_rows p)" by auto
        then have "i_id i \<noteq> n" using assms by auto
        then show ?thesis using x Inr Opened i frame_trans[OF frame_append frame_runbook] by (simp add: open_bad_def Let_def)
      next
        case (AlreadyLive i)
        then have "rows' = p_rows p" using x Inr by (auto simp: open_incident_def Let_def split: option.splits if_splits)
        then show ?thesis using x Inr AlreadyLive frame_refresh by (simp add: open_bad_def Let_def)
      qed (use x Inr in \<open>simp add: open_bad_def Let_def\<close>)
    qed (use x in \<open>simp add: open_bad_def Let_def\<close>)
  qed
  then show ?thesis using frame_refresh by (simp add: look_at_def split: option.split)
qed

lemma frame_ids:
  assumes "frame n rows rows'" "n \<in> i_id ` set rows"
  shows "n \<in> i_id ` set rows'"
proof -
  obtain j where j: "j \<in> set rows" "i_id j = n" using assms(2) by auto
  from frameE[OF assms(1) this] obtain k where "k \<in> set rows'" "same_incident j k" .
  then show ?thesis using j(2) same_incident_id[of j k] by (metis image_eqI)
qed

lemma frame_fold:
  assumes "\<And>x p. x \<in> set xs \<Longrightarrow> n \<in> i_id ` set (p_rows p) \<Longrightarrow> frame n (p_rows p) (p_rows (f x p))"
    and "n \<in> i_id ` set (p_rows p)"
  shows "frame n (p_rows p) (p_rows (fold f xs p))"
  using assms
proof (induction xs arbitrary: p)
  case (Cons x xs)
  have 1: "frame n (p_rows p) (p_rows (f x p))" using Cons.prems by simp
  have "frame n (p_rows (f x p)) (p_rows (fold f xs (f x p)))"
    using Cons.prems frame_ids[OF 1] by (intro Cons.IH) simp_all
  then show ?case using frame_trans[OF 1] by simp
qed simp

lemma frame_unless: "frame n (p_rows p) (p_rows (f p)) \<Longrightarrow> frame n (p_rows p) (p_rows (unless_failed f p))"
  by (simp add: unless_failed_def)

lemma frame_settle: "i_id i \<noteq> n \<Longrightarrow> frame n (p_rows p) (p_rows (settle_one now l i p))"
proof -
  assume ne: "i_id i \<noteq> n"
  obtain b rows' where x: "resolve (i_id i) (settle_reason (run_by_id (i_run i) (l_runs l))) now (p_rows p) = (b, rows')" by fastforce
  have "frame n (p_rows p) (snd (resolve (i_id i) reason now (p_rows p)))" for reason
    using ne by (auto simp: resolve_def Let_def intro!: frame_update)
  then have "frame n (p_rows p) rows'" using x by (metis snd_conv)
  then show ?thesis using x by (cases b) (simp_all add: settle_one_def Let_def)
qed

lemma frame_ops: "frame n rows (fst (snd (to_ops s i rows)))"
  by (simp add: to_ops_def frame_note)

lemma frame_deliver: "frame n rows (fst (snd (deliver s i rows)))"
proof -
  obtain b rows1 where c: "claim_notification (i_id i) rows = (b, rows1)" by fastforce
  have 1: "frame n rows rows1" using frame_claim_note[of n rows "i_id i"] c by simp
  note 2 = frame_trans[OF 1 frame_ops] frame_trans[OF 1 frame_note]
  show ?thesis using c 1 2 by (cases b) (simp_all add: deliver_def split: attempt.split bool.split)
qed

lemma frame_deliver_one: "frame n (p_rows p) (p_rows (deliver_one s i p))"
  using frame_deliver[of n "p_rows p" s i] by (cases "deliver s i (p_rows p)"; cases "fst (deliver s i (p_rows p))") (auto simp: deliver_one_def)


subsection \<open>A pass without an error ran to its end\<close>

lemma unless_error: "p_error (unless_failed f p) = None \<Longrightarrow> p_error p = None \<and> unless_failed f p = f p"
  by (auto simp: unless_failed_def split: if_splits)

lemma fold_error: "p_error (fold (\<lambda>x. unless_failed (f x)) xs p) = None \<Longrightarrow> p_error p = None"
proof (induction xs arbitrary: p)
  case (Cons x xs)
  then show ?case using unless_error[of "f x" p] by simp
qed simp

lemma tick_middle:
  assumes "p_error (fst (tick s now watch rows)) = None"
  defines "l \<equiv> list_runs [] (s_read s) now" and "w \<equiv> case watch of None \<Rightarrow> now | Some w \<Rightarrow> w"
  shows "p_error (settle_runs now l rows (judge_runs s now w l rows)) = None"
    and "p_error (judge_runs s now w l rows) = None"
proof -
  have t: "fst (tick s now watch rows) = send_pending s (settle_runs now l rows (judge_runs s now w l rows))"
    by (simp add: tick_def l_def w_def Let_def split: option.split)
  show 1: "p_error (settle_runs now l rows (judge_runs s now w l rows)) = None"
    using assms(1) unless_error unfolding t send_pending_def by blast
  then show "p_error (judge_runs s now w l rows) = None"
    unfolding settle_runs_def by (rule fold_error)
qed

lemma live_set: "set (live rows) = {i \<in> set rows. live_row i}"
  by (auto simp: live_def newest_first_def)

lemma live_distinct: "distinct (map i_id rows) \<Longrightarrow> distinct (map i_id (live rows))"
proof -
  assume "distinct (map i_id rows)"
  then have "distinct (map i_id (filter live_row rows))" by (rule distinct_map_filter)
  then have d: "distinct (filter live_row rows)" "inj_on i_id (set (filter live_row rows))" by (simp_all add: distinct_map)
  have "set (live rows) = set (filter live_row rows)" by (auto simp: live_set)
  then have "inj_on i_id (set (live rows))" using d(2) by simp
  moreover have "distinct (live rows)" using d(1) by (simp add: live_def newest_first_def)
  ultimately show ?thesis by (simp add: distinct_map)
qed

lemma frame_judge:
  "n \<in> i_id ` set rows \<Longrightarrow> frame n rows (p_rows (judge_runs s now w l rows))"
  unfolding judge_runs_def
  using frame_fold[where xs = "l_runs l" and n = n and p = "start_pass rows" and f = "\<lambda>r. unless_failed (look_at s now w (live rows) (decided_keys rows) r)"]
  by (simp add: start_pass_def frame_unless frame_look)

lemma frame_send: "n \<in> i_id ` set (p_rows p) \<Longrightarrow> frame n (p_rows p) (p_rows (send_pending s p))"
  unfolding send_pending_def by (intro frame_unless frame_fold frame_deliver_one)

lemma settle_resolves:
  assumes "j \<in> set (p_rows p)" "i_id j = i_id i" "i_state j = IOpen" "i_state i = IOpen"
    and "(i_run i, i_cond i) \<notin> bad_keys (l_runs l)" "i_kind i \<notin> fst ` set (l_errors l)"
  shows "\<exists>k \<in> set (p_rows (settle_one now l i p)). i_id k = i_id i \<and> i_state k = IResolved"
proof -
  let ?reason = "settle_reason (run_by_id (i_run i) (l_runs l))"
  let ?f = "\<lambda>i. i\<lparr>i_state := IResolved, i_code := ''resolved'', i_message := take 300 ?reason, i_version := i_version i + 1, i_updated := now\<rparr>"
  have r: "resolve (i_id i) ?reason now (p_rows p) = (True, update_where (\<lambda>j. i_id j = i_id i \<and> i_state j = IOpen) ?f (p_rows p))"
    using assms(1-3) by (auto simp: resolve_def Let_def any_row_def)
  have "?f j \<in> set (update_where (\<lambda>j. i_id j = i_id i \<and> i_state j = IOpen) ?f (p_rows p))"
    using assms(1-3) unfolding update_where_def by (force intro: image_eqI[of _ _ j])
  then show ?thesis using assms(2,4-6) r by (intro bexI[of _ "?f j"]) (simp_all add: settle_one_def Let_def)
qed

text \<open>C12: Open incidents are settled exactly when their run is well: a pass that ends without an error resolves an open incident if
  its kind could be read and the run is no longer in the incident's condition, and leaves it open if the condition lasts or
  the kind could not be read - an outage is never taken for a recovery.\<close>

theorem open_incident_settled_iff_well:
  assumes "incidents_ok rows" "i \<in> set rows" "i_state i = IOpen"
    and "p_error (fst (tick s now watch rows)) = None"
    and "l = list_runs [] (s_read s) now"
  shows "\<exists>j \<in> set (p_rows (fst (tick s now watch rows))). i_id j = i_id i
    \<and> i_state j = (if (i_run i, i_cond i) \<in> bad_keys (l_runs l) \<or> i_kind i \<in> fst ` set (l_errors l) then IOpen else IResolved)"
proof -
  define w where "w = (case watch of None \<Rightarrow> now | Some w \<Rightarrow> w)"
  let ?p = "judge_runs s now w l rows" and ?n = "i_id i"
  let ?f = "\<lambda>i. unless_failed (settle_one now l i)"
  have t: "fst (tick s now watch rows) = send_pending s (settle_runs now l rows ?p)"
    by (simp add: tick_def assms(5) w_def Let_def split: option.split)
  have ok: "p_error (fold ?f (live rows) ?p) = None"
    using tick_middle(1)[OF assms(4)] by (simp add: settle_runs_def assms(5) w_def)
  have "i \<in> set (live rows)" using assms(2,3) by (simp add: live_set live_row_def)
  then obtain xs ys where lv: "live rows = xs @ i # ys" by (auto simp: in_set_conv_decomp)
  have "distinct (map i_id (live rows))" using assms(1) by (intro live_distinct) (simp add: incidents_ok_def)
  then have ne: "\<forall>x \<in> set xs \<union> set ys. i_id x \<noteq> ?n" unfolding lv by (auto simp: rev_image_eqI)
  have id: "?n \<in> i_id ` set rows" using assms(2) by simp
  have 1: "frame ?n rows (p_rows ?p)" by (rule frame_judge[OF id])
  have 2: "frame ?n (p_rows ?p) (p_rows (fold ?f xs ?p))"
    using ne by (intro frame_fold frame_unless frame_settle frame_ids[OF 1 id]) auto
  let ?q = "fold ?f xs ?p"
  have q: "p_error (fold ?f ys (?f i ?q)) = None" using ok lv by simp
  then have step: "?f i ?q = settle_one now l i ?q" using unless_error fold_error by blast
  obtain j where j: "j \<in> set (p_rows ?q)" "same_incident i j" "i_state j = IOpen"
    using frameE[OF frame_trans[OF 1 2] assms(2) refl] assms(3) by metis
  have jid: "i_id j = ?n" using j(2) by (rule same_incident_id)
  let ?st = "if (i_run i, i_cond i) \<in> bad_keys (l_runs l) \<or> i_kind i \<in> fst ` set (l_errors l) then IOpen else IResolved"
  obtain k where k: "k \<in> set (p_rows (settle_one now l i ?q))" "i_id k = ?n" "i_state k = ?st"
  proof (cases "(i_run i, i_cond i) \<in> bad_keys (l_runs l) \<or> i_kind i \<in> fst ` set (l_errors l)")
    case True
    then have "settle_one now l i ?q = ?q" by (simp add: settle_one_def)
    then show ?thesis using that[of j] j(1,3) jid True by simp
  next
    case False
    then show ?thesis using settle_resolves[OF j(1) jid j(3) assms(3)] that by auto
  qed
  have kid: "?n \<in> i_id ` set (p_rows (settle_one now l i ?q))" using k(1,2) by (auto intro: image_eqI[of _ _ k])
  have 3: "frame ?n (p_rows (settle_one now l i ?q)) (p_rows (fold ?f ys (settle_one now l i ?q)))"
    using ne by (intro frame_fold frame_unless frame_settle kid) auto
  have 4: "frame ?n (p_rows (fold ?f ys (settle_one now l i ?q))) (p_rows (send_pending s (fold ?f ys (settle_one now l i ?q))))"
    by (rule frame_send[OF frame_ids[OF 3 kid]])
  have "fst (tick s now watch rows) = send_pending s (fold ?f ys (settle_one now l i ?q))"
    unfolding t settle_runs_def lv using step by simp
  moreover obtain j' where "j' \<in> set (p_rows (send_pending s (fold ?f ys (settle_one now l i ?q))))" "same_incident k j'"
      "i_state j' = i_state k"
    by (rule frameE[OF frame_trans[OF 3 4] k(1,2)])
  ultimately show ?thesis using k(2,3) same_incident_id[of k j'] by (intro bexI[of _ j']) simp_all
qed


subsection \<open>Every bad run has its incident\<close>

text \<open>A row that accounts for a condition of a run: it is live, it was decided for that version of the run, or a
  runbook acted on it.\<close>

definition accounts_for :: "string \<Rightarrow> string \<Rightarrow> string \<Rightarrow> incident \<Rightarrow> bool" where
  "accounts_for run c v i \<longleftrightarrow> i_run i = run \<and> i_cond i = c
     \<and> (live_row i \<or> decided_row i \<and> i_run_version i = v \<or> i_platform i = ''runbook'')"

definition accounted :: "string \<Rightarrow> string \<Rightarrow> string \<Rightarrow> incidents \<Rightarrow> bool" where
  "accounted run c v rows \<longleftrightarrow> any_row (accounts_for run c v) rows"

lemma accounted_update:
  assumes "\<And>j. P j \<Longrightarrow> accounts_for run c v j \<Longrightarrow> accounts_for run c v (f j)" "accounted run c v rows"
  shows "accounted run c v (update_where P f rows)"
proof -
  obtain j where j: "j \<in> set rows" "accounts_for run c v j" using assms(2) by (auto simp: accounted_def any_row_def)
  have "(if P j then f j else j) \<in> set (update_where P f rows)" using j(1) by (auto simp: update_where_def)
  moreover have "accounts_for run c v (if P j then f j else j)" using assms(1) j(2) by simp
  ultimately show ?thesis unfolding accounted_def any_row_def by blast
qed

lemma accounted_more: "accounted run c v rows \<Longrightarrow> set rows \<subseteq> set rows' \<Longrightarrow> accounted run c v rows'"
  by (auto simp: accounted_def any_row_def)

lemmas accounts_unfold = accounts_for_def live_row_def decided_row_def

lemma accounted_refresh: "accounted run c v rows \<Longrightarrow> accounted run c v (refresh n r now rows)"
  unfolding refresh_def by (rule accounted_update) (auto simp: accounts_unfold refreshed_def)

lemma accounted_auto: "accounted run c v rows \<Longrightarrow> accounted run c v (snd (claim_auto_step n l limit since rows))"
  by (auto simp: claim_auto_step_def accounts_unfold intro!: accounted_update)

lemma accounted_note: "accounted run c v rows \<Longrightarrow> accounted run c v (settle_note n out why rows)"
  by (auto simp: settle_note_def finish_notification_def accounts_unfold intro!: accounted_update)

lemma accounted_claim_note: "accounted run c v rows \<Longrightarrow> accounted run c v (snd (claim_notification n rows))"
  by (auto simp: claim_notification_def Let_def accounts_unfold intro!: accounted_update)

lemma accounted_claim:
  "accounted run c v rows \<Longrightarrow>
     accounted run c v (update_where (\<lambda>i. i_id i = n \<and> i_state i = IOpen) (decide_row a actor ''runbook'' now) rows)"
  by (rule accounted_update) (auto simp: accounts_unfold decide_row_def Let_def)

text \<open>An action of a runbook ends with its platform on the row, unless it gives the row back.\<close>

lemma accounted_settle:
  assumes "accounted run c v rows" "\<forall>j \<in> set rows. i_id j = n \<and> i_state j = IActing \<longrightarrow> i_platform j = ''runbook''"
  shows "accounted run c v (snd (finish_decision n ok code m now rows))"
proof -
  let ?P = "\<lambda>i. i_id i = n \<and> i_state i = IActing"
  have f: "accounts_for run c v (settle_row ok code m now j)" if "accounts_for run c v j" "i_platform j = ''runbook''" for j
    using that by (auto simp: accounts_unfold settle_row_def Let_def)
  obtain j where j: "j \<in> set rows" "accounts_for run c v j" using assms(1) by (auto simp: accounted_def any_row_def)
  have "(if ?P j then settle_row ok code m now j else j) \<in> set (update_where ?P (settle_row ok code m now) rows)"
    using j(1) by (auto simp: update_where_def)
  moreover have "accounts_for run c v (if ?P j then settle_row ok code m now j else j)" using assms(2) j f by auto
  ultimately show ?thesis unfolding accounted_def any_row_def by (auto simp: finish_decision_def Let_def)
qed

lemma accounted_finish_attempt:
  assumes "accounted run c v rows" "\<forall>j \<in> set rows. i_id j = n \<and> i_state j = IActing \<longrightarrow> i_platform j = ''runbook''"
  shows "accounted run c v (snd (finish_attempt n a now rows))"
  using accounted_settle[OF assms] assms(1) by (simp add: finish_attempt_rows split: attempt.split)

lemma accounted_decide:
  assumes "accounted run c v rows" "incidents_ok rows" "a \<noteq> ''diagnose''" "a \<noteq> ''dismiss''"
  shows "accounted run c v (fst (snd (decide s n a actor ''runbook'' now rows)))"
proof -
  obtain e rows1 where cl: "claim_decision n a actor ''runbook'' now rows = (e, rows1)" by fastforce
  have 1: "accounted run c v rows1"
    using claim_rows[OF cl] by (elim disjE) (simp_all only: assms(1) accounted_claim[OF assms(1)])
  have "accounted run c v (snd (finish_attempt n att now rows1))" if e: "e = Inr i" for att i
  proof (rule accounted_finish_attempt[OF 1], intro ballI impI)
    obtain j where j: "get_incident n rows = Some j" "i_state j = IOpen"
      "rows1 = update_where (\<lambda>i. i_id i = n \<and> i_state i = IOpen) (decide_row a actor ''runbook'' now) rows"
      using claim_decision_Inr[of n a actor "''runbook''" now rows i rows1] cl e by auto
    fix k assume k: "k \<in> set rows1" "i_id k = n \<and> i_state k = IActing"
    from in_update[OF k(1)[unfolded j(3)]] obtain m where m: "m \<in> set rows"
        "k = decide_row a actor ''runbook'' now m \<or> k = m" by auto
    have inj: "inj_on i_id (set rows)" using assms(2) by (simp add: incidents_ok_def distinct_map)
    have "k = m \<Longrightarrow> m = j" using inj_onD[OF inj _ m(1), of j] get_incident_Some[OF j(1)] k(2) by auto
    then have "k \<noteq> m" using k(2) j(2) by auto
    then show "i_platform k = ''runbook''" using m(2) by (auto simp: decide_row_def Let_def)
  qed
  then show ?thesis using decide_rows[OF assms(3) cl, of s] 1 by metis
qed

lemma accounted_runbook:
  assumes "accounted run c v rows" "incidents_ok rows"
  shows "accounted run c v (fst (snd (apply_runbook s i r now rows)))"
proof (cases "map_of RUNBOOK (runbook_name i r)")
  case (Some a)
  let ?l = "or_text (r_lineage r) (r_id r)"
  obtain ok rows1 where cl: "claim_auto_step (i_id i) ?l MAX_STEPS_PER_DAY (now - 86400) rows = (ok, rows1)" by fastforce
  have 1: "accounted run c v rows1" using accounted_auto[OF assms(1)] cl by (metis snd_conv)
  have 2: "incidents_ok rows1" using step_ok[OF assms(2), of "IncAuto (i_id i) ?l MAX_STEPS_PER_DAY (now - 86400)"] cl by simp
  note 3 = accounted_decide[OF 1 2, of a s "i_id i" "''kazma''" now]
  show ?thesis using Some cl assms(1) 1 3 runbook_actions[OF Some] by (cases ok) (simp_all add: apply_runbook_def case_prod_beta)
qed (simp add: apply_runbook_def assms)

lemma open_bad_accounts:
  assumes ok: "incidents_ok (p_rows p)" and none: "p_error (open_bad s now watch r c p) = None"
  shows "accounted (r_id r) c (r_version r) (p_rows (open_bad s now watch r c p))"
    and "accounted run c' v (p_rows p) \<Longrightarrow> accounted run c' v (p_rows (open_bad s now watch r c p))"
proof -
  let ?q = "quiet_reason r c watch" and ?id = "s_ids s (p_opened p)"
  let ?nt = "if ?q = [] then NPending else NSuppressed"
  obtain x rows' where x: "open_incident ?id r c (s_origin s r) ?nt ?q now (p_rows p) = (x, rows')" by fastforce
  have ok': "incidents_ok rows'" using step_ok[OF ok, of "IncOpen ?id r c (s_origin s r) ?nt ?q now"] x by simp
  have sub: "set (p_rows p) \<subseteq> set rows'" using x by (auto simp: open_incident_def Let_def split: option.splits if_splits)
  have acc: "accounted (r_id r) c (r_version r) rows'" if "x = Inr o'" for o'
  proof (cases o')
    case (Opened i)
    from opened_row[OF x[unfolded that Opened]] show ?thesis by (auto simp: accounted_def any_row_def accounts_unfold)
  next
    case (AlreadyLive i)
    then have "live_for (r_id r) c (p_rows p) = Some i" "rows' = p_rows p"
      using x that by (auto simp: open_incident_def Let_def split: option.splits if_splits)
    then have "i \<in> set rows'" "i_run i = r_id r" "i_cond i = c" "live_row i" by (auto simp: live_for_def find_Some_iff)
    then show ?thesis by (auto simp: accounted_def any_row_def accounts_for_def)
  next
    case AlreadyDecided
    then have "any_row (\<lambda>i. i_run i = r_id r \<and> i_cond i = c \<and> i_run_version i = r_version r \<and> decided_row i) (p_rows p)" "rows' = p_rows p"
      using x that by (auto simp: open_incident_def Let_def split: option.splits if_splits)
    then show ?thesis by (auto simp: accounted_def any_row_def accounts_for_def)
  qed
  have keep: "accounted run c' v rows' \<Longrightarrow> accounted run c' v (p_rows (open_bad s now watch r c p))" for run c' v
  proof (cases x)
    case (Inl e)
    then show ?thesis using none x by (simp add: open_bad_def Let_def)
  next
    case (Inr o')
    assume a: "accounted run c' v rows'"
    show ?thesis
    proof (cases o')
      case (Opened i)
      then show ?thesis using x Inr a ok' accounted_runbook by (simp add: open_bad_def Let_def)
    next
      case (AlreadyLive i)
      then have "rows' = p_rows p" using x Inr by (auto simp: open_incident_def Let_def split: option.splits if_splits)
      then show ?thesis using x Inr AlreadyLive a accounted_refresh by (simp add: open_bad_def Let_def)
    next
      case AlreadyDecided
      then have "rows' = p_rows p" using x Inr by (auto simp: open_incident_def Let_def split: option.splits if_splits)
      then show ?thesis using x Inr AlreadyDecided a by (simp add: open_bad_def Let_def)
    qed
  qed
  show "accounted (r_id r) c (r_version r) (p_rows (open_bad s now watch r c p))"
  proof (cases x)
    case (Inl e)
    then show ?thesis using none x by (simp add: open_bad_def Let_def)
  next
    case (Inr o')
    show ?thesis by (rule keep[OF acc[OF Inr]])
  qed
  show "accounted run c' v (p_rows p) \<Longrightarrow> accounted run c' v (p_rows (open_bad s now watch r c p))"
    using keep accounted_more sub by blast
qed

lemma look_accounts:
  assumes "incidents_ok (p_rows p)" "p_error (look_at s now watch live0 decided r p) = None"
  shows "accounted run c' v (p_rows p) \<Longrightarrow> accounted run c' v (p_rows (look_at s now watch live0 decided r p))"
    and "condition_of r = Some c \<Longrightarrow> find (\<lambda>i. i_run i = r_id r \<and> i_cond i = c) (rev live0) = None \<Longrightarrow>
      (r_id r, c, r_version r) \<notin> decided \<Longrightarrow> accounted (r_id r) c (r_version r) (p_rows (look_at s now watch live0 decided r p))"
proof -
  show "accounted run c' v (p_rows p) \<Longrightarrow> accounted run c' v (p_rows (look_at s now watch live0 decided r p))"
    using assms open_bad_accounts(2) accounted_refresh by (auto simp: look_at_def split: option.splits if_splits)
  show "condition_of r = Some c \<Longrightarrow> find (\<lambda>i. i_run i = r_id r \<and> i_cond i = c) (rev live0) = None \<Longrightarrow>
      (r_id r, c, r_version r) \<notin> decided \<Longrightarrow> accounted (r_id r) c (r_version r) (p_rows (look_at s now watch live0 decided r p))"
    using assms open_bad_accounts(1) by (simp add: look_at_def)
qed


lemma step_keeps:
  assumes "purge_time op = None" "i \<in> set rows"
  shows "\<exists>j \<in> set (inc_step rows op). same_incident i j"
proof (cases "grows_table op")
  case True
  then obtain ident r c orig nt why now where op: "op = IncOpen ident r c orig nt why now" using assms(1) by (cases op) auto
  then have "set rows \<subseteq> set (inc_step rows op)" using open_cases[of ident r c orig nt why now rows] by auto
  then show ?thesis using assms(2) same_incident_refl by blast
next
  case False
  obtain f where "\<forall>i \<in> set rows. row_move i (f i)" "inc_step rows op = map f rows"
    using step_moves[OF False] by (auto simp: table_step_def)
  then show ?thesis using assms(2) row_move_same by auto
qed

lemma steps_keep: "steps rows es rows' \<Longrightarrow> i \<in> set rows \<Longrightarrow> \<exists>j \<in> set rows'. same_incident i j"
proof (induction arbitrary: i rule: steps_induct)
  case (more rows op es rows')
  obtain j where "j \<in> set (inc_step rows op)" "same_incident i j" using step_keeps[OF more.hyps(1) more.prems] by blast
  then show ?case using more.IH same_incident_trans by blast
qed (use same_incident_refl in blast)

lemma works_keeps:
  assumes "works (start_pass rows) p" "incidents_ok rows"
  shows "incidents_ok (p_rows p)" and "i \<in> set rows \<Longrightarrow> \<exists>j \<in> set (p_rows p). same_incident i j"
  using assms steps_ok steps_keep by (auto simp: works_def start_pass_def)

lemma settle_accounts:
  assumes w: "works (start_pass rows) p" and ok: "incidents_ok rows" and i: "i \<in> set rows"
    and key: "(run, c) \<in> bad_keys (l_runs l)" and acc: "accounted run c v (p_rows p)"
  shows "accounted run c v (p_rows (settle_one now l i p))"
proof (cases "(i_run i, i_cond i) \<in> bad_keys (l_runs l)")
  case True
  then show ?thesis using acc by (simp add: settle_one_def)
next
  case False
  let ?reason = "settle_reason (run_by_id (i_run i) (l_runs l))"
  obtain j where j: "j \<in> set (p_rows p)" "same_incident i j" using works_keeps(2)[OF w ok i] by blast
  have inj: "inj_on i_id (set (p_rows p))" using works_keeps(1)[OF w ok] by (simp add: incidents_ok_def distinct_map)
  obtain k where k: "k \<in> set (p_rows p)" "accounts_for run c v k" using acc by (auto simp: accounted_def any_row_def)
  have "i_id k \<noteq> i_id i"
  proof
    assume "i_id k = i_id i"
    then have "k = j" using inj_onD[OF inj _ k(1) j(1)] j(2) by (simp add: same_incident_def)
    then show False using k(2) j(2) False key by (auto simp: accounts_for_def same_incident_def)
  qed
  then have "k \<in> set (snd (resolve (i_id i) ?reason now (p_rows p)))"
    using k(1) by (auto simp: resolve_def Let_def update_where_def intro: image_eqI[of _ _ k])
  then have res: "accounted run c v (snd (resolve (i_id i) ?reason now (p_rows p)))" using k(2) by (auto simp: accounted_def any_row_def)
  obtain b rows' where x: "resolve (i_id i) ?reason now (p_rows p) = (b, rows')" by fastforce
  show ?thesis using x res acc by (cases b) (simp_all add: settle_one_def Let_def)
qed

lemma deliver_accounts:
  assumes "accounted run c v rows"
  shows "accounted run c v (fst (snd (deliver s i rows)))"
proof -
  obtain b rows1 where c: "claim_notification (i_id i) rows = (b, rows1)" by fastforce
  have 1: "accounted run c v rows1" using accounted_claim_note[OF assms, of "i_id i"] c by simp
  then have 2: "accounted run c v (fst (snd (to_ops s i rows1)))" by (simp add: to_ops_def accounted_note)
  show ?thesis using c 1 2 accounted_note[OF 1] by (cases b) (simp_all add: deliver_def split: attempt.split bool.split)
qed

lemma deliver_one_accounts: "accounted run c v (p_rows p) \<Longrightarrow> accounted run c v (p_rows (deliver_one s i p))"
  using deliver_accounts[of run c v "p_rows p" s i]
  by (cases "deliver s i (p_rows p)"; cases "fst (deliver s i (p_rows p))") (auto simp: deliver_one_def)

lemma works_step: "works p0 p \<Longrightarrow> (\<And>q. works q (f q)) \<Longrightarrow> works p0 (unless_failed f p)"
  using works_trans works_unless by metis

text \<open>What a piece keeps, a fold of it keeps, as long as no error ended the pass.\<close>

lemma fold_keeps:
  assumes step: "\<And>x p. x \<in> set xs \<Longrightarrow> Q p \<Longrightarrow> p_error (f x p) = None \<Longrightarrow> Q (f x p)"
    and "Q p" "p_error (fold (\<lambda>x. unless_failed (f x)) xs p) = None"
  shows "Q (fold (\<lambda>x. unless_failed (f x)) xs p)"
  using assms
proof (induction xs arbitrary: p)
  case (Cons x xs)
  have "p_error (unless_failed (f x) p) = None" using fold_error[of f xs "unless_failed (f x) p"] Cons.prems(3) by simp
  then have "unless_failed (f x) p = f x p" "p_error (f x p) = None" using unless_error by metis+
  then show ?case using Cons by simp
qed simp

lemma judge_accounts:
  assumes ok: "incidents_ok rows" and none: "p_error (judge_runs s now w l rows) = None"
    and r: "r \<in> set (l_runs l)" "condition_of r = Some c"
  shows "accounted (r_id r) c (r_version r) (p_rows (judge_runs s now w l rows))"
proof -
  let ?look = "look_at s now w (live rows) (decided_keys rows)"
  let ?A = "\<lambda>p. accounted (r_id r) c (r_version r) (p_rows p)"
  let ?Q = "\<lambda>p. works (start_pass rows) p" and ?R = "\<lambda>p. works (start_pass rows) p \<and> ?A p"
  have okp: "?Q p \<Longrightarrow> incidents_ok (p_rows p)" for p using works_keeps(1) ok by blast
  have Q: "?Q p \<Longrightarrow> ?Q (?look x p)" for x p using works_trans look_works by blast
  have R: "?R p \<Longrightarrow> p_error (?look x p) = None \<Longrightarrow> ?R (?look x p)" for x p
    using Q okp look_accounts(1) by blast
  show ?thesis
  proof (cases "find (\<lambda>i. i_run i = r_id r \<and> i_cond i = c) (rev (live rows)) = None \<and> (r_id r, c, r_version r) \<notin> decided_keys rows")
    case True
    obtain xs ys where l: "l_runs l = xs @ r # ys" using r(1) by (auto simp: in_set_conv_decomp)
    let ?p = "fold (\<lambda>x. unless_failed (?look x)) xs (start_pass rows)"
    have fold: "judge_runs s now w l rows = fold (\<lambda>x. unless_failed (?look x)) ys (unless_failed (?look r) ?p)"
      by (simp add: judge_runs_def l)
    have e1: "p_error (unless_failed (?look r) ?p) = None" using none unfolding fold by (rule fold_error)
    note e2 = unless_error[OF e1]
    have q: "?Q ?p" using fold_keeps[of xs ?Q ?look "start_pass rows"] Q e2 by simp
    have "?A (?look r ?p)" using look_accounts(2)[OF okp[OF q]] e1 e2 r(2) True by simp
    then have "?R (unless_failed (?look r) ?p)" using Q q e2 by simp
    then have "?R (fold (\<lambda>x. unless_failed (?look x)) ys (unless_failed (?look r) ?p))"
      using none unfolding fold by (intro fold_keeps[of ys ?R ?look] R)
    then show ?thesis by (simp add: fold)
  next
    case False
    have "?A (start_pass rows)"
    proof (cases "find (\<lambda>i. i_run i = r_id r \<and> i_cond i = c) (rev (live rows))")
      case None
      then show ?thesis using False by (auto simp: decided_keys_def start_pass_def accounted_def any_row_def accounts_for_def)
    next
      case (Some i)
      then have "i \<in> set (rev (live rows))" "i_run i = r_id r" "i_cond i = c" by (auto simp: find_Some_iff simp del: set_rev)
      then show ?thesis by (auto simp: live_set start_pass_def accounted_def any_row_def accounts_for_def)
    qed
    then have "?R (judge_runs s now w l rows)"
      using none unfolding judge_runs_def by (intro fold_keeps[of "l_runs l" ?R ?look] R) simp_all
    then show ?thesis by simp
  qed
qed

text \<open>C8: No bad run goes unrecorded: after a pass that ends without an error, every listed run that is stalled, dead or failed
  has an incident of that condition that is live, or was decided about by the owner at this version of the run, or was
  acted on by a runbook.\<close>

theorem bad_run_is_recorded:
  assumes "incidents_ok rows" and "p_error (fst (tick s now watch rows)) = None"
    and "r \<in> set (l_runs (list_runs [] (s_read s) now))" and "condition_of r = Some c"
  shows "\<exists>i \<in> set (p_rows (fst (tick s now watch rows))). i_run i = r_id r \<and> i_cond i = c
    \<and> (live_row i \<or> decided_row i \<and> i_run_version i = r_version r \<or> i_platform i = ''runbook'')"
proof -
  define w where "w = (case watch of None \<Rightarrow> now | Some w \<Rightarrow> w)"
  define l where "l = list_runs [] (s_read s) now"
  let ?p = "judge_runs s now w l rows"
  let ?A = "\<lambda>p. accounted (r_id r) c (r_version r) (p_rows p)"
  let ?R = "\<lambda>p. works (start_pass rows) p \<and> ?A p"
  have t: "fst (tick s now watch rows) = send_pending s (settle_runs now l rows ?p)"
    by (simp add: tick_def l_def w_def Let_def split: option.split)
  note none = tick_middle[OF assms(2), folded l_def w_def]
  have key: "(r_id r, c) \<in> bad_keys (l_runs l)" using assms(3,4) by (auto simp: bad_keys_def l_def intro!: bexI[of _ r])
  have w1: "works (start_pass rows) ?p"
    unfolding judge_runs_def by (intro works_fold works_unless look_works)
  have 1: "?R ?p" using w1 judge_accounts[OF assms(1) none(2)] assms(3,4) by (simp add: l_def)
  have S: "i \<in> set (live rows) \<Longrightarrow> ?R p \<Longrightarrow> ?R (settle_one now l i p)" for i p
    using works_trans settle_works settle_accounts[OF _ assms(1) _ key] by (auto simp: live_set)
  have 2: "?R (settle_runs now l rows ?p)"
    using none(1) unfolding settle_runs_def by (intro fold_keeps[of "live rows" ?R "settle_one now l"] S 1)
  have e: "p_error (settle_runs now l rows ?p) = None" by (rule none(1))
  have "?A (fold (\<lambda>i. unless_failed (deliver_one s i)) is q)" if "?A q" for "is" q
    using that by (induction "is" arbitrary: q) (simp_all add: unless_failed_def deliver_one_accounts)
  then have "?A (send_pending s (settle_runs now l rows ?p))" using 2 e by (simp add: send_pending_def unless_failed_def)
  then show ?thesis unfolding t accounted_def any_row_def accounts_for_def by blast
qed


subsection \<open>Automatic steps\<close>

text \<open>C30: An automatic step is the owner's decision, made in advance: a control runs for a runbook only if its switch is on, the run's
  effects are not unknown, the action is not one a person has to check, and the run offers it.\<close>

theorem runbook_acts_only_when_allowed:
  assumes "apply_runbook s i r now rows = (ans, rows', calls)" "calls \<noteq> []"
  shows "runbook_on (s_flags s) (runbook_name i r) \<and> r_effects r \<noteq> ''unknown''
    \<and> (\<exists>kind native action. calls = [(kind, native, action)] \<and> (runbook_name i r, action) \<in> set RUNBOOK
         \<and> action \<noteq> ''retry_checked'' \<and> action \<in> set (r_actions r))"
proof -
  obtain a where a: "map_of RUNBOOK (runbook_name i r) = Some a"
    using assms by (cases "map_of RUNBOOK (runbook_name i r)") (simp_all add: apply_runbook_def)
  have on: "runbook_on (s_flags s) (runbook_name i r)" "refusal r a = []"
    using assms a by (auto simp: apply_runbook_def split: if_splits)
  obtain rows1 where c: "claim_auto_step (i_id i) (or_text (r_lineage r) (r_id r)) MAX_STEPS_PER_DAY (now - 86400) rows = (True, rows1)"
    using assms a on by (cases "claim_auto_step (i_id i) (or_text (r_lineage r) (r_id r)) MAX_STEPS_PER_DAY (now - 86400) rows";
      cases "fst (claim_auto_step (i_id i) (or_text (r_lineage r) (r_id r)) MAX_STEPS_PER_DAY (now - 86400) rows)")
      (simp_all add: apply_runbook_def)
  obtain ans1 where d: "decide s (i_id i) a ''kazma'' ''runbook'' now rows1 = (ans1, rows', calls)"
    using assms(1) a on c by (cases "decide s (i_id i) a ''kazma'' ''runbook'' now rows1") (simp add: apply_runbook_def)
  from decide_calls[OF d assms(2)] obtain kind native where "calls = [(kind, native, a)]" by blast
  moreover have "r_effects r \<noteq> ''unknown''" "a \<noteq> ''retry_checked''" "a \<in> set (r_actions r)"
    using on(2) by (auto simp: refusal_def split: if_splits)
  ultimately show ?thesis using on(1) map_of_SomeD[OF a] by blast
qed

fun auto_taken :: "string \<Rightarrow> incidents \<Rightarrow> inc_op list \<Rightarrow> nat" where
  "auto_taken l rows [] = 0"
| "auto_taken l rows (op # ops) =
     (case op of IncAuto n l' limit since \<Rightarrow> if l' = l \<and> fst (claim_auto_step n l' limit since rows) then 1 else 0 | _ \<Rightarrow> 0)
       + auto_taken l (inc_step rows op) ops"

text \<open>Operations within a day of an incident: the runbooks' limit and window, and no purge.\<close>

definition within_day :: "string \<Rightarrow> real \<Rightarrow> inc_op \<Rightarrow> bool" where
  "within_day l opened op \<longleftrightarrow>
     (case op of
        IncAuto n l' limit since \<Rightarrow> l' = l \<longrightarrow> limit = MAX_STEPS_PER_DAY \<and> since \<le> opened
      | IncPurge now \<Rightarrow> False
      | _ \<Rightarrow> True)"

definition autos_ok :: "incidents \<Rightarrow> bool" where
  "autos_ok rows \<longleftrightarrow> (\<forall>i \<in> set rows. 0 \<le> i_auto i)"

lemma step_autos: "autos_ok rows \<Longrightarrow> autos_ok (inc_step rows op)"
proof (cases "grows_table op")
  case True
  assume ok: "autos_ok rows"
  show ?thesis
  proof (cases op)
    case (IncOpen ident r c orig nt why now)
    show ?thesis
    proof (cases "\<exists>i. open_incident ident r c orig nt why now rows = (Inr (Opened i), rows @ [i])")
      case True
      then obtain i where new: "open_incident ident r c orig nt why now rows = (Inr (Opened i), rows @ [i])" ..
      show ?thesis using opened_row[OF new] new ok IncOpen by (auto simp: autos_ok_def)
    next
      case False
      then show ?thesis using IncOpen ok open_cases[of ident r c orig nt why now rows] by simp
    qed
  qed (use True ok in \<open>simp_all add: purge_incidents_def Let_def autos_ok_def\<close>)
next
  case False
  assume ok: "autos_ok rows"
  obtain f where f: "\<forall>i \<in> set rows. row_move i (f i)" "inc_step rows op = map f rows"
    using step_moves[OF False] by (auto simp: table_step_def)
  then show ?thesis using ok by (fastforce simp: autos_ok_def row_move_def)
qed

lemma autos_run: "autos_ok rows \<Longrightarrow> autos_ok (foldl inc_step rows ops)"
  by (induction ops arbitrary: rows) (simp_all add: step_autos)

lemma le_sum_list: "x \<in> set xs \<Longrightarrow> \<forall>x \<in> set xs. 0 \<le> f x \<Longrightarrow> (f x :: int) \<le> sum_list (map f xs)"
proof (induction xs)
  case (Cons y ys)
  have "0 \<le> sum_list (map f ys)" using Cons.prems(2) by (intro sum_list_nonneg) auto
  then show ?case using Cons by (cases "x = y") auto
qed simp

lemma auto_steps_pos:
  assumes "autos_ok rows" "i \<in> set rows" "i_lineage i = l" "1 \<le> i_auto i" "since \<le> i_opened i"
  shows "1 \<le> auto_steps l since rows"
proof -
  let ?xs = "filter (\<lambda>i. i_lineage i = l \<and> since \<le> i_opened i) rows"
  have "i \<in> set ?xs" using assms by simp
  moreover have "\<forall>x \<in> set ?xs. 0 \<le> i_auto x" using assms(1) by (simp add: autos_ok_def)
  ultimately have "i_auto i \<le> sum_list (map i_auto ?xs)" by (intro le_sum_list)
  then show ?thesis using assms(4) by (simp add: auto_steps_def)
qed

lemma step_keeps_auto:
  assumes "within_day l t op" "i \<in> set rows"
  shows "\<exists>j \<in> set (inc_step rows op). same_incident i j \<and> i_auto i \<le> i_auto j"
proof (cases "grows_table op")
  case True
  then obtain ident r c orig nt why now where op: "op = IncOpen ident r c orig nt why now"
    using assms(1) by (cases op) (auto simp: within_day_def)
  then have "set rows \<subseteq> set (inc_step rows op)" using open_cases[of ident r c orig nt why now rows] by auto
  then show ?thesis using assms(2) same_incident_refl by blast
next
  case False
  obtain f where "\<forall>i \<in> set rows. row_move i (f i)" "inc_step rows op = map f rows"
    using step_moves[OF False] by (auto simp: table_step_def)
  then show ?thesis using assms(2) by (auto simp: row_move_def)
qed


subsection \<open>The supervisor's own outage\<close>

fun outage_run :: "outage \<Rightarrow> (bool \<times> real) list \<Rightarrow> pass_note list \<times> outage" where
  "outage_run o' [] = ([], o')"
| "outage_run o' ((failed, now) # ps) =
     (case note_pass failed now o' of (n, o1) \<Rightarrow> (case outage_run o1 ps of (ns, o2) \<Rightarrow> (n # ns, o2)))"

fun alternates :: "bool \<Rightarrow> pass_note list \<Rightarrow> bool" where
  "alternates paged [] = True"
| "alternates paged (Paged # ns) = (\<not> paged \<and> alternates True ns)"
| "alternates paged (Recovered # ns) = (paged \<and> alternates False ns)"
| "alternates paged (Good # ns) = (\<not> paged \<and> alternates paged ns)"
| "alternates paged (Failing # ns) = alternates paged ns"

definition watching :: outage where "watching = \<lparr>o_failing = None, o_paged = False\<rparr>"

lemma outage_alternates: "alternates (o_paged o') (fst (outage_run o' ps))"
proof (induction ps arbitrary: o')
  case (Cons p ps)
  obtain failed now where p: "p = (failed, now)" by (cases p)
  obtain n o1 where n: "note_pass failed now o' = (n, o1)" by fastforce
  have "alternates (o_paged o1) (fst (outage_run o1 ps))" by (rule Cons.IH)
  moreover have "(n = Good \<and> \<not> o_paged o' \<and> \<not> o_paged o1) \<or> (n = Recovered \<and> o_paged o' \<and> \<not> o_paged o1)
      \<or> (n = Failing \<and> o_paged o1 = o_paged o') \<or> (n = Paged \<and> \<not> o_paged o' \<and> o_paged o1)"
    using n by (auto simp: note_pass_def Let_def split: if_splits)
  ultimately show ?case using p n by (auto split: prod.split)
qed simp

text \<open>The passes since which nothing worked.\<close>

definition failing_since :: "real \<Rightarrow> (bool \<times> real) list \<Rightarrow> bool" where
  "failing_since t ps \<longleftrightarrow> (\<exists>pre post. ps = pre @ (True, t) # post \<and> list_all fst post)"

lemma outage_run_append:
  "outage_run o' (ps @ qs) = (case outage_run o' ps of (ns, o1) \<Rightarrow> (case outage_run o1 qs of (ms, o2) \<Rightarrow> (ns @ ms, o2)))"
  by (induction o' ps rule: outage_run.induct) (simp_all split: prod.split)

lemma outage_failing:
  "list_all (\<lambda>p. 0 < snd p) ps \<Longrightarrow> o_failing (snd (outage_run watching ps)) = Some t \<Longrightarrow> t \<noteq> 0 \<and> failing_since t ps"
proof (induction ps arbitrary: t rule: rev_induct)
  case (snoc p ps)
  obtain failed now where p: "p = (failed, now)" by (cases p)
  let ?o = "snd (outage_run watching ps)"
  have o: "snd (outage_run watching (ps @ [p])) = snd (note_pass failed now ?o)"
    by (simp add: outage_run_append p split: prod.split)
  have pos: "0 < now" using snoc.prems(1) p by simp
  have f: "failed" using snoc.prems(2) unfolding o by (auto simp: note_pass_def split: if_splits)
  show ?case
  proof (cases "o_failing ?o")
    case None
    then have "t = now" using snoc.prems(2) f pos unfolding o by (auto simp: note_pass_def Let_def or_time_def split: if_splits)
    then have "ps @ [p] = ps @ (True, t) # [] \<and> list_all fst []" using p f by simp
    then show ?thesis using \<open>t = now\<close> pos unfolding failing_since_def by blast
  next
    case (Some u)
    have u: "u \<noteq> 0" "failing_since u ps" using snoc.IH[OF _ Some] snoc.prems(1) by simp_all
    then have "t = u" using Some snoc.prems(2) f unfolding o by (auto simp: note_pass_def Let_def or_time_def split: if_splits)
    moreover obtain pre post where "ps = pre @ (True, u) # post" "list_all fst post" using u(2) by (auto simp: failing_since_def)
    then have "ps @ [p] = pre @ (True, u) # (post @ [p]) \<and> list_all fst (post @ [p])" using p f by simp
    then have "failing_since u (ps @ [p])" unfolding failing_since_def by blast
    ultimately show ?thesis using u(1) by simp
  qed
qed (simp add: watching_def)

text \<open>The supervisor pages its own outage once, and late: over any sequence of passes, pages and recovery notes alternate, beginning with a
  page; and a page is sent only when every pass of the last five minutes or longer failed.\<close>

theorem outage_paged_once:
  assumes "list_all (\<lambda>p. 0 < snd p) (ps @ [(failed, now)])"
  shows "alternates False (fst (outage_run watching ps))
    \<and> (fst (note_pass failed now (snd (outage_run watching ps))) = Paged \<longrightarrow>
        failed \<and> (\<exists>t. failing_since t (ps @ [(failed, now)]) \<and> 300 \<le> now - t))"
proof (intro conjI impI)
  show "alternates False (fst (outage_run watching ps))" using outage_alternates[of watching ps] by (simp add: watching_def)
  let ?o = "snd (outage_run watching ps)"
  assume pg: "fst (note_pass failed now ?o) = Paged"
  then show failed by (auto simp: note_pass_def split: if_splits)
  have o: "snd (outage_run watching (ps @ [(failed, now)])) = snd (note_pass failed now ?o)"
    by (simp add: outage_run_append split: prod.split)
  obtain t where t: "o_failing (snd (note_pass failed now ?o)) = Some t" "300 \<le> now - t"
    using pg by (auto simp: note_pass_def Let_def UNAVAILABLE_AFTER_S_def split: if_splits)
  have "failing_since t (ps @ [(failed, now)])" using outage_failing[OF assms] t(1) o by simp
  then show "\<exists>t. failing_since t (ps @ [(failed, now)]) \<and> 300 \<le> now - t" using t(2) by blast
qed


subsection \<open>Examples\<close>

text \<open>An install with one document job and one maintenance sweep; every control works and the ops channels take every message.\<close>

definition one_run :: "run list \<Rightarrow> surroundings" where
  "one_run rs =
     \<lparr>s_read = (\<lambda>k. Inr (filter (\<lambda>r. r_kind r = k) rs)), s_act = (\<lambda>kind native a. Did True ''done'' []), s_graph = True,
      s_flags = PDict [(''document_job.failed'', PBool True)], s_origin = (\<lambda>r. []), s_send = (\<lambda>i. Did True [] []),
      s_ops = (\<lambda>i. True), s_ids = (\<lambda>n. ''new'')\<rparr>"

definition failed_job :: run where
  "failed_job = (plain_run ''document_job:7'' ''document_job'' ''t/7'' ''Report'' Failed ''dead_letter'')\<lparr>r_version := ''3'',
     r_actions := [''retry''], r_progress := Some 900\<rparr>"

definition lost_job :: run where
  "lost_job = (plain_run ''document_job:7'' ''document_job'' ''t/7'' ''Report'' Running ''parsing'')\<lparr>r_version := ''2'',
     r_actions := [''cancel''], r_progress := Some 100, r_owner := Some False\<rparr>"

definition failing_sweep :: "string \<Rightarrow> run" where
  "failing_sweep failures = (plain_run ''maintenance:index'' ''maintenance'' ''index'' ''index'' Failed ''failing'')\<lparr>r_version := failures\<rparr>"

definition told_incident :: "string \<Rightarrow> run \<Rightarrow> string \<Rightarrow> incident" where
  "told_incident n r c = (new_incident n r c [] NPending [] 500)\<lparr>i_notify := NDelivered\<rparr>"


text \<open>A stuck run is announced as recovered: when a stalled run's owner is gone too, its condition changes to dead, and the pass
  that opens the incident about that closes the first one with the note that the run is making progress again.\<close>

theorem lost_owner_announced_as_progress:
  "p_sent (fst (tick (one_run [lost_job]) 1000 (Some 0) [told_incident ''a'' lost_job ''stalled'']))
     = [RecoveryNote ''a'' False, ToOps ''new'']"
  by code_simp

text \<open>A refresh does not carry the version of the run: the owner dismisses a failing sweep that has failed seven times by now, and
  the next pass opens and sends the same failure again, since the dismissal counts for the third time only.\<close>

theorem dismissed_failure_is_asked_again:
  "let seen = p_rows (fst (tick (one_run [failing_sweep ''7'']) 1000 (Some 0) [told_incident ''a'' (failing_sweep ''3'') ''failed'']));
       dismissed = snd (claim_decision ''a'' ''dismiss'' ''owner'' ''web'' 1001 seen)
   in p_sent (fst (tick (one_run [failing_sweep ''7'']) 1030 (Some 0) dismissed)) = [ToOps ''new'']"
  by code_simp

lemma decided_failure_not_reopened_witness:
  "events_count (is_opened_for ''document_job:7'' ''failed'' ''3'')
     (inc_log [(told_incident ''a'' failed_job ''failed'')\<lparr>i_state := IDismissed\<rparr>]
        [IncOpen ''b'' failed_job ''failed'' [] NPending [] 1000, IncPurge 1000]) = 0"
proof -
  let ?i = "(told_incident ''a'' failed_job ''failed'')\<lparr>i_state := IDismissed\<rparr>"
  have "decided_row ?i" "kept_until (i_updated ?i) [IncOpen ''b'' failed_job ''failed'' [] NPending [] 1000, IncPurge 1000]"
    by code_simp+
  from decided_failure_not_reopened[of ?i "[?i]", OF _ this]
  show ?thesis by (simp add: told_incident_def failed_job_def plain_run_def)
qed

lemma decision_acts_on_offer_witness:
  "\<exists>ans rows'. decide (one_run [failed_job]) ''a'' ''retry'' ''owner'' ''web'' 1000 [told_incident ''a'' failed_job ''failed'']
      = (ans, rows', [(''document_job'', ''7'', ''retry'')])
   \<and> (\<exists>r. r \<in> set (l_runs (list_runs [''document_job''] (s_read (one_run [failed_job])) 1000)) \<and> ''retry'' \<in> set (r_actions r))"
proof -
  let ?d = "decide (one_run [failed_job]) ''a'' ''retry'' ''owner'' ''web'' 1000 [told_incident ''a'' failed_job ''failed'']"
  have d: "snd (snd ?d) = [(''document_job'', ''7'', ''retry'')]" by code_simp
  then have "?d = (fst ?d, fst (snd ?d), [(''document_job'', ''7'', ''retry'')])" by (metis prod.collapse)
  then show ?thesis using decision_acts_on_offer[of "one_run [failed_job]" "''a''" "''retry''" "''owner''" "''web''" 1000
      "[told_incident ''a'' failed_job ''failed'']"] by fastforce
qed

lemma decision_ends_recorded_witness:
  "\<not> (\<exists>i \<in> set (fst (snd (decide (one_run [failed_job]) ''a'' ''retry'' ''owner'' ''web'' 1000 [told_incident ''a'' failed_job ''failed'']))).
       i_id i = ''a'' \<and> i_state i = IActing)"
proof
  assume "\<exists>i \<in> set (fst (snd (decide (one_run [failed_job]) ''a'' ''retry'' ''owner'' ''web'' 1000 [told_incident ''a'' failed_job ''failed'']))).
       i_id i = ''a'' \<and> i_state i = IActing"
  then obtain i where i: "i \<in> set (fst (snd (decide (one_run [failed_job]) ''a'' ''retry'' ''owner'' ''web'' 1000
      [told_incident ''a'' failed_job ''failed''])))" "i_id i = ''a''" "i_state i = IActing" by blast
  have "\<exists>j \<in> set [told_incident ''a'' failed_job ''failed'']. i_id j = ''a'' \<and> i_state j = IActing"
    by (rule decision_ends_recorded[OF _ _ i]) (rule prod.collapse[symmetric, THEN trans], simp add: prod_eq_iff, simp add: one_run_def)
  then show False by (simp add: told_incident_def)
qed

lemma open_incident_settled_iff_well_witness:
  "\<exists>j \<in> set (p_rows (fst (tick (one_run []) 1000 (Some 0) [told_incident ''a'' lost_job ''stalled'']))).
     i_id j = ''a'' \<and> i_state j = IResolved"
proof -
  let ?i = "told_incident ''a'' lost_job ''stalled''"
  have "i_id ?i = ''a''" "i_state ?i = IOpen" "incidents_ok [?i]" by code_simp+
  moreover have "p_error (fst (tick (one_run []) 1000 (Some 0) [?i])) = None" by code_simp
  moreover have "l_runs (list_runs [] (s_read (one_run [])) 1000) = []" "l_errors (list_runs [] (s_read (one_run [])) 1000) = []"
    by code_simp+
  ultimately show ?thesis
    using open_incident_settled_iff_well[of "[?i]" ?i "one_run []" 1000 "Some 0", OF _ _ _ _ refl] by (simp add: bad_keys_def)
qed

lemma bad_run_is_recorded_witness:
  "\<exists>i \<in> set (p_rows (fst (tick (one_run [failed_job]) 1000 (Some 0) []))). i_run i = ''document_job:7'' \<and> i_cond i = ''failed''
    \<and> (live_row i \<or> decided_row i \<and> i_run_version i = ''3'' \<or> i_platform i = ''runbook'')"
proof -
  let ?r = "with_verdict failed_job VFailed"
  have "p_error (fst (tick (one_run [failed_job]) 1000 (Some 0) [])) = None" by code_simp
  moreover have "l_runs (list_runs [] (s_read (one_run [failed_job])) 1000) = [?r]" by code_simp
  moreover have "condition_of ?r = Some ''failed''" "r_id ?r = ''document_job:7''" "r_version ?r = ''3''" by code_simp+
  moreover have "incidents_ok []" by code_simp
  ultimately show ?thesis using bad_run_is_recorded[of "[]" "one_run [failed_job]" 1000 "Some 0" ?r "''failed''"] by simp
qed


lemma runbook_acts_only_when_allowed_witness:
  "snd (snd (apply_runbook (one_run [failed_job]) (told_incident ''a'' failed_job ''failed'') failed_job 1000
      [told_incident ''a'' failed_job ''failed''])) = [(''document_job'', ''7'', ''retry'')]
   \<and> runbook_on (s_flags (one_run [failed_job])) ''document_job.failed''"
proof -
  let ?a = "apply_runbook (one_run [failed_job]) (told_incident ''a'' failed_job ''failed'') failed_job 1000
      [told_incident ''a'' failed_job ''failed'']"
  have c: "snd (snd ?a) = [(''document_job'', ''7'', ''retry'')]" by code_simp
  have n: "runbook_name (told_incident ''a'' failed_job ''failed'') failed_job = ''document_job.failed''" by code_simp
  have "runbook_on (s_flags (one_run [failed_job])) ''document_job.failed''"
    using runbook_acts_only_when_allowed[of "one_run [failed_job]" "told_incident ''a'' failed_job ''failed''" failed_job 1000
        "[told_incident ''a'' failed_job ''failed'']" "fst ?a" "fst (snd ?a)" "snd (snd ?a)"] c unfolding n by (simp add: prod_eq_iff)
  then show ?thesis using c by blast
qed

end
