(* ===== verification/SwarmTask.thy ===== *)
theory SwarmTask
  imports Dispatch
begin

text \<open>
  Swarm tasks and results (kazma_core/swarm/task.py), the in-memory history of an engine (task_lifecycle.py), and
  cancel and retry (task_control.py). A task and a result are turned into dictionaries to be stored, and read back from
  them. Fields declared as text hold text: another value there, which Python would carry along unchecked, is an error
  in these readers, and so is a list or a dictionary of another type. New ids and time stamps are arguments.
\<close>

subsection \<open>Reading dictionaries\<close>

definition andthen :: "(exn, 'a) sum \<Rightarrow> ('a \<Rightarrow> (exn, 'b) sum) \<Rightarrow> (exn, 'b) sum" where
  "andthen x f = (case x of Inl e \<Rightarrow> Inl e | Inr a \<Rightarrow> f a)"

fun each :: "('a \<Rightarrow> (exn, 'b) sum) \<Rightarrow> 'a list \<Rightarrow> (exn, 'b list) sum" where
  "each f [] = Inr []"
| "each f (x # xs) = andthen (f x) (\<lambda>y. andthen (each f xs) (\<lambda>ys. Inr (y # ys)))"

definition TypeError :: exn where "TypeError = OtherError ''TypeError''"

definition text_of :: "pyval \<Rightarrow> (exn, string) sum" where
  "text_of v = (case v of PStr s \<Rightarrow> Inr s | _ \<Rightarrow> Inl TypeError)"

definition text_field :: "pydict \<Rightarrow> string \<Rightarrow> string \<Rightarrow> (exn, string) sum" where
  "text_field d k dflt = (case map_of d k of None \<Rightarrow> Inr dflt | Some v \<Rightarrow> text_of v)"

definition opt_text_field :: "pydict \<Rightarrow> string \<Rightarrow> (exn, string option) sum" where
  "opt_text_field d k =
     (case dget d k of PNone \<Rightarrow> Inr None | v \<Rightarrow> andthen (text_of v) (\<lambda>s. Inr (Some s)))"

definition list_field :: "pydict \<Rightarrow> string \<Rightarrow> (exn, pyval list) sum" where
  "list_field d k = (case map_of d k of None \<Rightarrow> Inr [] | Some (PList xs) \<Rightarrow> Inr xs | Some _ \<Rightarrow> Inl TypeError)"

definition texts_field :: "pydict \<Rightarrow> string \<Rightarrow> (exn, string list) sum" where
  "texts_field d k = andthen (list_field d k) (each text_of)"

definition dict_field :: "pydict \<Rightarrow> string \<Rightarrow> (exn, pydict) sum" where
  "dict_field d k = (case map_of d k of None \<Rightarrow> Inr [] | Some (PDict m) \<Rightarrow> Inr m | Some _ \<Rightarrow> Inl TypeError)"

text \<open>\<open>int(d.get(k, n))\<close> and \<open>float(d.get(k, x))\<close>.\<close>

definition int_in :: "pydict \<Rightarrow> string \<Rightarrow> int \<Rightarrow> (exn, int) sum" where
  "int_in d k n =
     (case map_of d k of None \<Rightarrow> Inr n | Some v \<Rightarrow> (case py_int v of None \<Rightarrow> Inl (ValueError ''int'') | Some i \<Rightarrow> Inr i))"

definition float_in :: "pydict \<Rightarrow> string \<Rightarrow> real \<Rightarrow> (exn, real) sum" where
  "float_in d k x =
     (case map_of d k of None \<Rightarrow> Inr x | Some v \<Rightarrow> (case py_float v of None \<Rightarrow> Inl (ValueError ''float'') | Some r \<Rightarrow> Inr r))"

definition text_or_none :: "string option \<Rightarrow> pyval" where
  "text_or_none t = (case t of None \<Rightarrow> PNone | Some s \<Rightarrow> PStr s)"

definition texts :: "string list \<Rightarrow> pyval" where
  "texts ts = PList (map PStr ts)"

subsection \<open>Types and states\<close>

datatype task_type = TDispatch | TBroadcast | TPipeline | TFanOut | TConsult | TConditional

fun task_type_text :: "task_type \<Rightarrow> string" where
  "task_type_text TDispatch = ''dispatch''"
| "task_type_text TBroadcast = ''broadcast''"
| "task_type_text TPipeline = ''pipeline''"
| "task_type_text TFanOut = ''fan_out''"
| "task_type_text TConsult = ''consult''"
| "task_type_text TConditional = ''conditional''"

datatype swarm_status = TPending | TRunning | TPaused | TCompleted | TFailed | TTimeout | TCancelled

fun task_status_text :: "swarm_status \<Rightarrow> string" where
  "task_status_text TPending = ''pending''"
| "task_status_text TRunning = ''running''"
| "task_status_text TPaused = ''paused''"
| "task_status_text TCompleted = ''completed''"
| "task_status_text TFailed = ''failed''"
| "task_status_text TTimeout = ''timeout''"
| "task_status_text TCancelled = ''cancelled''"

definition TASK_TERMINAL_STATUSES :: "swarm_status list" where
  "TASK_TERMINAL_STATUSES = [TCompleted, TFailed, TTimeout, TCancelled]"

text \<open>\<open>_coerce_enum\<close>: the member with this value, or a ValueError.\<close>

definition read_task_type :: "string \<Rightarrow> (exn, task_type) sum" where
  "read_task_type s =
     (case find (\<lambda>t. task_type_text t = s) [TDispatch, TBroadcast, TPipeline, TFanOut, TConsult, TConditional] of
        None \<Rightarrow> Inl (ValueError s) | Some t \<Rightarrow> Inr t)"

definition read_task_status :: "string \<Rightarrow> (exn, swarm_status) sum" where
  "read_task_status s =
     (case find (\<lambda>t. task_status_text t = s) [TPending, TRunning, TPaused, TCompleted, TFailed, TTimeout, TCancelled] of
        None \<Rightarrow> Inl (ValueError s) | Some t \<Rightarrow> Inr t)"

definition is_terminal :: "string \<Rightarrow> bool" where
  "is_terminal s = (case read_task_status s of Inl e \<Rightarrow> False | Inr t \<Rightarrow> t \<in> set TASK_TERMINAL_STATUSES)"

subsection \<open>Results\<close>

definition handoff_to_dict :: "handoff \<Rightarrow> pydict" where
  "handoff_to_dict h =
     [(''from_worker'', PStr (ho_from h)), (''to_worker'', PStr (ho_to h)), (''context_transferred'', PStr (ho_context h)),
      (''timestamp'', PStr (ho_timestamp h)), (''reason'', PStr (ho_reason h))]"

definition handoff_from_dict :: "string \<Rightarrow> pyval \<Rightarrow> (exn, handoff) sum" where
  "handoff_from_dict now v =
     (case v of
        PDict d \<Rightarrow>
          andthen (text_field d ''from_worker'' []) (\<lambda>from.
          andthen (text_field d ''to_worker'' []) (\<lambda>to.
          andthen (text_field d ''context_transferred'' []) (\<lambda>ctx.
          andthen (text_field d ''timestamp'' now) (\<lambda>stamp.
          andthen (if truthy (dget d ''reason'') then text_of (dget d ''reason'') else Inr []) (\<lambda>reason.
          Inr \<lparr>ho_from = from, ho_to = to, ho_context = ctx, ho_timestamp = stamp, ho_reason = reason\<rparr>)))))
      | _ \<Rightarrow> Inl TypeError)"

definition wresult_to_dict :: "wresult \<Rightarrow> pydict" where
  "wresult_to_dict w =
     [(''worker'', PStr (wr_worker w)), (''task_id'', PStr (wr_task_id w)), (''status'', PStr (wr_status w)),
      (''output'', PStr (wr_output w)), (''error'', text_or_none (wr_error w)), (''tokens_used'', PInt (wr_tokens w)),
      (''cost'', PFloat (wr_cost w)), (''duration_seconds'', PFloat (wr_duration w)),
      (''handoffs'', PList (map (PDict \<circ> handoff_to_dict) (wr_handoffs w))), (''retry_safe'', PBool (wr_retry_safe w))]"

definition wresult_from_dict :: "string \<Rightarrow> pyval \<Rightarrow> (exn, wresult) sum" where
  "wresult_from_dict now v =
     (case v of
        PDict d \<Rightarrow>
          andthen (text_field d ''worker'' []) (\<lambda>worker.
          andthen (text_field d ''task_id'' []) (\<lambda>task_id.
          andthen (text_field d ''status'' []) (\<lambda>status.
          andthen (text_field d ''output'' []) (\<lambda>out.
          andthen (opt_text_field d ''error'') (\<lambda>err.
          andthen (int_in d ''tokens_used'' 0) (\<lambda>tokens.
          andthen (float_in d ''cost'' 0) (\<lambda>cost.
          andthen (float_in d ''duration_seconds'' 0) (\<lambda>dur.
          andthen (andthen (list_field d ''handoffs'') (each (handoff_from_dict now))) (\<lambda>hs.
          Inr \<lparr>wr_worker = worker, wr_task_id = task_id, wr_status = status, wr_output = out, wr_error = err,
               wr_tokens = tokens, wr_cost = cost, wr_duration = dur, wr_handoffs = hs,
               wr_retry_safe = (dget d ''retry_safe'' \<noteq> PBool False)\<rparr>)))))))))
      | _ \<Rightarrow> Inl TypeError)"

record tresult =
  tr_task_id :: string
  tr_status :: string
  tr_workers :: "wresult list"
  tr_opinions :: "wresult list"
  tr_aggregated :: "string option"
  tr_synthesized :: "string option"
  tr_error :: "string option"
  tr_cost :: real
  tr_tokens :: int
  tr_duration :: real
  tr_meta :: pydict

definition tresult_to_dict :: "tresult \<Rightarrow> pydict" where
  "tresult_to_dict r =
     [(''task_id'', PStr (tr_task_id r)), (''status'', PStr (tr_status r)),
      (''worker_results'', PList (map (PDict \<circ> wresult_to_dict) (tr_workers r))),
      (''individual_opinions'', PList (map (PDict \<circ> wresult_to_dict) (tr_opinions r))),
      (''aggregated_output'', text_or_none (tr_aggregated r)), (''synthesized_output'', text_or_none (tr_synthesized r)),
      (''error'', text_or_none (tr_error r)), (''total_cost'', PFloat (tr_cost r)), (''total_tokens'', PInt (tr_tokens r)),
      (''duration_seconds'', PFloat (tr_duration r)), (''metadata'', PDict (tr_meta r))]"

definition tresult_from_dict :: "string \<Rightarrow> pyval \<Rightarrow> (exn, tresult) sum" where
  "tresult_from_dict now v =
     (case v of
        PDict d \<Rightarrow>
          andthen (text_field d ''task_id'' []) (\<lambda>task_id.
          andthen (text_field d ''status'' []) (\<lambda>status.
          andthen (andthen (list_field d ''worker_results'') (each (wresult_from_dict now))) (\<lambda>ws.
          andthen (andthen (list_field d ''individual_opinions'') (each (wresult_from_dict now))) (\<lambda>os.
          andthen (opt_text_field d ''aggregated_output'') (\<lambda>agg.
          andthen (opt_text_field d ''synthesized_output'') (\<lambda>syn.
          andthen (opt_text_field d ''error'') (\<lambda>err.
          andthen (float_in d ''total_cost'' 0) (\<lambda>cost.
          andthen (int_in d ''total_tokens'' 0) (\<lambda>tokens.
          andthen (float_in d ''duration_seconds'' 0) (\<lambda>dur.
          andthen (dict_field d ''metadata'') (\<lambda>meta.
          Inr \<lparr>tr_task_id = task_id, tr_status = status, tr_workers = ws, tr_opinions = os, tr_aggregated = agg,
               tr_synthesized = syn, tr_error = err, tr_cost = cost, tr_tokens = tokens, tr_duration = dur,
               tr_meta = meta\<rparr>)))))))))))
      | _ \<Rightarrow> Inl TypeError)"

subsection \<open>Tasks\<close>

record swarm_task =
  t_prompt :: string
  t_id :: string
  t_type :: task_type
  t_context :: string
  t_workers :: "string list"
  t_deps :: "string list"
  t_priority :: int
  t_timeout :: real
  t_schema :: "pydict option"
  t_chain :: "string list"
  t_aggregation :: string
  t_status :: swarm_status
  t_result :: "tresult option"
  t_created :: string
  t_started :: "string option"
  t_completed :: "string option"
  t_cost :: real
  t_meta :: pydict
  t_workspace :: "string option"
  t_generation :: int
  t_run :: string

definition task_to_dict :: "swarm_task \<Rightarrow> pydict" where
  "task_to_dict t =
     [(''prompt'', PStr (t_prompt t)), (''id'', PStr (t_id t)), (''type'', PStr (task_type_text (t_type t))),
      (''context'', PStr (t_context t)), (''workers'', texts (t_workers t)), (''dependencies'', texts (t_deps t)),
      (''priority'', PInt (t_priority t)), (''timeout'', PFloat (t_timeout t)),
      (''validation_schema'', case t_schema t of None \<Rightarrow> PNone | Some d \<Rightarrow> PDict d),
      (''fallback_chain'', texts (t_chain t)), (''aggregation'', PStr (t_aggregation t)),
      (''status'', PStr (task_status_text (t_status t))),
      (''result'', case t_result t of None \<Rightarrow> PNone | Some r \<Rightarrow> PDict (tresult_to_dict r)),
      (''created_at'', PStr (t_created t)), (''started_at'', text_or_none (t_started t)),
      (''completed_at'', text_or_none (t_completed t)), (''cost_estimate'', PFloat (t_cost t)), (''metadata'', PDict (t_meta t)),
      (''workspace_id'', text_or_none (t_workspace t)), (''generation'', PInt (t_generation t)), (''run_id'', PStr (t_run t))]"

definition or_zero :: "pyval \<Rightarrow> pyval" where
  "or_zero v = (if truthy v then v else PInt 0)"

definition task_from_dict :: "string \<Rightarrow> string \<Rightarrow> pydict \<Rightarrow> (exn, swarm_task) sum" where
  "task_from_dict new now d =
     andthen (text_field d ''prompt'' []) (\<lambda>prompt.
     andthen (text_field d ''id'' new) (\<lambda>i.
     andthen (andthen (text_field d ''type'' ''dispatch'') read_task_type) (\<lambda>ty.
     andthen (text_field d ''context'' []) (\<lambda>ctx.
     andthen (texts_field d ''workers'') (\<lambda>ws.
     andthen (texts_field d ''dependencies'') (\<lambda>deps.
     andthen (int_in d ''priority'' 0) (\<lambda>prio.
     andthen (float_in d ''timeout'' 300) (\<lambda>timeout.
     andthen (case dget d ''validation_schema'' of PNone \<Rightarrow> Inr None | PDict s \<Rightarrow> Inr (Some s) | _ \<Rightarrow> Inl TypeError) (\<lambda>schema.
     andthen (texts_field d ''fallback_chain'') (\<lambda>chain.
     andthen (text_field d ''aggregation'' ''collect'') (\<lambda>agg.
     andthen (andthen (text_field d ''status'' ''pending'') read_task_status) (\<lambda>st.
     andthen (case dget d ''result'' of PNone \<Rightarrow> Inr None | v \<Rightarrow> andthen (tresult_from_dict now v) (\<lambda>r. Inr (Some r))) (\<lambda>result.
     andthen (text_field d ''created_at'' now) (\<lambda>created.
     andthen (opt_text_field d ''started_at'') (\<lambda>started.
     andthen (opt_text_field d ''completed_at'') (\<lambda>completed.
     andthen (float_in d ''cost_estimate'' 0) (\<lambda>cost.
     andthen (dict_field d ''metadata'') (\<lambda>meta.
     andthen (opt_text_field d ''workspace_id'') (\<lambda>ws_id.
     andthen (case py_int (or_zero (dget d ''generation'')) of None \<Rightarrow> Inl (ValueError ''int'') | Some g \<Rightarrow> Inr g) (\<lambda>gen.
     andthen (if truthy (dget d ''run_id'') then text_of (dget d ''run_id'') else Inr []) (\<lambda>run_id.
     Inr \<lparr>t_prompt = prompt, t_id = i, t_type = ty, t_context = ctx, t_workers = ws, t_deps = deps, t_priority = prio,
          t_timeout = timeout, t_schema = schema, t_chain = chain, t_aggregation = agg, t_status = st, t_result = result,
          t_created = created, t_started = started, t_completed = completed, t_cost = cost, t_meta = meta,
          t_workspace = ws_id, t_generation = gen, t_run = run_id\<rparr>)))))))))))))))))))))"

text \<open>The defaults of the dataclass.\<close>

definition new_task :: "string \<Rightarrow> string \<Rightarrow> string \<Rightarrow> swarm_task" where
  "new_task prompt new now =
     \<lparr>t_prompt = prompt, t_id = new, t_type = TDispatch, t_context = [], t_workers = [], t_deps = [], t_priority = 0,
      t_timeout = 300, t_schema = None, t_chain = [], t_aggregation = ''collect'', t_status = TPending, t_result = None,
      t_created = now, t_started = None, t_completed = None, t_cost = 0, t_meta = [], t_workspace = None,
      t_generation = 0, t_run = []\<rparr>"

subsection \<open>The history of an engine\<close>

text \<open>A dict in insertion order; a key that is there keeps its place.\<close>

type_synonym task_history = "(string \<times> swarm_task) list"

fun put_task :: "task_history \<Rightarrow> string \<Rightarrow> swarm_task \<Rightarrow> task_history" where
  "put_task [] k t = [(k, t)]"
| "put_task ((k', t') # h) k t = (if k' = k then (k, t) # h else (k', t') # put_task h k t)"

definition DEFAULT_MAX_HISTORY :: int where "DEFAULT_MAX_HISTORY = 500"

definition trim_history :: "int \<Rightarrow> task_history \<Rightarrow> task_history" where
  "trim_history most h = (if most \<le> 0 then h else drop (length h - nat most) h)"

definition record_task :: "int \<Rightarrow> string \<Rightarrow> string \<Rightarrow> task_history \<Rightarrow> swarm_task \<Rightarrow> (exn, task_history) sum" where
  "record_task most new now h t =
     andthen (task_from_dict new now (task_to_dict t)) (\<lambda>t'. Inr (trim_history most (put_task h (t_id t) t')))"

definition update_task ::
  "int \<Rightarrow> string \<Rightarrow> string \<Rightarrow> task_history \<Rightarrow> string \<Rightarrow> (swarm_task \<Rightarrow> swarm_task) \<Rightarrow> (exn, swarm_task option \<times> task_history) sum" where
  "update_task most new now h i f =
     (case map_of h i of
        None \<Rightarrow> Inr (None, h)
      | Some t \<Rightarrow> andthen (task_from_dict new now (task_to_dict (f t))) (\<lambda>t'.
          let h' = trim_history most (put_task h i t') in
          case map_of h' i of None \<Rightarrow> Inl (OtherError ''KeyError'') | Some t'' \<Rightarrow> Inr (Some t'', h')))"


subsection \<open>Cancel and retry\<close>

text \<open>The fields a retry does not copy, and the metadata that says how the original run went.\<close>

definition RETRY_EXCLUDED_FIELDS :: "string list" where
  "RETRY_EXCLUDED_FIELDS =
     [''id'', ''status'', ''result'', ''created_at'', ''started_at'', ''completed_at'', ''generation'', ''run_id'']"

definition RUN_METADATA :: "string list" where
  "RUN_METADATA =
     [''execution_outcome'', ''interrupted_by'', ''invoked_tools'', ''orphan_results'', ''step_journal'', ''recovery_count'',
      ''recovery_error'', ''result_status'', ''effects_uncertain'', ''hitl_checkpoint'', ''paused_blackboard'', ''checkpoint'',
      ''paused_step'', ''admission_denied'', ''duplicate_admission'', ''retry_acknowledged_unknown'']"

text \<open>The items of \<open>v or []\<close>; what cannot be iterated raises.\<close>

definition items_or_none :: "pyval \<Rightarrow> (exn, pyval list) sum" where
  "items_or_none v =
     (if \<not> truthy v then Inr []
      else (case v of PList xs \<Rightarrow> Inr xs | PStr s \<Rightarrow> Inr (map (\<lambda>c. PStr [c]) s) | PDict d \<Rightarrow> Inr (map (PStr \<circ> fst) d)
            | _ \<Rightarrow> Inl TypeError))"

definition meta_unknown :: "pydict \<Rightarrow> bool" where
  "meta_unknown m \<longleftrightarrow> dget m ''execution_outcome'' = PStr ''unknown'' \<or> truthy (dget m ''effects_uncertain'')"

definition outcome_unknown :: "swarm_task \<Rightarrow> (exn, bool \<times> pyval list) sum" where
  "outcome_unknown t =
     (let metas = t_meta t # (case t_result t of None \<Rightarrow> [] | Some r \<Rightarrow> [tr_meta r])
      in andthen (each (\<lambda>m. items_or_none (dget m ''invoked_tools'')) metas) (\<lambda>lists.
           Inr (list_ex meta_unknown metas
                  \<or> (case t_result t of None \<Rightarrow> False | Some r \<Rightarrow> list_ex (\<lambda>w. \<not> wr_retry_safe w) (tr_workers r)),
                foldl (\<lambda>tools ts. tools @ filter (\<lambda>x. x \<notin> set tools) ts) [] lists)))"

datatype retry_answer =
    NoOriginal
  | NeedsAcknowledgement string "pyval list"
  | Retries swarm_task
  | RetryRaised exn

definition retry_metadata :: "string \<Rightarrow> pydict \<Rightarrow> bool \<Rightarrow> pydict" where
  "retry_metadata task_id m unknown =
     (let kept = filter (\<lambda>(k, v). k \<notin> set RUN_METADATA) m;
          root = (if truthy (dget m ''retry_of'') then dget m ''retry_of'' else PStr task_id);
          m' = dset kept ''retry_of'' root
      in if unknown then dset m' ''retry_acknowledged_unknown'' (PBool True) else m')"

definition retry_of :: "string \<Rightarrow> string \<Rightarrow> string \<Rightarrow> bool \<Rightarrow> swarm_task \<Rightarrow> retry_answer" where
  "retry_of task_id new now acknowledged original =
     (case outcome_unknown original of
        Inl e \<Rightarrow> RetryRaised e
      | Inr (unknown, tools) \<Rightarrow>
          if unknown \<and> \<not> acknowledged then NeedsAcknowledgement task_id tools
          else Retries (original\<lparr>t_id := new, t_status := TPending, t_result := None, t_created := now, t_started := None,
                  t_completed := None, t_generation := 0, t_run := [], t_meta := retry_metadata task_id (t_meta original) unknown\<rparr>))"

text \<open>The original is looked for in the history, among the active tasks, and in the store.\<close>

definition build_retry_task ::
  "string \<Rightarrow> task_history \<Rightarrow> task_history \<Rightarrow> (string \<Rightarrow> swarm_task option) \<Rightarrow> string \<Rightarrow> string \<Rightarrow> bool \<Rightarrow> retry_answer" where
  "build_retry_task task_id history active stored new now acknowledged =
     (case map_of history task_id of
        Some t \<Rightarrow> retry_of task_id new now acknowledged t
      | None \<Rightarrow>
          (case map_of active task_id of
             Some t \<Rightarrow> retry_of task_id new now acknowledged t
           | None \<Rightarrow> (case stored task_id of Some t \<Rightarrow> retry_of task_id new now acknowledged t | None \<Rightarrow> NoOriginal)))"

text \<open>What a cancel does: it finalizes the task itself, or cancels the run, whose own ending finalizes it.\<close>

datatype cancel_call = FinalizeCancelled swarm_task | CancelHandle string

definition cancel_active_task ::
  "string \<Rightarrow> task_history \<Rightarrow> (string \<times> bool) list \<Rightarrow> task_history \<Rightarrow> bool \<times> cancel_call list" where
  "cancel_active_task task_id active handles history =
     (case map_of active task_id of
        None \<Rightarrow>
          (case map_of history task_id of
             Some t \<Rightarrow> if t_status t = TPaused then (True, [FinalizeCancelled t]) else (False, [])
           | None \<Rightarrow> (False, []))
      | Some t \<Rightarrow>
          (case map_of handles task_id of
             Some running \<Rightarrow> if running then (True, [CancelHandle task_id]) else (True, [FinalizeCancelled t])
           | None \<Rightarrow> (True, [FinalizeCancelled t])))"

subsection \<open>Reading back what was written\<close>

lemma andthen_simps [simp]: "andthen (Inr a) f = f a" "andthen (Inl e) f = Inl e"
  by (simp_all add: andthen_def)

lemma each_map: "(\<And>x. f (g x) = Inr x) \<Longrightarrow> each f (map g xs) = Inr xs"
  by (induction xs) simp_all

lemmas dict_simps = text_field_def opt_text_field_def list_field_def texts_field_def dict_field_def int_in_def
  float_in_def text_of_def dget_def text_or_none_def texts_def

lemma handoff_reads_back: "handoff_from_dict now (PDict (handoff_to_dict h)) = Inr h"
  by (simp add: handoff_from_dict_def handoff_to_dict_def dict_simps)

lemma wresult_reads_back: "wresult_from_dict now (PDict (wresult_to_dict w)) = Inr w"
  by (cases "wr_error w")
    (simp_all add: wresult_from_dict_def wresult_to_dict_def dict_simps each_map handoff_reads_back)

lemma tresult_reads_back: "tresult_from_dict now (PDict (tresult_to_dict r)) = Inr r"
  by (cases "tr_error r"; cases "tr_aggregated r"; cases "tr_synthesized r")
    (simp_all add: tresult_from_dict_def tresult_to_dict_def dict_simps each_map wresult_reads_back)

lemma read_task_type_text [simp]: "read_task_type (task_type_text t) = Inr t"
  by (cases t) (simp_all add: read_task_type_def)

lemma read_task_status_text [simp]: "read_task_status (task_status_text t) = Inr t"
  by (cases t) (simp_all add: read_task_status_def)

lemma is_terminal_text: "is_terminal (task_status_text t) \<longleftrightarrow> t \<in> set TASK_TERMINAL_STATUSES"
  by (simp add: is_terminal_def)

lemma each_texts [simp]: "each text_of (map PStr ts) = Inr ts"
  by (rule each_map) (simp add: text_of_def)

lemma text_field_hit: "map_of d k = Some (PStr s) \<Longrightarrow> text_field d k dflt = Inr s"
  by (simp add: text_field_def text_of_def)

lemma opt_text_field_hit: "map_of d k = Some (text_or_none t) \<Longrightarrow> opt_text_field d k = Inr t"
  by (cases t) (simp_all add: opt_text_field_def text_or_none_def dget_def text_of_def)

lemma texts_field_hit: "map_of d k = Some (texts ts) \<Longrightarrow> texts_field d k = Inr ts"
  by (simp add: texts_field_def list_field_def texts_def)

text \<open>A task that is written as a dictionary reads back as itself: a snapshot in the history loses nothing.\<close>

lemma task_reads_back: "task_from_dict new now (task_to_dict t) = Inr t"
proof -
  let ?d = "task_to_dict t"
  note d = task_to_dict_def
  have texts: "text_field ?d ''prompt'' x = Inr (t_prompt t)" "text_field ?d ''id'' x = Inr (t_id t)"
    "text_field ?d ''type'' x = Inr (task_type_text (t_type t))" "text_field ?d ''context'' x = Inr (t_context t)"
    "text_field ?d ''aggregation'' x = Inr (t_aggregation t)" "text_field ?d ''status'' x = Inr (task_status_text (t_status t))"
    "text_field ?d ''created_at'' x = Inr (t_created t)" for x
    by (rule text_field_hit; simp add: d)+
  have opts: "opt_text_field ?d ''started_at'' = Inr (t_started t)" "opt_text_field ?d ''completed_at'' = Inr (t_completed t)"
    "opt_text_field ?d ''workspace_id'' = Inr (t_workspace t)"
    by (rule opt_text_field_hit; simp add: d)+
  have lists: "texts_field ?d ''workers'' = Inr (t_workers t)" "texts_field ?d ''dependencies'' = Inr (t_deps t)"
    "texts_field ?d ''fallback_chain'' = Inr (t_chain t)"
    by (rule texts_field_hit; simp add: d)+
  have nums: "int_in ?d ''priority'' x = Inr (t_priority t)" "float_in ?d ''timeout'' y = Inr (t_timeout t)"
    "float_in ?d ''cost_estimate'' y = Inr (t_cost t)" for x y
    by (simp_all add: d int_in_def float_in_def)
  have rest: "dict_field ?d ''metadata'' = Inr (t_meta t)" "dget ?d ''generation'' = PInt (t_generation t)"
    "dget ?d ''run_id'' = PStr (t_run t)"
    "dget ?d ''validation_schema'' = (case t_schema t of None \<Rightarrow> PNone | Some d \<Rightarrow> PDict d)"
    "dget ?d ''result'' = (case t_result t of None \<Rightarrow> PNone | Some r \<Rightarrow> PDict (tresult_to_dict r))"
    by (simp_all add: d dict_field_def)
  have run: "(if truthy (PStr (t_run t)) then text_of (PStr (t_run t)) else Inr []) = Inr (t_run t)"
    by (simp add: text_of_def)
  have gen: "py_int (or_zero (PInt (t_generation t))) = Some (t_generation t)" by (simp add: or_zero_def)
  show ?thesis
    unfolding task_from_dict_def texts opts lists nums rest run gen
    by (cases "t_schema t"; cases "t_result t") (simp_all add: tresult_reads_back)
qed

end
