(* ===== verification/TaskStore.thy ===== *)
theory TaskStore
  imports SwarmTask ConfigStore Json Calendar
begin

text \<open>
  The store of swarm tasks (kazma_core/swarm/task_store.py): the two tables as lists of rows, the guards of every write,
  and each operation; one transaction is one step. JSON columns are kept decoded and hold no U+0000, which the code
  replaces; the status and type columns hold the value of an enumeration. Clock readings are whole microseconds, and
  \<open>iso_text\<close> is the text the code writes for one. The PostgreSQL branch runs the same statements.
\<close>

subsection \<open>One copy of a large output\<close>

definition REF_MIN_CHARS :: nat where "REF_MIN_CHARS = 512"
definition REF_KEY :: string where "REF_KEY = ''$swarm_output_ref''"

definition REF_FIELDS :: "string list" where
  "REF_FIELDS = [''aggregated_output'', ''synthesized_output'', ''individual_opinions'', ''metadata'']"

definition worker_outputs :: "pydict \<Rightarrow> pyval list" where
  "worker_outputs result =
     map (\<lambda>w. case w of PDict d \<Rightarrow> dget d ''output'' | _ \<Rightarrow> PNone)
       (case dget result ''worker_results'' of PList ws \<Rightarrow> ws | _ \<Rightarrow> [])"

text \<open>The first worker result that holds this text.\<close>

definition output_index :: "pyval list \<Rightarrow> string \<Rightarrow> nat option" where
  "output_index outs s = find (\<lambda>i. outs ! i = PStr s) [0..<length outs]"

fun compact_walk :: "pyval list \<Rightarrow> pyval \<Rightarrow> pyval" where
  "compact_walk outs (PStr s) =
     (if REF_MIN_CHARS \<le> length s
      then (case output_index outs s of None \<Rightarrow> PStr s | Some i \<Rightarrow> PDict [(REF_KEY, PInt (int i))]) else PStr s)"
| "compact_walk outs (PDict d) = PDict (map (\<lambda>(k, v). (k, compact_walk outs v)) d)"
| "compact_walk outs (PList xs) = PList (map (compact_walk outs) xs)"
| "compact_walk outs v = v"

text \<open>The output a dictionary refers to: True and False are the integers 1 and 0.\<close>

definition ref_target :: "pyval list \<Rightarrow> pydict \<Rightarrow> pyval option" where
  "ref_target outs d =
     (case d of
        [(k, PInt i)] \<Rightarrow> if k = REF_KEY \<and> 0 \<le> i \<and> i < int (length outs) then Some (outs ! nat i) else None
      | [(k, PBool b)] \<Rightarrow> if k = REF_KEY \<and> (if b then 1 else 0) < length outs then Some (outs ! (if b then 1 else 0)) else None
      | _ \<Rightarrow> None)"

fun expand_walk :: "pyval list \<Rightarrow> pyval \<Rightarrow> pyval" where
  "expand_walk outs (PDict d) =
     (case ref_target outs d of Some v \<Rightarrow> v | None \<Rightarrow> PDict (map (\<lambda>(k, v). (k, expand_walk outs v)) d))"
| "expand_walk outs (PList xs) = PList (map (expand_walk outs) xs)"
| "expand_walk outs v = v"

definition walk_fields :: "(pyval \<Rightarrow> pyval) \<Rightarrow> pydict \<Rightarrow> pydict" where
  "walk_fields f d = map (\<lambda>(k, v). (k, if k \<in> set REF_FIELDS then f v else v)) d"

definition compact_outputs :: "pyval \<Rightarrow> pyval" where
  "compact_outputs v =
     (case v of PDict d \<Rightarrow> PDict (walk_fields (compact_walk (worker_outputs d)) d) | _ \<Rightarrow> v)"

definition expand_outputs :: "pyval \<Rightarrow> pyval" where
  "expand_outputs v =
     (case v of PDict d \<Rightarrow> PDict (walk_fields (expand_walk (worker_outputs d)) d) | _ \<Rightarrow> v)"

subsection \<open>Rows\<close>

record task_row =
  k_id :: string
  k_type :: task_type
  k_prompt :: string
  k_status :: swarm_status
  k_workers :: "string list"
  k_result :: pyval
  k_context :: string
  k_deps :: "string list"
  k_chain :: "string list"
  k_schema :: "pydict option"
  k_aggregation :: string
  k_timeout :: real
  k_created :: string
  k_started :: "string option"
  k_completed :: "string option"
  k_sort :: string
  k_cost :: real
  k_tokens :: int
  k_meta :: pydict
  k_workspace :: "string option"
  k_generation :: int
  k_run :: string

text \<open>\<open>dt.isoformat()\<close> of an instant in microseconds: without a fraction when it has none.\<close>

definition pad6 :: "int \<Rightarrow> string" where
  "pad6 n = pad2 (n div 10000) @ pad2 (n div 100 mod 100) @ pad2 (n mod 100)"

definition iso_text :: "int \<Rightarrow> string" where
  "iso_text us =
     (let s = us div 1000000; f = us mod 1000000
      in date_text (s div 86400 + epoch_day) @ ''T'' @ clock_text (s mod 86400) @ (if f = 0 then [] else ''.'' @ pad6 f) @ ''+00:00'')"

definition first_text :: "string option \<Rightarrow> string \<Rightarrow> string" where
  "first_text a b = (case a of None \<Rightarrow> b | Some s \<Rightarrow> if s = [] then b else s)"

definition row_of_task :: "int \<Rightarrow> swarm_task \<Rightarrow> task_row" where
  "row_of_task now t =
     \<lparr>k_id = t_id t, k_type = t_type t, k_prompt = t_prompt t, k_status = t_status t, k_workers = t_workers t,
      k_result = (case t_result t of None \<Rightarrow> PNone | Some r \<Rightarrow> compact_outputs (PDict (tresult_to_dict r))),
      k_context = t_context t, k_deps = t_deps t, k_chain = t_chain t,
      k_schema = (case t_schema t of None \<Rightarrow> None | Some d \<Rightarrow> if d = [] then None else Some d),
      k_aggregation = t_aggregation t, k_timeout = t_timeout t, k_created = t_created t, k_started = t_started t,
      k_completed = t_completed t,
      k_sort = first_text (t_completed t) (if t_created t = [] then iso_text now else t_created t),
      k_cost = (case t_result t of None \<Rightarrow> 0 | Some r \<Rightarrow> tr_cost r),
      k_tokens = (case t_result t of None \<Rightarrow> 0 | Some r \<Rightarrow> tr_tokens r), k_meta = t_meta t, k_workspace = t_workspace t,
      k_generation = t_generation t, k_run = t_run t\<rparr>"

definition row_to_task :: "string \<Rightarrow> task_row \<Rightarrow> (exn, swarm_task) sum" where
  "row_to_task now r =
     andthen (let v = expand_outputs (k_result r)
              in if truthy v then andthen (tresult_from_dict now v) (\<lambda>x. Inr (Some x)) else Inr None) (\<lambda>result.
     Inr \<lparr>t_prompt = k_prompt r, t_id = k_id r, t_type = k_type r, t_context = k_context r, t_workers = k_workers r,
          t_deps = k_deps r, t_priority = 0, t_timeout = k_timeout r, t_schema = k_schema r, t_chain = k_chain r,
          t_aggregation = k_aggregation r, t_status = k_status r, t_result = result, t_created = k_created r,
          t_started = k_started r, t_completed = k_completed r, t_cost = k_cost r, t_meta = k_meta r,
          t_workspace = (if k_workspace r = Some [] then None else k_workspace r), t_generation = k_generation r,
          t_run = k_run r\<rparr>)"

subsection \<open>Writes\<close>

record metric =
  m_worker :: string
  m_date :: string
  m_completed :: int
  m_failed :: int
  m_avg :: real
  m_tokens :: int
  m_cost :: real

record task_store =
  task_rows :: "task_row list"
  metrics :: "metric list"

definition find_task :: "string \<Rightarrow> task_row list \<Rightarrow> task_row option" where
  "find_task i tbl = find (\<lambda>r. k_id r = i) tbl"

definition persist_guard :: "task_row \<Rightarrow> task_row \<Rightarrow> bool" where
  "persist_guard row new \<longleftrightarrow>
     k_status row = k_status new \<and> k_generation row = k_generation new
     \<or> k_status row \<notin> set TASK_TERMINAL_STATUSES \<and> \<not> (k_status new = TPending \<and> k_status row \<noteq> TPending)
       \<and> k_generation row \<le> k_generation new"

definition admit_guard :: "task_row \<Rightarrow> task_row \<Rightarrow> bool" where
  "admit_guard row new \<longleftrightarrow> k_status row \<in> {TPending, TPaused} \<and> k_generation row = k_generation new - 1"

text \<open>\<open>INSERT ... ON CONFLICT (id) DO UPDATE ... WHERE guard\<close>, and whether a row was written.\<close>

definition upsert :: "(task_row \<Rightarrow> task_row \<Rightarrow> bool) \<Rightarrow> task_row \<Rightarrow> task_row list \<Rightarrow> bool \<times> task_row list" where
  "upsert guard new tbl =
     (case find_task (k_id new) tbl of
        None \<Rightarrow> (True, tbl @ [new])
      | Some row \<Rightarrow> if guard row new then (True, map (\<lambda>r. if k_id r = k_id new then new else r) tbl) else (False, tbl))"

definition persist_task :: "int \<Rightarrow> swarm_task \<Rightarrow> task_row list \<Rightarrow> bool \<times> task_row list" where
  "persist_task now t tbl = upsert persist_guard (row_of_task now t) tbl"

definition admit_task :: "int \<Rightarrow> swarm_task \<Rightarrow> task_row list \<Rightarrow> bool \<times> task_row list" where
  "admit_task now t tbl = upsert admit_guard (row_of_task now t) tbl"

definition get_task :: "int \<Rightarrow> string \<Rightarrow> task_row list \<Rightarrow> (exn, swarm_task option) sum" where
  "get_task now i tbl =
     (case find_task i tbl of None \<Rightarrow> Inr None | Some r \<Rightarrow> andthen (row_to_task (iso_text now) r) (\<lambda>t. Inr (Some t)))"

text \<open>\<open>record_orphan\<close>: a read, and a write of the metadata alone; other writers may come between the two.\<close>

definition orphan_metadata :: "pyval \<Rightarrow> swarm_task \<Rightarrow> (exn, pydict) sum" where
  "orphan_metadata evidence t =
     andthen (items_or_none (dget (t_meta t) ''orphan_results'')) (\<lambda>old.
       let all = old @ [evidence] in Inr (dset (t_meta t) ''orphan_results'' (PList (drop (length all - 5) all))))"

definition set_metadata :: "string \<Rightarrow> pydict \<Rightarrow> task_row list \<Rightarrow> task_row list" where
  "set_metadata i m tbl = map (\<lambda>r. if k_id r = i then r\<lparr>k_meta := m\<rparr> else r) tbl"

definition record_orphan :: "int \<Rightarrow> string \<Rightarrow> pyval \<Rightarrow> task_row list \<Rightarrow> (exn, task_row list) sum" where
  "record_orphan now i evidence tbl =
     andthen (get_task now i tbl) (\<lambda>found.
       case found of None \<Rightarrow> Inr tbl
       | Some t \<Rightarrow> andthen (orphan_metadata evidence t) (\<lambda>m. Inr (set_metadata i m tbl)))"

definition delete_task :: "string \<Rightarrow> task_row list \<Rightarrow> bool \<times> task_row list" where
  "delete_task i tbl = (find_task i tbl \<noteq> None, filter (\<lambda>r. k_id r \<noteq> i) tbl)"

definition clear_store :: "task_store \<Rightarrow> task_store" where
  "clear_store s = \<lparr>task_rows = [], metrics = []\<rparr>"

subsection \<open>Reads\<close>

text \<open>A LIKE pattern with the escape character backslash: what follows it stands for itself.\<close>

definition BACKSLASH :: char where "BACKSLASH = CHR 0x5C"

definition like_escape :: "string \<Rightarrow> string" where
  "like_escape s = concat (map (\<lambda>c. if c \<in> {BACKSLASH, CHR ''%'', CHR ''_''} then [BACKSLASH, c] else [c]) s)"

fun like_esc :: "string \<Rightarrow> string \<Rightarrow> bool" where
  "like_esc [] t = (t = [])"
| "like_esc (p # ps) [] = (p = CHR ''%'' \<and> like_esc ps [])"
| "like_esc (p # ps) (c # cs) =
     (if p = BACKSLASH then (case ps of [] \<Rightarrow> False | q # qs \<Rightarrow> lower_char q = lower_char c \<and> like_esc qs cs)
      else if p = CHR ''%'' then like_esc ps (c # cs) \<or> like_esc (p # ps) cs
      else (p = CHR ''_'' \<or> lower_char p = lower_char c) \<and> like_esc ps cs)"

record task_filter =
  f_status :: string
  f_type :: string
  f_worker :: string
  f_meta :: "(string \<times> string) list"
  f_query :: string

text \<open>
  The tenant an install with platform users, or in production, adds to the filter, unless the caller names one; \<open>*\<close> asks
  for every tenant. \<open>on\<close> is KAZMA_TENANT_FILTER.
\<close>

definition tenant_filter :: "bool \<Rightarrow> bool \<Rightarrow> string \<Rightarrow> (string \<times> string) list \<Rightarrow> (string \<times> string) list" where
  "tenant_filter on multi tenant fs =
     (if on
      then (let fs' = (if multi \<and> map_of fs ''tenant_id'' = None then fs @ [(''tenant_id'', tenant)] else fs)
            in if map_of fs' ''tenant_id'' = Some ''*'' then filter (\<lambda>(k, v). k \<noteq> ''tenant_id'') fs' else fs')
      else fs)"

definition row_matches :: "task_filter \<Rightarrow> task_row \<Rightarrow> bool" where
  "row_matches f r \<longleftrightarrow>
     (f_status f = [] \<or> task_status_text (k_status r) = f_status f)
     \<and> (f_type f = [] \<or> task_type_text (k_type r) = f_type f)
     \<and> (f_worker f = [] \<or> f_worker f \<in> set (k_workers r))
     \<and> list_all (\<lambda>(k, v). dget (k_meta r) k = PStr v) (f_meta f)
     \<and> (f_query f = [] \<or> like_esc (''%'' @ like_escape (f_query f) @ ''%'') (k_prompt r))"

text \<open>\<open>ORDER BY ... DESC\<close>; rows with one key keep their order.\<close>

definition newest_by :: "(task_row \<Rightarrow> string) \<Rightarrow> task_row list \<Rightarrow> task_row list" where
  "newest_by key tbl = rev (sort_key key (rev tbl))"

definition list_tasks ::
  "int \<Rightarrow> bool \<Rightarrow> bool \<Rightarrow> string \<Rightarrow> int \<Rightarrow> int \<Rightarrow> task_filter \<Rightarrow> task_row list \<Rightarrow> (exn, swarm_task list \<times> nat) sum" where
  "list_tasks now on multi tenant page page_size f tbl =
     (let page' = max 1 page; size = max 1 (min page_size 100);
          hits = filter (row_matches (f\<lparr>f_meta := tenant_filter on multi tenant (f_meta f)\<rparr>)) tbl;
          shown = take (nat size) (drop (nat ((page' - 1) * size)) (newest_by k_sort hits))
      in andthen (each (row_to_task (iso_text now)) shown) (\<lambda>ts. Inr (ts, length hits)))"

definition get_paused_tasks :: "int \<Rightarrow> task_row list \<Rightarrow> (exn, swarm_task list) sum" where
  "get_paused_tasks now tbl =
     each (row_to_task (iso_text now)) (newest_by k_created (filter (\<lambda>r. k_status r = TPaused) tbl))"

subsection \<open>Retention\<close>

definition prune_tasks :: "int \<Rightarrow> int \<Rightarrow> task_store \<Rightarrow> nat \<times> task_store" where
  "prune_tasks now days s =
     (let cutoff = iso_text (now - max 1 days * 86400000000);
          gone = (\<lambda>r. k_status r \<in> set TASK_TERMINAL_STATUSES \<and> k_sort r < cutoff)
      in (length (filter gone (task_rows s)),
          \<lparr>task_rows = filter (\<lambda>r. \<not> gone r) (task_rows s),
           metrics = filter (\<lambda>m. \<not> m_date m < take 10 cutoff) (metrics s)\<rparr>))"

definition TASK_RETENTION_KEY :: string where "TASK_RETENTION_KEY = ''swarm.task_retention_days''"
definition DEFAULT_TASK_RETENTION_DAYS :: int where "DEFAULT_TASK_RETENTION_DAYS = 30"
definition MAX_TASK_RETENTION_DAYS :: int where "MAX_TASK_RETENTION_DAYS = 3650"

text \<open>\<open>str_of\<close> is \<open>str\<close> of a value that is not a string.\<close>

definition parse_task_retention_days :: "(pyval \<Rightarrow> string) \<Rightarrow> pyval \<Rightarrow> int option" where
  "parse_task_retention_days str_of v =
     (case v of
        PBool b \<Rightarrow> None
      | _ \<Rightarrow> (case parse_int (py_text str_of v) of
                None \<Rightarrow> None
              | Some d \<Rightarrow> if 0 \<le> d \<and> d \<le> MAX_TASK_RETENTION_DAYS then Some d else None))"

definition task_retention_days :: "(pyval \<Rightarrow> string) \<Rightarrow> cstore \<Rightarrow> (exn, int) sum" where
  "task_retention_days str_of cs =
     (case cs_get cs TASK_RETENTION_KEY of
        Inl e \<Rightarrow> Inl e
      | Inr raw \<Rightarrow>
          if raw = PNone \<or> py_strip (py_text str_of raw) = [] then Inr DEFAULT_TASK_RETENTION_DAYS
          else (case parse_task_retention_days str_of raw of
                  None \<Rightarrow> Inr DEFAULT_TASK_RETENTION_DAYS | Some d \<Rightarrow> Inr d))"

definition prune_finished_tasks :: "(pyval \<Rightarrow> string) \<Rightarrow> cstore \<Rightarrow> int \<Rightarrow> task_store \<Rightarrow> (exn, nat \<times> task_store) sum" where
  "prune_finished_tasks str_of cs now s =
     andthen (task_retention_days str_of cs) (\<lambda>days. Inr (if days = 0 then (0, s) else prune_tasks now days s))"

subsection \<open>Recovery at start\<close>

definition journal_note :: "(pyval \<Rightarrow> string) \<Rightarrow> pydict \<Rightarrow> (exn, string) sum" where
  "journal_note str_of m =
     (let j = dget m ''step_journal''
      in if \<not> truthy j then Inr []
         else (case j of
                 PDict d \<Rightarrow> Inr ('' It stopped in step '' @ py_text str_of (dget d ''step'') @ '' ('' @ py_text str_of (dget d ''state'') @ '').'')
               | _ \<Rightarrow> Inl (OtherError ''AttributeError'')))"

text \<open>What becomes of a task a process left running.\<close>

definition interrupted_task :: "(pyval \<Rightarrow> string) \<Rightarrow> int \<Rightarrow> swarm_task \<Rightarrow> (exn, swarm_task) sum" where
  "interrupted_task str_of now t =
     (case py_int (or_zero (dget (t_meta t) ''recovery_count'')) of
        None \<Rightarrow> Inl (ValueError ''int'')
      | Some n \<Rightarrow>
          let m = dset (dset (t_meta t) ''recovery_count'' (PInt (n + 1))) ''execution_outcome'' (PStr ''unknown'')
          in andthen (journal_note str_of m) (\<lambda>place.
               let err = ''Interrupted by process exit; external effects may already have completed.'' @ place
                         @ '' Inspect checkpoints, Temporal history and actual effects before resubmitting. Automatic replay was refused.'';
                   m' = dset m ''recovery_error'' (PStr err)
               in Inr (t\<lparr>t_meta := m', t_status := TFailed, t_completed := Some (iso_text now),
                        t_result := Some \<lparr>tr_task_id = t_id t, tr_status = ''failed'', tr_workers = [], tr_opinions = [],
                          tr_aggregated = None, tr_synthesized = None, tr_error = Some err, tr_cost = 0, tr_tokens = 0,
                          tr_duration = 0, tr_meta = m'\<rparr>\<rparr>)))"

fun fail_interrupted :: "(pyval \<Rightarrow> string) \<Rightarrow> int \<Rightarrow> swarm_task list \<Rightarrow> task_row list \<Rightarrow> (exn, string list) sum \<times> task_row list" where
  "fail_interrupted str_of now [] tbl = (Inr [], tbl)"
| "fail_interrupted str_of now (t # ts) tbl =
     (case interrupted_task str_of now t of
        Inl e \<Rightarrow> (Inl e, tbl)
      | Inr t' \<Rightarrow>
          (case persist_task now t' tbl of
             (written, tbl') \<Rightarrow>
               (case fail_interrupted str_of now ts tbl' of
                  (ans, tbl'') \<Rightarrow> (andthen ans (\<lambda>failed. Inr (if written then t_id t # failed else failed)), tbl''))))"

definition requeue_orphaned_running :: "(pyval \<Rightarrow> string) \<Rightarrow> int \<Rightarrow> task_row list \<Rightarrow> (exn, string list) sum \<times> task_row list" where
  "requeue_orphaned_running str_of now tbl =
     (case each (row_to_task (iso_text now)) (filter (\<lambda>r. k_status r = TRunning) tbl) of
        Inl e \<Rightarrow> (Inl e, tbl)
      | Inr orphans \<Rightarrow> fail_interrupted str_of now orphans tbl)"

subsection \<open>Worker metrics\<close>

definition find_metric :: "string \<Rightarrow> string \<Rightarrow> metric list \<Rightarrow> metric option" where
  "find_metric w d ms = find (\<lambda>m. m_worker m = w \<and> m_date m = d) ms"

definition add_metric :: "metric \<Rightarrow> metric \<Rightarrow> metric" where
  "add_metric new old =
     (let n = m_completed old + m_failed old; k = m_completed new + m_failed new
      in old\<lparr>m_completed := m_completed old + m_completed new, m_failed := m_failed old + m_failed new,
             m_tokens := m_tokens old + m_tokens new, m_cost := m_cost old + m_cost new,
             m_avg := (if n + k > 0 then (m_avg old * of_int n + m_avg new * of_int k) / of_int (n + k) else 0)\<rparr>)"

definition record_worker_metric ::
  "string \<Rightarrow> string \<Rightarrow> int \<Rightarrow> int \<Rightarrow> real \<Rightarrow> int \<Rightarrow> real \<Rightarrow> metric list \<Rightarrow> metric list" where
  "record_worker_metric worker day completed failed latency tokens cost ms =
     (let new = \<lparr>m_worker = worker, m_date = day, m_completed = completed, m_failed = failed,
                 m_avg = (if completed + failed > 0 then latency else 0), m_tokens = tokens, m_cost = cost\<rparr>
      in case find_metric worker day ms of
           None \<Rightarrow> ms @ [new]
         | Some old \<Rightarrow> map (\<lambda>m. if m_worker m = worker \<and> m_date m = day then add_metric new m else m) ms)"

definition get_worker_metrics :: "string \<Rightarrow> metric list \<Rightarrow> metric list" where
  "get_worker_metrics worker ms = rev (sort_key m_date (rev (filter (\<lambda>m. m_worker m = worker) ms)))"

text \<open>\<open>GROUP BY worker ORDER BY worker\<close>; the last is the mean of the daily averages. The day of a row is not kept.\<close>

definition get_all_worker_metrics :: "metric list \<Rightarrow> metric list" where
  "get_all_worker_metrics ms =
     map (\<lambda>w. let own = filter (\<lambda>m. m_worker m = w) ms
              in \<lparr>m_worker = w, m_date = [], m_completed = sum_list (map m_completed own), m_failed = sum_list (map m_failed own),
                  m_avg = sum_list (map m_avg own) / real (length own), m_tokens = sum_list (map m_tokens own),
                  m_cost = sum_list (map m_cost own)\<rparr>)
       (sort (remdups (map m_worker ms)))"


end
