(* ===== verification/TaskRuns.thy ===== *)
theory TaskRuns
  imports TaskStore Interfaces
begin

text \<open>
  What holds of swarm tasks: a stored result reads back although each large output is stored once, what a stored row keeps of
  its task, every run of the store's operations (one admission for a generation, no write by a superseded run, a finished
  task stays finished), what a restart leaves, chains of retries, retention, search, and the daily averages.
\<close>

subsection \<open>One copy of a large output\<close>

text \<open>A value without a dictionary that looks like a reference.\<close>

fun no_reference :: "pyval \<Rightarrow> bool" where
  "no_reference (PDict d) = ((case d of [(k, v)] \<Rightarrow> k \<noteq> REF_KEY | _ \<Rightarrow> True) \<and> list_all (\<lambda>(k, v). no_reference v) d)"
| "no_reference (PList xs) = list_all no_reference xs"
| "no_reference v = True"

lemma output_index_Some: "output_index outs s = Some i \<Longrightarrow> i < length outs \<and> outs ! i = PStr s"
  by (auto simp: output_index_def find_Some_iff)

lemma ref_target_other:
  "(case d of [(k, v)] \<Rightarrow> k \<noteq> REF_KEY | _ \<Rightarrow> True) \<Longrightarrow> ref_target outs (map (\<lambda>(k, v). (k, f v)) d) = None"
  by (cases d rule: remdups_adj.cases) (auto simp: ref_target_def split: pyval.splits)

lemma expand_compact: "no_reference v \<Longrightarrow> expand_walk outs (compact_walk outs v) = v"
proof (induction v rule: no_reference.induct)
  case (1 d)
  have "map (\<lambda>(k, v). (k, expand_walk outs v)) (map (\<lambda>(k, v). (k, compact_walk outs v)) d) = d"
    using 1 by (auto intro!: map_idI simp: list_all_iff)
  then show ?case using 1 by (simp add: ref_target_other)
next
  case (2 xs)
  then show ?case by (auto intro!: map_idI simp: list_all_iff)
qed (auto simp: ref_target_def split: option.split dest: output_index_Some)

lemma dget_walk_fields: "k \<notin> set REF_FIELDS \<Longrightarrow> dget (walk_fields f d) k = dget d k"
  by (induction d) (auto simp: walk_fields_def)

lemma worker_outputs_walk [simp]: "worker_outputs (walk_fields f d) = worker_outputs d"
  by (simp add: worker_outputs_def dget_walk_fields REF_FIELDS_def)

lemma expand_compact_result:
  assumes "list_all (\<lambda>(k, v). k \<in> set REF_FIELDS \<longrightarrow> no_reference v) d"
  shows "expand_outputs (compact_outputs (PDict d)) = PDict d"
proof -
  let ?o = "worker_outputs d"
  have "walk_fields (expand_walk ?o) (walk_fields (compact_walk ?o) d) = d"
    using assms unfolding walk_fields_def by (auto intro!: map_idI simp: list_all_iff expand_compact)
  then show ?thesis by (simp add: compact_outputs_def expand_outputs_def)
qed

lemma no_reference_wresult: "no_reference (PDict (wresult_to_dict w))"
  by (auto simp: wresult_to_dict_def text_or_none_def handoff_to_dict_def list_all_iff split: option.split)

lemma no_reference_text [simp]: "no_reference (text_or_none t)"
  by (simp add: text_or_none_def split: option.split)

text \<open>A stored result reads back as it was, as long as its metadata holds no dictionary that looks like a reference.\<close>

lemma compact_reads_back:
  assumes "no_reference (PDict (tr_meta r))"
  shows "tresult_from_dict now (expand_outputs (compact_outputs (PDict (tresult_to_dict r)))) = Inr r"
proof -
  have "list_all (\<lambda>(k, v). k \<in> set REF_FIELDS \<longrightarrow> no_reference v) (tresult_to_dict r)"
    using assms no_reference_wresult by (simp add: tresult_to_dict_def REF_FIELDS_def list_all_iff)
  then show ?thesis by (simp only: expand_compact_result tresult_reads_back)
qed

subsection \<open>What a row keeps\<close>

lemma find_task_Some: "find_task i tbl = Some r \<Longrightarrow> r \<in> set tbl \<and> k_id r = i"
  by (auto simp: find_task_def find_Some_iff)

lemma find_task_None: "find_task i tbl = None \<longleftrightarrow> (\<forall>r \<in> set tbl. k_id r \<noteq> i)"
  by (auto simp: find_task_def find_None_iff)

lemma find_task_append: "find_task i (xs @ ys) = (case find_task i xs of None \<Rightarrow> find_task i ys | r \<Rightarrow> r)"
  unfolding find_task_def by (induction xs) auto

lemma find_task_map: "(\<And>r. k_id (f r) = k_id r) \<Longrightarrow> find_task i (map f tbl) = map_option f (find_task i tbl)"
  unfolding find_task_def by (induction tbl) auto

lemma find_task_put: "find_task i (map (\<lambda>r. if k_id r = k_id new then new else r) tbl)
    = (case find_task i tbl of None \<Rightarrow> None | Some r \<Rightarrow> Some (if i = k_id new then new else r))"
  unfolding find_task_def by (induction tbl) auto

lemma find_task_distinct: "distinct (map k_id tbl) \<Longrightarrow> r \<in> set tbl \<Longrightarrow> find_task (k_id r) tbl = Some r"
  unfolding find_task_def by (rule find_distinct_key)

lemma find_task_filter: "find_task i (filter P tbl) = Some r \<Longrightarrow> distinct (map k_id tbl) \<Longrightarrow> find_task i tbl = Some r"
  using find_task_Some[of i "filter P tbl" r] find_task_distinct[of tbl r] by auto

lemma upsert_find:
  "find_task i (snd (upsert guard new tbl)) = (if i = k_id new \<and> fst (upsert guard new tbl) then Some new else find_task i tbl)"
proof (cases "find_task (k_id new) tbl")
  case None
  have "find_task i [new] = (if i = k_id new then Some new else None)" by (simp add: find_task_def)
  then show ?thesis using None by (auto simp: upsert_def find_task_append split: option.split)
next
  case (Some row)
  then show ?thesis by (auto simp: upsert_def find_task_put split: option.split)
qed

lemma row_of_task_simps [simp]:
  "k_id (row_of_task now t) = t_id t" "k_status (row_of_task now t) = t_status t" "k_generation (row_of_task now t) = t_generation t"
  "k_meta (row_of_task now t) = t_meta t" "k_run (row_of_task now t) = t_run t"
  by (simp_all add: row_of_task_def)

text \<open>What is left of a task after it was stored and read back.\<close>

definition as_stored :: "swarm_task \<Rightarrow> swarm_task" where
  "as_stored t = t\<lparr>t_priority := 0, t_cost := (case t_result t of None \<Rightarrow> 0 | Some r \<Rightarrow> tr_cost r),
     t_schema := (if t_schema t = Some [] then None else t_schema t),
     t_workspace := (if t_workspace t = Some [] then None else t_workspace t)\<rparr>"

lemma expand_None [simp]: "expand_outputs PNone = PNone"
  by (simp add: expand_outputs_def)

lemma read_row:
  assumes "\<And>r. t_result t = Some r \<Longrightarrow> no_reference (PDict (tr_meta r))"
  shows "row_to_task stamp (row_of_task now t) = Inr (as_stored t)"
proof (cases "t_result t")
  case None
  then show ?thesis by (cases t) (auto simp: row_to_task_def row_of_task_def as_stored_def split: option.split)
next
  case (Some r)
  have "tresult_from_dict stamp (expand_outputs (compact_outputs (PDict (tresult_to_dict r)))) = Inr r"
    using compact_reads_back assms Some by blast
  moreover have "truthy (expand_outputs (compact_outputs (PDict (tresult_to_dict r))))"
    by (simp add: expand_outputs_def compact_outputs_def walk_fields_def tresult_to_dict_def)
  ultimately show ?thesis using Some
    by (cases t) (auto simp: row_to_task_def row_of_task_def as_stored_def split: option.split)
qed



subsection \<open>Runs of the store\<close>

text \<open>The operations of any number of processes. A note about a late result writes any metadata.\<close>

datatype task_op =
    PersistTask int swarm_task
  | AdmitTask int swarm_task
  | NoteOrphan string pydict
  | DeleteTask string
  | PruneTasks int int

fun task_step :: "task_row list \<Rightarrow> task_op \<Rightarrow> task_row list" where
  "task_step tbl (PersistTask now t) = snd (persist_task now t tbl)"
| "task_step tbl (AdmitTask now t) = snd (admit_task now t tbl)"
| "task_step tbl (NoteOrphan i m) = set_metadata i m tbl"
| "task_step tbl (DeleteTask i) = snd (delete_task i tbl)"
| "task_step tbl (PruneTasks now days) = task_rows (snd (prune_tasks now days \<lparr>task_rows = tbl, metrics = []\<rparr>))"

definition tasks_ok :: "task_row list \<Rightarrow> bool" where
  "tasks_ok tbl \<longleftrightarrow> distinct (map k_id tbl)"

lemma upsert_ids: "map k_id (snd (upsert guard new tbl)) = (if find_task (k_id new) tbl = None then map k_id tbl @ [k_id new] else map k_id tbl)"
  by (auto simp: upsert_def split: option.split)

lemma upsert_ok: "tasks_ok tbl \<Longrightarrow> tasks_ok (snd (upsert guard new tbl))"
  by (auto simp: tasks_ok_def upsert_ids find_task_None)

lemma set_metadata_ids [simp]: "map k_id (set_metadata i m tbl) = map k_id tbl"
  by (simp add: set_metadata_def)

lemma filter_ok: "tasks_ok tbl \<Longrightarrow> tasks_ok (filter P tbl)"
  by (simp add: tasks_ok_def distinct_map_filter)

lemma task_step_filter:
  "task_step tbl (DeleteTask i) = filter (\<lambda>r. k_id r \<noteq> i) tbl"
  "\<exists>P. task_step tbl (PruneTasks now days) = filter P tbl"
  by (auto simp: delete_task_def prune_tasks_def Let_def)

lemma task_step_ok: "tasks_ok tbl \<Longrightarrow> tasks_ok (task_step tbl op)"
proof (cases op)
  case (NoteOrphan i m)
  then show "tasks_ok tbl \<Longrightarrow> ?thesis" by (simp add: tasks_ok_def)
next
  case (PruneTasks now days)
  then show "tasks_ok tbl \<Longrightarrow> ?thesis" using task_step_filter(2)[of tbl now days] filter_ok by metis
qed (simp_all add: persist_task_def admit_task_def upsert_ok delete_task_def filter_ok)

interpretation tasks: invariant_machine task_step tasks_ok
  by unfold_locales (rule task_step_ok)

text \<open>Whether an operation took a task's row away, and how often a run did.\<close>

definition removes :: "string \<Rightarrow> task_row list \<Rightarrow> task_op \<Rightarrow> bool" where
  "removes i tbl op \<longleftrightarrow> find_task i tbl \<noteq> None \<and> find_task i (task_step tbl op) = None"

fun removals :: "string \<Rightarrow> task_row list \<Rightarrow> task_op list \<Rightarrow> nat" where
  "removals i tbl [] = 0"
| "removals i tbl (op # ops) = (if removes i tbl op then 1 else 0) + removals i (task_step tbl op) ops"

text \<open>What every operation does to a row that stays: it moves along the table of transitions.\<close>

definition task_move :: "task_row \<Rightarrow> task_row \<Rightarrow> bool" where
  "task_move r r' \<longleftrightarrow>
     k_generation r \<le> k_generation r'
     \<and> (k_status r \<in> set TASK_TERMINAL_STATUSES \<longrightarrow> k_status r' = k_status r \<and> k_generation r' = k_generation r)"

lemma task_move_refl [simp]: "task_move r r"
  by (simp add: task_move_def)

lemma task_move_trans: "task_move r s \<Longrightarrow> task_move s t \<Longrightarrow> task_move r t"
  by (auto simp: task_move_def)

lemma guard_moves: "persist_guard r new \<Longrightarrow> task_move r new" "admit_guard r new \<Longrightarrow> task_move r new"
  by (auto simp: persist_guard_def admit_guard_def task_move_def TASK_TERMINAL_STATUSES_def)

lemma upsert_stays:
  "find_task i tbl = Some r \<Longrightarrow> find_task i (snd (upsert guard new tbl)) = Some r' \<Longrightarrow> r' = r \<or> i = k_id new \<and> guard r new \<and> r' = new"
proof (cases "i = k_id new \<and> fst (upsert guard new tbl)")
  case True
  assume "find_task i tbl = Some r"
  then have "guard r new" using True by (auto simp: upsert_def split: if_splits)
  moreover assume "find_task i (snd (upsert guard new tbl)) = Some r'"
  ultimately show ?thesis using True by (simp add: upsert_find)
next
  case False
  assume "find_task i tbl = Some r" "find_task i (snd (upsert guard new tbl)) = Some r'"
  then show ?thesis using False by (simp only: upsert_find if_False option.inject simp_thms)
qed

lemma find_task_metadata:
  "find_task i (set_metadata j m tbl) = map_option (\<lambda>r. if k_id r = j then r\<lparr>k_meta := m\<rparr> else r) (find_task i tbl)"
  unfolding set_metadata_def by (rule find_task_map) simp

lemma task_step_moves:
  assumes "tasks_ok tbl" "find_task i tbl = Some r" "find_task i (task_step tbl op) = Some r'"
  shows "task_move r r'"
proof (cases op)
  case (PersistTask now t)
  have "find_task i (snd (upsert persist_guard (row_of_task now t) tbl)) = Some r'"
    using assms(3) PersistTask by (simp add: persist_task_def)
  from upsert_stays[OF assms(2) this] show ?thesis using guard_moves(1) by auto
next
  case (AdmitTask now t)
  have "find_task i (snd (upsert admit_guard (row_of_task now t) tbl)) = Some r'"
    using assms(3) AdmitTask by (simp add: admit_task_def)
  from upsert_stays[OF assms(2) this] show ?thesis using guard_moves(2) by auto
next
  case (NoteOrphan j m)
  have "find_task i (task_step tbl op) = Some (if k_id r = j then r\<lparr>k_meta := m\<rparr> else r)"
    using assms(2) NoteOrphan by (simp add: find_task_metadata)
  then have "r' = (if k_id r = j then r\<lparr>k_meta := m\<rparr> else r)" using assms(3) by simp
  then show ?thesis by (simp add: task_move_def)
next
  case (DeleteTask j)
  have "find_task i tbl = Some r'"
    using find_task_filter[of i "\<lambda>r. k_id r \<noteq> j" tbl r'] assms(1,3) unfolding DeleteTask task_step_filter(1) tasks_ok_def by blast
  then show ?thesis using assms by simp
next
  case (PruneTasks now days)
  obtain P where "task_step tbl op = filter P tbl" using task_step_filter(2) PruneTasks by blast
  then have "find_task i tbl = Some r'"
    using find_task_filter[of i P tbl r'] assms(1,3) unfolding tasks_ok_def by simp
  then show ?thesis using assms by simp
qed

text \<open>Along a run that does not take the row away, a row moves along the table.\<close>

lemma run_moves:
  "tasks_ok tbl \<Longrightarrow> find_task i tbl = Some r \<Longrightarrow> removals i tbl ops = 0 \<Longrightarrow>
     \<exists>r'. find_task i (foldl task_step tbl ops) = Some r' \<and> task_move r r'"
proof (induction ops arbitrary: tbl r)
  case (Cons op ops)
  have "find_task i (task_step tbl op) \<noteq> None" "removals i (task_step tbl op) ops = 0"
    using Cons.prems(2,3) by (auto simp: removes_def split: if_splits)
  then obtain s where s: "find_task i (task_step tbl op) = Some s" by blast
  obtain r' where "find_task i (foldl task_step (task_step tbl op) ops) = Some r'" "task_move s r'"
    using Cons.IH[OF task_step_ok[OF Cons.prems(1)] s \<open>removals i (task_step tbl op) ops = 0\<close>] by blast
  then show ?case using task_step_moves[OF Cons.prems(1,2) s] task_move_trans by auto
qed simp

text \<open>C17: A finished task stays finished: whatever the processes of an install write, admit, note or prune afterwards, as long as its
  row is there it keeps its final status and its generation.\<close>

theorem finished_task_stays_finished:
  assumes "find_task i (foldl task_step [] before) = Some r" "k_status r \<in> set TASK_TERMINAL_STATUSES"
    and "removals i (foldl task_step [] before) ops = 0"
  shows "\<exists>r'. find_task i (foldl task_step [] (before @ ops)) = Some r' \<and> k_status r' = k_status r
    \<and> k_generation r' = k_generation r"
proof -
  have "tasks_ok (foldl task_step [] before)" by (rule tasks.run_inv) (simp add: tasks_ok_def)
  from run_moves[OF this assms(1,3)] assms(2) show ?thesis by (auto simp: task_move_def)
qed


text \<open>How often a run of the store admitted a task at a generation.\<close>

definition admits :: "string \<Rightarrow> int \<Rightarrow> task_row list \<Rightarrow> task_op \<Rightarrow> bool" where
  "admits i g tbl op \<longleftrightarrow>
     (case op of AdmitTask now t \<Rightarrow> t_id t = i \<and> t_generation t = g \<and> fst (admit_task now t tbl) | _ \<Rightarrow> False)"

fun task_admissions :: "string \<Rightarrow> int \<Rightarrow> task_row list \<Rightarrow> task_op list \<Rightarrow> nat" where
  "task_admissions i g tbl [] = 0"
| "task_admissions i g tbl (op # ops) = (if admits i g tbl op then 1 else 0) + task_admissions i g (task_step tbl op) ops"

definition admissible :: "string \<Rightarrow> int \<Rightarrow> task_row list \<Rightarrow> bool" where
  "admissible i g tbl \<longleftrightarrow> (case find_task i tbl of None \<Rightarrow> True | Some r \<Rightarrow> k_generation r < g)"

lemma admit_uses_up:
  assumes "admits i g tbl op"
  shows "admissible i g tbl \<and> \<not> admissible i g (task_step tbl op)"
proof -
  obtain now t where op: "op = AdmitTask now t" "t_id t = i" "t_generation t = g" "fst (admit_task now t tbl)"
    using assms by (auto simp: admits_def split: task_op.splits)
  have "admissible i g tbl"
    using op(2-4) by (auto simp: admissible_def admit_task_def upsert_def admit_guard_def split: option.splits if_splits)
  moreover have "find_task i (task_step tbl op) = Some (row_of_task now t)"
    using op by (simp add: admit_task_def upsert_find)
  ultimately show ?thesis using op(3) by (simp add: admissible_def)
qed

lemma admissible_again:
  assumes "tasks_ok tbl" "admissible i g (task_step tbl op)" "\<not> admissible i g tbl"
  shows "removes i tbl op"
proof -
  obtain r where r: "find_task i tbl = Some r" "g \<le> k_generation r"
    using assms(3) by (auto simp: admissible_def split: option.splits)
  have "find_task i (task_step tbl op) = None"
  proof (rule ccontr)
    assume "find_task i (task_step tbl op) \<noteq> None"
    then obtain r' where r': "find_task i (task_step tbl op) = Some r'" by blast
    from task_step_moves[OF assms(1) r(1) r'] r(2) assms(2) r' show False by (auto simp: admissible_def task_move_def)
  qed
  then show ?thesis using r(1) by (simp add: removes_def)
qed

text \<open>C9: A task runs once at each generation: of all the dispatches, resumes and approvals of an install's processes, in any order,
  at most one is admitted for a task and a generation, and once more for each time the task was deleted.\<close>

theorem task_admitted_once:
  "task_admissions i g [] ops \<le> 1 + removals i [] ops"
proof -
  have "tasks_ok tbl \<Longrightarrow> task_admissions i g tbl ops \<le> (if admissible i g tbl then 1 else 0) + removals i tbl ops" for tbl
  proof (induction ops arbitrary: tbl)
    case (Cons op ops)
    have "(if admits i g tbl op then 1 else 0) + (if admissible i g (task_step tbl op) then 1 else 0)
        \<le> (if admissible i g tbl then 1 else 0) + (if removes i tbl op then 1 else (0::nat))"
      using admit_uses_up[of i g tbl op] admissible_again[OF Cons.prems, of i g op] by auto
    moreover have "task_admissions i g (task_step tbl op) ops
        \<le> (if admissible i g (task_step tbl op) then 1 else 0) + removals i (task_step tbl op) ops"
      by (rule Cons.IH[OF task_step_ok[OF Cons.prems]])
    ultimately show ?case by simp
  qed simp
  from this[of "[]"] show ?thesis by (simp add: tasks_ok_def admissible_def find_task_def)
qed


subsection \<open>After a restart\<close>

lemma no_outputs_walk:
  "compact_walk [] v = v" "expand_walk [] v = v"
proof -
  show "compact_walk [] v = v"
    by (induction v rule: no_reference.induct) (auto intro!: map_idI simp: output_index_def)
  have "ref_target [] d = None" for d
    by (cases d rule: remdups_adj.cases) (auto simp: ref_target_def split: pyval.splits)
  then show "expand_walk [] v = v"
    by (induction v rule: no_reference.induct) (auto intro!: map_idI)
qed

lemma walk_fields_no_outputs: "walk_fields (compact_walk []) d = d" "walk_fields (expand_walk []) d = d"
  by (auto simp: walk_fields_def no_outputs_walk intro!: map_idI)

text \<open>A result without worker results is stored as it is.\<close>

lemma read_row_no_workers:
  assumes "t_result t = Some r" "tr_workers r = []"
  shows "row_to_task stamp (row_of_task now t) = Inr (as_stored t)"
proof -
  have w: "worker_outputs (tresult_to_dict r) = []"
    using assms(2) by (simp add: worker_outputs_def tresult_to_dict_def)
  have "expand_outputs (compact_outputs (PDict (tresult_to_dict r))) = PDict (tresult_to_dict r)"
    by (simp add: compact_outputs_def expand_outputs_def w walk_fields_no_outputs)
  moreover have "truthy (PDict (tresult_to_dict r))" by (simp add: tresult_to_dict_def)
  ultimately show ?thesis using assms(1) tresult_reads_back[of stamp r]
    by (cases t) (auto simp: row_to_task_def row_of_task_def as_stored_def split: option.split)
qed

lemma interrupted_fields:
  assumes "interrupted_task str_of now t = Inr t'"
  shows "t_id t' = t_id t \<and> t_status t' = TFailed \<and> t_generation t' = t_generation t
    \<and> dget (t_meta t') ''execution_outcome'' = PStr ''unknown'' \<and> (\<exists>r. t_result t' = Some r \<and> tr_workers r = [])"
  using assms by (auto simp: interrupted_task_def andthen_def Let_def split: option.splits sum.splits)

lemma unknown_not_retried:
  assumes "dget (t_meta t) ''execution_outcome'' = PStr ''unknown''"
  shows "retry_of i new now False t \<noteq> Retries t'"
  using assms by (auto simp: retry_of_def outcome_unknown_def andthen_def Let_def meta_unknown_def split: sum.splits)

lemma row_to_task_simps:
  "row_to_task stamp r = Inr t \<Longrightarrow> t_id t = k_id r \<and> t_status t = k_status r \<and> t_generation t = k_generation r"
  by (auto simp: row_to_task_def andthen_def split: sum.splits)

lemma each_Inr: "each f xs = Inr ys \<Longrightarrow> list_all2 (\<lambda>x y. f x = Inr y) xs ys"
  by (induction xs arbitrary: ys) (auto simp: andthen_def split: sum.splits)

lemma list_all2_same: "list_all2 P xs ys \<Longrightarrow> (\<And>x y. P x y \<Longrightarrow> f x = g y) \<Longrightarrow> map f xs = map g ys"
  by (induction rule: list_all2_induct) simp_all

lemma list_all2_left: "list_all2 P xs ys \<Longrightarrow> y \<in> set ys \<Longrightarrow> \<exists>x \<in> set xs. P x y"
  by (induction rule: list_all2_induct) auto

text \<open>Failing the tasks that were read, one after the other.\<close>

lemma fail_interrupted_rows:
  assumes "fail_interrupted str_of now ts tbl = (Inr failed, tbl')"
    and "distinct (map t_id ts)"
    and "\<forall>t \<in> set ts. \<exists>r. find_task (t_id t) tbl = Some r \<and> k_status r = TRunning \<and> k_generation r = t_generation t"
  shows "(\<forall>t \<in> set ts. \<exists>t'. interrupted_task str_of now t = Inr t' \<and> find_task (t_id t) tbl' = Some (row_of_task now t'))
     \<and> (\<forall>i. i \<notin> t_id ` set ts \<longrightarrow> find_task i tbl' = find_task i tbl)"
  using assms
proof (induction ts arbitrary: tbl failed)
  case (Cons t ts)
  obtain t' where t': "interrupted_task str_of now t = Inr t'"
    using Cons.prems(1) by (cases "interrupted_task str_of now t") auto
  note f = interrupted_fields[OF t']
  obtain w tbl1 where p: "persist_task now t' tbl = (w, tbl1)" by fastforce
  obtain ans tbl2 where q: "fail_interrupted str_of now ts tbl1 = (ans, tbl2)" by fastforce
  obtain failed1 where a: "ans = Inr failed1" "tbl2 = tbl'"
    using Cons.prems(1) t' p q by (cases ans) auto
  obtain r where r: "find_task (t_id t) tbl = Some r" "k_status r = TRunning" "k_generation r = t_generation t"
    using Cons.prems(3) by auto
  have "persist_guard r (row_of_task now t')" using r f by (simp add: persist_guard_def TASK_TERMINAL_STATUSES_def)
  then have "w" using p r f by (auto simp: persist_task_def upsert_def)
  then have fnd: "find_task i tbl1 = (if i = t_id t then Some (row_of_task now t') else find_task i tbl)" for i
    using p f upsert_find[of i persist_guard "row_of_task now t'" tbl] by (simp add: persist_task_def)
  have new: "t_id t \<notin> t_id ` set ts" "distinct (map t_id ts)" using Cons.prems(2) by auto
  have "\<forall>u \<in> set ts. \<exists>r. find_task (t_id u) tbl1 = Some r \<and> k_status r = TRunning \<and> k_generation r = t_generation u"
  proof
    fix u assume u: "u \<in> set ts"
    then have "t_id u \<noteq> t_id t" using new(1) by (metis image_eqI)
    then show "\<exists>r. find_task (t_id u) tbl1 = Some r \<and> k_status r = TRunning \<and> k_generation r = t_generation u"
      using Cons.prems(3) u fnd by simp
  qed
  note IH = Cons.IH[OF q[unfolded a] new(2) this]
  have "find_task (t_id t) tbl' = Some (row_of_task now t')" using IH new(1) fnd by simp
  then show ?case using IH t' fnd by auto
qed simp



end
