(* ===== verification/TaskRetries.thy ===== *)
theory TaskRetries
  imports TaskRuns
begin

text \<open>
  Chains of retries and their lineage, which task a runbook may retry; what retention deletes, in terms of instants; search
  and the tenant filter; the daily averages; the history of an engine; and three ways the store surprises.
\<close>

subsection \<open>Chains of retries\<close>

text \<open>A task built by retrying the original, or a retry of it, and so on; each may be acknowledged or not.\<close>

inductive retried :: "swarm_task \<Rightarrow> swarm_task \<Rightarrow> bool" where
  retried_first: "retry_of (t_id t) new now ack t = Retries t' \<Longrightarrow> retried t t'"
| retried_again: "retried t u \<Longrightarrow> retry_of (t_id u) new now ack u = Retries u' \<Longrightarrow> retried t u'"

inductive_cases retriedE: "retried t u"

lemma dget_filter_key: "P k \<Longrightarrow> dget (filter (\<lambda>(k, v). P k) m) k = dget m k"
  by (induction m) auto

lemma dget_filter_out: "\<not> P k \<Longrightarrow> dget (filter (\<lambda>(k, v). P k) m) k = PNone"
  by (induction m) auto

lemma retry_metadata_root:
  "dget (retry_metadata i m u) ''retry_of'' = (if truthy (dget m ''retry_of'') then dget m ''retry_of'' else PStr i)"
  by (simp add: retry_metadata_def Let_def)

lemma retry_metadata_cleared:
  "k \<in> set RUN_METADATA \<Longrightarrow> k \<noteq> ''retry_acknowledged_unknown'' \<Longrightarrow> dget (retry_metadata i m u) k = PNone"
  using dget_filter_out[of "\<lambda>k. k \<notin> set RUN_METADATA" k m]
  by (auto simp: retry_metadata_def Let_def RUN_METADATA_def)

lemma retry_of_Retries:
  "retry_of i new now ack t = Retries t' \<Longrightarrow> \<exists>u tools. outcome_unknown t = Inr (u, tools) \<and> (u \<longrightarrow> ack)
     \<and> t' = t\<lparr>t_id := new, t_status := TPending, t_result := None, t_created := now, t_started := None,
               t_completed := None, t_generation := 0, t_run := [], t_meta := retry_metadata i (t_meta t) u\<rparr>"
  by (auto simp: retry_of_def split: sum.splits if_splits)

definition same_work :: "swarm_task \<Rightarrow> swarm_task \<Rightarrow> bool" where
  "same_work t u \<longleftrightarrow>
     t_prompt u = t_prompt t \<and> t_type u = t_type t \<and> t_context u = t_context t \<and> t_workers u = t_workers t
     \<and> t_deps u = t_deps t \<and> t_priority u = t_priority t \<and> t_timeout u = t_timeout t \<and> t_schema u = t_schema t
     \<and> t_chain u = t_chain t \<and> t_aggregation u = t_aggregation t \<and> t_cost u = t_cost t \<and> t_workspace u = t_workspace t"

definition starts_over :: "swarm_task \<Rightarrow> bool" where
  "starts_over t \<longleftrightarrow> t_status t = TPending \<and> t_result t = None \<and> t_generation t = 0 \<and> t_run t = []
     \<and> dget (t_meta t) ''execution_outcome'' = PNone \<and> dget (t_meta t) ''invoked_tools'' = PNone"

text \<open>C19: A retry is the same work with a fresh life, in one lineage: however often retries are retried, the task asks for the same work
  as the original, starts over with nothing of an earlier run, and names the original as what it retries.\<close>

theorem retries_share_the_root:
  assumes "retried t u" "\<not> truthy (dget (t_meta t) ''retry_of'')" "t_id t \<noteq> []"
  shows "same_work t u \<and> starts_over u \<and> dget (t_meta u) ''retry_of'' = PStr (t_id t)"
  using assms
proof (induction rule: retried.induct)
  case (retried_first t new now ack t')
  from retry_of_Retries[OF this(1)] obtain x where t':
    "t' = t\<lparr>t_id := new, t_status := TPending, t_result := None, t_created := now, t_started := None,
           t_completed := None, t_generation := 0, t_run := [], t_meta := retry_metadata (t_id t) (t_meta t) x\<rparr>" by blast
  show ?case using retried_first(2)
    by (simp add: t' same_work_def starts_over_def retry_metadata_root retry_metadata_cleared RUN_METADATA_def)
next
  case (retried_again t u new now ack u')
  from retry_of_Retries[OF retried_again(2)] obtain x where u':
    "u' = u\<lparr>t_id := new, t_status := TPending, t_result := None, t_created := now, t_started := None,
           t_completed := None, t_generation := 0, t_run := [], t_meta := retry_metadata (t_id u) (t_meta u) x\<rparr>" by blast
  show ?case using retried_again.IH[OF retried_again.prems] retried_again.prems(2)
    by (simp add: u' same_work_def starts_over_def retry_metadata_root retry_metadata_cleared RUN_METADATA_def)
qed

subsection \<open>The history of an engine\<close>

lemma map_of_put_task: "map_of (put_task h k t) i = (if i = k then Some t else map_of h i)"
  by (induction h k t rule: put_task.induct) auto

lemma length_put_task: "length (put_task h k t) = (if map_of h k = None then length h + 1 else length h)"
  by (induction h k t rule: put_task.induct) auto

lemma put_task_new: "map_of h k = None \<Longrightarrow> put_task h k t = h @ [(k, t)]"
  by (induction h k t rule: put_task.induct) (auto split: if_splits)

text \<open>A recorded task is in the history as it was, and the history never holds more than its limit.\<close>

lemma recorded_task_is_kept:
  assumes "0 < most" "length h \<le> nat most"
  shows "\<exists>h'. record_task most new now h t = Inr h' \<and> map_of h' (t_id t) = Some t \<and> length h' \<le> nat most"
proof -
  let ?h = "put_task h (t_id t) t"
  have r: "record_task most new now h t = Inr (trim_history most ?h)"
    by (simp add: record_task_def task_reads_back)
  have "map_of (trim_history most ?h) (t_id t) = Some t"
  proof (cases "map_of h (t_id t)")
    case None
    have "length h + 1 - nat most \<le> length h" using assms by simp
    then show ?thesis using assms None
      by (auto simp: trim_history_def put_task_new map_add_Some_iff map_of_eq_None_iff dest!: in_set_dropD)
  next
    case (Some u)
    then show ?thesis using assms by (simp add: trim_history_def length_put_task map_of_put_task)
  qed
  then show ?thesis using r assms by (auto simp: trim_history_def length_put_task)
qed

subsection \<open>Retention\<close>

definition instant_prefix :: "int \<Rightarrow> string" where
  "instant_prefix s = date_text (s div 86400 + epoch_day) @ ''T'' @ clock_text (s mod 86400)"

definition fraction_text :: "int \<Rightarrow> string" where
  "fraction_text f = (if f = 0 then [] else ''.'' @ pad6 f) @ ''+00:00''"

lemma iso_text_split: "iso_text us = instant_prefix (us div 1000000) @ fraction_text (us mod 1000000)"
  by (simp add: iso_text_def instant_prefix_def fraction_text_def Let_def)

lemma instant_prefix_length: "length (instant_prefix s) = 19"
  by (simp add: instant_prefix_def date_text_length clock_text_length)

lemma instant_prefix_sorts:
  assumes "in_years s" "in_years s'"
  shows "instant_prefix s < instant_prefix s' \<longleftrightarrow> s < s'" "instant_prefix s = instant_prefix s' \<longleftrightarrow> s = s'"
proof -
  have u: "utc_text x = instant_prefix x @ ''+00:00''" for x by (simp add: utc_text_def instant_prefix_def)
  have less: "instant_prefix x < instant_prefix y \<longleftrightarrow> x < y" if "in_years x" "in_years y" for x y
    using utc_text_sorts[OF that] append_same_end_less[of "instant_prefix x" "instant_prefix y" "''+00:00''"]
    by (simp add: u instant_prefix_length)
  show "instant_prefix s < instant_prefix s' \<longleftrightarrow> s < s'" by (rule less[OF assms])
  show "instant_prefix s = instant_prefix s' \<longleftrightarrow> s = s'"
    using less[OF assms] less[OF assms(2,1)] by (metis less_irrefl linorder_neqE)
qed

lemma pad6_less:
  assumes "0 \<le> f" "f < 1000000" "0 \<le> f'" "f' < 1000000"
  shows "pad6 f < pad6 f' \<longleftrightarrow> f < f'"
proof -
  have "pad6 f < pad6 f' \<longleftrightarrow> f div 10000 < f' div 10000 \<or> f div 10000 = f' div 10000 \<and>
      (f div 100 mod 100 < f' div 100 mod 100 \<or> f div 100 mod 100 = f' div 100 mod 100 \<and> f mod 100 < f' mod 100)"
    using assms unfolding pad6_def by (simp add: append_less_append pad2_less pad2_eq)
  also have "\<dots> \<longleftrightarrow> f < f'"
  proof -
    have "x mod 10000 = 100 * (x div 100 mod 100) + x mod 100" for x :: int
      using zmod_zmult2_eq[of 100 x 100] by simp
    then have "x mod 10000 div 100 = x div 100 mod 100" "x mod 10000 mod 100 = x mod 100" for x :: int
      by simp_all
    then show ?thesis using less_div_mod[of 10000 f f'] less_div_mod[of 100 "f mod 10000" "f' mod 10000"] by simp
  qed
  finally show ?thesis .
qed

lemma fraction_text_less:
  assumes "0 \<le> f" "f < 1000000" "0 \<le> f'" "f' < 1000000"
  shows "fraction_text f < fraction_text f' \<longleftrightarrow> f < f'"
proof -
  have len: "length (pad6 x) = 6" for x by (simp add: pad6_def pad2_def)
  show ?thesis
    using assms pad6_less[OF assms] append_same_end_less[of "pad6 f" "pad6 f'" "''+00:00''"]
    by (auto simp: fraction_text_def len less_char_def)
qed

text \<open>The texts the store writes sort as the instants do, with and without a fraction.\<close>

lemma iso_text_sorts:
  assumes "in_years (a div 1000000)" "in_years (b div 1000000)"
  shows "iso_text a < iso_text b \<longleftrightarrow> a < b"
proof -
  have "iso_text a < iso_text b \<longleftrightarrow> a div 1000000 < b div 1000000
      \<or> a div 1000000 = b div 1000000 \<and> a mod 1000000 < b mod 1000000"
    unfolding iso_text_split
    by (simp add: append_less_append instant_prefix_length instant_prefix_sorts[OF assms] fraction_text_less)
  then show ?thesis using less_div_mod[of 1000000 a b] by simp
qed

text \<open>C20: Retention deletes finished tasks that are old enough, and nothing else: with every row's sort key the text of an instant, exactly
  the finished tasks from before the cutoff go, whatever the length of their texts; no task that is pending, running or paused is
  deleted, and the cutoff is at least a day ago.\<close>

theorem retention_deletes_old_finished:
  assumes "list_all (\<lambda>r. k_sort r = iso_text (when r) \<and> in_years (when r div 1000000)) (task_rows s)"
    and "in_years ((now - max 1 days * 86400000000) div 1000000)"
  shows "task_rows (snd (prune_tasks now days s))
     = filter (\<lambda>r. \<not> (k_status r \<in> set TASK_TERMINAL_STATUSES \<and> when r < now - max 1 days * 86400000000)) (task_rows s)"
proof -
  have "k_sort r < iso_text (now - max 1 days * 86400000000) \<longleftrightarrow> when r < now - max 1 days * 86400000000"
    if "r \<in> set (task_rows s)" for r
    using assms that iso_text_sorts[of "when r" "now - max 1 days * 86400000000"] by (simp add: list_all_iff)
  then show ?thesis by (auto simp: prune_tasks_def Let_def intro: filter_cong)
qed

subsection \<open>Search and tenants\<close>

lemma like_escape_simps:
  "like_escape [] = []"
  "like_escape (c # s) = (if c \<in> {BACKSLASH, CHR ''%'', CHR ''_''} then [BACKSLASH, c] else [c]) @ like_escape s"
  by (simp_all add: like_escape_def)

lemma like_esc_literal:
  "like_esc (like_escape q @ ps) t \<longleftrightarrow> length q \<le> length t \<and> py_lower (take (length q) t) = py_lower q \<and> like_esc ps (drop (length q) t)"
proof (induction q arbitrary: t)
  case (Cons c q)
  show ?case
  proof (cases t)
    case Nil
    then show ?thesis by (simp add: like_escape_simps BACKSLASH_def)
  next
    case (Cons d u)
    then show ?thesis using Cons.IH[of u] by (auto simp: like_escape_simps BACKSLASH_def py_lower_def)
  qed
qed (simp add: like_escape_simps)

lemma like_esc_percent: "like_esc (CHR ''%'' # ps) t \<longleftrightarrow> (\<exists>n \<le> length t. like_esc ps (drop n t))"
proof (induction t)
  case (Cons c t)
  have "(\<exists>n \<le> length (c # t). like_esc ps (drop n (c # t))) \<longleftrightarrow> like_esc ps (c # t) \<or> (\<exists>n \<le> length t. like_esc ps (drop n t))"
    by (auto simp: Ex_less_Suc2 less_Suc_eq_le[symmetric])
  then show ?case using Cons by (simp add: BACKSLASH_def)
qed (simp add: BACKSLASH_def)

lemma contains_iff: "contains p s \<longleftrightarrow> (\<exists>n \<le> length s. starts_with p (drop n s))"
proof (induction s)
  case (Cons c s)
  have "(\<exists>n \<le> length (c # s). starts_with p (drop n (c # s))) \<longleftrightarrow> starts_with p (c # s) \<or> (\<exists>n \<le> length s. starts_with p (drop n s))"
    by (auto simp: Ex_less_Suc2 less_Suc_eq_le[symmetric])
  then show ?case using Cons by simp
next
  case Nil
  then show ?case by (cases p) auto
qed

lemma starts_with_take: "starts_with p s \<longleftrightarrow> length p \<le> length s \<and> take (length p) s = p"
  by (induction p s rule: starts_with.induct) auto

text \<open>C21: Searching a task's prompt is searching plain text: whatever the query holds, also percent signs, underscores and backslashes, the
  pattern matches exactly the prompts that contain it, with letters in either case.\<close>

theorem search_is_plain_text:
  "like_esc (''%'' @ like_escape q @ ''%'') t \<longleftrightarrow> contains (py_lower q) (py_lower t)"
proof -
  have any: "like_esc ''%'' s" for s by (simp add: like_esc_percent) (intro exI[of _ "length s"], simp)
  have "like_esc (''%'' @ like_escape q @ ''%'') t \<longleftrightarrow>
      (\<exists>n \<le> length t. length q \<le> length (drop n t) \<and> py_lower (take (length q) (drop n t)) = py_lower q)"
    using like_esc_percent[of "like_escape q @ ''%''" t] by (simp add: like_esc_literal any)
  also have "\<dots> \<longleftrightarrow> contains (py_lower q) (py_lower t)"
    by (simp add: contains_iff starts_with_take py_lower_def take_map drop_map)
  finally show ?thesis .
qed

lemma each_in: "each f xs = Inr ys \<Longrightarrow> y \<in> set ys \<Longrightarrow> \<exists>x \<in> set xs. f x = Inr y"
  using list_all2_left[OF each_Inr] by metis

lemma row_to_task_meta: "row_to_task stamp r = Inr t \<Longrightarrow> t_meta t = k_meta r"
  by (auto simp: row_to_task_def andthen_def split: sum.splits)

lemma tenant_filter_adds:
  "multi \<Longrightarrow> map_of fs ''tenant_id'' = None \<Longrightarrow> tenant \<noteq> ''*'' \<Longrightarrow> (''tenant_id'', tenant) \<in> set (tenant_filter True multi tenant fs)"
  by (auto simp: tenant_filter_def Let_def map_add_def)

text \<open>On an install with platform users a task list is one tenant's: a caller that names no tenant is shown only tasks whose metadata
  holds the tenant the request acts for.\<close>

theorem listed_tasks_are_the_tenants:
  assumes "list_tasks now True True tenant page page_size f tbl = Inr (ts, n)" "map_of (f_meta f) ''tenant_id'' = None"
    and "tenant \<noteq> ''*''" "t \<in> set ts"
  shows "dget (t_meta t) ''tenant_id'' = PStr tenant"
proof -
  let ?f = "f\<lparr>f_meta := tenant_filter True True tenant (f_meta f)\<rparr>"
  obtain shown where s: "each (row_to_task (iso_text now)) shown = Inr ts" "set shown \<subseteq> set (newest_by k_sort (filter (row_matches ?f) tbl))"
    using assms(1) by (auto simp: list_tasks_def Let_def andthen_def split: sum.splits dest!: in_set_takeD in_set_dropD)
  obtain r where r: "r \<in> set shown" "row_to_task (iso_text now) r = Inr t" using each_in[OF s(1) assms(4)] by blast
  then have "row_matches ?f r" using s(2) by (auto simp: newest_by_def)
  then have "list_all (\<lambda>(k, v). dget (k_meta r) k = PStr v) (tenant_filter True True tenant (f_meta f))" by (simp add: row_matches_def)
  then show ?thesis using tenant_filter_adds[OF _ assms(2,3)] row_to_task_meta[OF r(2)] by (fastforce simp: list_all_iff)
qed

subsection \<open>Daily averages\<close>

text \<open>What is recorded of a worker on a day: tasks completed and failed, their latency, tokens and cost.\<close>

type_synonym worked = "(string \<times> string) \<times> int \<times> int \<times> real \<times> int \<times> real"

fun note_work :: "metric list \<Rightarrow> worked \<Rightarrow> metric list" where
  "note_work ms ((w, d), c, f, l, tokens, cost) = record_worker_metric w d c f l tokens cost ms"

definition works_of :: "string \<Rightarrow> string \<Rightarrow> worked list \<Rightarrow> (int \<times> real) list" where
  "works_of w d xs = map (\<lambda>((_, _), c, f, l, _, _). (c + f, l)) (filter (\<lambda>x. fst x = (w, d)) xs)"

lemma find_metric_map:
  "(\<And>m. m_worker (g m) = m_worker m \<and> m_date (g m) = m_date m) \<Longrightarrow> find_metric w d (map g ms) = map_option g (find_metric w d ms)"
  unfolding find_metric_def by (induction ms) auto

lemma find_metric_Some: "find_metric w d ms = Some m \<Longrightarrow> m_worker m = w \<and> m_date m = d"
  by (auto simp: find_metric_def find_Some_iff)

lemma find_metric_append: "find_metric w d (xs @ ys) = (case find_metric w d xs of None \<Rightarrow> find_metric w d ys | m \<Rightarrow> m)"
  unfolding find_metric_def by (induction xs) auto

lemma add_metric_key: "m_worker (add_metric new m) = m_worker m \<and> m_date (add_metric new m) = m_date m"
  by (simp add: add_metric_def Let_def)

definition tasks_counted :: "metric \<Rightarrow> int" where
  "tasks_counted m = m_completed m + m_failed m"

lemma add_metric_total:
  assumes "0 \<le> tasks_counted old" "0 \<le> tasks_counted new"
  shows "tasks_counted (add_metric new old) = tasks_counted old + tasks_counted new"
    and "m_avg (add_metric new old) * of_int (tasks_counted (add_metric new old)) = m_avg old * of_int (tasks_counted old) + m_avg new * of_int (tasks_counted new)"
proof -
  show 1: "tasks_counted (add_metric new old) = tasks_counted old + tasks_counted new" by (simp add: tasks_counted_def add_metric_def Let_def)
  have avg: "m_avg (add_metric new old) = (if 0 < tasks_counted old + tasks_counted new
      then (m_avg old * of_int (tasks_counted old) + m_avg new * of_int (tasks_counted new)) / of_int (tasks_counted old + tasks_counted new) else 0)"
    by (simp add: add_metric_def Let_def tasks_counted_def)
  show "m_avg (add_metric new old) * of_int (tasks_counted (add_metric new old)) = m_avg old * of_int (tasks_counted old) + m_avg new * of_int (tasks_counted new)"
  proof (cases "0 < tasks_counted old + tasks_counted new")
    case True
    then have "real_of_int (tasks_counted old + tasks_counted new) \<noteq> 0" by linarith
    then show ?thesis using True unfolding 1 avg by simp
  next
    case False
    then have "tasks_counted old = 0" "tasks_counted new = 0" using assms by linarith+
    then show ?thesis unfolding 1 avg by simp
  qed
qed

definition total_of :: "metric option \<Rightarrow> int \<times> real" where
  "total_of m = (case m of None \<Rightarrow> (0, 0) | Some m \<Rightarrow> (tasks_counted m, m_avg m * of_int (tasks_counted m)))"

definition work_metric :: "string \<times> string \<Rightarrow> int \<Rightarrow> int \<Rightarrow> real \<Rightarrow> int \<Rightarrow> real \<Rightarrow> metric" where
  "work_metric k c f l tokens cost =
     \<lparr>m_worker = fst k, m_date = snd k, m_completed = c, m_failed = f, m_avg = (if c + f > 0 then l else 0), m_tokens = tokens,
      m_cost = cost\<rparr>"

lemma work_metric_simps [simp]:
  "m_worker (work_metric k c f l tokens cost) = fst k" "m_date (work_metric k c f l tokens cost) = snd k"
  "tasks_counted (work_metric k c f l tokens cost) = c + f"
  by (simp_all add: work_metric_def tasks_counted_def)

lemma work_metric_sum: "0 \<le> c + f \<Longrightarrow> m_avg (work_metric k c f l tokens cost) * of_int (c + f) = l * of_int (c + f)"
  by (simp add: work_metric_def)

lemma note_work_eq:
  "note_work ms (k, c, f, l, tokens, cost) =
     (let new = work_metric k c f l tokens cost
      in case find_metric (fst k) (snd k) ms of None \<Rightarrow> ms @ [new]
         | Some old \<Rightarrow> map (\<lambda>m. if m_worker m = fst k \<and> m_date m = snd k then add_metric new m else m) ms)"
  by (cases k) (simp only: note_work.simps record_worker_metric_def work_metric_def Let_def fst_conv snd_conv)

declare note_work.simps [simp del]

lemma find_metric_note:
  "find_metric w d (note_work ms (k, c, f, l, tokens, cost)) =
     (if k = (w, d)
      then Some (case find_metric w d ms of None \<Rightarrow> work_metric k c f l tokens cost
                 | Some old \<Rightarrow> add_metric (work_metric k c f l tokens cost) old)
      else find_metric w d ms)"
proof (cases "find_metric (fst k) (snd k) ms")
  case None
  have "find_metric w d [work_metric k c f l tokens cost] = (if k = (w, d) then Some (work_metric k c f l tokens cost) else None)"
    by (cases k) (auto simp: find_metric_def)
  then show ?thesis using None
    by (cases "find_metric w d ms"; cases "k = (w, d)") (auto simp: note_work_eq Let_def find_metric_append)
next
  case (Some old)
  let ?g = "\<lambda>m. if m_worker m = fst k \<and> m_date m = snd k then add_metric (work_metric k c f l tokens cost) m else m"
  have "find_metric w d (map ?g ms) = map_option ?g (find_metric w d ms)"
    by (rule find_metric_map) (simp add: add_metric_key)
  then have "find_metric w d (note_work ms (k, c, f, l, tokens, cost)) = map_option ?g (find_metric w d ms)"
    using Some by (simp add: note_work_eq Let_def)
  then show ?thesis using Some find_metric_Some[of w d ms] by (cases "find_metric w d ms"; cases k) auto
qed

lemma note_work_total:
  assumes "0 \<le> fst (total_of (find_metric w d ms))" "0 \<le> c + f"
  shows "total_of (find_metric w d (note_work ms (k, c, f, l, tokens, cost)))
     = (if k = (w, d) then (fst (total_of (find_metric w d ms)) + (c + f), snd (total_of (find_metric w d ms)) + l * of_int (c + f))
        else total_of (find_metric w d ms))"
proof (cases "k = (w, d)")
  case True
  let ?new = "work_metric k c f l tokens cost"
  note new = work_metric_sum[OF assms(2), of k l tokens cost]
  show ?thesis
  proof (cases "find_metric w d ms")
    case None
    then show ?thesis using True new by (simp add: find_metric_note total_of_def)
  next
    case (Some old)
    then have "0 \<le> tasks_counted old" "0 \<le> tasks_counted ?new" using assms by (simp_all add: total_of_def)
    from add_metric_total[OF this] Some True new show ?thesis by (simp add: find_metric_note total_of_def)
  qed
qed (simp add: find_metric_note)

lemma works_of_Nil [simp]: "works_of w d [] = []"
  by (simp add: works_of_def)

lemma works_of_Cons: "works_of w d ((k, c, f, l, r) # xs) = (if k = (w, d) then [(c + f, l)] else []) @ works_of w d xs"
  by (cases k; cases r) (simp add: works_of_def)

text \<open>A worker's day counts every task and its latency is their average: over any records of any workers and days, the row of a worker
  and day holds the sum of its tasks, and its average times their number is the sum of each record's latency times its tasks.\<close>

theorem day_average_is_weighted:
  assumes "list_all (\<lambda>(k, c, f, r). 0 \<le> c + f) xs"
  shows "total_of (find_metric w d (foldl note_work [] xs))
     = (sum_list (map fst (works_of w d xs)), sum_list (map (\<lambda>(n, l). l * of_int n) (works_of w d xs)))"
proof -
  have "0 \<le> fst (total_of (find_metric w d ms)) \<Longrightarrow> list_all (\<lambda>(k, c, f, r). 0 \<le> c + f) xs \<Longrightarrow>
      total_of (find_metric w d (foldl note_work ms xs))
        = (fst (total_of (find_metric w d ms)) + sum_list (map fst (works_of w d xs)),
           snd (total_of (find_metric w d ms)) + sum_list (map (\<lambda>(n, l). l * of_int n) (works_of w d xs)))" for ms
  proof (induction xs arbitrary: ms)
    case (Cons x xs)
    obtain k c f l tokens cost where x: "x = (k, c, f, l, tokens, cost)" by (metis prod_cases6 surj_pair)
    have nn: "0 \<le> c + f" "list_all (\<lambda>(k, c, f, r). 0 \<le> c + f) xs" using Cons.prems(2) x by auto
    note tot = note_work_total[OF Cons.prems(1) nn(1), of k l tokens cost]
    have "0 \<le> fst (total_of (find_metric w d (note_work ms x)))" using Cons.prems(1) nn(1) by (simp add: tot x)
    from Cons.IH[OF this nn(2)] show ?case unfolding x by (simp add: tot works_of_Cons)
  qed simp
  from this[of "[]"] assms show ?thesis by (simp add: find_metric_def total_of_def)
qed

subsection \<open>What surprises\<close>

definition demo_task :: swarm_task where
  "demo_task = (new_task ''fix it'' ''t1'' ''2026-01-01T00:00:00+00:00'')\<lparr>t_status := TRunning, t_generation := 1, t_run := ''1:a'',
     t_meta := [(''tenant_id'', PStr ''a'')]\<rparr>"

definition demo_row :: task_row where "demo_row = row_of_task 0 demo_task"

definition any_task :: task_filter where
  "any_task = \<lparr>f_status = [], f_type = [], f_worker = [], f_meta = [(''tenant_id'', ''*'')], f_query = []\<rparr>"

text \<open>The two ways to ask for every tenant exclude each other: with the tenant filter switched off, a caller that passes the star
  is shown no task at all, since the star is then compared with the tenants' names.\<close>

theorem star_hides_all_when_filter_is_off:
  "list_tasks 0 True multi ''x'' 1 20 any_task [demo_row] = Inr ([as_stored demo_task], 1)
   \<and> list_tasks 0 False multi ''x'' 1 20 any_task [demo_row] = Inr ([], 0)"
proof
  have m: "row_matches (any_task\<lparr>f_meta := []\<rparr>) demo_row" by (simp add: row_matches_def any_task_def)
  have "t_result demo_task = None" by (simp add: demo_task_def new_task_def)
  then have r: "row_to_task stamp demo_row = Inr (as_stored demo_task)" for stamp
    unfolding demo_row_def by (intro read_row) simp
  have f: "tenant_filter True multi ''x'' (f_meta any_task) = []" "tenant_filter False multi ''x'' (f_meta any_task) = [(''tenant_id'', ''*'')]"
    by (simp_all add: any_task_def tenant_filter_def)
  show "list_tasks 0 True multi ''x'' 1 20 any_task [demo_row] = Inr ([as_stored demo_task], 1)"
    unfolding list_tasks_def f using m r by (simp add: newest_by_def)
  have "\<not> row_matches (any_task\<lparr>f_meta := [(''tenant_id'', ''*'')]\<rparr>) demo_row"
    by (simp add: row_matches_def demo_row_def demo_task_def)
  then show "list_tasks 0 False multi ''x'' 1 20 any_task [demo_row] = Inr ([], 0)"
    unfolding list_tasks_def f by (simp add: newest_by_def)
qed

text \<open>A note about a late result is a read and a write: what the run wrote to its metadata in between is undone. Here the task
  journals its second step between the two, and the row then says it is in its first.\<close>

definition at_step :: "int \<Rightarrow> swarm_task" where
  "at_step n = demo_task\<lparr>t_meta := [(''step_journal'', PDict [(''step'', PInt n), (''state'', PStr ''running'')])]\<rparr>"

theorem orphan_note_undoes_metadata:
  "\<exists>seen m. get_task 0 ''t1'' [row_of_task 0 (at_step 1)] = Inr (Some seen)
     \<and> orphan_metadata (PStr ''late'') seen = Inr m
     \<and> (\<exists>r. find_task ''t1'' (foldl task_step [row_of_task 0 (at_step 1)] [PersistTask 0 (at_step 2), NoteOrphan ''t1'' m]) = Some r
          \<and> dget (k_meta r) ''step_journal'' = PDict [(''step'', PInt 1), (''state'', PStr ''running'')])"
proof -
  have a: "t_id (at_step n) = ''t1''" "t_status (at_step n) = TRunning" "t_generation (at_step n) = 1" "t_result (at_step n) = None"
    "t_meta (at_step n) = [(''step_journal'', PDict [(''step'', PInt n), (''state'', PStr ''running'')])]" for n
    by (simp_all add: at_step_def demo_task_def new_task_def)
  have "get_task 0 ''t1'' [row_of_task 0 (at_step 1)] = Inr (Some (as_stored (at_step 1)))"
    using read_row[of "at_step 1"] a by (simp add: get_task_def find_task_def)
  moreover have "orphan_metadata (PStr ''late'') (as_stored (at_step 1)) =
      Inr [(''step_journal'', PDict [(''step'', PInt 1), (''state'', PStr ''running'')]), (''orphan_results'', PList [PStr ''late''])]"
    using a by (simp add: orphan_metadata_def as_stored_def items_or_none_def)
  moreover have "snd (persist_task 0 (at_step 2) [row_of_task 0 (at_step 1)]) = [row_of_task 0 (at_step 2)]"
    using a by (simp add: persist_task_def upsert_def find_task_def persist_guard_def)
  ultimately show ?thesis using a by (simp add: set_metadata_def find_task_def)
qed

text \<open>A value that looks like a reference is expanded: the writer that compacts never made it, but the reader cannot tell.\<close>

theorem look_alike_is_expanded:
  "let r = \<lparr>tr_task_id = ''t1'', tr_status = ''success'',
             tr_workers = [\<lparr>wr_worker = ''w'', wr_task_id = ''t1'', wr_status = ''success'', wr_output = ''done'', wr_error = None,
                            wr_tokens = 0, wr_cost = 0, wr_duration = 0, wr_handoffs = [], wr_retry_safe = True\<rparr>],
             tr_opinions = [], tr_aggregated = None, tr_synthesized = None, tr_error = None, tr_cost = 0, tr_tokens = 0,
             tr_duration = 0, tr_meta = [(''note'', PDict [(REF_KEY, PInt 0)])]\<rparr>
   in tresult_from_dict [] (expand_outputs (compact_outputs (PDict (tresult_to_dict r)))) = Inr (r\<lparr>tr_meta := [(''note'', PStr ''done'')]\<rparr>)"
  by code_simp

text \<open>The average over all days is the mean of the days, not of the tasks: one task of a hundred seconds on one day and nine of none
  on another average fifty seconds.\<close>

theorem overall_average_is_of_days:
  "map m_avg (get_all_worker_metrics (foldl note_work []
     [((''w'', ''2026-01-01''), 1, 0, 100, 0, 0), ((''w'', ''2026-01-02''), 9, 0, 0, 0, 0)])) = [50]"
  by code_simp

subsection \<open>Instances\<close>

text \<open>A task that was admitted, paused, admitted again, and done.\<close>

definition admitted_twice :: "task_op list" where
  "admitted_twice = [AdmitTask 0 demo_task, PersistTask 0 (demo_task\<lparr>t_status := TPaused\<rparr>)]"

definition second_run :: swarm_task where
  "second_run = demo_task\<lparr>t_generation := 2, t_run := ''2:b''\<rparr>"

lemmas demo_simps = demo_task_def new_task_def second_run_def admitted_twice_def persist_task_def admit_task_def upsert_def
  find_task_def persist_guard_def admit_guard_def TASK_TERMINAL_STATUSES_def



lemma finished_task_stays_finished_witness:
  "\<exists>r. find_task ''t1'' (foldl task_step [] ([PersistTask 0 (demo_task\<lparr>t_status := TCompleted\<rparr>)] @ [PersistTask 1 second_run, AdmitTask 2 second_run])) = Some r
     \<and> k_status r = TCompleted"
proof -
  let ?done = "demo_task\<lparr>t_status := TCompleted\<rparr>" and ?ops = "[PersistTask 1 second_run, AdmitTask 2 second_run]"
  have "find_task ''t1'' (foldl task_step [] [PersistTask 0 ?done]) = Some (row_of_task 0 ?done)" by (simp add: demo_simps)
  moreover have "k_status (row_of_task 0 ?done) = TCompleted" by simp
  moreover have "removals ''t1'' (foldl task_step [] [PersistTask 0 ?done]) ?ops = 0" by (simp add: demo_simps removes_def)
  ultimately show ?thesis
    using finished_task_stays_finished[of "''t1''" "[PersistTask 0 ?done]" "row_of_task 0 ?done" ?ops] by (auto simp: TASK_TERMINAL_STATUSES_def)
qed


lemma retries_share_the_root_witness:
  "\<exists>u. retried (demo_task\<lparr>t_status := TFailed\<rparr>) u \<and> same_work (demo_task\<lparr>t_status := TFailed\<rparr>) u
     \<and> dget (t_meta u) ''retry_of'' = PStr ''t1''"
proof -
  let ?t = "demo_task\<lparr>t_status := TFailed\<rparr>"
  obtain u where "retry_of (t_id ?t) ''t2'' ''now'' False ?t = Retries u"
    by (simp add: retry_of_def outcome_unknown_def demo_task_def new_task_def items_or_none_def meta_unknown_def)
  then have "retried ?t u" by (rule retried_first)
  moreover have "\<not> truthy (dget (t_meta ?t) ''retry_of'')" "t_id ?t = ''t1''" by (simp_all add: demo_task_def new_task_def)
  ultimately show ?thesis using retries_share_the_root[of ?t u] by auto
qed

lemma retention_deletes_old_finished_witness:
  "task_rows (snd (prune_tasks 200000000000 1 \<lparr>task_rows = [demo_row\<lparr>k_status := TFailed, k_sort := iso_text 0\<rparr>], metrics = []\<rparr>)) = []"
proof -
  have "in_years 0" "in_years ((200000000000 - max 1 1 * 86400000000) div 1000000)" by code_simp+
  then show ?thesis
    using retention_deletes_old_finished[of "\<lambda>r. 0" "\<lparr>task_rows = [demo_row\<lparr>k_status := TFailed, k_sort := iso_text 0\<rparr>], metrics = []\<rparr>" 200000000000 1]
    by (simp add: TASK_TERMINAL_STATUSES_def)
qed

end
