(* ===== verification/Spec2Isabelle.thy ===== *)
theory Spec2Isabelle
  imports Approval CallAuthority HitlGates Reliability CronOutcomes TimingText ToolLoop Capacity TurnBudget SupervisionPass TaskRetries
begin

text \<open>
  A verification development for Kazma, an agent platform written in Python. It models the part of
  kazma-core that decides whether a dangerous tool may run, the part that decides whether a
  worker is called again after it failed, the part that keeps and times scheduled jobs, the part that
  bounds what a turn of the agent may do and spend, and the part that watches all running work. Paths below are relative to src/kazma-core/kazma_core/.

  The program. An agent answers a chat by calling tools; some tools are dangerous and need an
  operator's approval. Two gates ask for it: the chat graph's (safety/hitl.py) and the swarm bus's
  (swarm/safety.py). Neither asks when the thread has a standing approval: a YOLO window (safety/yolo.py), a
  task grant (safety/task_grants.py) or a tool grant (safety/hitl_grants.py), each a record of the
  settings store (config_store.py). A question that is asked is a row of the gate registry
  (safety/hitl_gates.py), which several processes and several buttons may answer at once. Behind the
  swarm bus, dispatches to a worker go through a retry policy, a circuit breaker whose state replicas share through
  the settings store, and a chain of fallback workers (swarm/reliability.py,
  swarm/reliability_registry.py). Scheduled jobs live in a store of their own (cron/store.py): a job is claimed
  when it is due, fires once, and its message waits in an outbox until it is sent or given up, with an
  alert when it is lost; the text that says when a job fires is read and answered by cron/timing.py. Every unit of
  work - a job's fire, a swarm task, a document job, a crawl - is also a run (runs/contract.py): every half minute the
  supervisor reads all runs, opens an incident for each that is stuck or failed, tells the owner once, carries out what the
  owner decides, and closes the incidents of runs that moved on (runs/). A swarm task (swarm/task.py) is kept in a store that
  several processes write (swarm/task_store.py); a run number on each row fences off the runs that were replaced.

  Theories, in the order they build on each other:

  Prelude: JSON values as the datatype \<open>pyval\<close>, Python's truth testing, \<open>float\<close>, \<open>int\<close>, \<open>round\<close>
  and string operations on them, exceptions as the datatype \<open>exn\<close>. An operation that can raise returns a sum,
  \<open>Inl\<close> the exception.

  Interfaces: five locales. \<open>keyed_table\<close> states what clients of a table rely on (interpreted on the
  rows of the settings store), \<open>invariant_machine\<close> and its extension \<open>monotone_machine\<close> are the
  components as machines whose operations keep an invariant and never lower a measure (the settings store,
  the gate registry, the breaker), and \<open>timed_approval\<close> is what the approval rule relies on in a record
  with an end time (interpreted on the three kinds of record and on their combination). \<open>series\<close> is what the
  scheduler relies on in a function that gives the next occurrence (interpreted on the one of Recurrence).

  ConfigStore: class \<open>ConfigStore\<close> on SQLite. The state is the list of rows of table settings, the
  YAML defaults, and whether the store can be read and written at the moment. Operations: \<open>get\<close> with
  its prefix merge and YAML fallback, \<open>set\<close>, \<open>delete\<close>, \<open>set_if_absent\<close>, \<open>atomic_update\<close>, \<open>batch_set\<close>,
  \<open>get_category\<close>, \<open>get_all\<close>, \<open>import_yaml\<close>, \<open>reset_all\<close>. Lemmas: one row for a key, reads after
  writes, an imported leaf is read back, leases on one key never overlap, conditional batches lose no update;
  and two reads that surprise (a section shadowed by its own row, an underscore taken for a
  wildcard).

  Yolo, TaskGrants, HitlGrants: the three standing approvals, each operation of each module, with
  the store threaded through since asking removes an ended record. Lemmas: an opened window answers yes
  exactly for its lifetime, the sweep removes exactly the ended windows and changes no answer, turning YOLO off
  leaves only a task grant.

  ToolTiers: the tables of safety/hitl.py. Regex: the matcher for the patterns the program
  uses, one part without groups for \<open>re.search\<close>, one with named groups for \<open>re.match\<close>; the repetition's fuel is
  the length of the text, and each step consumes a character. Its lemmas find the first match of a pattern without
  looking at the others, and say which characters a group can hold.

  Approval: the merged HITL configuration, the graph's rule (\<open>approval_need\<close>, \<open>requires_approval\<close>)
  and the bus's rule (\<open>allowed_without_asking\<close>, \<open>check_sync\<close>). Properties: an always-ask tool is asked
  about in every state, both gates give one answer, the graph denies what is unclassified, an unreadable store
  approves nothing, git writes are recognised anywhere in a command; and where the two gates, the flags
  and the git rule differ from what their comments say.

  CallAuthority: the graph's decision about one tool call (safety/call_authority.py) as an object that copied contexts
  share, spent by the first execution of the tool it names (agent/tool_registry.py), and the calls an answered card
  covers (safety/unasked.py). Properties: no interleaving spends a decision twice, detached work runs on none, a card
  hides no more calls from the log than it listed.

  HitlGates: the gate registry as the list of its rows and the log of its events; every transition is
  a compare-and-set. Properties: the registry refines the life cycle of a single row under any
  interleaving of calls (the two transactions of a claim are separate steps), one winner for a
  gate, one row for a pause, terminal rows never change, and what each sweep does.

  Breaker: class \<open>CircuitBreaker\<close>. A breaker's transitions, forgetting the columns of its lease, are functions of
  the breaker alone (\<open>abs_success\<close>, \<open>abs_failure\<close>), which the operations refine for every store;
  the properties of runs rest on that. Properties: one probe for a generation, the lease excludes other
  replicas, generations never fall; and two ways a probe goes wrong.

  Dispatch: retry and fallback, each shown equal to a direct description of which attempt or which fallback
  decides. Reliability: the registry of the breakers; a reset reaches every replica, and a
  reconfiguration can be undone by the shared copy.

  Calendar: proleptic Gregorian dates as Python's datetime counts them, the stored text of an instant and its
  reading; the text is read back, and texts sort as the instants do. Recurrence: occurrences of a daily or weekly
  series in a zone, and the search for the next one (ten days are enough, which is proved). Timing: the
  readers of timing texts and the canonical text. TimingText: the readers build only well-formed
  recurrences, and the canonical text is read back.

  CronStore: the tables of jobs, messages, alerts and events of cron/store.py and every operation on them; each
  transaction is one step. CronRuns, CronJobs, CronOutcomes: the operations as a machine (\<open>cron_step\<close>) and what
  holds in all its runs: one message for an occurrence, at most six sends of it, an ended job stays ended, a
  fire belongs to its owner, a recorded cancel wins, a lost message has its alert; and three ways an interrupted
  fire or a late notice goes wrong.

  Json: the text \<open>json.dumps\<close> writes, and that with sorted keys it depends only on the content. ToolLoop: the outcome
  of a tool result, the counters of the loop breaker, the window of call signatures, and the rounds of the tool worker
  that use them (\<open>tool_worker\<close>). Properties: turns whose rounds fail end after at most eight rounds, turns that
  repeat one call after at most four; and what is not ended (a call that a policy denies).

  LongTask: the record that raises a chat's budget (/long, /mission, /unrestricted), what it gives a turn, how it is
  charged, paused and slid together with the YOLO window, and the context a stopped turn leaves. LongTurns: what holds
  over the turns of a chat - bounds of every budget, exactly the turns a record covers, paging loops. Capacity: the slash
  commands, from the text of a message to both records; /unrestricted has one clock, and only announced commands open a
  YOLO window. TurnBudget: seconds, tokens and dollars of a turn and a day, the gate of the supervisor, and the cost
  breaker; a turn stays within its budget, a continued one gets what it was promised, a session stays below the hard
  ceiling; and why a mission's waves keep the silence window from ever ending.

  Runs: the shape of a run, the verdict on it, the kinds of runs and what announces their failures, progress stamps.
  Incidents: the incident store, each transaction one step. IncidentRuns: its operations as a machine, with what holds in
  every run of it: one live incident for a run and condition, one decision and one message for an incident, a decided
  failure stays decided. Supervision: the registry, the owner's decision, the runbooks, delivery, a whole pass and
  the note of the supervisor's own outage; what a kind's store answers and what its controls and the chat platforms do
  is an argument, the record \<open>surroundings\<close>. SupervisionRuns: every pass and decision is a list of store operations, so
  the facts about the machine hold over any history; the owner is told once. SupervisionPass: what a single pass does:
  every bad run is recorded, open incidents end exactly when their run is well, one automatic step a day, one page for an
  outage; and two histories in which the owner is told what is not so.

  SwarmTask: tasks and results of the swarm as dictionaries and back, the history of an engine, cancel and retry. TaskStore: the
  tables of tasks and of worker metrics and every operation on them; a write is an upsert under a guard on the stored status and
  generation. TaskRuns: the operations of any number of processes as a machine: a task is admitted once at a generation, a
  superseded run cannot write, a finished task stays finished, an interrupted one is not retried without asking. TaskRetries:
  lineages of retries, retention in terms of instants, search and the tenant filter, daily averages; and four ways the
  store surprises.

  Conventions. Each operation takes the clock reading it works with, so an ordering of operations is an
  explicit list of steps. Floats are reals and Python's integers are \<open>int\<close>, both unbounded. Loops
  of the source are structural recursions over the rows or the attempts, so every operation is
  total; no fuel bounds a result.

  Parameters. Code outside the repository, or that only renders values, is an argument: the
  environment, the merged YAML, \<open>str\<close> of an arbitrary worker result, the random jitter, the outcome
  of each call a retry or a fallback makes, the bus as the caller finds it, the time zone database and the offsets of a
  zone (\<open>zone_ok\<close> states what is relied on: offsets below a day that shift by at most a day), and in the store's
  operations the function that gives the next occurrence.

  Not modelled: secret values moved to the vault, the read cache, the PostgreSQL back end and the change listeners of the
  settings store; the hash behind a gate's id and the wording of cards; the wait for an operator on
  the bus; timeouts, output validation and concurrency limits of dispatches; the
  polling loop of the scheduler, the production of a fire by the agent graph and the sending of its message; logs and metrics; and the
  rest of the program (language models, memory, documents, user interfaces and so on), which the manifest lists.

  What could be modelled next, in this order: the adapters that show each kind's rows as runs; timeouts, output
  validation and limits of a dispatch; effect profiles; protected configuration keys and the vaulting of secrets; the
  life cycle of swarm tasks; the commitment layer; access control and tenants.
\<close>

end
